(* ===== verification/ZrtPrelude.thy ===== *)
theory ZrtPrelude
  imports Main "HOL-Library.Word" "HOL-Library.Monad_Syntax" "HOL-Library.Sublist"
begin

text \<open>
  What every component of the development shares: the C types of the run-time and how they are
  read in HOL, the constants of the ABI headers, the C string functions the sources call, and
  generic lemmas on searches through arrays.

  \<^item> \<open>int\<close>, \<open>ino_t\<close> and handles are HOL integers; every place of the sources where such a value
    could leave its width is written out.
  \<^item> \<open>off_t\<close> and \<open>int64_t\<close> are HOL integers whose additions go through \<open>s64\<close>, the
    two's-complement reading of a 64-bit sum.
  \<^item> bit masks (open flags, modes) are 32-bit words.
  \<^item> a C string is the list of its characters before the terminating NUL.
  \<^item> a NULL dereference and a failed \<open>assert\<close> are the value \<open>None\<close> of an option: the session
    ends there.
\<close>

unbundle bit_operations_syntax

named_theorems state_simps \<open>how one operation changes each field of the run-time state\<close>
named_theorems inv_intros \<open>operations that keep an invariant\<close>

type_synonym flags_t = "32 word"
type_synonym mode_t = "32 word"
type_synonym byte = "8 word"
type_synonym off_t = int
type_synonym mount_ref = nat \<comment> \<open>the address of a \<open>struct MountsPublicInterface\<close>\<close>

section \<open>Constants of the ABI headers\<close>

abbreviation (input) EPERM :: int where "EPERM \<equiv> 1"
abbreviation (input) ENOENT :: int where "ENOENT \<equiv> 2"
abbreviation (input) EBADF :: int where "EBADF \<equiv> 9"
abbreviation (input) ENOMEM :: int where "ENOMEM \<equiv> 12"
abbreviation (input) EACCES :: int where "EACCES \<equiv> 13"
abbreviation (input) EFAULT :: int where "EFAULT \<equiv> 14"
abbreviation (input) EBUSY :: int where "EBUSY \<equiv> 16"
abbreviation (input) EEXIST :: int where "EEXIST \<equiv> 17"
abbreviation (input) EINVAL :: int where "EINVAL \<equiv> 22"
abbreviation (input) ENFILE :: int where "ENFILE \<equiv> 23"
abbreviation (input) ENOSPC :: int where "ENOSPC \<equiv> 28"
abbreviation (input) ESPIPE :: int where "ESPIPE \<equiv> 29"
abbreviation (input) ENOSYS :: int where "ENOSYS \<equiv> 38"
abbreviation (input) EOVERFLOW :: int where "EOVERFLOW \<equiv> 75"

abbreviation (input) O_RDONLY :: flags_t where "O_RDONLY \<equiv> 0"
abbreviation (input) O_WRONLY :: flags_t where "O_WRONLY \<equiv> 1"
abbreviation (input) O_RDWR :: flags_t where "O_RDWR \<equiv> 2"
abbreviation (input) O_ACCMODE :: flags_t where "O_ACCMODE \<equiv> 3"
abbreviation (input) O_TRUNC :: flags_t where "O_TRUNC \<equiv> 0x200"
abbreviation (input) O_APPEND :: flags_t where "O_APPEND \<equiv> 0x400"
abbreviation (input) O_DIRECTORY :: flags_t where "O_DIRECTORY \<equiv> 0x10000"

abbreviation (input) SEEK_SET :: int where "SEEK_SET \<equiv> 0"
abbreviation (input) SEEK_CUR :: int where "SEEK_CUR \<equiv> 1"
abbreviation (input) SEEK_END :: int where "SEEK_END \<equiv> 2"

abbreviation (input) F_GETFD :: int where "F_GETFD \<equiv> 1"
abbreviation (input) F_SETFD :: int where "F_SETFD \<equiv> 2"
abbreviation (input) F_GETFL :: int where "F_GETFL \<equiv> 3"
abbreviation (input) F_SETFL :: int where "F_SETFL \<equiv> 4"
abbreviation (input) F_GETLK :: int where "F_GETLK \<equiv> 5"
abbreviation (input) F_SETLK :: int where "F_SETLK \<equiv> 6"
abbreviation (input) F_SETLKW :: int where "F_SETLKW \<equiv> 7"
abbreviation (input) F_UNLCK :: int where "F_UNLCK \<equiv> 2"

abbreviation (input) S_IFMT :: mode_t where "S_IFMT \<equiv> 0xF000"
abbreviation (input) S_IFIFO :: mode_t where "S_IFIFO \<equiv> 0x1000"
abbreviation (input) S_IFCHR :: mode_t where "S_IFCHR \<equiv> 0x2000"
abbreviation (input) S_IFDIR :: mode_t where "S_IFDIR \<equiv> 0x4000"
abbreviation (input) S_IFBLK :: mode_t where "S_IFBLK \<equiv> 0x6000"
abbreviation (input) S_IFREG :: mode_t where "S_IFREG \<equiv> 0x8000"
abbreviation (input) S_IFLNK :: mode_t where "S_IFLNK \<equiv> 0xA000"
abbreviation (input) S_IFSOCK :: mode_t where "S_IFSOCK \<equiv> 0xC000"
abbreviation (input) S_IRWXU :: mode_t where "S_IRWXU \<equiv> 0x1C0"
abbreviation (input) S_IRUSR :: mode_t where "S_IRUSR \<equiv> 0x100"
abbreviation (input) S_IWUSR :: mode_t where "S_IWUSR \<equiv> 0x80"
abbreviation (input) S_IXUSR :: mode_t where "S_IXUSR \<equiv> 0x40"

section \<open>Macros of the helper headers\<close>

text \<open>\<open>CHECK_FLAG\<close> of \<open>lib/zrt_helper_macros.h\<close> and \<open>ROUND_UP\<close> of \<open>lib/zrt_defines.h\<close>.\<close>

definition CHECK_FLAG :: "32 word \<Rightarrow> 32 word \<Rightarrow> bool" where
  "CHECK_FLAG flags flag = (flags AND flag = flag)"

definition ROUND_UP :: "nat \<Rightarrow> nat \<Rightarrow> nat" where
  "ROUND_UP n s = ((n + s - 1) div s) * s"

text \<open>A 64-bit two's-complement sum, as the machine leaves it.\<close>

definition s64 :: "int \<Rightarrow> int" where
  "s64 x = (x + 2 ^ 63) mod 2 ^ 64 - 2 ^ 63"

text \<open>A value stored into an \<open>int32_t\<close>, and C division, which truncates towards zero.\<close>

definition s32 :: "int \<Rightarrow> int" where
  "s32 x = (x + 2 ^ 31) mod 2 ^ 32 - 2 ^ 31"

definition cdiv :: "int \<Rightarrow> int \<Rightarrow> int" where
  "cdiv x y = (if x < 0 then - ((- x) div y) else x div y)"

text \<open>\<open>strncmp(a, b, n) == 0\<close>: equal up to \<open>n\<close> characters or the common end.\<close>

fun strncmp_eq :: "string \<Rightarrow> string \<Rightarrow> nat \<Rightarrow> bool" where
  "strncmp_eq a b 0 = True"
| "strncmp_eq [] [] (Suc n) = True"
| "strncmp_eq (x # a) (y # b) (Suc n) = (x = y \<and> strncmp_eq a b n)"
| "strncmp_eq _ _ (Suc n) = False"

section \<open>Searches through an array\<close>

text \<open>
  The loop \<open>for (i = from; i < n; i++) if (p[i]) return i;\<close> over an array of \<open>n\<close> cells.
\<close>

function first_index :: "(nat \<Rightarrow> bool) \<Rightarrow> nat \<Rightarrow> nat \<Rightarrow> nat option" where
  "first_index p n i = (if i < n then (if p i then Some i else first_index p n (Suc i)) else None)"
  by pat_completeness auto
termination
  by (relation "measure (\<lambda>(p, n, i). n - i)") auto

declare first_index.simps [simp del]

lemma first_index_step:
  "i < n \<Longrightarrow> p i \<Longrightarrow> first_index p n i = Some i"
  "i < n \<Longrightarrow> \<not> p i \<Longrightarrow> first_index p n i = first_index p n (Suc i)"
  "\<not> i < n \<Longrightarrow> first_index p n i = None"
  by (simp_all add: first_index.simps [of p n i])

lemma first_index_SomeD:
  "first_index p n i = Some j \<Longrightarrow> i \<le> j \<and> j < n \<and> p j \<and> (\<forall>k. i \<le> k \<longrightarrow> k < j \<longrightarrow> \<not> p k)"
proof (induction p n i rule: first_index.induct)
  case (1 p n i)
  show ?case
  proof (cases "i < n \<and> \<not> p i")
    case True
    with "1.prems" have "first_index p n (Suc i) = Some j"
      by (simp add: first_index_step)
    with "1.IH" True have "Suc i \<le> j \<and> j < n \<and> p j \<and> (\<forall>k. Suc i \<le> k \<longrightarrow> k < j \<longrightarrow> \<not> p k)"
      by blast
    with True show ?thesis by (metis Suc_leD le_antisym not_less_eq_eq)
  next
    case False
    with "1.prems" show ?thesis
      by (auto simp: first_index.simps [of p n i] split: if_splits)
  qed
qed

lemma first_index_NoneD:
  "first_index p n i = None \<Longrightarrow> i \<le> k \<Longrightarrow> k < n \<Longrightarrow> \<not> p k"
proof (induction p n i rule: first_index.induct)
  case (1 p n i)
  then have i: "i < n" "\<not> p i"
    by (auto simp: first_index.simps [of p n i] split: if_splits)
  with "1.prems" have "first_index p n (Suc i) = None"
    by (simp add: first_index_step)
  with "1.IH" i "1.prems" show ?case
    by (cases "k = i") auto
qed

lemma first_index_Some_iff:
  "first_index p n i = Some j \<longleftrightarrow> i \<le> j \<and> j < n \<and> p j \<and> (\<forall>k. i \<le> k \<longrightarrow> k < j \<longrightarrow> \<not> p k)"
proof
  assume r: "i \<le> j \<and> j < n \<and> p j \<and> (\<forall>k. i \<le> k \<longrightarrow> k < j \<longrightarrow> \<not> p k)"
  show "first_index p n i = Some j"
  proof (cases "first_index p n i")
    case None
    with r show ?thesis using first_index_NoneD by blast
  next
    case (Some j')
    with r show ?thesis using first_index_SomeD [OF Some] by (metis linorder_neqE_nat)
  qed
qed (rule first_index_SomeD)

lemma first_index_None_iff:
  "first_index p n i = None \<longleftrightarrow> (\<forall>k. i \<le> k \<longrightarrow> k < n \<longrightarrow> \<not> p k)"
  using first_index_NoneD first_index_SomeD by (metis not_Some_eq)

lemma first_index_cong: "(\<And>k. k < n \<Longrightarrow> p k = q k) \<Longrightarrow> first_index p n i = first_index q n i"
proof (induction p n i rule: first_index.induct)
  case (1 p n i)
  then show ?case
    by (simp add: first_index.simps [of p n i] first_index.simps [of q n i])
qed

lemma filter_first_index:
  "filter P (drop i xs) = (case first_index (\<lambda>i. P (xs ! i)) (length xs) i of None \<Rightarrow> []
    | Some j \<Rightarrow> xs ! j # filter P (drop (Suc j) xs))"
proof (induction "length xs - i" arbitrary: i)
  case 0
  then show ?case by (simp add: first_index_step)
next
  case (Suc k)
  then have i: "i < length xs" and ih: "filter P (drop (Suc i) xs) = (case first_index (\<lambda>i. P (xs ! i)) (length xs) (Suc i) of
      None \<Rightarrow> [] | Some j \<Rightarrow> xs ! j # filter P (drop (Suc j) xs))"
    by auto
  have "filter P (drop i xs) = (if P (xs ! i) then [xs ! i] else []) @ filter P (drop (Suc i) xs)"
    using i by (simp flip: Cons_nth_drop_Suc)
  then show ?case using i ih by (cases "P (xs ! i)") (simp_all add: first_index_step)
qed

section \<open>Lemmas on the C helpers\<close>

lemma CHECK_FLAG_zero [simp]: "CHECK_FLAG flags 0"
  by (simp add: CHECK_FLAG_def)

lemma s64_id: "- (2 ^ 63) \<le> x \<Longrightarrow> x < 2 ^ 63 \<Longrightarrow> s64 x = x"
  by (simp add: s64_def)

lemma s32_id: "- (2 ^ 31) \<le> x \<Longrightarrow> x < 2 ^ 31 \<Longrightarrow> s32 x = x"
  by (simp add: s32_def)

lemma s64_range: "- (2 ^ 63) \<le> s64 x \<and> s64 x < 2 ^ 63"
  by (simp add: s64_def)

text \<open>
  The sum of two non-negative offsets comes out negative exactly when it does not fit: the test
  \<open>CHECK_NEW_POS\<close> of the channel file system is a complete overflow test.
\<close>

lemma s64_sum_negative_iff:
  assumes "0 \<le> a" "a < 2 ^ 63" "0 \<le> b" "b < 2 ^ 63"
  shows "s64 (a + b) < 0 \<longleftrightarrow> 2 ^ 63 \<le> a + b"
proof (cases "a + b < 2 ^ 63")
  case True
  then show ?thesis using assms by (simp add: s64_id)
next
  case False
  have "(a + b + 2 ^ 63) mod 2 ^ 64 = a + b + 2 ^ 63 - 2 ^ 64"
    using assms False by (simp add: mod_pos_geq)
  then show ?thesis using assms False by (simp add: s64_def)
qed

lemma strncmp_eq_prefix: "strncmp_eq p s (length p) \<longleftrightarrow> prefix p s"
proof (induction p arbitrary: s)
  case (Cons x p)
  then show ?case by (cases s) auto
qed simp

lemma strncmp_eq_exact:
  "n \<le> length a \<Longrightarrow> strncmp_eq a b n \<and> length b = n \<longleftrightarrow> b = take n a"
proof (induction a b n rule: strncmp_eq.induct)
  case (3 x a y b n)
  then show ?case by auto
qed auto

lemma ROUND_UP_ge: "0 < s \<Longrightarrow> n \<le> ROUND_UP n s"
proof -
  assume s: "0 < s"
  have "(n + s - 1) mod s < s" using s by simp
  moreover have "(n + s - 1) div s * s + (n + s - 1) mod s = n + s - 1"
    by (rule div_mult_mod_eq)
  ultimately show ?thesis unfolding ROUND_UP_def by linarith
qed

lemma ROUND_UP_dvd: "s dvd ROUND_UP n s"
  by (simp add: ROUND_UP_def)

lemma ROUND_UP_lt: "0 < s \<Longrightarrow> ROUND_UP n s < n + s"
proof -
  assume "0 < s"
  moreover have "(n + s - 1) div s * s \<le> n + s - 1" by simp
  ultimately show ?thesis unfolding ROUND_UP_def by linarith
qed

end
