(* ===== verification/HandleTable.thy ===== *)
theory HandleTable
  imports ZrtPrelude
begin

text \<open>
  The two tables of the run-time that every file system shares: the handle allocator
  (\<open>lib/fs/handle_allocator.c\<close>, one slot per descriptor) and the pool of open file descriptions
  (\<open>lib/fs/open_file_description.c\<close>, reference counted, shared by duplicated descriptors).

  The static arrays are functions on indices, zero-initialised as C does; the guards
  \<open>VERIFY_HANDLE\<close> and \<open>VERIFY_OFD\<close> are the only way to an element. The record \<open>kern\<close> holds both
  tables and \<open>errno\<close>; later components extend it with their own fields.

  The locale \<open>lowest_slot\<close> is the contract of both allocators: the hint
  \<open>s_first_unused_slot\<close> never skips a free slot, and the slot handed out is the lowest free one.
\<close>

section \<open>Data\<close>

abbreviation (input) MAX_HANDLES_COUNT :: nat where "MAX_HANDLES_COUNT \<equiv> 1000"

datatype handle_state = EHandleAvailable | EHandleUsed

record HandleItem =
  hi_inode :: int
  hi_parent_dir_inode :: int
  hi_ofd_id :: int \<comment> \<open>\<open>open_file_description_id\<close>\<close>
  hi_mount_fs :: "mount_ref option"

record HandleItemInternal =
  hs_public :: HandleItem
  hs_used :: handle_state

record OpenFileDescription =
  channel_sequential_offset :: off_t
  ofd_offset :: off_t
  ofd_flags :: flags_t
  optional_data :: int

record OpenFileDescInternal =
  os_public :: OpenFileDescription
  refcount :: int

record kern =
  s_handle_slots :: "nat \<Rightarrow> HandleItemInternal"
  h_first_unused_slot :: int
  s_open_files_array :: "nat \<Rightarrow> OpenFileDescInternal"
  o_first_unused_slot :: int
  errno :: int

definition SET_ERRNO :: "int \<Rightarrow> 'a kern_scheme \<Rightarrow> 'a kern_scheme" where
  "SET_ERRNO e s = s\<lparr>errno := e\<rparr>"

section \<open>Open file descriptions\<close>

definition VERIFY_OFD :: "'a kern_scheme \<Rightarrow> int \<Rightarrow> bool" where
  "VERIFY_OFD s i = (0 \<le> i \<and> i < int MAX_HANDLES_COUNT \<and> 0 < refcount (s_open_files_array s (nat i)))"

definition o_seek_unused_slot :: "'a kern_scheme \<Rightarrow> int \<Rightarrow> int \<times> 'a kern_scheme" where
  "o_seek_unused_slot s starting_from =
     (case first_index (\<lambda>i. refcount (s_open_files_array s i) = 0) MAX_HANDLES_COUNT
             (nat (if starting_from < 0 then 0 else starting_from)) of
        Some i \<Rightarrow> (int i, s\<lparr>o_first_unused_slot := int i\<rparr>)
      | None \<Rightarrow> (-1, s))"

definition getnew_ofd :: "'a kern_scheme \<Rightarrow> flags_t \<Rightarrow> int \<times> 'a kern_scheme" where
  "getnew_ofd s flags =
     (let (i, s1) = o_seek_unused_slot s (o_first_unused_slot s);
          s2 = s1\<lparr>o_first_unused_slot := i\<rparr>
      in if i = -1 then (-1, s2)
         else let d = s_open_files_array s2 (nat i)
              in (i, s2\<lparr>s_open_files_array := (s_open_files_array s2)(nat i :=
                    d\<lparr>refcount := refcount d + 1,
                       os_public := (os_public d)\<lparr>ofd_offset := 0, channel_sequential_offset := 0,
                                                  ofd_flags := flags\<rparr>\<rparr>)\<rparr>))"

definition refer_ofd :: "'a kern_scheme \<Rightarrow> int \<Rightarrow> int \<times> 'a kern_scheme" where
  "refer_ofd s i =
     (if \<not> VERIFY_OFD s i then (-1, s)
      else let d = s_open_files_array s (nat i)
           in (0, s\<lparr>s_open_files_array := (s_open_files_array s)(nat i := d\<lparr>refcount := refcount d + 1\<rparr>)\<rparr>))"

definition release_ofd :: "'a kern_scheme \<Rightarrow> int \<Rightarrow> int \<times> 'a kern_scheme" where
  "release_ofd s i =
     (if \<not> VERIFY_OFD s i then (-1, s)
      else let d = s_open_files_array s (nat i);
               s1 = s\<lparr>s_open_files_array := (s_open_files_array s)(nat i := d\<lparr>refcount := refcount d - 1\<rparr>)\<rparr>
           in (0, if refcount d - 1 = 0 \<and> i < o_first_unused_slot s1
                  then s1\<lparr>o_first_unused_slot := i\<rparr> else s1))"

definition ofd_entry :: "'a kern_scheme \<Rightarrow> int \<Rightarrow> OpenFileDescription option" where
  "ofd_entry s i = (if \<not> VERIFY_OFD s i then None else Some (os_public (s_open_files_array s (nat i))))"

definition upd_ofd :: "(OpenFileDescription \<Rightarrow> OpenFileDescription) \<Rightarrow> 'a kern_scheme \<Rightarrow> int \<Rightarrow> int \<times> 'a kern_scheme" where
  "upd_ofd f s i =
     (if \<not> VERIFY_OFD s i then (-1, s)
      else let d = s_open_files_array s (nat i)
           in (0, s\<lparr>s_open_files_array := (s_open_files_array s)(nat i := d\<lparr>os_public := f (os_public d)\<rparr>)\<rparr>))"

definition set_offset_sequential_channel :: "'a kern_scheme \<Rightarrow> int \<Rightarrow> off_t \<Rightarrow> int \<times> 'a kern_scheme" where
  "set_offset_sequential_channel s i off = upd_ofd (\<lambda>d. d\<lparr>channel_sequential_offset := off\<rparr>) s i"

definition set_offset :: "'a kern_scheme \<Rightarrow> int \<Rightarrow> off_t \<Rightarrow> int \<times> 'a kern_scheme" where
  "set_offset s i off = upd_ofd (\<lambda>d. d\<lparr>ofd_offset := off\<rparr>) s i"

definition set_flags :: "'a kern_scheme \<Rightarrow> int \<Rightarrow> flags_t \<Rightarrow> int \<times> 'a kern_scheme" where
  "set_flags s i flags = upd_ofd (\<lambda>d. d\<lparr>ofd_flags := flags\<rparr>) s i"

definition set_optional_data :: "'a kern_scheme \<Rightarrow> int \<Rightarrow> int \<Rightarrow> int \<times> 'a kern_scheme" where
  "set_optional_data s i data = upd_ofd (\<lambda>d. d\<lparr>optional_data := data\<rparr>) s i"

section \<open>Handles\<close>

definition VERIFY_HANDLE :: "'a kern_scheme \<Rightarrow> int \<Rightarrow> handle_state \<Rightarrow> bool" where
  "VERIFY_HANDLE s h st = (0 \<le> h \<and> h < int MAX_HANDLES_COUNT \<and> hs_used (s_handle_slots s (nat h)) = st)"

definition h_seek_unused_slot :: "'a kern_scheme \<Rightarrow> int \<Rightarrow> int \<times> 'a kern_scheme" where
  "h_seek_unused_slot s starting_from =
     (case first_index (\<lambda>i. hs_used (s_handle_slots s i) = EHandleAvailable) MAX_HANDLES_COUNT
             (nat (if starting_from < 0 then 0 else starting_from)) of
        Some i \<Rightarrow> (int i, s\<lparr>h_first_unused_slot := int i\<rparr>)
      | None \<Rightarrow> (-1, s))"

definition put_handle :: "'a kern_scheme \<Rightarrow> int \<Rightarrow> HandleItem \<Rightarrow> 'a kern_scheme" where
  "put_handle s h item =
     s\<lparr>s_handle_slots := (s_handle_slots s)(nat h := \<lparr>hs_public = item, hs_used = EHandleUsed\<rparr>)\<rparr>"

definition allocate_handle :: "'a kern_scheme \<Rightarrow> mount_ref \<Rightarrow> int \<Rightarrow> int \<Rightarrow> int \<Rightarrow> int \<times> 'a kern_scheme" where
  "allocate_handle s mount_fs inode parent_dir_inode open_file_desc_id =
     (let (i, s1) = h_seek_unused_slot s (h_first_unused_slot s);
          s2 = s1\<lparr>h_first_unused_slot := i\<rparr>
      in if i = -1 then (-1, s2)
         else (i, put_handle s2 i \<lparr>hi_inode = inode, hi_parent_dir_inode = parent_dir_inode,
                                   hi_ofd_id = open_file_desc_id, hi_mount_fs = Some mount_fs\<rparr>))"

definition allocate_handle2 :: "'a kern_scheme \<Rightarrow> mount_ref \<Rightarrow> int \<Rightarrow> int \<Rightarrow> int \<Rightarrow> int \<Rightarrow> int \<times> 'a kern_scheme" where
  "allocate_handle2 s mount_fs inode parent_dir_inode open_file_desc_id handle =
     (if \<not> VERIFY_HANDLE s handle EHandleAvailable then (-1, s)
      else (handle, put_handle s handle \<lparr>hi_inode = inode, hi_parent_dir_inode = parent_dir_inode,
                                         hi_ofd_id = open_file_desc_id, hi_mount_fs = Some mount_fs\<rparr>))"

definition free_handle :: "'a kern_scheme \<Rightarrow> int \<Rightarrow> int \<times> 'a kern_scheme" where
  "free_handle s handle =
     (if \<not> VERIFY_HANDLE s handle EHandleUsed then (-1, s)
      else let c = s_handle_slots s (nat handle);
               s1 = s\<lparr>s_handle_slots := (s_handle_slots s)(nat handle :=
                   c\<lparr>hs_used := EHandleAvailable,
                     hs_public := (hs_public c)\<lparr>hi_mount_fs := None, hi_ofd_id := 0, hi_inode := 0\<rparr>\<rparr>)\<rparr>
           in (0, if handle < h_first_unused_slot s1 then s1\<lparr>h_first_unused_slot := handle\<rparr> else s1))"

definition check_handle_is_related_to_filesystem :: "'a kern_scheme \<Rightarrow> int \<Rightarrow> mount_ref \<Rightarrow> int" where
  "check_handle_is_related_to_filesystem s handle fs =
     (if \<not> VERIFY_HANDLE s handle EHandleUsed then -1
      else if hi_mount_fs (hs_public (s_handle_slots s (nat handle))) = Some fs then 0 else -1)"

definition mount_interface :: "'a kern_scheme \<Rightarrow> int \<Rightarrow> mount_ref option" where
  "mount_interface s handle =
     (if \<not> VERIFY_HANDLE s handle EHandleUsed then None
      else hi_mount_fs (hs_public (s_handle_slots s (nat handle))))"

definition entry :: "'a kern_scheme \<Rightarrow> int \<Rightarrow> HandleItem option" where
  "entry s handle =
     (if \<not> VERIFY_HANDLE s handle EHandleUsed then None
      else Some (hs_public (s_handle_slots s (nat handle))))"

definition ofd :: "'a kern_scheme \<Rightarrow> int \<Rightarrow> OpenFileDescription option" where
  "ofd s handle =
     (if \<not> VERIFY_HANDLE s handle EHandleUsed then None
      else ofd_entry s (hi_ofd_id (hs_public (s_handle_slots s (nat handle)))))"

text \<open>The state of the two static objects at program start.\<close>

definition kern_init :: kern where
  "kern_init = \<lparr>s_handle_slots = (\<lambda>_. \<lparr>hs_public = \<lparr>hi_inode = 0, hi_parent_dir_inode = 0, hi_ofd_id = 0, hi_mount_fs = None\<rparr>,
                                     hs_used = EHandleAvailable\<rparr>),
     h_first_unused_slot = 0,
     s_open_files_array = (\<lambda>_. \<lparr>os_public = \<lparr>channel_sequential_offset = 0, ofd_offset = 0, ofd_flags = 0, optional_data = 0\<rparr>,
                               refcount = 0\<rparr>),
     o_first_unused_slot = 0, errno = 0\<rparr>"

section \<open>The contract of a lowest-slot allocator\<close>

text \<open>
  \<open>alloc\<close> searches the table upwards from the hint and moves the hint to what it found; \<open>drop\<close>
  may make its slot free again and then lowers the hint to it. The hint is sound when no slot
  below it is free.
\<close>

locale lowest_slot =
  fixes free :: "'s \<Rightarrow> nat \<Rightarrow> bool"
    and hint :: "'s \<Rightarrow> int"
    and alloc :: "'s \<Rightarrow> 'i \<Rightarrow> int \<times> 's"
    and drop_slot :: "'s \<Rightarrow> int \<Rightarrow> int \<times> 's"
  assumes alloc_search: "alloc s x = (r, s') \<Longrightarrow>
      (case first_index (free s) MAX_HANDLES_COUNT (nat (hint s)) of
         None \<Rightarrow> r = -1 \<and> free s' = free s
       | Some i \<Rightarrow> r = int i \<and> free s' = (free s)(i := False))"
    and alloc_hint: "alloc s x = (r, s') \<Longrightarrow> hint s' = r"
    and drop_slot_free: "drop_slot s k = (r, s') \<Longrightarrow> free s' i \<Longrightarrow> free s i \<or> int i = k \<and> hint s' \<le> k"
    and drop_slot_hint: "drop_slot s k = (r, s') \<Longrightarrow> hint s' \<le> hint s"
begin

definition hint_ok :: "'s \<Rightarrow> bool" where
  "hint_ok s \<longleftrightarrow> (\<forall>i. int i < hint s \<longrightarrow> \<not> free s i)"

lemma hint_okD: "hint_ok s \<Longrightarrow> i < nat (hint s) \<Longrightarrow> \<not> free s i"
  by (simp add: hint_ok_def zless_nat_eq_int_zless)

lemma alloc_lowest:
  assumes "hint_ok s" "alloc s x = (r, s')" "r \<noteq> -1"
  shows "0 \<le> r \<and> r < int MAX_HANDLES_COUNT \<and> free s (nat r) \<and> (\<forall>k < nat r. \<not> free s k)
         \<and> free s' = (free s)(nat r := False)"
proof -
  from assms(3) alloc_search [OF assms(2)]
  obtain i where i: "first_index (free s) MAX_HANDLES_COUNT (nat (hint s)) = Some i"
    and r: "r = int i" and f: "free s' = (free s)(i := False)"
    by (auto split: option.splits)
  from first_index_SomeD [OF i]
  have "i < MAX_HANDLES_COUNT" "free s i" "\<forall>k. nat (hint s) \<le> k \<longrightarrow> k < i \<longrightarrow> \<not> free s k"
    by blast+
  moreover from this have "\<forall>k < i. \<not> free s k"
    using hint_okD [OF assms(1)] by (meson not_le)
  ultimately show ?thesis using r f by simp
qed

lemma alloc_full:
  assumes "hint_ok s" "alloc s x = (-1, s')"
  shows "(\<forall>k < MAX_HANDLES_COUNT. \<not> free s k) \<and> free s' = free s"
proof -
  from alloc_search [OF assms(2)]
  have n: "first_index (free s) MAX_HANDLES_COUNT (nat (hint s)) = None" and f: "free s' = free s"
    by (auto split: option.splits)
  from n have "\<forall>k. nat (hint s) \<le> k \<longrightarrow> k < MAX_HANDLES_COUNT \<longrightarrow> \<not> free s k"
    by (simp only: first_index_None_iff)
  with hint_okD [OF assms(1)] f show ?thesis by (meson not_le)
qed

lemma alloc_fails_iff:
  assumes "hint_ok s" "alloc s x = (r, s')"
  shows "r = -1 \<longleftrightarrow> (\<forall>k < MAX_HANDLES_COUNT. \<not> free s k)"
proof
  assume "r = -1"
  with alloc_full [OF assms(1)] assms(2) show "\<forall>k < MAX_HANDLES_COUNT. \<not> free s k" by blast
next
  assume full: "\<forall>k < MAX_HANDLES_COUNT. \<not> free s k"
  show "r = -1"
  proof (rule ccontr)
    assume "r \<noteq> -1"
    from alloc_lowest [OF assms this] have "nat r < MAX_HANDLES_COUNT" "free s (nat r)"
      by (simp_all add: nat_less_iff)
    with full show False by blast
  qed
qed

lemma alloc_hint_ok:
  assumes "hint_ok s" "alloc s x = (r, s')"
  shows "hint_ok s'"
proof (cases "r = -1")
  case True
  then show ?thesis using alloc_hint [OF assms(2)] by (simp add: hint_ok_def)
next
  case False
  from alloc_lowest [OF assms False] alloc_hint [OF assms(2)] show ?thesis
    by (auto simp: hint_ok_def)
qed

lemma drop_slot_hint_ok:
  assumes "hint_ok s" "drop_slot s k = (r, s')"
  shows "hint_ok s'"
  using drop_slot_free [OF assms(2)] drop_slot_hint [OF assms(2)] assms(1)
  by (fastforce simp: hint_ok_def)

end

section \<open>Both tables meet the contract\<close>

abbreviation ofd_free :: "'a kern_scheme \<Rightarrow> nat \<Rightarrow> bool" where
  "ofd_free s i \<equiv> refcount (s_open_files_array s i) = 0"

abbreviation handle_free :: "'a kern_scheme \<Rightarrow> nat \<Rightarrow> bool" where
  "handle_free s i \<equiv> hs_used (s_handle_slots s i) = EHandleAvailable"

abbreviation alloc_handle_of :: "'a kern_scheme \<Rightarrow> mount_ref \<times> int \<times> int \<times> int \<Rightarrow> int \<times> 'a kern_scheme" where
  "alloc_handle_of s x \<equiv> (case x of (m, ino, par, oid) \<Rightarrow> allocate_handle s m ino par oid)"

lemma start_slot: "nat (if h < (0::int) then 0 else h) = nat h"
  by simp

lemma allocate_handle_cases:
  "allocate_handle s m ino par oid =
     (case first_index (handle_free s) MAX_HANDLES_COUNT (nat (h_first_unused_slot s)) of
        None \<Rightarrow> (-1, s\<lparr>h_first_unused_slot := -1\<rparr>)
      | Some i \<Rightarrow> (int i, put_handle (s\<lparr>h_first_unused_slot := int i\<rparr>) (int i)
           \<lparr>hi_inode = ino, hi_parent_dir_inode = par, hi_ofd_id = oid, hi_mount_fs = Some m\<rparr>))"
  by (simp add: allocate_handle_def h_seek_unused_slot_def start_slot Let_def split: option.split)

lemma getnew_ofd_cases:
  "getnew_ofd s fl =
     (case first_index (ofd_free s) MAX_HANDLES_COUNT (nat (o_first_unused_slot s)) of
        None \<Rightarrow> (-1, s\<lparr>o_first_unused_slot := -1\<rparr>)
      | Some i \<Rightarrow> (int i, s\<lparr>o_first_unused_slot := int i,
           s_open_files_array := (s_open_files_array s)(i :=
             (s_open_files_array s i)\<lparr>refcount := refcount (s_open_files_array s i) + 1,
                os_public := (os_public (s_open_files_array s i))
                  \<lparr>ofd_offset := 0, channel_sequential_offset := 0, ofd_flags := fl\<rparr>\<rparr>)\<rparr>))"
  by (simp add: getnew_ofd_def o_seek_unused_slot_def start_slot Let_def split: option.split)

interpretation ht: lowest_slot handle_free h_first_unused_slot alloc_handle_of free_handle
proof unfold_locales
  fix s s' :: "'a kern_scheme" and x r
  assume a: "alloc_handle_of s x = (r, s')"
  obtain m ino par oid where x: "x = (m, ino, par, oid)" by (cases x) auto
  show "case first_index (handle_free s) MAX_HANDLES_COUNT (nat (h_first_unused_slot s)) of
          None \<Rightarrow> r = -1 \<and> handle_free s' = handle_free s
        | Some i \<Rightarrow> r = int i \<and> handle_free s' = (handle_free s)(i := False)"
    using a by (auto simp: x allocate_handle_cases put_handle_def fun_eq_iff split: option.splits)
  show "h_first_unused_slot s' = r"
    using a by (auto simp: x allocate_handle_cases put_handle_def split: option.splits)
qed (auto simp: free_handle_def VERIFY_HANDLE_def Let_def split: if_splits)

interpretation op: lowest_slot ofd_free o_first_unused_slot getnew_ofd release_ofd
proof unfold_locales
  fix s s' :: "'a kern_scheme" and x r
  assume a: "getnew_ofd s x = (r, s')"
  show "o_first_unused_slot s' = r"
    using a by (auto simp: getnew_ofd_cases split: option.splits)
  show "case first_index (ofd_free s) MAX_HANDLES_COUNT (nat (o_first_unused_slot s)) of
          None \<Rightarrow> r = -1 \<and> ofd_free s' = ofd_free s
        | Some i \<Rightarrow> r = int i \<and> ofd_free s' = (ofd_free s)(i := False)"
  proof (cases "first_index (ofd_free s) MAX_HANDLES_COUNT (nat (o_first_unused_slot s))")
    case None
    with a show ?thesis by (auto simp: getnew_ofd_cases)
  next
    case (Some i)
    from first_index_SomeD [OF Some] have "ofd_free s i" by blast
    with a Some show ?thesis by (auto simp: getnew_ofd_cases fun_eq_iff)
  qed
qed (auto simp: release_ofd_def VERIFY_OFD_def Let_def split: if_splits)

end
