(* ===== verification/Descriptors.thy ===== *)
theory Descriptors
  imports HandleTable
begin

text \<open>
  The agreement between the handle table and the pool of open file descriptions: the reference
  count of a description is the number of handles that name it, so that no description in use is
  ever handed out again and none leaks. \<open>open\<close>, \<open>dup\<close>, \<open>dup2\<close> and \<open>close\<close> are sequences of the
  operations of \<open>HandleTable\<close> that break the agreement for one description in the middle; the
  invariant \<open>fd_wf\<close> takes that description as an argument.
\<close>

definition handles_on :: "'a kern_scheme \<Rightarrow> nat \<Rightarrow> nat set" where
  "handles_on s i = {h. h < MAX_HANDLES_COUNT \<and> hs_used (s_handle_slots s h) = EHandleUsed
                        \<and> hi_ofd_id (hs_public (s_handle_slots s h)) = int i}"

text \<open>\<open>fd_wf ex s\<close>: the tables agree, but for one more reference on \<open>ex\<close>.\<close>

definition fd_wf :: "nat option \<Rightarrow> 'a kern_scheme \<Rightarrow> bool" where
  "fd_wf ex s \<longleftrightarrow>
     ht.hint_ok s \<and> op.hint_ok s
     \<and> (\<forall>h < MAX_HANDLES_COUNT. hs_used (s_handle_slots s h) = EHandleUsed \<longrightarrow>
          0 \<le> hi_ofd_id (hs_public (s_handle_slots s h))
          \<and> hi_ofd_id (hs_public (s_handle_slots s h)) < int MAX_HANDLES_COUNT)
     \<and> (\<forall>i < MAX_HANDLES_COUNT. refcount (s_open_files_array s i)
          = int (card (handles_on s i)) + (if ex = Some i then 1 else 0))"

lemma fd_wfD:
  assumes "fd_wf ex s"
  shows "ht.hint_ok s" "op.hint_ok s"
    and "h < MAX_HANDLES_COUNT \<Longrightarrow> hs_used (s_handle_slots s h) = EHandleUsed \<Longrightarrow>
          0 \<le> hi_ofd_id (hs_public (s_handle_slots s h))
          \<and> hi_ofd_id (hs_public (s_handle_slots s h)) < int MAX_HANDLES_COUNT"
    and "i < MAX_HANDLES_COUNT \<Longrightarrow> refcount (s_open_files_array s i)
          = int (card (handles_on s i)) + (if ex = Some i then 1 else 0)"
  using assms by (simp_all add: fd_wf_def)

lemma finite_handles_on [simp]: "finite (handles_on s i)"
  by (rule finite_subset [of _ "{..<MAX_HANDLES_COUNT}"]) (auto simp: handles_on_def)

lemma fd_wf_kern_init: "fd_wf None kern_init"
  by (simp add: fd_wf_def ht.hint_ok_def op.hint_ok_def kern_init_def handles_on_def)

text \<open>Only the two tables and the two hints matter.\<close>

lemma fd_wf_cong:
  assumes "s_handle_slots s' = s_handle_slots s" "h_first_unused_slot s' = h_first_unused_slot s"
    and "\<And>i. refcount (s_open_files_array s' i) = refcount (s_open_files_array s i)"
    and "o_first_unused_slot s' = o_first_unused_slot s"
  shows "fd_wf ex s' = fd_wf ex s"
  using assms by (simp add: fd_wf_def ht.hint_ok_def op.hint_ok_def handles_on_def)

lemma fd_wf_errno [simp]: "fd_wf ex (SET_ERRNO e s) = fd_wf ex s" "fd_wf ex (s\<lparr>errno := e\<rparr>) = fd_wf ex s"
  by (rule fd_wf_cong; simp add: SET_ERRNO_def)+

lemma fd_wf_upd_ofd [inv_intros]: "upd_ofd f s i = (r, s') \<Longrightarrow> fd_wf ex s' = fd_wf ex s"
  by (rule fd_wf_cong) (auto simp: upd_ofd_def Let_def split: if_splits)

section \<open>A description is taken, referred to, released\<close>

lemma fd_wf_getnew_ofd:
  assumes wf: "fd_wf None s" and g: "getnew_ofd s fl = (i, s')" and i: "i \<noteq> -1"
  shows "0 \<le> i \<and> i < int MAX_HANDLES_COUNT \<and> fd_wf (Some (nat i)) s'"
proof -
  from op.alloc_lowest [OF fd_wfD(2) [OF wf] g i]
  have b: "0 \<le> i" "i < int MAX_HANDLES_COUNT" and f: "ofd_free s (nat i)" by blast+
  from g i obtain k where k: "i = int k" and s': "s_handle_slots s' = s_handle_slots s"
    "h_first_unused_slot s' = h_first_unused_slot s"
    "refcount (s_open_files_array s' k) = refcount (s_open_files_array s k) + 1"
    "\<And>j. j \<noteq> k \<Longrightarrow> refcount (s_open_files_array s' j) = refcount (s_open_files_array s j)"
    by (auto simp: getnew_ofd_cases split: option.splits)
  have "ht.hint_ok s'" using fd_wfD(1) [OF wf] s' by (simp add: ht.hint_ok_def)
  moreover have "op.hint_ok s'" by (rule op.alloc_hint_ok [OF fd_wfD(2) [OF wf] g])
  moreover have "handles_on s' = handles_on s" using s' by (simp add: handles_on_def fun_eq_iff)
  ultimately show ?thesis
    using b k s' fd_wfD(3,4) [OF wf] by (auto simp: fd_wf_def)
qed

lemma fd_wf_getnew_ofd_full:
  assumes wf: "fd_wf None s" and g: "getnew_ofd s fl = (-1, s')"
  shows "fd_wf None s' \<and> (\<forall>h < MAX_HANDLES_COUNT. hs_used (s_handle_slots s' h) = EHandleUsed)"
proof
  from g have s': "s' = s\<lparr>o_first_unused_slot := -1\<rparr>"
    by (auto simp: getnew_ofd_cases split: option.splits)
  show "fd_wf None s'"
    using wf op.alloc_hint_ok [OF fd_wfD(2) [OF wf] g]
    by (simp add: s' fd_wf_def ht.hint_ok_def handles_on_def)
  let ?U = "{h. h < MAX_HANDLES_COUNT \<and> hs_used (s_handle_slots s h) = EHandleUsed}"
  let ?f = "\<lambda>h. nat (hi_ofd_id (hs_public (s_handle_slots s h)))"
  have "i \<in> ?f ` ?U" if i: "i < MAX_HANDLES_COUNT" for i
  proof -
    from op.alloc_full [OF fd_wfD(2) [OF wf] g] i have "\<not> ofd_free s i" by blast
    with fd_wfD(4) [OF wf i] have "card (handles_on s i) \<noteq> 0" by auto
    then obtain h where "h \<in> handles_on s i" by fastforce
    then show ?thesis by (force simp: handles_on_def image_iff)
  qed
  then have "{..<MAX_HANDLES_COUNT} \<subseteq> ?f ` ?U" by blast
  then have "card {..<MAX_HANDLES_COUNT} \<le> card ?U"
    by (rule surj_card_le [rotated]) (rule finite_subset [of _ "{..<MAX_HANDLES_COUNT}"], auto)
  moreover have "?U \<subseteq> {..<MAX_HANDLES_COUNT}" by auto
  ultimately have "?U = {..<MAX_HANDLES_COUNT}"
    by (simp add: card_seteq)
  then show "\<forall>h < MAX_HANDLES_COUNT. hs_used (s_handle_slots s' h) = EHandleUsed"
    by (auto simp: s' set_eq_iff)
qed

lemma fd_wf_refer_ofd:
  assumes wf: "fd_wf None s" and v: "VERIFY_OFD s i"
  shows "\<exists>s'. refer_ofd s i = (0, s') \<and> fd_wf (Some (nat i)) s'
     \<and> s_handle_slots s' = s_handle_slots s"
proof -
  obtain s' where r: "refer_ofd s i = (0, s')" and hs: "s_handle_slots s' = s_handle_slots s"
    "h_first_unused_slot s' = h_first_unused_slot s" "o_first_unused_slot s' = o_first_unused_slot s"
    and rc: "\<And>j. refcount (s_open_files_array s' j) = refcount (s_open_files_array s j) + (if j = nat i then 1 else 0)"
    using v by (auto simp: refer_ofd_def Let_def)
  have pos: "0 < refcount (s_open_files_array s (nat i))" using v by (simp add: VERIFY_OFD_def)
  have "op.hint_ok s'" unfolding op.hint_ok_def
  proof (intro allI impI)
    fix j assume "int j < o_first_unused_slot s'"
    then have "\<not> ofd_free s j" using fd_wfD(2) [OF wf] hs by (simp add: op.hint_ok_def)
    with pos show "\<not> ofd_free s' j" by (auto simp: rc)
  qed
  moreover have "handles_on s' = handles_on s" using hs by (simp add: handles_on_def fun_eq_iff)
  ultimately have "fd_wf (Some (nat i)) s'"
    using wf hs rc by (auto simp: fd_wf_def ht.hint_ok_def)
  with r hs show ?thesis by blast
qed

lemma fd_wf_release_extra:
  assumes wf: "fd_wf (Some (nat i)) s" and i: "0 \<le> i" "i < int MAX_HANDLES_COUNT"
  shows "\<exists>s'. release_ofd s i = (0, s') \<and> fd_wf None s'"
proof -
  have n: "nat i < MAX_HANDLES_COUNT" using i by (simp add: nat_less_iff)
  have v: "VERIFY_OFD s i" using i fd_wfD(4) [OF wf n] by (simp add: VERIFY_OFD_def)
  then obtain s' where r: "release_ofd s i = (0, s')" and hs: "s_handle_slots s' = s_handle_slots s"
    "h_first_unused_slot s' = h_first_unused_slot s"
    and rc: "\<And>j. refcount (s_open_files_array s' j) = refcount (s_open_files_array s j) - (if j = nat i then 1 else 0)"
    by (auto simp: release_ofd_def Let_def)
  have "op.hint_ok s'" by (rule op.drop_slot_hint_ok [OF fd_wfD(2) [OF wf] r])
  moreover have "handles_on s' = handles_on s" using hs by (simp add: handles_on_def fun_eq_iff)
  ultimately have "fd_wf None s'"
    using wf hs rc by (auto simp: fd_wf_def ht.hint_ok_def)
  with r show ?thesis by blast
qed

section \<open>A handle is put on a description, and taken off\<close>

lemma handles_on_put:
  assumes "0 \<le> h" "h < int MAX_HANDLES_COUNT" "hs_used (s_handle_slots s (nat h)) = EHandleAvailable"
  shows "handles_on (put_handle s h item) i =
     (if hi_ofd_id item = int i then insert (nat h) (handles_on s i) else handles_on s i)"
  using assms by (auto simp: handles_on_def put_handle_def nat_less_iff)

lemma put_handle_frame [simp]:
  "s_open_files_array (put_handle s h item) = s_open_files_array s"
  "o_first_unused_slot (put_handle s h item) = o_first_unused_slot s"
  "h_first_unused_slot (put_handle s h item) = h_first_unused_slot s"
  "errno (put_handle s h item) = errno s"
  by (simp_all add: put_handle_def)

lemma fd_wf_put:
  assumes wf: "fd_wf (Some i) s" and i: "i < MAX_HANDLES_COUNT"
    and h: "0 \<le> h" "h < int MAX_HANDLES_COUNT" "hs_used (s_handle_slots s (nat h)) = EHandleAvailable"
    and oid: "hi_ofd_id item = int i"
  shows "fd_wf None (put_handle s h item)"
proof -
  have new: "nat h \<notin> handles_on s j" for j using h(3) by (simp add: handles_on_def)
  have "ht.hint_ok (put_handle s h item)"
    using fd_wfD(1) [OF wf] by (simp add: ht.hint_ok_def put_handle_def)
  moreover have "op.hint_ok (put_handle s h item)"
    using fd_wfD(2) [OF wf] by (simp add: op.hint_ok_def put_handle_def)
  moreover have "refcount (s_open_files_array (put_handle s h item) j) = int (card (handles_on (put_handle s h item) j))"
    if "j < MAX_HANDLES_COUNT" for j
    using fd_wfD(4) [OF wf that] new [of j] oid
    by (auto simp: handles_on_put [OF h])
  ultimately show ?thesis
    using fd_wfD(3) [OF wf] i oid by (simp add: fd_wf_def put_handle_def)
qed

lemma fd_wf_allocate_handle:
  assumes wf: "fd_wf (Some (nat i)) s" and i: "0 \<le> i" "i < int MAX_HANDLES_COUNT"
    and a: "allocate_handle s m ino par i = (h, s')"
  shows "if h = -1 then fd_wf (Some (nat i)) s'
     else 0 \<le> h \<and> h < int MAX_HANDLES_COUNT \<and> handle_free s (nat h) \<and> fd_wf None s'"
proof -
  have a': "alloc_handle_of s (m, ino, par, i) = (h, s')" using a by simp
  note ok = ht.alloc_hint_ok [OF fd_wfD(1) [OF wf] a']
  show ?thesis
  proof (cases "h = -1")
    case True
    with a have "s' = s\<lparr>h_first_unused_slot := -1\<rparr>"
      by (auto simp: allocate_handle_cases split: option.splits)
    with True wf ok show ?thesis
      by (simp add: fd_wf_def op.hint_ok_def handles_on_def)
  next
    case False
    from ht.alloc_lowest [OF fd_wfD(1) [OF wf] a' False]
    have h: "0 \<le> h" "h < int MAX_HANDLES_COUNT" "handle_free s (nat h)" by blast+
    let ?item = "\<lparr>hi_inode = ino, hi_parent_dir_inode = par, hi_ofd_id = i, hi_mount_fs = Some m\<rparr>"
    have s': "s' = put_handle (s\<lparr>h_first_unused_slot := h\<rparr>) h ?item"
      using a False by (auto simp: allocate_handle_cases split: option.splits)
    have "fd_wf None (put_handle s h ?item)"
      by (rule fd_wf_put [OF wf]) (use i h in \<open>simp_all add: nat_less_iff\<close>)
    then have "fd_wf None s'"
      using ok by (simp add: s' fd_wf_def op.hint_ok_def handles_on_def put_handle_def)
    with False h show ?thesis by simp
  qed
qed

lemma fd_wf_allocate_handle2:
  assumes wf: "fd_wf (Some (nat i)) s" and i: "0 \<le> i" "i < int MAX_HANDLES_COUNT"
    and a: "allocate_handle2 s m ino par i nfd = (h, s')"
  shows "if h = -1 then s' = s else h = nfd \<and> fd_wf None s'"
proof (cases "VERIFY_HANDLE s nfd EHandleAvailable")
  case True
  then have "fd_wf None (put_handle s nfd \<lparr>hi_inode = ino, hi_parent_dir_inode = par, hi_ofd_id = i, hi_mount_fs = Some m\<rparr>)"
    by (intro fd_wf_put [OF wf]) (use i in \<open>simp_all add: nat_less_iff VERIFY_HANDLE_def\<close>)
  with True a show ?thesis by (auto simp: allocate_handle2_def VERIFY_HANDLE_def)
next
  case False
  with a show ?thesis by (simp add: allocate_handle2_def)
qed

text \<open>Closing: \<open>release_ofd\<close> on the description of an open handle, then \<open>free_handle\<close>.\<close>

lemma VERIFY_OFD_of_entry:
  assumes wf: "fd_wf None s" and e: "entry s h = Some e"
  shows "VERIFY_OFD s (hi_ofd_id e)" "0 \<le> hi_ofd_id e" "hi_ofd_id e < int MAX_HANDLES_COUNT"
proof -
  from e have h: "0 \<le> h" "nat h < MAX_HANDLES_COUNT" "hs_used (s_handle_slots s (nat h)) = EHandleUsed"
    and ee: "hs_public (s_handle_slots s (nat h)) = e"
    by (auto simp: entry_def VERIFY_HANDLE_def nat_less_iff split: if_splits)
  from fd_wfD(3) [OF wf h(2,3)] ee
  show b: "0 \<le> hi_ofd_id e" "hi_ofd_id e < int MAX_HANDLES_COUNT" by simp_all
  have "nat h \<in> handles_on s (nat (hi_ofd_id e))" using h ee b by (simp add: handles_on_def)
  then have "0 < card (handles_on s (nat (hi_ofd_id e)))" by (auto simp: card_gt_0_iff)
  with fd_wfD(4) [OF wf, of "nat (hi_ofd_id e)"] b show "VERIFY_OFD s (hi_ofd_id e)"
    by (simp add: VERIFY_OFD_def nat_less_iff)
qed

lemma fd_wf_close:
  assumes wf: "fd_wf None s" and e: "entry s h = Some e"
  shows "\<exists>s1 s2. release_ofd s (hi_ofd_id e) = (0, s1) \<and> free_handle s1 h = (0, s2) \<and> fd_wf None s2
     \<and> entry s2 = (entry s)(h := None)"
proof -
  let ?i = "hi_ofd_id e"
  note b = VERIFY_OFD_of_entry [OF wf e]
  have h: "0 \<le> h" "h < int MAX_HANDLES_COUNT" "hs_used (s_handle_slots s (nat h)) = EHandleUsed"
    and ee: "hs_public (s_handle_slots s (nat h)) = e"
    using e by (auto simp: entry_def VERIFY_HANDLE_def split: if_splits)
  obtain s1 where r: "release_ofd s ?i = (0, s1)" and hs: "s_handle_slots s1 = s_handle_slots s"
    "h_first_unused_slot s1 = h_first_unused_slot s"
    and rc: "\<And>j. refcount (s_open_files_array s1 j) = refcount (s_open_files_array s j) - (if j = nat ?i then 1 else 0)"
    using b(1) by (auto simp: release_ofd_def Let_def)
  obtain s2 where f: "free_handle s1 h = (0, s2)"
    and oa: "s_open_files_array s2 = s_open_files_array s1" "o_first_unused_slot s2 = o_first_unused_slot s1"
    and free: "hs_used (s_handle_slots s2 (nat h)) = EHandleAvailable"
    and other: "\<And>k. k \<noteq> nat h \<Longrightarrow> s_handle_slots s2 k = s_handle_slots s k"
    using h hs by (auto simp: free_handle_def VERIFY_HANDLE_def Let_def)
  have ok1: "ht.hint_ok s1" using fd_wfD(1) [OF wf] hs by (simp add: ht.hint_ok_def)
  have "ht.hint_ok s2" by (rule ht.drop_slot_hint_ok [OF ok1 f])
  moreover have "op.hint_ok s2"
    using op.drop_slot_hint_ok [OF fd_wfD(2) [OF wf] r] oa by (simp add: op.hint_ok_def)
  moreover have on: "handles_on s2 j = handles_on s j - {nat h}" for j
  proof -
    have "k \<in> handles_on s2 j \<longleftrightarrow> k \<in> handles_on s j - {nat h}" for k
      using free other [of k] by (cases "k = nat h") (auto simp: handles_on_def)
    then show ?thesis by blast
  qed
  moreover have "refcount (s_open_files_array s2 j) = int (card (handles_on s2 j))" if j: "j < MAX_HANDLES_COUNT" for j
  proof (cases "j = nat ?i")
    case True
    with h ee b have m: "nat h \<in> handles_on s j" by (simp add: handles_on_def nat_less_iff)
    then have "Suc 0 \<le> card (handles_on s j)" by (auto simp: Suc_le_eq card_gt_0_iff)
    with fd_wfD(4) [OF wf j] True m show ?thesis
      by (simp add: oa rc on card_Diff_singleton of_nat_diff del: card_0_eq)
  next
    case False
    with h ee b have "nat h \<notin> handles_on s j" by (auto simp: handles_on_def)
    with fd_wfD(4) [OF wf j] False show ?thesis by (simp add: oa rc on)
  qed
  moreover have "0 \<le> hi_ofd_id (hs_public (s_handle_slots s2 k))
      \<and> hi_ofd_id (hs_public (s_handle_slots s2 k)) < int MAX_HANDLES_COUNT"
    if "k < MAX_HANDLES_COUNT" "hs_used (s_handle_slots s2 k) = EHandleUsed" for k
    using that fd_wfD(3) [OF wf that(1)] free other [of k] by (cases "k = nat h") auto
  ultimately have "fd_wf None s2" by (simp add: fd_wf_def)
  moreover have "entry s2 = (entry s)(h := None)"
  proof
    fix x
    show "entry s2 x = ((entry s)(h := None)) x"
      using h free other [of "nat x"] by (cases "x = h") (auto simp: entry_def VERIFY_HANDLE_def)
  qed
  ultimately show ?thesis using r f by blast
qed

end
