(* ===== verification/PathUtils.thy ===== *)
theory PathUtils
  imports ZrtPrelude
begin

text \<open>
  Walking through the components of a path (\<open>lib/helpers/path_utils.c\<close>). A pointer into the path
  is its offset, NULL is \<open>None\<close>; the in-out arguments \<open>temp_cursor\<close> and \<open>result_len\<close> are returned
  after the pointer. The lemmas say what the backward walk finds: the path without its trailing
  slashes, then its parent directory.
\<close>

abbreviation (input) SLASH :: char where "SLASH \<equiv> CHR 0x2F"
abbreviation (input) DEFAULT_TEMP_CURSOR_VALUE :: int where "DEFAULT_TEMP_CURSOR_VALUE \<equiv> -100"

text \<open>Reading a C string: the character after the last one is NUL.\<close>

definition char_at :: "string \<Rightarrow> nat \<Rightarrow> char" where
  "char_at s i = (if i < length s then s ! i else CHR 0x00)"

fun locate_last :: "string \<Rightarrow> nat \<Rightarrow> char \<Rightarrow> nat option" where
  "locate_last str 0 c = None"
| "locate_last str (Suc i) c = (if char_at str i = c then Some i else locate_last str i c)"

definition locate_last_occurence :: "string \<Rightarrow> int \<Rightarrow> char \<Rightarrow> nat option" where
  "locate_last_occurence str len c = locate_last str (nat len) c"

definition locate_first_occurence :: "string \<Rightarrow> nat \<Rightarrow> int \<Rightarrow> char \<Rightarrow> nat option" where
  "locate_first_occurence str start len c =
     map_option (\<lambda>i. start + i) (first_index (\<lambda>i. char_at str (start + i) = c) (nat len) 0)"

definition path_component_forward :: "int \<Rightarrow> string \<Rightarrow> nat option \<times> int \<times> int" where
  "path_component_forward temp_cursor path =
     (let pathlen = int (length path);
          cur = (if temp_cursor = DEFAULT_TEMP_CURSOR_VALUE then 0 else temp_cursor);
          currentpathlen = pathlen - cur;
          slash = locate_first_occurence path (nat cur) currentpathlen SLASH;
          result_len = (case slash of Some p \<Rightarrow> int p - cur
                        | None \<Rightarrow> if cur \<le> pathlen then currentpathlen else 0);
          component_start = (if 0 < result_len then Some (nat cur) else slash);
          cur' = cur + (result_len + 1);
          result_len' = (if component_start \<noteq> None \<and> result_len = 0 \<and> char_at path 0 = SLASH then 1 else result_len)
      in (component_start, cur', result_len'))"

text \<open>The \<open>while( proceed != 0 )\<close> loop, from a cursor that is already initialised.\<close>

function component_backward_loop :: "int \<Rightarrow> string \<Rightarrow> int \<Rightarrow> nat option \<times> int \<times> int" where
  "component_backward_loop cur path result_len =
     (case locate_last_occurence path cur SLASH of
        Some k \<Rightarrow> (if cur - int k - 1 = 0 then component_backward_loop (int k) path 0
                   else (Some (Suc k), int k, cur - int k - 1))
      | None \<Rightarrow> (if cur = 0 \<and> char_at path 0 = SLASH then (Some 0, -1, 1) else (None, cur, result_len)))"
  by pat_completeness auto

lemma locate_last_SomeD: "locate_last s n c = Some k \<Longrightarrow> k < n \<and> char_at s k = c \<and> (\<forall>j. k < j \<longrightarrow> j < n \<longrightarrow> char_at s j \<noteq> c)"
  by (induction n) (auto simp: less_Suc_eq split: if_splits)

termination component_backward_loop
  by (relation "measure (\<lambda>(cur, path, rl). nat cur)")
     (auto simp: locate_last_occurence_def dest!: locate_last_SomeD)

declare component_backward_loop.simps [simp del]

definition path_component_backward :: "int \<Rightarrow> string \<Rightarrow> int \<Rightarrow> nat option \<times> int \<times> int" where
  "path_component_backward temp_cursor path result_len =
     component_backward_loop
       (if temp_cursor = DEFAULT_TEMP_CURSOR_VALUE then int (length path) else temp_cursor) path result_len"

definition path_subpath_forward :: "int \<Rightarrow> string \<Rightarrow> int \<Rightarrow> nat option \<times> int \<times> int" where
  "path_subpath_forward temp_cursor path result_len =
     (case path_component_forward temp_cursor path of
        (Some c, cur, component_len) \<Rightarrow> (Some 0, cur, int c + component_len)
      | (None, cur, component_len) \<Rightarrow> (None, cur, result_len))"

text \<open>\<open>component_len\<close> is an uninitialised local; it is read only when a component was found.\<close>

definition path_subpath_backward :: "int \<Rightarrow> string \<Rightarrow> int \<Rightarrow> nat option \<times> int \<times> int" where
  "path_subpath_backward temp_cursor path result_len =
     (case path_component_backward temp_cursor path 0 of
        (Some c, cur, component_len) \<Rightarrow> (Some 0, cur, int c + component_len)
      | (None, cur, component_len) \<Rightarrow> (None, cur, result_len))"

text \<open>
  The loop of \<open>is_relative_path\<close> over the components after the first; \<open>strncmp("..", res, reslen)\<close>
  compares at most \<open>reslen\<close> characters. The cursor grows by at least one on every turn.
\<close>

function has_dots :: "int \<Rightarrow> string \<Rightarrow> bool" where
  "has_dots cur path =
     (if cur < 0 \<or> int (length path) < cur then False
      else case path_component_forward cur path of
        (None, _, _) \<Rightarrow> False
      | (Some c, cur', reslen) \<Rightarrow>
          if strncmp_eq ''..'' (drop c path) (nat reslen) then True else has_dots cur' path)"
  by pat_completeness auto

lemma path_component_forward_cursor:
  "(r, cur', len) = path_component_forward cur path \<Longrightarrow> \<not> cur < 0 \<Longrightarrow> cur < cur'"
  by (auto simp: path_component_forward_def locate_first_occurence_def Let_def split: option.splits if_splits)

termination has_dots
  by (relation "measure (\<lambda>(cur, path). nat (int (length path) + 1 - cur))")
     (auto dest: path_component_forward_cursor)

declare has_dots.simps [simp del]

definition is_relative_path :: "string \<Rightarrow> bool" where
  "is_relative_path path =
     (case path_component_forward DEFAULT_TEMP_CURSOR_VALUE path of
        (None, _, _) \<Rightarrow> True
      | (Some c, cur, _) \<Rightarrow> if char_at path c \<noteq> SLASH then True else has_dots cur path)"

text \<open>
  \<open>zrealpath\<close> (\<open>lib/helpers/utils.c\<close>) turns a relative path into an absolute one with the C
  library's \<open>realpath\<close> (an argument, \<open>None\<close> when it returns NULL) and \<open>getcwd\<close> (an argument).
  The destination holds at most \<open>PATH_MAX\<close> characters.
\<close>

abbreviation (input) PATH_MAX :: nat where "PATH_MAX \<equiv> 4096"

definition MERGE_PATH_COMPONENTS :: "string \<Rightarrow> string \<Rightarrow> string" where
  "MERGE_PATH_COMPONENTS path1 path2 =
     take PATH_MAX
       (path1 @ (if path1 \<noteq> [] \<and> last path1 \<noteq> SLASH \<and> path2 \<noteq> [] \<and> hd path2 \<noteq> SLASH then [SLASH] else []) @ path2)"

definition zrealpath :: "(string \<Rightarrow> string option) \<Rightarrow> string \<Rightarrow> string \<Rightarrow> string option" where
  "zrealpath realpath cwd path =
     (case locate_last path (length path) SLASH of
        Some k \<Rightarrow>
          (let last_component = drop k path
           in if last_component = ''/..'' \<or> last_component = ''/.'' then realpath path
              else if k \<noteq> 0 then
                map_option (\<lambda>absbasepath. MERGE_PATH_COMPONENTS absbasepath last_component) (realpath (take k path))
              else Some path)
      | None \<Rightarrow> Some (MERGE_PATH_COMPONENTS cwd path))"

definition ensure_path_is_absolute :: "(string \<Rightarrow> string option) \<Rightarrow> string \<Rightarrow> string \<Rightarrow> string" where
  "ensure_path_is_absolute realpath cwd path =
     (if is_relative_path path then (case zrealpath realpath cwd path of None \<Rightarrow> [] | Some p \<Rightarrow> p) else path)"

section \<open>What the walks find\<close>

lemma locate_last_None_iff: "locate_last s n c = None \<longleftrightarrow> (\<forall>j < n. char_at s j \<noteq> c)"
  by (induction n) (auto simp: less_Suc_eq)

lemma locate_last_Some_iff:
  "locate_last s n c = Some k \<longleftrightarrow> k < n \<and> char_at s k = c \<and> (\<forall>j. k < j \<longrightarrow> j < n \<longrightarrow> char_at s j \<noteq> c)"
proof
  assume r: "k < n \<and> char_at s k = c \<and> (\<forall>j. k < j \<longrightarrow> j < n \<longrightarrow> char_at s j \<noteq> c)"
  then obtain k' where k': "locate_last s n c = Some k'" using locate_last_None_iff [of s n c] by fastforce
  with r locate_last_SomeD [OF k'] show "locate_last s n c = Some k" by (metis linorder_neqE_nat)
qed (rule locate_last_SomeD)

lemma char_at_append: "char_at (a @ b) i = (if i < length a then a ! i else char_at b (i - length a))"
  by (auto simp: char_at_def nth_append)

lemma locate_last_split:
  assumes "c \<notin> set name"
  shows "locate_last (d @ c # name) (length (d @ c # name)) c = Some (length d)"
  using assms by (auto simp: locate_last_Some_iff char_at_def nth_append nth_Cons split: nat.splits)

text \<open>The first step back from the end skips nothing when the path has a proper last component.\<close>

lemma path_subpath_backward_first:
  assumes "SLASH \<notin> set name" "name \<noteq> []"
  shows "path_subpath_backward DEFAULT_TEMP_CURSOR_VALUE (d @ SLASH # name) r
     = (Some 0, int (length d), int (length (d @ SLASH # name)))"
proof -
  have l: "locate_last_occurence (d @ SLASH # name) (int (length (d @ SLASH # name))) SLASH = Some (length d)"
    using locate_last_split [OF assms(1), of d] unfolding locate_last_occurence_def nat_int .
  have "length name \<noteq> 0" using assms(2) by simp
  with l show ?thesis
    by (simp add: path_subpath_backward_def path_component_backward_def component_backward_loop.simps)
qed

text \<open>The second step finds the parent directory: the root for a path with one component.\<close>

lemma path_subpath_backward_parent:
  assumes "d = [] \<or> hd d = SLASH \<and> last d \<noteq> SLASH"
  shows "\<exists>cur. path_subpath_backward (int (length d)) (d @ SLASH # name) r
     = (Some 0, cur, if d = [] then 1 else int (length d))"
proof (cases "d = []")
  case True
  then show ?thesis
    by (simp add: path_subpath_backward_def path_component_backward_def component_backward_loop.simps
        locate_last_occurence_def char_at_def)
next
  case False
  let ?p = "d @ SLASH # name"
  from False assms have d: "d ! 0 = SLASH" "d ! (length d - 1) \<noteq> SLASH"
    by (simp_all add: hd_conv_nth last_conv_nth)
  have c: "j < length d \<Longrightarrow> char_at ?p j = d ! j" for j by (simp add: char_at_append)
  have "locate_last ?p (length d) SLASH \<noteq> None"
    using False d(1) c [of 0] by (auto simp: locate_last_None_iff)
  then obtain k where k: "locate_last ?p (length d) SLASH = Some k" by blast
  from locate_last_SomeD [OF k] c [of k] have kd: "k < length d" "d ! k = SLASH" by metis+
  with d(2) have "k \<noteq> length d - 1" by auto
  with kd(1) have "int (length d) - int k - 1 \<noteq> 0" by arith
  with k have "component_backward_loop (int (length d)) ?p 0
      = (Some (Suc k), int k, int (length d) - int k - 1)"
    by (subst component_backward_loop.simps) (simp add: locate_last_occurence_def)
  with False show ?thesis by (simp add: path_subpath_backward_def path_component_backward_def)
qed

text \<open>
  The root itself has one subpath, and no parent. For a path that ends in a slash the walk skips
  the empty component.
\<close>

lemma path_subpath_backward_root:
  "path_subpath_backward DEFAULT_TEMP_CURSOR_VALUE ''/'' r = (Some 0, -1, 1)"
  "path_subpath_backward (-1) p r = (None, -1, r)"
  by (simp_all add: path_subpath_backward_def path_component_backward_def component_backward_loop.simps
        locate_last_occurence_def char_at_def)

end
