(* ===== verification/DynArrays.thy ===== *)
theory DynArrays
  imports ZrtPrelude
begin

text \<open>
  The growable array of pointers (\<open>lib/helpers/dyn_array.c\<close>) that holds the channels and the
  mounts. \<open>size_t\<close> is 32 bits wide, as on the ZeroVM target; a NULL pointer is \<open>None\<close>. Whether
  an allocation of a number of bytes succeeds is the argument \<open>mem\<close>.

  \<open>DynArraySet\<close> is an option: \<open>None\<close> when its growth loop never ends (an array without space) or
  the byte count of the new block wraps around and the following \<open>memset\<close> leaves it.

  The locale \<open>growable_array\<close> is what the clients rely on: a read after a write, the count of
  entries, and that a refused write changes nothing the reader sees.
\<close>

abbreviation (input) SIZE_T_MOD :: nat where "SIZE_T_MOD \<equiv> 2 ^ 32"
abbreviation (input) SIZE_T_MAX :: nat where "SIZE_T_MAX \<equiv> 2 ^ 32 - 1"
abbreviation (input) sizeof_word :: nat where "sizeof_word \<equiv> 4" \<comment> \<open>a pointer and a \<open>uint32_t\<close>\<close>

record 'a DynArray =
  num_entries :: nat
  ptr_array :: "'a option list"
  ptr_array_space :: nat
  available :: "32 word list"
  avail_ix :: nat

definition BitsToAllocWords :: "nat \<Rightarrow> nat" where
  "BitsToAllocWords nbits = ((nbits + 32 - 1) mod SIZE_T_MOD) div 32"

definition BitsToIndex :: "nat \<Rightarrow> nat" where
  "BitsToIndex nbits = nbits div 32"

definition BitsToOffset :: "nat \<Rightarrow> nat" where
  "BitsToOffset nbits = nbits mod 32"

definition DynArrayCtor :: "(nat \<Rightarrow> bool) \<Rightarrow> 'a DynArray \<Rightarrow> nat \<Rightarrow> int \<times> 'a DynArray" where
  "DynArrayCtor mem dap n =
     (let initial_size = (if n = 0 then 32 else n);
          dap1 = dap\<lparr>num_entries := 0\<rparr>
      in if SIZE_T_MAX div sizeof_word < initial_size
            \<or> SIZE_T_MAX div sizeof_word < BitsToAllocWords initial_size then (0, dap1)
         else if \<not> mem (initial_size * sizeof_word) then (0, dap1\<lparr>ptr_array := []\<rparr>)
         else if \<not> mem (BitsToAllocWords initial_size * sizeof_word)
         then (0, dap1\<lparr>ptr_array := [], available := []\<rparr>)
         else (1, dap1\<lparr>ptr_array := replicate initial_size None,
                       available := replicate (BitsToAllocWords initial_size) 0,
                       avail_ix := 0, ptr_array_space := initial_size\<rparr>))"

definition DynArrayDtor :: "'a DynArray \<Rightarrow> 'a DynArray" where
  "DynArrayDtor dap = dap\<lparr>num_entries := 0, ptr_array := [], ptr_array_space := 0, available := []\<rparr>"

definition DynArrayGet :: "'a DynArray \<Rightarrow> nat \<Rightarrow> 'a option" where
  "DynArrayGet dap idx = (if idx < num_entries dap then ptr_array dap ! idx else None)"

text \<open>
  The loop that doubles the space until the index fits: \<open>Some None\<close> is the \<open>return 0\<close> on
  overflow.
\<close>

partial_function (option) desired_space :: "nat \<Rightarrow> nat \<Rightarrow> nat option option" where
  "desired_space idx d =
     (if d \<le> idx then
        (let tmp = (2 * d) mod SIZE_T_MOD
         in if tmp < d then Some None else desired_space idx tmp)
      else Some (Some d))"

text \<open>The writes once the array has room for the index (from line 155 on).\<close>

definition DynArray_write :: "'a DynArray \<Rightarrow> nat \<Rightarrow> 'a option \<Rightarrow> 'a DynArray" where
  "DynArray_write dap idx ptr =
     (let ix = BitsToIndex idx;
          w = available dap ! ix;
          b = push_bit (BitsToOffset idx) 1;
          dap1 = dap\<lparr>ptr_array := (ptr_array dap)[idx := ptr]\<rparr>;
          dap2 = (if ptr \<noteq> None
                  then dap1\<lparr>available := (available dap)[ix := w OR b]\<rparr>
                  else dap1\<lparr>available := (available dap)[ix := w AND NOT b],
                            avail_ix := (if ix < avail_ix dap then ix else avail_ix dap)\<rparr>)
      in if num_entries dap2 \<le> idx then dap2\<lparr>num_entries := idx + 1\<rparr> else dap2)"

definition DynArraySet :: "(nat \<Rightarrow> bool) \<Rightarrow> 'a DynArray \<Rightarrow> nat \<Rightarrow> 'a option \<Rightarrow> (int \<times> 'a DynArray) option" where
  "DynArraySet mem dap idx ptr =
     (case desired_space idx (ptr_array_space dap) of
        None \<Rightarrow> None
      | Some None \<Rightarrow> Some (0, dap)
      | Some (Some desired) \<Rightarrow>
          (if desired \<noteq> ptr_array_space dap then
             (let old = ptr_array_space dap;
                  old_avail_nwords = BitsToAllocWords old;
                  new_avail_nwords = BitsToAllocWords desired
              in if \<not> mem ((desired * sizeof_word) mod SIZE_T_MOD) then Some (0, dap)
                 else if SIZE_T_MOD \<le> desired * sizeof_word then None
                 else let dap1 = dap\<lparr>ptr_array := take old (ptr_array dap) @ replicate (desired - old) None\<rparr>
                      in if \<not> mem (new_avail_nwords * sizeof_word) then Some (0, dap1)
                         else Some (1, DynArray_write
                                (dap1\<lparr>available := take old_avail_nwords (available dap)
                                                   @ replicate (new_avail_nwords - old_avail_nwords) 0,
                                      ptr_array_space := desired\<rparr>) idx ptr))
           else Some (1, DynArray_write dap idx ptr)))"

section \<open>The growth loop\<close>

text \<open>With some space to start from the loop ends, at a power-of-two multiple of it or in the overflow branch.\<close>

lemma desired_space_step:
  "d \<le> idx \<Longrightarrow> 0 < d \<Longrightarrow> 2 * d < SIZE_T_MOD \<Longrightarrow> desired_space idx d = desired_space idx (2 * d)"
  "d \<le> idx \<Longrightarrow> SIZE_T_MOD \<le> 2 * d \<Longrightarrow> d < SIZE_T_MOD \<Longrightarrow> desired_space idx d = Some None"
  "idx < d \<Longrightarrow> desired_space idx d = Some (Some d)"
proof -
  show "desired_space idx d = desired_space idx (2 * d)" if "d \<le> idx" "0 < d" "2 * d < SIZE_T_MOD"
  proof -
    have "(2 * d) mod SIZE_T_MOD = 2 * d" using that by simp
    with that show ?thesis by (subst desired_space.simps) (simp add: Let_def)
  qed
  show "desired_space idx d = Some None" if "d \<le> idx" "SIZE_T_MOD \<le> 2 * d" "d < SIZE_T_MOD"
  proof -
    have "(2 * d) mod SIZE_T_MOD = 2 * d - SIZE_T_MOD" using that by (simp add: le_mod_geq)
    moreover have "2 * d - SIZE_T_MOD < d" using that by arith
    ultimately show ?thesis using that by (subst desired_space.simps) (simp add: Let_def)
  qed
  show "desired_space idx d = Some (Some d)" if "idx < d"
    using that by (subst desired_space.simps) simp
qed

lemma desired_space_total:
  assumes "0 < d" "d < SIZE_T_MOD"
  shows "\<exists>r. desired_space idx d = Some r \<and>
    (case r of None \<Rightarrow> 2 ^ 31 \<le> idx | Some d' \<Rightarrow> idx < d' \<and> d \<le> d' \<and> d' \<le> max d (2 * idx))"
  using assms
proof (induction "SIZE_T_MOD - d" arbitrary: d rule: less_induct)
  case less
  consider "idx < d" | "d \<le> idx" "2 * d < SIZE_T_MOD" | "d \<le> idx" "SIZE_T_MOD \<le> 2 * d"
    by linarith
  then show ?case
  proof cases
    case 1
    then show ?thesis using less.prems by (simp add: desired_space_step)
  next
    case 2
    have "SIZE_T_MOD - 2 * d < SIZE_T_MOD - d" using less.prems 2 by simp
    from less.hyps [OF this] less.prems 2 obtain r where
      r: "desired_space idx (2 * d) = Some r"
      "case r of None \<Rightarrow> 2 ^ 31 \<le> idx
       | Some d' \<Rightarrow> idx < d' \<and> 2 * d \<le> d' \<and> d' \<le> max (2 * d) (2 * idx)"
      by auto
    have "desired_space idx d = Some r"
      using desired_space_step(1) [OF 2(1) less.prems(1) 2(2)] r(1) by (simp only:)
    with r(2) 2 show ?thesis by (auto split: option.splits)
  next
    case 3
    then have "desired_space idx d = Some None" using less.prems by (simp only: desired_space_step)
    then show ?thesis using 3 by simp
  qed
qed

section \<open>Well-formedness\<close>

text \<open>
  The array has its space; the \<open>available\<close> bit of a slot is set exactly when the slot holds a
  pointer, and no bit past the space is set; no slot past the count is in use.
\<close>

definition da_wf :: "'a DynArray \<Rightarrow> bool" where
  "da_wf d \<longleftrightarrow> 0 < ptr_array_space d \<and> ptr_array_space d * sizeof_word < SIZE_T_MOD
     \<and> ptr_array_space d \<le> length (ptr_array d)
     \<and> BitsToAllocWords (ptr_array_space d) \<le> length (available d)
     \<and> num_entries d \<le> ptr_array_space d
     \<and> (\<forall>i. num_entries d \<le> i \<longrightarrow> i < ptr_array_space d \<longrightarrow> ptr_array d ! i = None)
     \<and> (\<forall>i < 32 * BitsToAllocWords (ptr_array_space d).
          bit (available d ! (i div 32)) (i mod 32) \<longleftrightarrow> i < ptr_array_space d \<and> ptr_array d ! i \<noteq> None)"

lemma BitsToAllocWords_small: "n * 4 < SIZE_T_MOD \<Longrightarrow> BitsToAllocWords n = (n + 31) div 32"
  by (simp add: BitsToAllocWords_def)

lemma BitsToAllocWords_covers: "n * 4 < SIZE_T_MOD \<Longrightarrow> n \<le> 32 * BitsToAllocWords n"
  by (simp add: BitsToAllocWords_small)

lemma BitsToAllocWords_mono: "m \<le> n \<Longrightarrow> n * 4 < SIZE_T_MOD \<Longrightarrow> BitsToAllocWords m \<le> BitsToAllocWords n"
  by (simp add: BitsToAllocWords_small div_le_mono)

lemma word_of_slot: "n * 4 < SIZE_T_MOD \<Longrightarrow> i < n \<Longrightarrow> i div 32 < BitsToAllocWords n"
  using BitsToAllocWords_covers [of n] by (simp add: less_mult_imp_div_less mult.commute)

lemma DynArrayCtor_wf:
  assumes "DynArrayCtor mem dap n = (r, d)"
  shows "r = 0 \<or> r = 1 \<and> da_wf d \<and> num_entries d = 0"
proof (cases "r = 0")
  case False
  let ?n = "if n = 0 then 32 else n"
  from assms False have "r = 1" and d: "d = dap\<lparr>num_entries := 0, ptr_array := replicate ?n None,
      available := replicate (BitsToAllocWords ?n) 0, avail_ix := 0, ptr_array_space := ?n\<rparr>"
    and le: "?n \<le> SIZE_T_MAX div 4"
    by (auto simp: DynArrayCtor_def Let_def split: if_splits)
  have "?n * 4 < SIZE_T_MOD" using le by simp
  moreover have "0 < ?n" by simp
  ultimately have "da_wf d" unfolding da_wf_def d by (simp add: word_of_slot less_mult_imp_div_less)
  with \<open>r = 1\<close> d show ?thesis by simp
qed simp

lemma bit_set_clear:
  fixes w :: "32 word"
  assumes "k < 32"
  shows "bit (w OR 2 ^ k) n \<longleftrightarrow> bit w n \<or> n = k"
    and "bit (w AND NOT (2 ^ k)) n \<longleftrightarrow> bit w n \<and> n \<noteq> k"
  using assms bit_imp_le_length [of w n]
  by (auto simp: bit_or_iff bit_and_iff bit_not_iff bit_exp_iff)

lemma DynArray_write_wf:
  assumes wf: "da_wf d" and i: "idx < ptr_array_space d" and d'_def: "d' = DynArray_write d idx ptr"
  shows "da_wf d'" and "DynArrayGet d' = (DynArrayGet d)(idx := ptr)"
    and "num_entries d' = max (num_entries d) (idx + 1)"
proof -
  have b: "ptr_array_space d * 4 < SIZE_T_MOD" "ptr_array_space d \<le> length (ptr_array d)"
    "BitsToAllocWords (ptr_array_space d) \<le> length (available d)" "num_entries d \<le> ptr_array_space d"
    using wf by (simp_all add: da_wf_def)
  have ix: "idx div 32 < length (available d)" using word_of_slot [OF b(1) i] b(3) by simp
  have n: "num_entries d' = max (num_entries d) (idx + 1)"
    and p: "ptr_array d' = (ptr_array d)[idx := ptr]"
    and sp: "ptr_array_space d' = ptr_array_space d"
    and la: "length (available d') = length (available d)"
    by (auto simp: d'_def DynArray_write_def Let_def max_def)
  have av: "bit (available d' ! (j div 32)) (j mod 32) \<longleftrightarrow>
      (if j = idx then ptr \<noteq> None else bit (available d ! (j div 32)) (j mod 32))" for j
  proof (cases "j div 32 = idx div 32")
    case True
    have "j mod 32 = idx mod 32 \<longleftrightarrow> j = idx" using True by (metis div_mult_mod_eq)
    with True ix show ?thesis
      by (auto simp: d'_def DynArray_write_def Let_def BitsToIndex_def BitsToOffset_def bit_set_clear)
  next
    case False
    then show ?thesis by (auto simp: d'_def DynArray_write_def Let_def BitsToIndex_def)
  qed
  show "num_entries d' = max (num_entries d) (idx + 1)" by (fact n)
  have nth: "ptr_array d' ! j = (if j = idx then ptr else ptr_array d ! j)" for j
    using i b(2) by (simp add: p)
  show "da_wf d'"
    using wf i unfolding da_wf_def n sp la av by (auto simp: nth) (simp_all add: p)
  show "DynArrayGet d' = (DynArrayGet d)(idx := ptr)"
    using wf i by (auto simp: fun_eq_iff DynArrayGet_def n nth da_wf_def)
qed

section \<open>Growing\<close>

text \<open>The two states the growth leaves: with the new block of pointers only, and with both blocks.\<close>

lemma DynArray_grow_wf:
  assumes wf: "da_wf d" and n: "ptr_array_space d \<le> n" "n * sizeof_word < SIZE_T_MOD"
  defines "d1 \<equiv> d\<lparr>ptr_array := take (ptr_array_space d) (ptr_array d) @ replicate (n - ptr_array_space d) None\<rparr>"
  defines "d2 \<equiv> d1\<lparr>available := take (BitsToAllocWords (ptr_array_space d)) (available d)
                  @ replicate (BitsToAllocWords n - BitsToAllocWords (ptr_array_space d)) 0,
                  ptr_array_space := n\<rparr>"
  shows "da_wf d1" "DynArrayGet d1 = DynArrayGet d" "da_wf d2" "DynArrayGet d2 = DynArrayGet d"
proof -
  let ?sp = "ptr_array_space d" and ?w = "BitsToAllocWords (ptr_array_space d)"
  have b: "?sp * 4 < SIZE_T_MOD" "?sp \<le> length (ptr_array d)" "?w \<le> length (available d)"
    "num_entries d \<le> ?sp"
    and bits: "\<And>i. i < 32 * ?w \<Longrightarrow> bit (available d ! (i div 32)) (i mod 32) \<longleftrightarrow> i < ?sp \<and> ptr_array d ! i \<noteq> None"
    using wf by (simp_all add: da_wf_def)
  have nth: "i < n \<Longrightarrow> ptr_array d1 ! i = (if i < ?sp then ptr_array d ! i else None)" for i
    using b(2) by (simp add: d1_def nth_append)
  have len: "length (ptr_array d1) = n" using b(2) n(1) by (simp add: d1_def)
  show g1: "DynArrayGet d1 = DynArrayGet d"
  proof
    fix i
    show "DynArrayGet d1 i = DynArrayGet d i"
      using b(4) n(1) nth [of i] by (auto simp: DynArrayGet_def d1_def)
  qed
  have "DynArrayGet d2 = DynArrayGet d1" by (simp add: fun_eq_iff DynArrayGet_def d2_def)
  with g1 show "DynArrayGet d2 = DynArrayGet d" by simp
  show "da_wf d1"
    using wf n len nth unfolding da_wf_def
    by (auto simp: d1_def)
  have w: "?w \<le> BitsToAllocWords n" by (rule BitsToAllocWords_mono [OF n])
  have "bit (available d2 ! (i div 32)) (i mod 32) \<longleftrightarrow> i < n \<and> ptr_array d2 ! i \<noteq> None"
    if i: "i < 32 * BitsToAllocWords n" for i
  proof (cases "i div 32 < ?w")
    case True
    then have "i < 32 * ?w" by (simp add: div_less_iff_less_mult mult.commute)
    with True b bits n(1) nth [of i] show ?thesis by (cases "i < ?sp") (auto simp: d2_def nth_append)
  next
    case False
    then have "?sp \<le> i" using word_of_slot [OF b(1), of i] by linarith
    moreover from False i b(3) have "available d2 ! (i div 32) = 0"
      by (simp add: d2_def nth_append less_mult_imp_div_less mult.commute)
    ultimately show ?thesis using nth [of i] by (auto simp: d2_def)
  qed
  then show "da_wf d2"
    using wf n len w nth b unfolding da_wf_def by (auto simp: d2_def d1_def)
qed

lemma DynArraySet_cases:
  assumes wf: "da_wf d" and s: "DynArraySet mem d idx ptr = Some (r, d')"
  shows "da_wf d' \<and> (r = 1 \<and> DynArrayGet d' = (DynArrayGet d)(idx := ptr) \<and> num_entries d' = max (num_entries d) (idx + 1)
     \<or> r = 0 \<and> DynArrayGet d' = DynArrayGet d \<and> num_entries d' = num_entries d)"
proof -
  have sp: "0 < ptr_array_space d" "ptr_array_space d < SIZE_T_MOD" using wf by (simp_all add: da_wf_def)
  from desired_space_total [OF this] obtain q where q: "desired_space idx (ptr_array_space d) = Some q"
    and qb: "case q of None \<Rightarrow> 2 ^ 31 \<le> idx
      | Some n \<Rightarrow> idx < n \<and> ptr_array_space d \<le> n \<and> n \<le> max (ptr_array_space d) (2 * idx)" by blast
  show ?thesis
  proof (cases q)
    case None
    with q s wf show ?thesis by (simp add: DynArraySet_def)
  next
    case (Some n)
    with qb have n: "idx < n" "ptr_array_space d \<le> n" by simp_all
    show ?thesis
    proof (cases "n = ptr_array_space d")
      case True
      with q s Some have "r = 1" "d' = DynArray_write d idx ptr" by (simp_all add: DynArraySet_def)
      with DynArray_write_wf [OF wf _ this(2)] n True show ?thesis by simp
    next
      case False
      show ?thesis
      proof (cases "n * sizeof_word < SIZE_T_MOD")
        case small: True
        note g = DynArray_grow_wf [OF wf n(2) small]
        have idx2: "idx < ptr_array_space (x\<lparr>available := v, ptr_array_space := n\<rparr>)" for x :: "'a DynArray" and v
          using n by simp
        show ?thesis
          using q s Some False small g wf DynArray_write_wf [OF g(3) idx2 refl, of ptr]
          by (auto simp: DynArraySet_def Let_def split: if_splits)
      next
        case big: False
        then show ?thesis using q s Some False wf by (auto simp: DynArraySet_def Let_def split: if_splits)
      qed
    qed
  qed
qed

lemma DynArraySet_total:
  assumes wf: "da_wf d" and i: "idx < 2 ^ 29"
  shows "\<exists>r d'. DynArraySet mem d idx ptr = Some (r, d')"
proof -
  have sp: "0 < ptr_array_space d" "ptr_array_space d * 4 < SIZE_T_MOD" using wf by (simp_all add: da_wf_def)
  then have "ptr_array_space d < SIZE_T_MOD" by simp
  from desired_space_total [OF sp(1) this, of idx] i obtain n
    where "desired_space idx (ptr_array_space d) = Some (Some n)" "n \<le> max (ptr_array_space d) (2 * idx)"
    by (auto split: option.splits)
  moreover have "max (ptr_array_space d) (2 * idx) * 4 < SIZE_T_MOD" using sp i by (simp add: max_def)
  ultimately show ?thesis by (auto simp: DynArraySet_def Let_def)
qed

section \<open>The contract of the growable array\<close>

locale growable_array =
  fixes get :: "'d \<Rightarrow> nat \<Rightarrow> 'v option"
    and put :: "'d \<Rightarrow> nat \<Rightarrow> 'v option \<Rightarrow> (int \<times> 'd) option"
    and count :: "'d \<Rightarrow> nat"
    and wf :: "'d \<Rightarrow> bool"
  assumes put_done: "wf d \<Longrightarrow> put d i v = Some (r, d') \<Longrightarrow> r \<noteq> 0 \<Longrightarrow>
      wf d' \<and> get d' = (get d)(i := v) \<and> count d' = max (count d) (i + 1)"
    and put_refused: "wf d \<Longrightarrow> put d i v = Some (0, d') \<Longrightarrow>
      wf d' \<and> get d' = get d \<and> count d' = count d"
    and get_beyond: "count d \<le> i \<Longrightarrow> get d i = None"
begin

definition entries :: "'d \<Rightarrow> 'v option list" where
  "entries d = map (get d) [0..<count d]"

lemma length_entries [simp]: "length (entries d) = count d"
  by (simp add: entries_def)

lemma get_entries: "get d i = (if i < count d then entries d ! i else None)"
  using get_beyond [of d i] by (simp add: entries_def)

lemma put_wf: "wf d \<Longrightarrow> put d i v = Some (r, d') \<Longrightarrow> wf d'"
  using put_done put_refused by (cases "r = 0") blast+

lemma put_append:
  assumes "wf d" "put d (count d) v = Some (r, d')" "r \<noteq> 0"
  shows "entries d' = entries d @ [v]"
proof -
  from put_done [OF assms] have "get d' = (get d)(count d := v)" "count d' = Suc (count d)" by simp_all
  then show ?thesis by (simp add: entries_def)
qed

lemma put_inside:
  assumes "wf d" "put d i v = Some (r, d')" "r \<noteq> 0" "i < count d"
  shows "entries d' = (entries d)[i := v]"
proof -
  from put_done [OF assms(1-3)] assms(4) have "get d' = (get d)(i := v)" "count d' = count d" by simp_all
  then show ?thesis by (intro nth_equalityI) (auto simp: entries_def nth_list_update)
qed

lemma put_refused_entries: "wf d \<Longrightarrow> put d i v = Some (0, d') \<Longrightarrow> entries d' = entries d"
  using put_refused by (simp add: entries_def)

end

interpretation da: growable_array DynArrayGet "DynArraySet mem" num_entries da_wf for mem
proof unfold_locales
  fix d d' :: "'a DynArray" and i v r
  assume wf: "da_wf d" and s: "DynArraySet mem d i v = Some (r, d')" and r: "r \<noteq> 0"
  from DynArraySet_cases [OF wf s] r
  show "da_wf d' \<and> DynArrayGet d' = (DynArrayGet d)(i := v) \<and> num_entries d' = max (num_entries d) (i + 1)"
    by blast
next
  fix d d' :: "'a DynArray" and i v
  assume wf: "da_wf d" and s: "DynArraySet mem d i v = Some (0, d')"
  from DynArraySet_cases [OF wf s]
  show "da_wf d' \<and> DynArrayGet d' = DynArrayGet d \<and> num_entries d' = num_entries d"
    by simp
qed (simp add: DynArrayGet_def)

text \<open>
  (C18) The growable array is a finite map under stores: a store at any index below \<open>2^29\<close> ends without a memory
  error; it either reports success, and then a read returns what was stored there and is unchanged
  everywhere else, or it reports failure and no read changes. The invariant is kept in both cases.
\<close>

theorem dyn_array_store:
  assumes "da_wf d" "idx < 2 ^ 29"
  shows "\<exists>r d'. DynArraySet mem d idx ptr = Some (r, d') \<and> da_wf d'
    \<and> (if r = 0 then DynArrayGet d' = DynArrayGet d \<and> num_entries d' = num_entries d
       else DynArrayGet d' = (DynArrayGet d)(idx := ptr) \<and> num_entries d' = max (num_entries d) (idx + 1))"
proof -
  from DynArraySet_total [OF assms] obtain r d' where s: "DynArraySet mem d idx ptr = Some (r, d')" by blast
  show ?thesis
  proof (cases "r = 0")
    case True
    with da.put_refused [OF assms(1)] s show ?thesis by auto
  next
    case False
    with da.put_done [OF assms(1) s] s show ?thesis by auto
  qed
qed

end
