(* ===== verification/ChannelsArray.thy ===== *)
theory ChannelsArray
  imports DynArrays
begin

text \<open>
  The array of channels (\<open>lib/fs/channels_array.c\<close>, \<open>lib/fs/channel_array_item.h\<close>): the channels
  of the ZeroVM manifest first, then the emulated ones (\<open>/dev/null\<close> and its kin). An item is
  named by its index in the array; the sources hold a pointer to it. \<open>struct ZVMChannel\<close> belongs
  to the ZeroVM API, and only the fields the sources read are kept. \<open>malloc\<close> leaves the fields
  the sources do not set as they were: they are the argument \<open>fresh\<close>.
\<close>

datatype access_type = SGetSPut | RGetSPut | SGetRPut | RGetRPut
datatype limit_index = GetsLimit | GetSizeLimit | PutsLimit | PutSizeLimit

instantiation limit_index :: enum
begin

definition "enum_limit_index = [GetsLimit, GetSizeLimit, PutsLimit, PutSizeLimit]"
definition "enum_all_limit_index P \<longleftrightarrow> P GetsLimit \<and> P GetSizeLimit \<and> P PutsLimit \<and> P PutSizeLimit"
definition "enum_ex_limit_index P \<longleftrightarrow> P GetsLimit \<or> P GetSizeLimit \<or> P PutsLimit \<or> P PutSizeLimit"

instance
  by intro_classes
    (auto simp: enum_limit_index_def enum_all_limit_index_def enum_ex_limit_index_def, (metis limit_index.exhaust)+)

end

record ZVMChannel =
  ch_limits :: "limit_index \<Rightarrow> int"
  ch_size :: int
  ch_type :: access_type
  ch_name :: string

record flock =
  l_type :: int
  l_whence :: int
  l_start :: int
  l_len :: int

record ZrtChannelRt =
  rt_inode :: int
  rt_parent_inode :: int
  rt_maxsize :: int
  rt_mode :: mode_t
  rt_emu :: int
  rt_fcntl_flock :: flock

record ChannelArrayItem =
  ci_channel :: ZVMChannel
  ci_runtime :: ZrtChannelRt

type_synonym channels_array_t = "ChannelArrayItem DynArray"

abbreviation (input) FIRST_NON_RESERVED_INODE :: int where "FIRST_NON_RESERVED_INODE \<equiv> 11"

definition INODE_FROM_ZVM_INODE :: "int \<Rightarrow> int" where
  "INODE_FROM_ZVM_INODE zvm_inode = FIRST_NON_RESERVED_INODE + zvm_inode"

definition ZVM_INODE_FROM_INODE :: "int \<Rightarrow> int" where
  "ZVM_INODE_FROM_INODE inode = inode - FIRST_NON_RESERVED_INODE"

definition channels_array_count :: "channels_array_t \<Rightarrow> nat" where
  "channels_array_count arr = num_entries arr"

definition channels_array_get :: "channels_array_t \<Rightarrow> nat \<Rightarrow> ChannelArrayItem option" where
  "channels_array_get arr i = DynArrayGet arr i"

definition channels_array_match_by_name :: "channels_array_t \<Rightarrow> string \<Rightarrow> nat option" where
  "channels_array_match_by_name arr channel_name =
     first_index (\<lambda>i. \<exists>item \<in> set_option (DynArrayGet arr i). ch_name (ci_channel item) = channel_name)
       (num_entries arr) 0"

definition channels_array_match_by_inode :: "channels_array_t \<Rightarrow> int \<Rightarrow> nat option" where
  "channels_array_match_by_inode arr inode =
     first_index (\<lambda>i. \<exists>item \<in> set_option (DynArrayGet arr i). rt_inode (ci_runtime item) = inode)
       (num_entries arr) 0"

text \<open>The macro \<open>ADD_CHANNELS\<close>; \<open>emu\<close> is \<open>check == EMU_CHANNELS\<close>. It ignores what \<open>DynArraySet\<close> returns.\<close>

fun ADD_CHANNELS :: "(nat \<Rightarrow> bool) \<Rightarrow> (nat \<Rightarrow> ZrtChannelRt) \<Rightarrow> bool \<Rightarrow> channels_array_t \<Rightarrow> ZVMChannel list
    \<Rightarrow> channels_array_t option" where
  "ADD_CHANNELS mem fresh emu arr [] = Some arr"
| "ADD_CHANNELS mem fresh emu arr (c # cs) =
     (if emu \<and> channels_array_match_by_name arr (ch_name c) \<noteq> None then ADD_CHANNELS mem fresh emu arr cs
      else let n = num_entries arr;
               rt = (fresh n)\<lparr>rt_inode := INODE_FROM_ZVM_INODE (int n)\<rparr>;
               rt1 = (if emu then rt\<lparr>rt_emu := 1\<rparr> else rt)
           in case DynArraySet mem arr n (Some \<lparr>ci_channel = c, ci_runtime = rt1\<rparr>) of
                None \<Rightarrow> None
              | Some (_, arr') \<Rightarrow> ADD_CHANNELS mem fresh emu arr' cs)"

definition no_array :: channels_array_t where
  "no_array = \<lparr>num_entries = 0, ptr_array = [], ptr_array_space = 0, available = [], avail_ix = 0\<rparr>"

text \<open>The failing \<open>assert\<close>s of the constructor are \<open>None\<close>.\<close>

definition channels_array_construct :: "(nat \<Rightarrow> bool) \<Rightarrow> (nat \<Rightarrow> ZrtChannelRt) \<Rightarrow> ZVMChannel list \<Rightarrow> ZVMChannel list
    \<Rightarrow> channels_array_t option" where
  "channels_array_construct mem fresh zvm_channels emu_channels =
     (case DynArrayCtor mem no_array (length zvm_channels + length emu_channels) of
        (res, arr) \<Rightarrow>
          if res = 0 then None
          else do {
            arr1 \<leftarrow> ADD_CHANNELS mem fresh False arr zvm_channels;
            arr2 \<leftarrow> ADD_CHANNELS mem fresh True arr1 emu_channels;
            (if num_entries arr2 = length zvm_channels + length emu_channels then Some arr2 else None)
          })"

section \<open>Searching\<close>

text \<open>Every entry of a complete array holds an item.\<close>

definition arr_ok :: "channels_array_t \<Rightarrow> bool" where
  "arr_ok arr \<longleftrightarrow> da_wf arr \<and> (\<forall>i < num_entries arr. DynArrayGet arr i \<noteq> None)"

definition items :: "channels_array_t \<Rightarrow> ChannelArrayItem list" where
  "items arr = map the (da.entries arr)"

lemma length_items [simp]: "length (items arr) = num_entries arr"
  by (simp add: items_def)

lemma get_items: "arr_ok arr \<Longrightarrow> i < num_entries arr \<Longrightarrow> DynArrayGet arr i = Some (items arr ! i)"
  by (simp add: items_def arr_ok_def da.entries_def)

lemma get_items_beyond: "\<not> i < num_entries arr \<Longrightarrow> DynArrayGet arr i = None"
  by (simp add: DynArrayGet_def)

lemma match_by_name_Some_iff:
  assumes "arr_ok arr"
  shows "channels_array_match_by_name arr nm = Some i \<longleftrightarrow>
    i < num_entries arr \<and> ch_name (ci_channel (items arr ! i)) = nm
    \<and> (\<forall>k < i. ch_name (ci_channel (items arr ! k)) \<noteq> nm)"
  unfolding channels_array_match_by_name_def first_index_Some_iff
  by (simp add: get_items [OF assms] cong: conj_cong)

lemma match_by_name_None_iff:
  assumes "arr_ok arr"
  shows "channels_array_match_by_name arr nm = None \<longleftrightarrow> nm \<notin> (\<lambda>it. ch_name (ci_channel it)) ` set (items arr)"
proof -
  have "channels_array_match_by_name arr nm = None \<longleftrightarrow> (\<forall>k < num_entries arr. ch_name (ci_channel (items arr ! k)) \<noteq> nm)"
    by (simp add: channels_array_match_by_name_def first_index_None_iff get_items [OF assms])
  also have "\<dots> \<longleftrightarrow> (\<forall>it \<in> set (items arr). ch_name (ci_channel it) \<noteq> nm)"
    by (simp add: all_set_conv_all_nth)
  finally show ?thesis by blast
qed

lemma match_by_inode_Some_iff:
  assumes "arr_ok arr"
  shows "channels_array_match_by_inode arr ino = Some i \<longleftrightarrow>
    i < num_entries arr \<and> rt_inode (ci_runtime (items arr ! i)) = ino
    \<and> (\<forall>k < i. rt_inode (ci_runtime (items arr ! k)) \<noteq> ino)"
  unfolding channels_array_match_by_inode_def first_index_Some_iff
  by (simp add: get_items [OF assms] cong: conj_cong)

section \<open>Construction\<close>

lemma DynArraySet_room:
  assumes "da_wf arr" "i < ptr_array_space arr"
  shows "DynArraySet mem arr i v = Some (1, DynArray_write arr i v)"
  using assms by (simp add: DynArraySet_def desired_space_step(3))

lemma DynArray_write_space [simp]: "ptr_array_space (DynArray_write arr i v) = ptr_array_space arr"
  by (simp add: DynArray_write_def Let_def)

lemma append_item:
  assumes ok: "arr_ok arr" and room: "num_entries arr < ptr_array_space arr"
    and arr': "arr' = DynArray_write arr (num_entries arr) (Some item)"
  shows "arr_ok arr'" "items arr' = items arr @ [item]" "num_entries arr' = Suc (num_entries arr)"
proof -
  have wf: "da_wf arr" using ok by (simp add: arr_ok_def)
  note w = DynArray_write_wf [OF wf room arr']
  show "num_entries arr' = Suc (num_entries arr)" using w(3) by simp
  show "arr_ok arr'" using ok w by (auto simp: arr_ok_def less_Suc_eq)
  have "da.entries arr' = da.entries arr @ [Some item]"
    using w by (simp add: da.entries_def)
  then show "items arr' = items arr @ [item]" by (simp add: items_def)
qed

definition new_item :: "(nat \<Rightarrow> ZrtChannelRt) \<Rightarrow> bool \<Rightarrow> nat \<Rightarrow> ZVMChannel \<Rightarrow> ChannelArrayItem" where
  "new_item fresh emu n c = \<lparr>ci_channel = c, ci_runtime =
     (let rt = (fresh n)\<lparr>rt_inode := INODE_FROM_ZVM_INODE (int n)\<rparr> in if emu then rt\<lparr>rt_emu := 1\<rparr> else rt)\<rparr>"

lemma ADD_CHANNELS_step:
  assumes "arr_ok arr" "num_entries arr < ptr_array_space arr"
  shows "ADD_CHANNELS mem fresh emu arr (c # cs) =
     (if emu \<and> channels_array_match_by_name arr (ch_name c) \<noteq> None then ADD_CHANNELS mem fresh emu arr cs
      else ADD_CHANNELS mem fresh emu
             (DynArray_write arr (num_entries arr) (Some (new_item fresh emu (num_entries arr) c))) cs)"
  using assms by (auto simp: DynArraySet_room arr_ok_def new_item_def Let_def)

lemma new_item_names:
  "map (\<lambda>it. ch_name (ci_channel it)) (map (\<lambda>(n, c). new_item fresh emu n c) (enumerate k cs)) = map ch_name cs"
  by (induction cs arbitrary: k) (simp_all add: new_item_def)

lemma ADD_CHANNELS_all:
  assumes "arr_ok arr" "num_entries arr + length cs \<le> ptr_array_space arr"
    and "emu \<Longrightarrow> distinct (map ch_name cs) \<and> set (map ch_name cs) \<inter> (\<lambda>it. ch_name (ci_channel it)) ` set (items arr) = {}"
  shows "\<exists>arr'. ADD_CHANNELS mem fresh emu arr cs = Some arr' \<and> arr_ok arr'
     \<and> items arr' = items arr @ map (\<lambda>(n, c). new_item fresh emu n c) (enumerate (num_entries arr) cs)
     \<and> ptr_array_space arr' = ptr_array_space arr"
  using assms
proof (induction cs arbitrary: arr)
  case (Cons c cs)
  let ?arr = "DynArray_write arr (num_entries arr) (Some (new_item fresh emu (num_entries arr) c))"
  have room: "num_entries arr < ptr_array_space arr" using Cons.prems(2) by simp
  note a = append_item [OF Cons.prems(1) room refl, of "new_item fresh emu (num_entries arr) c"]
  have nomatch: "\<not> (emu \<and> channels_array_match_by_name arr (ch_name c) \<noteq> None)"
    using Cons.prems(3) by (auto simp: match_by_name_None_iff [OF Cons.prems(1)])
  then have step: "ADD_CHANNELS mem fresh emu arr (c # cs) = ADD_CHANNELS mem fresh emu ?arr cs"
    unfolding ADD_CHANNELS_step [OF Cons.prems(1) room] by (rule if_not_P)
  have "\<exists>arr'. ADD_CHANNELS mem fresh emu ?arr cs = Some arr' \<and> arr_ok arr'
     \<and> items arr' = items ?arr @ map (\<lambda>(n, c). new_item fresh emu n c) (enumerate (num_entries ?arr) cs)
     \<and> ptr_array_space arr' = ptr_array_space ?arr"
    by (rule Cons.IH) (use a Cons.prems in \<open>auto simp: new_item_def\<close>)
  then show ?case using step a by simp
qed simp

text \<open>An emulated channel whose name is taken is skipped, and the array stays short of its planned length.\<close>

lemma ADD_CHANNELS_skips:
  assumes "arr_ok arr" "num_entries arr + length cs \<le> ptr_array_space arr"
    and "ADD_CHANNELS mem fresh True arr cs = Some arr'"
  shows "num_entries arr' \<le> num_entries arr + length cs \<and>
     (set (map ch_name cs) \<inter> (\<lambda>it. ch_name (ci_channel it)) ` set (items arr) \<noteq> {} \<longrightarrow>
      num_entries arr' < num_entries arr + length cs)"
  using assms
proof (induction cs arbitrary: arr)
  case (Cons c cs)
  have room: "num_entries arr < ptr_array_space arr" using Cons.prems(2) by simp
  note step = ADD_CHANNELS_step [OF Cons.prems(1) room, of mem fresh True c cs]
  show ?case
  proof (cases "channels_array_match_by_name arr (ch_name c)")
    case (Some k)
    then have "ADD_CHANNELS mem fresh True arr cs = Some arr'" using step Cons.prems(3) by simp
    with Cons.IH [OF Cons.prems(1)] Cons.prems(2) show ?thesis by force
  next
    case None
    let ?arr = "DynArray_write arr (num_entries arr) (Some (new_item fresh True (num_entries arr) c))"
    note a = append_item [OF Cons.prems(1) room refl, of "new_item fresh True (num_entries arr) c"]
    from None have "ADD_CHANNELS mem fresh True ?arr cs = Some arr'" using step Cons.prems(3) by simp
    with Cons.IH [OF a(1)] Cons.prems(2) a
    have ih: "num_entries arr' \<le> num_entries ?arr + length cs \<and>
       (set (map ch_name cs) \<inter> (\<lambda>it. ch_name (ci_channel it)) ` set (items ?arr) \<noteq> {} \<longrightarrow>
        num_entries arr' < num_entries ?arr + length cs)" by simp
    moreover have "(\<lambda>it. ch_name (ci_channel it)) ` set (items arr) \<subseteq> (\<lambda>it. ch_name (ci_channel it)) ` set (items ?arr)"
      using a(2) by auto
    moreover have "ch_name c \<notin> (\<lambda>it. ch_name (ci_channel it)) ` set (items arr)"
      using None match_by_name_None_iff [OF Cons.prems(1)] by blast
    ultimately show ?thesis using a(3) by auto
  qed
qed simp

lemma DynArrayCtor_channels:
  assumes "mem (n * 4)" "mem (BitsToAllocWords n * 4)" "0 < n" "n * 4 < 2 ^ 32"
  shows "\<exists>arr. DynArrayCtor mem no_array n = (1, arr) \<and> arr_ok arr \<and> items arr = [] \<and> ptr_array_space arr = n
     \<and> num_entries arr = 0"
proof -
  have "BitsToAllocWords n \<le> n" using assms by (simp add: BitsToAllocWords_small)
  then obtain arr where c: "DynArrayCtor mem no_array n = (1, arr)" and sp: "ptr_array_space arr = n"
    using assms by (auto simp: DynArrayCtor_def Let_def)
  from DynArrayCtor_wf [OF c] have "da_wf arr" "num_entries arr = 0" by simp_all
  then show ?thesis using c sp by (simp add: arr_ok_def items_def da.entries_def)
qed

theorem channels_array_construct_items:
  assumes "0 < length zs + length es" "(length zs + length es) * 4 < 2 ^ 32"
    and "mem ((length zs + length es) * 4)" "mem (BitsToAllocWords (length zs + length es) * 4)"
    and "distinct (map ch_name es)" "set (map ch_name zs) \<inter> set (map ch_name es) = {}"
  shows "\<exists>arr. channels_array_construct mem fresh zs es = Some arr \<and> arr_ok arr
     \<and> items arr = map (\<lambda>(n, c). new_item fresh False n c) (enumerate 0 zs)
                 @ map (\<lambda>(n, c). new_item fresh True n c) (enumerate (length zs) es)"
proof -
  let ?n = "length zs + length es"
  from DynArrayCtor_channels [OF assms(3,4,1,2)] obtain arr where
    c: "DynArrayCtor mem no_array ?n = (1, arr)" "arr_ok arr" "items arr = []" "ptr_array_space arr = ?n"
      "num_entries arr = 0" by blast
  have "\<exists>arr1. ADD_CHANNELS mem fresh False arr zs = Some arr1 \<and> arr_ok arr1
     \<and> items arr1 = items arr @ map (\<lambda>(n, c). new_item fresh False n c) (enumerate (num_entries arr) zs)
     \<and> ptr_array_space arr1 = ptr_array_space arr"
    by (rule ADD_CHANNELS_all) (use c in simp_all)
  then obtain arr1 where a1: "ADD_CHANNELS mem fresh False arr zs = Some arr1" "arr_ok arr1"
    "items arr1 = map (\<lambda>(n, c). new_item fresh False n c) (enumerate 0 zs)" "ptr_array_space arr1 = ?n"
    using c by auto
  then have n1: "num_entries arr1 = length zs" by (metis length_items length_map length_enumerate)
  have nm: "(\<lambda>it. ch_name (ci_channel it)) ` set (items arr1) = set (map ch_name zs)"
    unfolding a1(3) set_map [symmetric] new_item_names ..
  have "\<exists>arr2. ADD_CHANNELS mem fresh True arr1 es = Some arr2 \<and> arr_ok arr2
     \<and> items arr2 = items arr1 @ map (\<lambda>(n, c). new_item fresh True n c) (enumerate (num_entries arr1) es)
     \<and> ptr_array_space arr2 = ptr_array_space arr1"
    by (rule ADD_CHANNELS_all) (use a1 n1 nm assms(5,6) in auto)
  then obtain arr2 where a2: "ADD_CHANNELS mem fresh True arr1 es = Some arr2" "arr_ok arr2"
    "items arr2 = items arr1 @ map (\<lambda>(n, c). new_item fresh True n c) (enumerate (length zs) es)"
    using n1 by auto
  then have "num_entries arr2 = ?n" using n1 by (metis length_items length_map length_enumerate length_append)
  then show ?thesis using c(1) a1 a2 by (simp add: channels_array_construct_def)
qed

end
