(* ===== verification/ChannelDirs.thy ===== *)
theory ChannelDirs
  imports PathUtils ChannelsArray
begin

text \<open>
  The directories of the channel file system (\<open>lib/fs/channels_readdir.c\<close>): no channel is a
  directory, so the directories are read off the names of the channels. \<open>manifest_dirs\<close>, an array
  of at most 255 entries with its count, is the list of the entries in use.
\<close>

abbreviation (input) DIRECTORIES_MAX_NUMBER :: nat where "DIRECTORIES_MAX_NUMBER \<equiv> 255"

record dir_data_t =
  dir_inode :: int
  dd_parent_dir_inode :: int
  dd_nlink :: int
  dd_path :: string

type_synonym manifest_dirs_t = "dir_data_t list"

definition match_dir_in_directory_list :: "manifest_dirs_t \<Rightarrow> string \<Rightarrow> nat \<Rightarrow> nat option" where
  "match_dir_in_directory_list md dirpath len =
     (let len' = (if 1 < len \<and> char_at dirpath (len - 1) = SLASH then len - 1 else len)
      in first_index (\<lambda>i. strncmp_eq dirpath (dd_path (md ! i)) len' \<and> length (dd_path (md ! i)) = len')
           (length md) 0)"

definition match_inode_in_directory_list :: "manifest_dirs_t \<Rightarrow> int \<Rightarrow> nat option" where
  "match_inode_in_directory_list md inode = first_index (\<lambda>i. dir_inode (md ! i) = inode) (length md) 0"

text \<open>
  Adding a directory, with the directory that the second step of the backward walk names as its
  parent. The value is what the callback returns and the list after it.
\<close>

definition callback_add_dir :: "manifest_dirs_t \<Rightarrow> string \<Rightarrow> nat \<Rightarrow> int \<times> manifest_dirs_t" where
  "callback_add_dir md dirpath len =
     (if len = 0 then (-1, md)
      else case match_dir_in_directory_list md dirpath len of
        Some _ \<Rightarrow> (-1, md)
      | None \<Rightarrow>
          if length md < DIRECTORIES_MAX_NUMBER then
            (let inode = int (length md);
                 path = take len dirpath;
                 (_, cursor, _) = path_subpath_backward DEFAULT_TEMP_CURSOR_VALUE path 0;
                 (parentdir_path, _, parentdir_len) = path_subpath_backward cursor path 0;
                 parentdir_data = (if parentdir_path \<noteq> None
                                   then match_dir_in_directory_list md path (nat parentdir_len) else None);
                 parent = (case parentdir_data of Some k \<Rightarrow> dir_inode (md ! k) | None \<Rightarrow> inode)
             in (0, md @ [\<lparr>dir_inode = inode, dd_parent_dir_inode = parent, dd_nlink = 2, dd_path = path\<rparr>]))
          else (-2, md))"

text \<open>The recursion over the prefixes of a path that end before a slash, the longest first.\<close>

function process_subdirs_via_callback :: "manifest_dirs_t \<Rightarrow> string \<Rightarrow> nat \<Rightarrow> manifest_dirs_t" where
  "process_subdirs_via_callback md path len =
     (case locate_last path len SLASH of
        None \<Rightarrow> md
      | Some i \<Rightarrow>
          (let subpathlen = (if 1 < len \<and> i = 0 then 1 else i)
           in snd (callback_add_dir (process_subdirs_via_callback md path subpathlen) path subpathlen)))"
  by pat_completeness auto
termination
  by (relation "measure (\<lambda>(md, path, len). len)") (auto dest: locate_last_SomeD)

declare process_subdirs_via_callback.simps [simp del]

definition name_from_path_get_path_len :: "string \<Rightarrow> (nat \<times> nat) option" where
  "name_from_path_get_path_len fullpath =
     (case locate_last fullpath (length fullpath) SLASH of
        None \<Rightarrow> None
      | Some k \<Rightarrow> if char_at fullpath (Suc k) = CHR 0x00 then None
                  else Some (Suc k, if 1 < Suc k then k else Suc k))"

text \<open>The test of \<open>get_sub_dir_index\<close> and of the listing of a directory: is \<open>p\<close> directly below \<open>dirpath\<close>?\<close>

definition is_sub_path :: "string \<Rightarrow> string \<Rightarrow> bool" where
  "is_sub_path dirpath p =
     (strncmp_eq dirpath p (length dirpath) \<and> length dirpath + 1 < length p
      \<and> SLASH \<notin> set (drop (length dirpath + 1) p))"

definition get_sub_dir_index :: "manifest_dirs_t \<Rightarrow> string \<Rightarrow> nat \<Rightarrow> nat option" where
  "get_sub_dir_index md dirpath index =
     first_index (\<lambda>i. is_sub_path dirpath (dd_path (md ! i))) (length md) index"

text \<open>The \<open>do ... while\<close> loop that counts the subdirectories of one directory.\<close>

function count_sub_dirs :: "manifest_dirs_t \<Rightarrow> string \<Rightarrow> nat \<Rightarrow> int" where
  "count_sub_dirs md dirpath index =
     (case get_sub_dir_index md dirpath index of
        None \<Rightarrow> 0
      | Some i \<Rightarrow> 1 + count_sub_dirs md dirpath (i + 1))"
  by pat_completeness auto
termination
  by (relation "measure (\<lambda>(md, path, index). length md - index)")
     (auto simp: get_sub_dir_index_def dest!: first_index_SomeD)

declare count_sub_dirs.simps [simp del]

fun create_dirs :: "manifest_dirs_t \<Rightarrow> string list \<Rightarrow> manifest_dirs_t" where
  "create_dirs md [] = md"
| "create_dirs md (name # names) = create_dirs (process_subdirs_via_callback md name (length name)) names"

text \<open>
  The two loops of \<open>process_channels_create_dir_list\<close>: the directories of every channel name, then
  the final inodes, after those of the \<open>n\<close> channels, and the link counts.
\<close>

definition process_channels_create_dir_list :: "channels_array_t \<Rightarrow> manifest_dirs_t \<Rightarrow> manifest_dirs_t" where
  "process_channels_create_dir_list channels md =
     (let n = int (channels_array_count channels);
          md1 = create_dirs md (map (\<lambda>i. ch_name (ci_channel (the (channels_array_get channels i))))
                                    [0..<channels_array_count channels])
      in map (\<lambda>d. d\<lparr>dir_inode := INODE_FROM_ZVM_INODE (dir_inode d + n),
                    dd_parent_dir_inode := INODE_FROM_ZVM_INODE (dd_parent_dir_inode d + n),
                    dd_nlink := dd_nlink d + count_sub_dirs md1 (dd_path d) 0\<rparr>) md1)"

section \<open>Absolute paths as lists of components\<close>

definition path_of :: "string list \<Rightarrow> string" where
  "path_of cs = concat (map (\<lambda>c. SLASH # c) cs)"

definition dir_name :: "string list \<Rightarrow> string" where
  "dir_name cs = (if cs = [] then [SLASH] else path_of cs)"

definition comps_ok :: "string list \<Rightarrow> bool" where
  "comps_ok cs \<longleftrightarrow> (\<forall>c \<in> set cs. c \<noteq> [] \<and> SLASH \<notin> set c)"

lemma path_of_simps [simp]:
  "path_of [] = []" "path_of (c # cs) = SLASH # c @ path_of cs" "path_of (cs @ ds) = path_of cs @ path_of ds"
  by (simp_all add: path_of_def)

lemma comps_ok_simps [simp]:
  "comps_ok []" "comps_ok (c # cs) \<longleftrightarrow> c \<noteq> [] \<and> SLASH \<notin> set c \<and> comps_ok cs"
  "comps_ok (cs @ ds) \<longleftrightarrow> comps_ok cs \<and> comps_ok ds"
  by (auto simp: comps_ok_def)

lemma path_of_ends: "comps_ok cs \<Longrightarrow> path_of cs = [] \<or> hd (path_of cs) = SLASH \<and> last (path_of cs) \<noteq> SLASH"
proof (cases cs rule: rev_cases)
  case (snoc ds c)
  assume ok: "comps_ok cs"
  then have "last c \<noteq> SLASH" using snoc by (metis comps_ok_simps(2,3) last_in_set)
  then show ?thesis using ok snoc by (cases ds) auto
qed simp

lemma dir_name_nonempty [simp]: "dir_name cs \<noteq> []"
  by (cases cs) (simp_all add: dir_name_def)

lemma dir_name_last: "comps_ok cs \<Longrightarrow> 1 < length (dir_name cs) \<Longrightarrow> last (dir_name cs) \<noteq> SLASH"
  using path_of_ends [of cs] by (cases cs) (auto simp: dir_name_def)

section \<open>Searching the list\<close>

definition dir_paths :: "manifest_dirs_t \<Rightarrow> string list" where
  "dir_paths md = map dd_path md"

lemma match_dir_prefix:
  assumes ok: "comps_ok cs" and t: "take len path = dir_name cs" and len: "len \<le> length path"
  shows "match_dir_in_directory_list md path len = first_index (\<lambda>i. dd_path (md ! i) = dir_name cs) (length md) 0"
proof -
  have l: "length (dir_name cs) = len" using t len by (metis length_take min.absorb2)
  have "char_at path (len - 1) \<noteq> SLASH" if "1 < len"
  proof -
    have "take len path \<noteq> []" using that len by auto
    then have "last (take len path) = path ! (len - 1)" using that len by (simp add: last_conv_nth)
    moreover have "len - 1 < length path" using that len by arith
    ultimately have "char_at path (len - 1) = last (dir_name cs)" using t by (simp add: char_at_def)
    with dir_name_last [OF ok] that l show ?thesis by simp
  qed
  then have "match_dir_in_directory_list md path len
      = first_index (\<lambda>i. strncmp_eq path (dd_path (md ! i)) len \<and> length (dd_path (md ! i)) = len) (length md) 0"
    by (auto simp: match_dir_in_directory_list_def Let_def)
  then show ?thesis by (simp add: strncmp_eq_exact [OF len] t)
qed

lemma match_dir_None_iff:
  assumes "comps_ok cs" "take len path = dir_name cs" "len \<le> length path"
  shows "match_dir_in_directory_list md path len = None \<longleftrightarrow> dir_name cs \<notin> set (dir_paths md)"
  unfolding match_dir_prefix [OF assms] first_index_None_iff dir_paths_def
  by (metis in_set_conv_nth le0 length_map nth_map)

lemma match_dir_SomeD:
  assumes "comps_ok cs" "take len path = dir_name cs" "len \<le> length path"
    and "match_dir_in_directory_list md path len = Some k"
  shows "k < length md \<and> dd_path (md ! k) = dir_name cs"
  using assms(4) by (auto simp: match_dir_prefix [OF assms(1-3)] first_index_Some_iff)

text \<open>The parent that the backward walk leads to.\<close>

definition parent_index :: "manifest_dirs_t \<Rightarrow> string list \<Rightarrow> nat option" where
  "parent_index md cs = (if cs = [] then None
     else first_index (\<lambda>i. dd_path (md ! i) = dir_name (butlast cs)) (length md) 0)"

lemma callback_add_dir_eq:
  assumes ok: "comps_ok cs" and t: "take len path = dir_name cs" and len: "len \<le> length path"
  shows "callback_add_dir md path len =
    (if dir_name cs \<in> set (dir_paths md) then (-1, md)
     else if length md < DIRECTORIES_MAX_NUMBER then
       (0, md @ [\<lparr>dir_inode = int (length md),
                 dd_parent_dir_inode = (case parent_index md cs of Some k \<Rightarrow> dir_inode (md ! k) | None \<Rightarrow> int (length md)),
                 dd_nlink = 2, dd_path = dir_name cs\<rparr>])
     else (-2, md))"
proof (cases cs rule: rev_cases)
  case Nil
  have "0 < len" using t by (metis dir_name_nonempty gr0I take_0)
  then show ?thesis
    using match_dir_None_iff [OF ok t len, of md] Nil t
    by (auto simp: callback_add_dir_def parent_index_def dir_name_def path_subpath_backward_root Let_def
             split: option.splits)
next
  case (snoc ds c)
  have "0 < len" using t by (metis dir_name_nonempty gr0I take_0)
  have dn: "dir_name cs = path_of ds @ SLASH # c" using snoc by (simp add: dir_name_def)
  have c: "c \<noteq> []" "SLASH \<notin> set c" and ds: "comps_ok ds" using ok snoc by auto
  note b1 = path_subpath_backward_first [OF c(2,1), of "path_of ds" 0]
  from path_subpath_backward_parent [OF path_of_ends [OF ds], of c 0] obtain cur where
    b2: "path_subpath_backward (int (length (path_of ds))) (path_of ds @ SLASH # c) 0
        = (Some 0, cur, if path_of ds = [] then 1 else int (length (path_of ds)))" by blast
  have e: "path_of ds = [] \<longleftrightarrow> ds = []" by (cases ds) auto
  have "match_dir_in_directory_list md (dir_name cs) (nat (if path_of ds = [] then 1 else int (length (path_of ds))))
      = parent_index md cs"
    unfolding parent_index_def using snoc
    by (subst match_dir_prefix [OF ds]) (auto simp: dn e dir_name_def)
  then show ?thesis
    using match_dir_None_iff [OF ok t len, of md] b1 b2 t \<open>0 < len\<close>
    by (auto simp: callback_add_dir_def dn Let_def split: option.splits)
qed

section \<open>The list stays well formed, and closed under parents\<close>

definition dirs_inv :: "manifest_dirs_t \<Rightarrow> bool" where
  "dirs_inv md \<longleftrightarrow> distinct (dir_paths md) \<and> length md \<le> DIRECTORIES_MAX_NUMBER \<and>
     (\<forall>i < length md. dir_inode (md ! i) = int i \<and> dd_nlink (md ! i) = 2 \<and>
       (\<exists>cs. comps_ok cs \<and> dd_path (md ! i) = dir_name cs \<and>
         (if cs = [] then dd_parent_dir_inode (md ! i) = int i
          else \<exists>j < length md. dd_path (md ! j) = dir_name (butlast cs) \<and> dd_parent_dir_inode (md ! i) = int j)))"

lemma dirs_inv_Nil [simp]: "dirs_inv []"
  by (simp add: dirs_inv_def dir_paths_def)

lemma callback_add_dir_inv:
  assumes inv: "dirs_inv md" and ok: "comps_ok cs" and t: "take len path = dir_name cs" and len: "len \<le> length path"
    and par: "cs = [] \<or> dir_name (butlast cs) \<in> set (dir_paths md) \<or> DIRECTORIES_MAX_NUMBER \<le> length md"
  defines "md' \<equiv> snd (callback_add_dir md path len)"
  shows "dirs_inv md'" "prefix md md'" "dir_name cs \<in> set (dir_paths md') \<or> DIRECTORIES_MAX_NUMBER \<le> length md'"
proof -
  note e = callback_add_dir_eq [OF ok t len, of md]
  show "prefix md md'" by (simp add: md'_def e)
  show "dir_name cs \<in> set (dir_paths md') \<or> DIRECTORIES_MAX_NUMBER \<le> length md'"
    by (auto simp: md'_def e dir_paths_def)
  show "dirs_inv md'"
  proof (cases "dir_name cs \<notin> set (dir_paths md) \<and> length md < DIRECTORIES_MAX_NUMBER")
    case False
    then have "md' = md" by (auto simp: md'_def e)
    with inv show ?thesis by simp
  next
    case True
    define pn where "pn = (case parent_index md cs of Some k \<Rightarrow> dir_inode (md ! k) | None \<Rightarrow> int (length md))"
    have m: "md' = md @ [\<lparr>dir_inode = int (length md), dd_parent_dir_inode = pn, dd_nlink = 2, dd_path = dir_name cs\<rparr>]"
      using True by (simp add: md'_def e pn_def)
    have new: "if cs = [] then pn = int (length md)
        else \<exists>j < length md. dd_path (md ! j) = dir_name (butlast cs) \<and> pn = int j"
    proof (cases "cs = []")
      case False
      with par True obtain j where "j < length md" "dd_path (md ! j) = dir_name (butlast cs)"
        by (auto simp: dir_paths_def in_set_conv_nth)
      then obtain k where k: "parent_index md cs = Some k"
        using False by (cases "parent_index md cs") (auto simp: parent_index_def first_index_None_iff)
      then have "k < length md" "dd_path (md ! k) = dir_name (butlast cs)"
        using False by (auto simp: parent_index_def first_index_Some_iff)
      with k inv False show ?thesis by (auto simp: pn_def dirs_inv_def)
    qed (simp add: pn_def parent_index_def)
    have nthm: "j < length md \<Longrightarrow> md' ! j = md ! j" for j by (simp add: m nth_append)
    have lst: "dir_inode (md' ! length md) = int (length md)" "dd_nlink (md' ! length md) = 2"
      "dd_path (md' ! length md) = dir_name cs" "dd_parent_dir_inode (md' ! length md) = pn"
      by (simp_all add: m)
    have len': "length md' = Suc (length md)" by (simp add: m)
    have each: "dir_inode (md' ! i) = int i \<and> dd_nlink (md' ! i) = 2 \<and>
       (\<exists>cs. comps_ok cs \<and> dd_path (md' ! i) = dir_name cs \<and>
         (if cs = [] then dd_parent_dir_inode (md' ! i) = int i
          else \<exists>j < length md'. dd_path (md' ! j) = dir_name (butlast cs) \<and> dd_parent_dir_inode (md' ! i) = int j))"
      if i: "i < length md'" for i
    proof (cases "i = length md")
      case True
      have "if cs = [] then dd_parent_dir_inode (md' ! i) = int i
          else \<exists>j < length md'. dd_path (md' ! j) = dir_name (butlast cs) \<and> dd_parent_dir_inode (md' ! i) = int j"
        using new nthm lst(4) len' True by (metis less_SucI)
      with ok lst True show ?thesis by metis
    next
      case False
      with i len' have i': "i < length md" by simp
      with inv obtain ds where ds: "dir_inode (md ! i) = int i" "dd_nlink (md ! i) = 2" "comps_ok ds"
        "dd_path (md ! i) = dir_name ds" "if ds = [] then dd_parent_dir_inode (md ! i) = int i
          else \<exists>j < length md. dd_path (md ! j) = dir_name (butlast ds) \<and> dd_parent_dir_inode (md ! i) = int j"
        unfolding dirs_inv_def by blast
      from ds(5) have "if ds = [] then dd_parent_dir_inode (md' ! i) = int i
          else \<exists>j < length md'. dd_path (md' ! j) = dir_name (butlast ds) \<and> dd_parent_dir_inode (md' ! i) = int j"
        using nthm len' i' by (metis less_SucI)
      with ds(1-4) nthm [OF i'] show ?thesis by metis
    qed
    have "distinct (dir_paths md')" "length md' \<le> DIRECTORIES_MAX_NUMBER"
      using inv True by (simp_all add: m dir_paths_def dirs_inv_def)
    with each show ?thesis unfolding dirs_inv_def by blast
  qed
qed

lemma locate_last_path_of:
  assumes "comps_ok (ds @ [c])" "prefix (path_of (ds @ [c])) path"
  shows "locate_last path (length (path_of (ds @ [c]))) SLASH = Some (length (path_of ds))"
proof -
  from assms(2) obtain rest where p: "path = (path_of ds @ SLASH # c) @ rest" by (auto simp: prefix_def)
  have c: "j < length (path_of ds @ SLASH # c) \<Longrightarrow> char_at path j = char_at (path_of ds @ SLASH # c) j" for j
    unfolding p char_at_append [of "path_of ds @ SLASH # c" rest] by (simp only: char_at_def if_True)
  have "SLASH \<notin> set c" using assms(1) by simp
  from locate_last_split [OF this, of "path_of ds"]
  have "locate_last (path_of ds @ SLASH # c) (length (path_of ds @ SLASH # c)) SLASH = Some (length (path_of ds))" .
  then have "locate_last path (length (path_of ds @ SLASH # c)) SLASH = Some (length (path_of ds))"
    unfolding locate_last_Some_iff using c by auto
  then show ?thesis by simp
qed

lemma process_subdirs_step:
  assumes "comps_ok (ds @ [c])" "prefix (path_of (ds @ [c])) path"
  shows "process_subdirs_via_callback md path (length (path_of (ds @ [c]))) =
     snd (callback_add_dir (if ds = [] then md else process_subdirs_via_callback md path (length (path_of ds)))
            path (length (dir_name ds)))"
proof (cases "ds = []")
  case True
  from assms True have "char_at path 0 = SLASH" by (auto simp: char_at_def prefix_def)
  then have one: "process_subdirs_via_callback md path 1 = md"
    by (simp add: process_subdirs_via_callback.simps callback_add_dir_def)
  have "1 < length (path_of (ds @ [c]))" using assms True by (simp add: Suc_lessI)
  with one True show ?thesis
    unfolding process_subdirs_via_callback.simps [of md path "length (path_of (ds @ [c]))"] locate_last_path_of [OF assms]
    by (simp add: dir_name_def Let_def)
next
  case False
  then have "length (path_of ds) \<noteq> 0" by (cases ds) auto
  with False show ?thesis
    unfolding process_subdirs_via_callback.simps [of md path "length (path_of (ds @ [c]))"] locate_last_path_of [OF assms]
    by (simp add: dir_name_def Let_def)
qed

lemma process_subdirs_inv:
  assumes "dirs_inv md" "comps_ok (ds @ [c])" "prefix (path_of (ds @ [c])) path"
  shows "dirs_inv (process_subdirs_via_callback md path (length (path_of (ds @ [c]))))
     \<and> prefix md (process_subdirs_via_callback md path (length (path_of (ds @ [c]))))
     \<and> (\<forall>k \<le> length ds. dir_name (take k ds) \<in> set (dir_paths (process_subdirs_via_callback md path (length (path_of (ds @ [c])))))
           \<or> DIRECTORIES_MAX_NUMBER \<le> length (process_subdirs_via_callback md path (length (path_of (ds @ [c])))))"
  using assms
proof (induction ds arbitrary: c rule: rev_induct)
  case Nil
  have "take 1 path = dir_name []" "1 \<le> length path"
    using Nil.prems(3) by (auto simp: prefix_def dir_name_def)
  from callback_add_dir_inv [OF Nil.prems(1) _ this] process_subdirs_step [OF Nil.prems(2,3), of md] show ?case
    by (simp add: dir_name_def Let_def)
next
  case (snoc e es)
  let ?m1 = "process_subdirs_via_callback md path (length (path_of (es @ [e])))"
  let ?m2 = "process_subdirs_via_callback md path (length (path_of ((es @ [e]) @ [c])))"
  have ok: "comps_ok (es @ [e])" and pre: "prefix (path_of (es @ [e])) path"
    using snoc.prems by (auto simp: prefix_def)
  note ih = snoc.IH [OF snoc.prems(1) ok pre]
  have tk: "take (length (dir_name (es @ [e]))) path = dir_name (es @ [e])" "length (dir_name (es @ [e])) \<le> length path"
    using pre by (auto simp: prefix_def dir_name_def)
  have m2: "?m2 = snd (callback_add_dir ?m1 path (length (dir_name (es @ [e]))))"
    using process_subdirs_step [OF snoc.prems(2,3), of md] by simp
  have par: "es @ [e] = [] \<or> dir_name (butlast (es @ [e])) \<in> set (dir_paths ?m1) \<or> DIRECTORIES_MAX_NUMBER \<le> length ?m1"
    using ih by (auto dest: spec [of _ "length es"])
  note cb = callback_add_dir_inv [OF conjunct1 [OF ih] ok tk par, folded m2]
  have up: "set (dir_paths ?m1) \<subseteq> set (dir_paths ?m2)" "length ?m1 \<le> length ?m2"
    using cb(2) by (auto simp: prefix_def dir_paths_def)
  have "dir_name (take k (es @ [e])) \<in> set (dir_paths ?m2) \<or> DIRECTORIES_MAX_NUMBER \<le> length ?m2"
    if "k \<le> length (es @ [e])" for k
  proof (cases "k \<le> length es")
    case True
    with ih have "dir_name (take k es) \<in> set (dir_paths ?m1) \<or> DIRECTORIES_MAX_NUMBER \<le> length ?m1" by blast
    with True up show ?thesis by auto
  next
    case False
    with that have "take k (es @ [e]) = es @ [e]" by simp
    with cb(3) show ?thesis by simp
  qed
  with cb(1,2) ih show ?case using prefix_order.trans by blast
qed

section \<open>The whole list\<close>

text \<open>A channel name that is an absolute path without empty components.\<close>

definition chan_path :: "string \<Rightarrow> bool" where
  "chan_path nm \<longleftrightarrow> (\<exists>ds c. comps_ok (ds @ [c]) \<and> nm = path_of (ds @ [c]))"

lemma process_subdirs_name:
  assumes "dirs_inv md" "comps_ok (ds @ [c])" "nm = path_of (ds @ [c])"
    and m: "m = process_subdirs_via_callback md nm (length nm)"
  shows "dirs_inv m" "prefix md m"
    and "k \<le> length ds \<Longrightarrow> dir_name (take k ds) \<in> set (dir_paths m) \<or> DIRECTORIES_MAX_NUMBER \<le> length m"
  using process_subdirs_inv [OF assms(1,2), of nm] unfolding m assms(3) by blast+

definition has_ancestors :: "manifest_dirs_t \<Rightarrow> string list \<Rightarrow> bool" where
  "has_ancestors md ds \<longleftrightarrow>
     (\<forall>k \<le> length ds. dir_name (take k ds) \<in> set (dir_paths md) \<or> DIRECTORIES_MAX_NUMBER \<le> length md)"

lemma has_ancestors_prefix: "has_ancestors md ds \<Longrightarrow> prefix md md' \<Longrightarrow> has_ancestors md' ds"
  by (fastforce simp: has_ancestors_def prefix_def dir_paths_def)

lemma create_dirs_inv:
  assumes "dirs_inv md" "\<And>nm. nm \<in> set names \<Longrightarrow> chan_path nm"
  shows "dirs_inv (create_dirs md names) \<and> prefix md (create_dirs md names) \<and>
    (\<forall>ds c. path_of (ds @ [c]) \<in> set names \<longrightarrow> comps_ok (ds @ [c]) \<longrightarrow> has_ancestors (create_dirs md names) ds)"
  using assms
proof (induction names arbitrary: md)
  case (Cons nm names)
  define m where "m = process_subdirs_via_callback md nm (length nm)"
  from Cons.prems(2) obtain ds c where nm: "comps_ok (ds @ [c])" "nm = path_of (ds @ [c])"
    unfolding chan_path_def by (metis list.set_intros(1))
  note p = process_subdirs_name [OF Cons.prems(1) nm m_def]
  have ih: "dirs_inv (create_dirs m names) \<and> prefix m (create_dirs m names) \<and>
    (\<forall>ds c. path_of (ds @ [c]) \<in> set names \<longrightarrow> comps_ok (ds @ [c]) \<longrightarrow> has_ancestors (create_dirs m names) ds)"
    by (rule Cons.IH [OF p(1)]) (use Cons.prems(2) in auto)
  have here: "has_ancestors (create_dirs m names) es" if "comps_ok (es @ [e])" "nm = path_of (es @ [e])" for es e
  proof -
    have "has_ancestors m es"
      using process_subdirs_name(3) [OF Cons.prems(1) that m_def] by (simp add: has_ancestors_def)
    with ih show ?thesis using has_ancestors_prefix by blast
  qed
  have c: "create_dirs md (nm # names) = create_dirs m names" by (simp add: m_def)
  show ?case unfolding c
  proof (intro conjI allI impI)
    fix es e assume "path_of (es @ [e]) \<in> set (nm # names)" "comps_ok (es @ [e])"
    then show "has_ancestors (create_dirs m names) es"
      using here [of es e] ih by (metis set_ConsD)
  qed (use ih p(2) prefix_order.trans in blast)+
qed simp

lemma count_sub_dirs_filter:
  "count_sub_dirs md p i = int (length (filter (is_sub_path p) (drop i (dir_paths md))))"
proof (induction md p i rule: count_sub_dirs.induct)
  case (1 md p i)
  have g: "get_sub_dir_index md p i = first_index (\<lambda>i. is_sub_path p (dir_paths md ! i)) (length (dir_paths md)) i"
    unfolding get_sub_dir_index_def dir_paths_def length_map by (rule first_index_cong) simp
  show ?case
    unfolding count_sub_dirs.simps [of md p i] filter_first_index [of "is_sub_path p" i "dir_paths md"] g [symmetric]
    using 1 by (simp split: option.split)
qed

lemma channel_names:
  assumes "arr_ok arr"
  shows "map (\<lambda>i. ch_name (ci_channel (the (channels_array_get arr i)))) [0..<channels_array_count arr]
    = map (\<lambda>it. ch_name (ci_channel it)) (items arr)"
  by (rule nth_equalityI) (simp_all add: channels_array_count_def channels_array_get_def get_items [OF assms])

lemma final_dir_fields:
  assumes "arr_ok arr" "md1 = create_dirs md (map (\<lambda>it. ch_name (ci_channel it)) (items arr))"
    and "i < length md1" "fin = process_channels_create_dir_list arr md"
  shows "dir_inode (fin ! i) = INODE_FROM_ZVM_INODE (dir_inode (md1 ! i) + int (num_entries arr))"
    and "dd_parent_dir_inode (fin ! i) = INODE_FROM_ZVM_INODE (dd_parent_dir_inode (md1 ! i) + int (num_entries arr))"
    and "dd_nlink (fin ! i) = dd_nlink (md1 ! i) + int (length (filter (is_sub_path (dd_path (md1 ! i))) (dir_paths md1)))"
    and "dd_path (fin ! i) = dd_path (md1 ! i)"
  using assms
  by (simp_all add: process_channels_create_dir_list_def Let_def channel_names count_sub_dirs_filter)
     (simp_all add: channels_array_count_def)

lemma dir_paths_final:
  "arr_ok arr \<Longrightarrow> dir_paths (process_channels_create_dir_list arr md)
     = dir_paths (create_dirs md (map (\<lambda>it. ch_name (ci_channel it)) (items arr)))"
  by (simp add: process_channels_create_dir_list_def Let_def channel_names dir_paths_def)

lemma channel_dirs_built:
  assumes "arr_ok arr" "\<forall>it \<in> set (items arr). chan_path (ch_name (ci_channel it))"
    and "fin = process_channels_create_dir_list arr []"
  obtains md1 where "md1 = create_dirs [] (map (\<lambda>it. ch_name (ci_channel it)) (items arr))" "dirs_inv md1"
    "\<forall>ds c. path_of (ds @ [c]) \<in> (\<lambda>it. ch_name (ci_channel it)) ` set (items arr) \<longrightarrow> comps_ok (ds @ [c]) \<longrightarrow> has_ancestors md1 ds"
    "dir_paths fin = dir_paths md1" "length fin = length md1"
proof -
  let ?md1 = "create_dirs [] (map (\<lambda>it. ch_name (ci_channel it)) (items arr))"
  have nms: "\<And>nm. nm \<in> set (map (\<lambda>it. ch_name (ci_channel it)) (items arr)) \<Longrightarrow> chan_path nm" using assms(2) by auto
  have dp: "dir_paths fin = dir_paths ?md1" unfolding assms(3) by (rule dir_paths_final [OF assms(1)])
  then have "length fin = length ?md1" by (metis dir_paths_def length_map)
  moreover have "dirs_inv ?md1 \<and> prefix [] ?md1 \<and> (\<forall>ds c. path_of (ds @ [c]) \<in> set (map (\<lambda>it. ch_name (ci_channel it)) (items arr))
      \<longrightarrow> comps_ok (ds @ [c]) \<longrightarrow> has_ancestors ?md1 ds)"
    by (rule create_dirs_inv [OF dirs_inv_Nil nms])
  ultimately show ?thesis using dp that [of ?md1] unfolding set_map by blast
qed

text \<open>
  (C17) The directory list that the channel file system builds from the names of its channels, when the
  names are absolute paths without empty components: no directory is listed twice, there are at most
  255, and every directory above a channel is listed, the root included, unless the list is full.
\<close>

theorem channel_directories_complete:
  assumes "arr_ok arr" "\<forall>it \<in> set (items arr). chan_path (ch_name (ci_channel it))"
    and "fin = process_channels_create_dir_list arr []"
  shows "distinct (dir_paths fin) \<and> length fin \<le> DIRECTORIES_MAX_NUMBER \<and>
    (\<forall>it \<in> set (items arr). \<forall>ds c k. ch_name (ci_channel it) = path_of (ds @ [c]) \<longrightarrow> comps_ok (ds @ [c]) \<longrightarrow> k \<le> length ds
       \<longrightarrow> dir_name (take k ds) \<in> set (dir_paths fin) \<or> length fin = DIRECTORIES_MAX_NUMBER)"
proof -
  from channel_dirs_built [OF assms] obtain md1 where md1: "dirs_inv md1"
    "\<forall>ds c. path_of (ds @ [c]) \<in> (\<lambda>it. ch_name (ci_channel it)) ` set (items arr) \<longrightarrow> comps_ok (ds @ [c]) \<longrightarrow> has_ancestors md1 ds"
    "dir_paths fin = dir_paths md1" "length fin = length md1" by metis
  have "length md1 \<le> DIRECTORIES_MAX_NUMBER" "distinct (dir_paths md1)" using md1(1) by (simp_all add: dirs_inv_def)
  moreover have "has_ancestors md1 ds" if "it \<in> set (items arr)" "ch_name (ci_channel it) = path_of (ds @ [c])"
    "comps_ok (ds @ [c])" for it ds c
    using md1(2) that by (metis imageI)
  ultimately show ?thesis unfolding md1(3,4) has_ancestors_def by (meson le_antisym)
qed

text \<open>
  The entries of the finished directory list: the inodes continue those of the channels; the root
  is its own parent and every other directory has the inode of the directory above it as its parent;
  the link count is two plus the number of listed directories that \<open>get_sub_dir_index\<close> takes to lie
  directly below.
\<close>

theorem channel_directories_linked:
  assumes "arr_ok arr" "\<forall>it \<in> set (items arr). chan_path (ch_name (ci_channel it))"
    and "fin = process_channels_create_dir_list arr []" "i < length fin"
  shows "dir_inode (fin ! i) = 11 + int (num_entries arr) + int i
    \<and> dd_nlink (fin ! i) = 2 + int (length (filter (is_sub_path (dd_path (fin ! i))) (dir_paths fin)))
    \<and> (\<exists>cs. comps_ok cs \<and> dd_path (fin ! i) = dir_name cs
         \<and> (if cs = [] then dd_parent_dir_inode (fin ! i) = dir_inode (fin ! i)
            else \<exists>j < length fin. dd_path (fin ! j) = dir_name (butlast cs)
                   \<and> dd_parent_dir_inode (fin ! i) = dir_inode (fin ! j)))"
proof -
  from channel_dirs_built [OF assms(1-3)] obtain md1 where
    m: "md1 = create_dirs [] (map (\<lambda>it. ch_name (ci_channel it)) (items arr))" and inv: "dirs_inv md1"
    and dp: "dir_paths fin = dir_paths md1" and len: "length fin = length md1" by metis
  note f = final_dir_fields [OF assms(1) m _ assms(3)]
  have i: "i < length md1" using assms(4) len by simp
  with inv obtain cs where cs: "dir_inode (md1 ! i) = int i" "dd_nlink (md1 ! i) = 2" "comps_ok cs"
    "dd_path (md1 ! i) = dir_name cs" "if cs = [] then dd_parent_dir_inode (md1 ! i) = int i
        else \<exists>j < length md1. dd_path (md1 ! j) = dir_name (butlast cs) \<and> dd_parent_dir_inode (md1 ! i) = int j"
    unfolding dirs_inv_def by blast
  have "if cs = [] then dd_parent_dir_inode (fin ! i) = dir_inode (fin ! i)
     else \<exists>j < length fin. dd_path (fin ! j) = dir_name (butlast cs) \<and> dd_parent_dir_inode (fin ! i) = dir_inode (fin ! j)"
  proof (cases "cs = []")
    case True
    with cs(1,5) show ?thesis by (simp add: f [OF i])
  next
    case False
    with cs(5) obtain j where j: "j < length md1" "dd_path (md1 ! j) = dir_name (butlast cs)" "dd_parent_dir_inode (md1 ! i) = int j"
      by auto
    have "dir_inode (md1 ! j) = int j" using inv j(1) by (simp add: dirs_inv_def)
    then have "dd_path (fin ! j) = dir_name (butlast cs) \<and> dd_parent_dir_inode (fin ! i) = dir_inode (fin ! j)"
      by (simp only: f [OF i] f [OF j(1)] j)
    with False j(1) len show ?thesis by auto
  qed
  moreover have "dd_path (fin ! i) = dir_name cs" by (simp only: f [OF i] cs(4))
  moreover have "dir_inode (fin ! i) = 11 + int (num_entries arr) + int i"
    by (simp add: f(1) [OF i] cs(1) INODE_FROM_ZVM_INODE_def)
  moreover have "dd_nlink (fin ! i) = 2 + int (length (filter (is_sub_path (dd_path (fin ! i))) (dir_paths fin)))"
    by (simp only: f(3,4) [OF i] cs(2) dp)
  ultimately show ?thesis using cs(3) by blast
qed

end
