(* ===== verification/DirentEngine.thy ===== *)
theory DirentEngine
  imports ZrtPrelude
begin

text \<open>
  Directory entries in a user buffer (\<open>lib/fs/dirent_engine.c\<close>), as the ZeroVM build lays them out
  (\<open>ZRTDIRENT\<close>): records of variable length, each a multiple of eight bytes. \<open>struct dirent\<close> belongs
  to the C library: \<open>d_ino\<close> and \<open>d_off\<close> of equal width, then \<open>d_reclen\<close> of two bytes and \<open>d_type\<close> of one, with
  \<open>d_name\<close> behind them, at the offset that is the argument \<open>name_off\<close>. The buffer is memory of bytes,
  least significant byte first; an \<open>unsigned long\<close> has 32 bits.

  Reading a buffer back with \<open>get_next_item_from_dirent_buf\<close> gives what was put into it.
\<close>

type_synonym dirent_buf = "nat \<Rightarrow> char"

section \<open>Bytes\<close>

definition put_bytes :: "dirent_buf \<Rightarrow> nat \<Rightarrow> char list \<Rightarrow> dirent_buf" where
  "put_bytes buf at bs = (\<lambda>i. if at \<le> i \<and> i < at + length bs then bs ! (i - at) else buf i)"

fun le_bytes :: "nat \<Rightarrow> int \<Rightarrow> char list" where
  "le_bytes 0 v = []"
| "le_bytes (Suc w) v = char_of v # le_bytes w (v div 256)"

fun le_value :: "dirent_buf \<Rightarrow> nat \<Rightarrow> nat \<Rightarrow> int" where
  "le_value buf at 0 = 0"
| "le_value buf at (Suc w) = of_char (buf at) + 256 * le_value buf (Suc at) w"

lemma length_le_bytes [simp]: "length (le_bytes w v) = w"
  by (induction w arbitrary: v) simp_all

lemma le_value_bytes: "(\<forall>i < w. buf (at + i) = le_bytes w v ! i) \<Longrightarrow> le_value buf at w = v mod 256 ^ w"
proof (induction w arbitrary: at v)
  case (Suc w)
  have "buf at = char_of v" using Suc.prems by force
  moreover have "\<forall>i < w. buf (Suc at + i) = le_bytes w (v div 256) ! i" using Suc.prems by force
  ultimately have "le_value buf at (Suc w) = v mod 256 + 256 * (v div 256 mod 256 ^ w)" using Suc.IH [of "Suc at"] by (simp add: of_char_of)
  also have "\<dots> = v mod 256 ^ Suc w" by (simp add: zmod_zmult2_eq)
  finally show ?case .
qed simp

section \<open>Entries\<close>

text \<open>The width of \<open>d_ino\<close> and of \<open>d_off\<close>.\<close>

definition ino_len :: "nat \<Rightarrow> nat" where
  "ino_len name_off = (name_off - 3) div 2"

definition d_type_from_mode :: "mode_t \<Rightarrow> nat" where
  "d_type_from_mode mode =
     (let t = mode AND S_IFMT
      in if t = S_IFBLK then 6
         else if t = S_IFCHR then 2
         else if t = S_IFDIR then 4
         else if t = S_IFIFO then 1
         else if t = S_IFLNK then 10
         else if t = S_IFREG then 8
         else if t = S_IFSOCK then 12
         else 0)"

definition adjusted_dirent_size :: "nat \<Rightarrow> nat \<Rightarrow> nat" where
  "adjusted_dirent_size name_off d_name_len = ROUND_UP (name_off + d_name_len + 1) 8"

text \<open>Putting an entry at the offset \<open>at\<close>, with \<open>buf_size\<close> bytes left there. The length of the record is an \<open>unsigned short\<close>.\<close>

definition put_dirent_into_buf :: "nat \<Rightarrow> dirent_buf \<Rightarrow> nat \<Rightarrow> nat \<Rightarrow> int \<Rightarrow> int \<Rightarrow> mode_t \<Rightarrow> string \<Rightarrow> int \<times> dirent_buf" where
  "put_dirent_into_buf name_off buf at buf_size ino off mode nm =
     (let adjusted_size = adjusted_dirent_size name_off (length nm)
      in if adjusted_size \<le> buf_size then
           (let d_reclen = int (adjusted_size mod 65536);
                buf = put_bytes buf (at + name_off - 3) (le_bytes 2 d_reclen);
                buf = put_bytes buf at (le_bytes (ino_len name_off) (ino mod 2 ^ 32));
                buf = put_bytes buf (at + name_off - 1) (le_bytes 1 (int (d_type_from_mode mode)));
                buf = put_bytes buf (at + ino_len name_off)
                  (le_bytes (ino_len name_off) (if off = 0x7fffffff then 0x7fffffff else (off + d_reclen) mod 2 ^ 32));
                buf = put_bytes buf (at + name_off) nm;
                buf = put_bytes buf (at + name_off + length nm) [CHR 0x00]
            in (d_reclen, buf))
         else (-1, buf))"

text \<open>The next entry (inode, type, name) and the cursor behind it, or none; \<open>None\<close> is a name without an end in the buffer.\<close>

definition get_next_item_from_dirent_buf :: "nat \<Rightarrow> dirent_buf \<Rightarrow> nat \<Rightarrow> nat \<Rightarrow> ((int \<times> nat \<times> string) \<times> nat) option option" where
  "get_next_item_from_dirent_buf name_off buf buf_size cursor =
     (if cursor + adjusted_dirent_size name_off 1 \<le> buf_size then
        (let mem = map buf [cursor + name_off..<buf_size]; d_name = takeWhile (\<lambda>c. c \<noteq> CHR 0x00) mem
         in if length d_name = length mem then None
            else Some (Some ((le_value buf cursor (ino_len name_off) mod 2 ^ 32, of_char (buf (cursor + name_off - 1)), d_name),
                             cursor + adjusted_dirent_size name_off (length d_name))))
      else Some None)"

lemma adjusted_dirent_size_pos: "0 < adjusted_dirent_size name_off n"
  using ROUND_UP_ge [of 8 "name_off + n + 1"] by (simp add: adjusted_dirent_size_def)

lemma adjusted_dirent_size_mono: "m \<le> n \<Longrightarrow> adjusted_dirent_size name_off m \<le> adjusted_dirent_size name_off n"
  by (auto simp: adjusted_dirent_size_def ROUND_UP_def intro!: mult_le_mono1 div_le_mono)

lemma put_dirent_fits:
  assumes "put_dirent_into_buf name_off buf at n ino off mode nm = (r, buf')" "0 < r"
  shows "nat r \<le> n"
proof -
  have "adjusted_dirent_size name_off (length nm) mod 65536 \<le> adjusted_dirent_size name_off (length nm)" by simp
  then show ?thesis using assms by (auto simp: put_dirent_into_buf_def Let_def split: if_splits)
qed

text \<open>A reader that walks the buffer from a cursor; every step moves on.\<close>

function read_dirents :: "nat \<Rightarrow> dirent_buf \<Rightarrow> nat \<Rightarrow> nat \<Rightarrow> (int \<times> nat \<times> string) list option" where
  "read_dirents name_off buf buf_size cursor =
     (case get_next_item_from_dirent_buf name_off buf buf_size cursor of
        None \<Rightarrow> None
      | Some None \<Rightarrow> Some []
      | Some (Some (e, cursor')) \<Rightarrow> map_option ((#) e) (read_dirents name_off buf buf_size cursor'))"
  by pat_completeness auto
termination
proof (relation "measure (\<lambda>(name_off, buf, n, c). n - c)", goal_cases)
  case (2 name_off buf n c x y e c')
  then obtain k where "c' = c + adjusted_dirent_size name_off k" "c + adjusted_dirent_size name_off 1 \<le> n"
    by (auto simp: get_next_item_from_dirent_buf_def Let_def split: if_splits)
  then show ?case using adjusted_dirent_size_pos [of name_off k] adjusted_dirent_size_pos [of name_off 1] by simp
qed simp

declare read_dirents.simps [simp del]

text \<open>The layout of the structure: two fields of at least four bytes and the three bytes behind them.\<close>

definition layout_ok :: "nat \<Rightarrow> bool" where
  "layout_ok name_off \<longleftrightarrow> 11 \<le> name_off \<and> odd name_off"

lemma layout_ok: "layout_ok name_off \<Longrightarrow> name_off = 2 * ino_len name_off + 3 \<and> 4 \<le> ino_len name_off"
  by (auto simp: layout_ok_def ino_len_def elim!: oddE)

text \<open>The bytes of one entry, and entries \<open>es\<close> laid out one after the other from the offset \<open>at\<close> up to \<open>fin\<close>.\<close>

definition entry_bytes :: "nat \<Rightarrow> dirent_buf \<Rightarrow> nat \<Rightarrow> int \<times> nat \<times> string \<Rightarrow> bool" where
  "entry_bytes name_off buf at e \<longleftrightarrow> (case e of (ino, t, nm) \<Rightarrow>
     (\<forall>i < ino_len name_off. buf (at + i) = le_bytes (ino_len name_off) ino ! i) \<and> buf (at + name_off - 1) = char_of t
     \<and> (\<forall>i < length nm. buf (at + name_off + i) = nm ! i) \<and> buf (at + name_off + length nm) = CHR 0x00)"

definition entry_ok :: "int \<times> nat \<times> string \<Rightarrow> bool" where
  "entry_ok e \<longleftrightarrow> (case e of (ino, t, nm) \<Rightarrow> 0 \<le> ino \<and> ino < 2 ^ 32 \<and> t < 256 \<and> nm \<noteq> [] \<and> CHR 0x00 \<notin> set nm)"

fun laid_out :: "nat \<Rightarrow> dirent_buf \<Rightarrow> nat \<Rightarrow> (int \<times> nat \<times> string) list \<Rightarrow> nat \<Rightarrow> bool" where
  "laid_out name_off buf at [] fin = (at = fin)"
| "laid_out name_off buf at (e # es) fin =
     (entry_bytes name_off buf at e \<and> entry_ok e
      \<and> laid_out name_off buf (at + adjusted_dirent_size name_off (length (snd (snd e)))) es fin)"

lemma laid_out_le: "laid_out name_off buf at es fin \<Longrightarrow> at \<le> fin"
  by (induction es arbitrary: at) force+

lemma adjusted_ge: "name_off + n + 1 \<le> adjusted_dirent_size name_off n"
  using ROUND_UP_ge [of 8 "name_off + n + 1"] by (simp add: adjusted_dirent_size_def)

lemma laid_out_cong:
  assumes "layout_ok name_off" "\<forall>i < fin. buf' i = buf i"
  shows "laid_out name_off buf at es fin \<Longrightarrow> laid_out name_off buf' at es fin"
proof (induction es arbitrary: at)
  case (Cons e es)
  obtain ino t nm where e: "e = (ino, t, nm)" by (cases e)
  from Cons.prems have "at + adjusted_dirent_size name_off (length nm) \<le> fin" by (auto simp: e dest: laid_out_le)
  then have "at + name_off + length nm < fin" using adjusted_ge [of name_off "length nm"] by linarith
  then have "entry_bytes name_off buf' at e" using Cons.prems layout_ok [OF assms(1)] assms(2) by (auto simp: entry_bytes_def e)
  then show ?case using Cons by simp
qed simp

lemma put_dirent_bytes:
  assumes l: "layout_ok name_off" and p: "put_dirent_into_buf name_off buf at n ino off mode nm = (r, buf')"
    and fit: "adjusted_dirent_size name_off (length nm) \<le> n"
  shows "entry_bytes name_off buf' at (ino mod 2 ^ 32, d_type_from_mode mode, nm)" "\<forall>i < at. buf' i = buf i"
    "\<forall>i \<ge> at + adjusted_dirent_size name_off (length nm). buf' i = buf i"
proof -
  note w = layout_ok [OF l]
  have b: "buf' = put_bytes (put_bytes (put_bytes (put_bytes (put_bytes (put_bytes buf (at + name_off - 3) (le_bytes 2 r)) at (le_bytes (ino_len name_off) (ino mod 2 ^ 32)))
      (at + name_off - 1) (le_bytes 1 (int (d_type_from_mode mode))))
      (at + ino_len name_off) (le_bytes (ino_len name_off) (if off = 0x7fffffff then 0x7fffffff else (off + r) mod 2 ^ 32)))
      (at + name_off) nm) (at + name_off + length nm) [CHR 0x00]"
    using p fit by (auto simp: put_dirent_into_buf_def Let_def)
  have "char_of (int (d_type_from_mode mode)) = (char_of (d_type_from_mode mode) :: char)" by (simp add: char_of_def bit_of_nat_iff_bit)
  then show "entry_bytes name_off buf' at (ino mod 2 ^ 32, d_type_from_mode mode, nm)"
    using w unfolding b by (auto simp: entry_bytes_def put_bytes_def)
  show "\<forall>i < at. buf' i = buf i" using w unfolding b by (auto simp: put_bytes_def)
  show "\<forall>i \<ge> at + adjusted_dirent_size name_off (length nm). buf' i = buf i"
    using w adjusted_ge [of name_off "length nm"] unfolding b by (auto simp: put_bytes_def)
qed

lemma laid_out_append: "laid_out name_off buf at es fin \<Longrightarrow> laid_out name_off buf fin es' fin' \<Longrightarrow> laid_out name_off buf at (es @ es') fin'"
  by (induction es arbitrary: at) auto

lemma read_entry:
  assumes l: "layout_ok name_off" and e: "entry_bytes name_off buf at (ino, t, nm)" "entry_ok (ino, t, nm)"
    and fit: "at + adjusted_dirent_size name_off (length nm) \<le> n"
  shows "get_next_item_from_dirent_buf name_off buf n at = Some (Some ((ino, t, nm), at + adjusted_dirent_size name_off (length nm)))"
proof -
  let ?o = "at + name_off"
  have nm: "1 \<le> length nm" "CHR 0x00 \<notin> set nm" "0 \<le> ino" "ino < 2 ^ 32" "t < 256" using e(2) by (auto simp: entry_ok_def Suc_le_eq)
  have n: "?o + length nm < n" using fit adjusted_ge [of name_off "length nm"] by linarith
  have one: "at + adjusted_dirent_size name_off 1 \<le> n" using adjusted_dirent_size_mono [OF nm(1), of name_off] fit by linarith
  have "[?o..<n] = [?o..<?o + length nm] @ (?o + length nm) # [Suc (?o + length nm)..<n]"
    using n by (metis le_add1 less_imp_le_nat upt_add_eq_append upt_conv_Cons le_add_diff_inverse)
  moreover have "map buf [?o..<?o + length nm] = nm" using e(1) by (intro nth_equalityI) (simp_all add: entry_bytes_def)
  moreover have "buf (?o + length nm) = CHR 0x00" using e(1) by (simp add: entry_bytes_def)
  ultimately have m: "map buf [?o..<n] = nm @ CHR 0x00 # map buf [Suc (?o + length nm)..<n]" by simp
  have tw: "takeWhile (\<lambda>c. c \<noteq> CHR 0x00) (map buf [?o..<n]) = nm" unfolding m using nm(2) by (subst takeWhile_append2) auto
  have "le_value buf at (ino_len name_off) = ino mod 256 ^ ino_len name_off" using e(1) by (intro le_value_bytes) (simp add: entry_bytes_def)
  moreover have "(2::int) ^ 32 \<le> 256 ^ ino_len name_off"
    using power_increasing [of 4 "ino_len name_off" "256::int"] layout_ok [OF l] by simp
  ultimately have "le_value buf at (ino_len name_off) mod 2 ^ 32 = ino" using nm(3,4) by simp
  moreover have "of_char (buf (?o - 1)) = t" using e(1) nm(5) by (simp add: entry_bytes_def of_char_of)
  moreover have "length nm \<noteq> n - ?o" using n by simp
  ultimately show ?thesis unfolding get_next_item_from_dirent_buf_def Let_def tw using one by simp
qed

lemma read_laid_out:
  assumes "layout_ok name_off"
  shows "laid_out name_off buf at es fin \<Longrightarrow> read_dirents name_off buf fin at = Some es"
proof (induction es arbitrary: at)
  case Nil
  then show ?case
    using adjusted_dirent_size_pos [of name_off 1]
    by (simp add: read_dirents.simps get_next_item_from_dirent_buf_def)
next
  case (Cons e es)
  obtain ino t nm where e: "e = (ino, t, nm)" by (cases e)
  have "at + adjusted_dirent_size name_off (length nm) \<le> fin" using Cons.prems by (auto simp: e dest: laid_out_le)
  then have "get_next_item_from_dirent_buf name_off buf fin at = Some (Some (e, at + adjusted_dirent_size name_off (length nm)))"
    using Cons.prems read_entry [OF assms, of buf at ino t nm fin] by (simp add: e)
  with Cons show ?case by (simp add: read_dirents.simps [of name_off buf fin at] e)
qed

end
