(* ===== verification/ChannelsMount.thy ===== *)
theory ChannelsMount
  imports Descriptors ChannelDirs DirentEngine
begin

text \<open>
  The channel file system (\<open>lib/fs/channels_mount.c\<close>), operation by operation.

  Its state \<open>chan\<close> extends the shared tables \<open>kern\<close> with the array of channels, the directory list,
  the reference under which the file system is known to the handle table, and the outside world.
  \<open>zvm_env\<close> is what the sources call of the ZeroVM host and the clock: arguments of the model.

  An operation returns \<open>None\<close> where the source fails an \<open>assert\<close> or dereferences NULL, otherwise
  the returned integer with the new state (and the bytes of the user buffer for a read).
\<close>

section \<open>State and environment\<close>

record 'w zvm_env =
  zvm_pread :: "int \<Rightarrow> nat \<Rightarrow> off_t \<Rightarrow> 'w \<Rightarrow> (int \<times> byte list) \<times> 'w"
  zvm_pwrite :: "int \<Rightarrow> byte list \<Rightarrow> off_t \<Rightarrow> 'w \<Rightarrow> int \<times> 'w"
  env_rand :: "'w \<Rightarrow> nat \<Rightarrow> 32 word" \<comment> \<open>the sequence of \<open>rand\<close> after \<open>srand(time(NULL))\<close>\<close>
  env_time :: "'w \<Rightarrow> int"

record 'w chan = kern +
  channels_array :: channels_array_t
  manifest_dirs :: manifest_dirs_t
  channels_ref :: mount_ref
  world :: 'w

record stat =
  st_dev :: int
  st_ino :: int
  st_nlink :: int
  st_uid :: int
  st_gid :: int
  st_rdev :: int
  st_mode :: mode_t
  st_blksize :: int
  st_size :: int
  st_blocks :: int
  st_time :: int

datatype PosAccess = EPosSeek | EPosRead | EPosWrite
datatype PosWhence = EPosGet | EPosSetAbsolute | EPosSetRelative

definition item_by_inode :: "('w, 'a) chan_scheme \<Rightarrow> int \<Rightarrow> ChannelArrayItem option" where
  "item_by_inode s inode =
     Option.bind (channels_array_match_by_inode (channels_array s) inode) (channels_array_get (channels_array s))"

definition item_by_name :: "('w, 'a) chan_scheme \<Rightarrow> string \<Rightarrow> ChannelArrayItem option" where
  "item_by_name s name =
     Option.bind (channels_array_match_by_name (channels_array s) name) (channels_array_get (channels_array s))"

text \<open>A write through a pointer to an item of the array.\<close>

definition upd_item :: "nat \<Rightarrow> (ChannelArrayItem \<Rightarrow> ChannelArrayItem) \<Rightarrow> channels_array_t \<Rightarrow> channels_array_t" where
  "upd_item i f arr = arr\<lparr>ptr_array := (ptr_array arr)[i := map_option f (ptr_array arr ! i)]\<rparr>"

definition dir_by_inode :: "('w, 'a) chan_scheme \<Rightarrow> int \<Rightarrow> dir_data_t option" where
  "dir_by_inode s inode = map_option (\<lambda>i. manifest_dirs s ! i) (match_inode_in_directory_list (manifest_dirs s) inode)"

abbreviation related :: "('w, 'a) chan_scheme \<Rightarrow> int \<Rightarrow> bool" where
  "related s fd \<equiv> check_handle_is_related_to_filesystem s fd (channels_ref s) = 0"

definition CHANNEL_IS_OPENED :: "('w, 'a) chan_scheme \<Rightarrow> int \<Rightarrow> bool" where
  "CHANNEL_IS_OPENED s handle = (mount_interface s handle \<noteq> None)"

definition CHANNEL_SIZE :: "ChannelArrayItem \<Rightarrow> int" where
  "CHANNEL_SIZE item =
     (if rt_maxsize (ci_runtime item) < ch_size (ci_channel item) then ch_size (ci_channel item)
      else rt_maxsize (ci_runtime item))"

section \<open>The operations specific to this mount\<close>

definition check_handle :: "('w, 'a) chan_scheme \<Rightarrow> int \<Rightarrow> int" where
  "check_handle s handle = (if related s handle then 1 else 0)"

definition handle_path :: "('w, 'a) chan_scheme \<Rightarrow> int \<Rightarrow> string option option" where
  "handle_path s handle =
     (if \<not> related s handle then Some None
      else do {
        hentry \<leftarrow> entry s handle;
        Some (case item_by_inode s (hi_inode hentry) of
                Some item \<Rightarrow> Some (ch_name (ci_channel item))
              | None \<Rightarrow> map_option dd_path (dir_by_inode s (hi_inode hentry)))
      })"

text \<open>\<open>int\<close> values of flags are read as signed 32-bit numbers.\<close>

definition file_status_flags :: "('w, 'a) chan_scheme \<Rightarrow> int \<Rightarrow> (int \<times> ('w, 'a) chan_scheme) option" where
  "file_status_flags s handle =
     (if related s handle then do { d \<leftarrow> ofd s handle; Some (sint (ofd_flags d), s) }
      else Some (-1, SET_ERRNO EBADF s))"

definition set_file_status_flags :: "('w, 'a) chan_scheme \<Rightarrow> int \<Rightarrow> flags_t \<Rightarrow> (int \<times> ('w, 'a) chan_scheme) option" where
  "set_file_status_flags s fd flags =
     (if related s fd then do {
        hentry \<leftarrow> entry s fd;
        Some (sint flags, snd (set_flags s (hi_ofd_id hentry) flags)) }
      else Some (-1, SET_ERRNO EBADF s))"

definition flock_data :: "('w, 'a) chan_scheme \<Rightarrow> int \<Rightarrow> flock option option" where
  "flock_data s handle =
     (if related s handle then do {
        hentry \<leftarrow> entry s handle;
        item \<leftarrow> item_by_inode s (hi_inode hentry);
        Some (Some (rt_fcntl_flock (ci_runtime item))) }
      else Some None)"

definition set_flock_data :: "('w, 'a) chan_scheme \<Rightarrow> int \<Rightarrow> flock \<Rightarrow> (int \<times> ('w, 'a) chan_scheme) option" where
  "set_flock_data s handle fl =
     (if related s handle then do {
        hentry \<leftarrow> entry s handle;
        i \<leftarrow> channels_array_match_by_inode (channels_array s) (hi_inode hentry);
        Some (0, s\<lparr>channels_array := upd_item i (\<lambda>it. it\<lparr>ci_runtime := (ci_runtime it)\<lparr>rt_fcntl_flock := fl\<rparr>\<rparr>)
                     (channels_array s)\<rparr>) }
      else Some (1, s))"

section \<open>Access rights\<close>

definition can_be_read :: "ZVMChannel \<Rightarrow> bool" where
  "can_be_read c = (ch_limits c GetsLimit \<noteq> 0 \<and> ch_limits c GetSizeLimit \<noteq> 0)"

definition can_be_written :: "ZVMChannel \<Rightarrow> bool" where
  "can_be_written c = (ch_limits c PutsLimit \<noteq> 0 \<and> ch_limits c PutSizeLimit \<noteq> 0)"

definition check_channel_flags :: "ZVMChannel \<Rightarrow> flags_t \<Rightarrow> int" where
  "check_channel_flags c flags =
     (let fl = flags AND O_ACCMODE
      in if fl = O_RDONLY then (if can_be_read c then 0 else -1)
         else if fl = O_WRONLY then (if can_be_written c then 0 else -1)
         else if can_be_read c \<and> can_be_written c then 0 else -1)"

definition channel_permissions :: "ChannelArrayItem \<Rightarrow> mode_t" where
  "channel_permissions item =
     (let mode = rt_mode (ci_runtime item);
          c = ci_channel item;
          perm0 = (if can_be_read c then S_IRUSR else 0) OR (if can_be_written c then S_IWUSR else 0);
          rwx = perm0 AND S_IRWXU;
          perm1 = (if ch_type c = SGetSPut \<and> (rwx = S_IRUSR \<or> rwx = S_IWUSR)
                      \<or> ch_type c = RGetSPut \<and> rwx = S_IWUSR
                      \<or> ch_type c = SGetRPut \<and> rwx = S_IRUSR
                   then (if mode = 0 then perm0 OR S_IFIFO else perm0)
                   else (if mode = 0 then perm0 OR S_IFBLK else perm0))
      in if mode \<noteq> 0 then perm1 OR mode else perm1)"

section \<open>Positions\<close>

text \<open>The macro \<open>SET_SAFE_OFFSET\<close>: \<open>None\<close> is its \<open>EOVERFLOW\<close> return.\<close>

definition SET_SAFE_OFFSET :: "PosWhence \<Rightarrow> off_t \<Rightarrow> off_t \<Rightarrow> off_t option" where
  "SET_SAFE_OFFSET whence pos offset =
     (if whence = EPosSetRelative
      then (if s64 (pos + offset) < 0 then None else Some (s64 (pos + offset)))
      else (if offset < 0 then None else Some offset))"

text \<open>The macro with the store of the new position through \<open>setter\<close>.\<close>

definition move_pos :: "(('w, 'a) chan_scheme \<Rightarrow> int \<Rightarrow> off_t \<Rightarrow> int \<times> ('w, 'a) chan_scheme) \<Rightarrow> ('w, 'a) chan_scheme \<Rightarrow> int
    \<Rightarrow> PosWhence \<Rightarrow> off_t \<Rightarrow> off_t \<Rightarrow> int \<times> ('w, 'a) chan_scheme" where
  "move_pos setter s i whence pos offset =
     (case SET_SAFE_OFFSET whence pos offset of
        None \<Rightarrow> (-1, SET_ERRNO EOVERFLOW s)
      | Some p \<Rightarrow> (p, snd (setter s i p)))"

definition channel_pos_sequen_get_sequen_put :: "('w, 'a) chan_scheme \<Rightarrow> int \<Rightarrow> PosWhence \<Rightarrow> PosAccess \<Rightarrow> off_t
    \<Rightarrow> (int \<times> ('w, 'a) chan_scheme) option" where
  "channel_pos_sequen_get_sequen_put s i whence access offset = do {
     d \<leftarrow> ofd_entry s i;
     (if whence = EPosGet then Some (channel_sequential_offset d, s)
      else case access of
        EPosSeek \<Rightarrow> Some (-1, SET_ERRNO ESPIPE s)
      | _ \<Rightarrow> Some (move_pos set_offset_sequential_channel s i whence (channel_sequential_offset d) offset)) }"

definition channel_pos_random_get_sequen_put :: "('w, 'a) chan_scheme \<Rightarrow> int \<Rightarrow> flags_t \<Rightarrow> PosWhence \<Rightarrow> PosAccess \<Rightarrow> off_t
    \<Rightarrow> (int \<times> ('w, 'a) chan_scheme) option" where
  "channel_pos_random_get_sequen_put s i flags whence access offset = do {
     d \<leftarrow> ofd_entry s i;
     (case access of
        EPosSeek \<Rightarrow>
          if CHECK_FLAG flags O_RDONLY \<or> CHECK_FLAG flags O_RDWR then
            (if whence = EPosGet then Some (ofd_offset d, s)
             else Some (move_pos set_offset s i whence (ofd_offset d) offset))
          else if CHECK_FLAG flags O_WRONLY then
            (if whence = EPosGet then Some (channel_sequential_offset d, s)
             else Some (-1, SET_ERRNO ESPIPE s))
          else None
      | EPosRead \<Rightarrow>
          if whence = EPosGet then Some (ofd_offset d, s)
          else Some (move_pos set_offset s i whence (ofd_offset d) offset)
      | EPosWrite \<Rightarrow>
          if whence = EPosGet then Some (channel_sequential_offset d, s)
          else Some (move_pos set_offset_sequential_channel s i whence (channel_sequential_offset d) offset)) }"

definition channel_pos_sequen_get_random_put :: "('w, 'a) chan_scheme \<Rightarrow> int \<Rightarrow> flags_t \<Rightarrow> PosWhence \<Rightarrow> PosAccess \<Rightarrow> off_t
    \<Rightarrow> (int \<times> ('w, 'a) chan_scheme) option" where
  "channel_pos_sequen_get_random_put s i flags whence access offset = do {
     d \<leftarrow> ofd_entry s i;
     (case access of
        EPosSeek \<Rightarrow>
          if CHECK_FLAG flags O_WRONLY \<or> CHECK_FLAG flags O_RDWR then
            (if whence = EPosGet then Some (ofd_offset d, s)
             else Some (move_pos set_offset s i whence (ofd_offset d) offset))
          else if CHECK_FLAG flags O_RDONLY then
            (if whence = EPosGet then Some (channel_sequential_offset d, s)
             else Some (-1, SET_ERRNO ESPIPE s))
          else None
      | EPosRead \<Rightarrow>
          if whence = EPosGet then Some (channel_sequential_offset d, s)
          else Some (move_pos set_offset_sequential_channel s i whence (channel_sequential_offset d) offset)
      | EPosWrite \<Rightarrow>
          if whence = EPosGet then Some (ofd_offset d, s)
          else Some (move_pos set_offset s i whence (ofd_offset d) offset)) }"

definition channel_pos_random_get_random_put :: "('w, 'a) chan_scheme \<Rightarrow> int \<Rightarrow> PosWhence \<Rightarrow> PosAccess \<Rightarrow> off_t
    \<Rightarrow> (int \<times> ('w, 'a) chan_scheme) option" where
  "channel_pos_random_get_random_put s i whence access offset = do {
     d \<leftarrow> ofd_entry s i;
     (if whence = EPosGet then Some (ofd_offset d, s)
      else Some (move_pos set_offset s i whence (ofd_offset d) offset)) }"

definition channel_pos :: "('w, 'a) chan_scheme \<Rightarrow> int \<Rightarrow> PosWhence \<Rightarrow> PosAccess \<Rightarrow> off_t
    \<Rightarrow> (int \<times> ('w, 'a) chan_scheme) option" where
  "channel_pos s handle whence access offset =
     (if related s handle then do {
        hentry \<leftarrow> entry s handle;
        d \<leftarrow> ofd s handle;
        item \<leftarrow> item_by_inode s (hi_inode hentry);
        (case ch_type (ci_channel item) of
           SGetSPut \<Rightarrow> channel_pos_sequen_get_sequen_put s (hi_ofd_id hentry) whence access offset
         | RGetSPut \<Rightarrow> channel_pos_random_get_sequen_put s (hi_ofd_id hentry) (ofd_flags d) whence access offset
         | SGetRPut \<Rightarrow> channel_pos_sequen_get_random_put s (hi_ofd_id hentry) (ofd_flags d) whence access offset
         | RGetRPut \<Rightarrow> channel_pos_random_get_random_put s (hi_ofd_id hentry) whence access offset) }
      else Some (-1, SET_ERRNO EBADF s))"

section \<open>Opening a channel\<close>

text \<open>
  The description is taken before the handle; when there is no handle left it is given back.
  \<open>size_t chan_size\<close> keeps the low 32 bits of the size.
\<close>

definition open_channel :: "('w, 'a) chan_scheme \<Rightarrow> string \<Rightarrow> flags_t \<Rightarrow> mode_t \<Rightarrow> (int \<times> ('w, 'a) chan_scheme) option" where
  "open_channel s name flags mode =
     (case item_by_name s name of
        None \<Rightarrow> Some (-1, SET_ERRNO ENOENT s)
      | Some item \<Rightarrow>
          (let permissions = channel_permissions item;
               ftype = permissions AND S_IFMT
           in if ch_type (ci_channel item) = RGetSPut \<and> \<not> CHECK_FLAG flags O_APPEND
                 \<and> CHECK_FLAG permissions S_IRUSR \<and> CHECK_FLAG permissions S_IWUSR
                 \<and> (ftype = S_IFBLK \<or> ftype = S_IFREG)
              then Some (-1, SET_ERRNO EPERM s)
              else if rt_emu (ci_runtime item) = 0 \<and> CHECK_FLAG flags O_TRUNC
                      \<and> ftype \<noteq> S_IFCHR \<and> ftype \<noteq> S_IFIFO
              then Some (-1, SET_ERRNO EPERM s)
              else if check_channel_flags (ci_channel item) flags \<noteq> 0
              then Some (-1, SET_ERRNO EACCES s)
              else
                (let (open_file_descr, s1) = getnew_ofd s flags;
                     (handle, s2) = allocate_handle s1 (channels_ref s1) (rt_inode (ci_runtime item))
                                      (rt_parent_inode (ci_runtime item)) open_file_descr
                 in if handle = -1 then Some (-1, SET_ERRNO ENFILE (snd (release_ofd s2 open_file_descr)))
                    else if CHECK_FLAG flags O_APPEND then do {
                      (r, s3) \<leftarrow> channel_pos s2 handle EPosSetAbsolute EPosWrite (CHANNEL_SIZE item mod 2 ^ 32);
                      Some (handle, s3) }
                    else Some (handle, s2))))"

section \<open>File attributes\<close>

text \<open>The clock gives the three times of \<open>struct stat\<close> the same value: one field.\<close>

definition set_stat :: "'w zvm_env \<Rightarrow> ('w, 'a) chan_scheme \<Rightarrow> int \<Rightarrow> stat option" where
  "set_stat env s inode = do {
     (nlink, permissions, blksize, size) \<leftarrow>
       (case item_by_inode s inode of
          Some item \<Rightarrow>
            (let permissions = channel_permissions item
             in Some (1, permissions,
                      (if CHECK_FLAG permissions S_IFIFO \<or> CHECK_FLAG permissions S_IFCHR then 1 else 4096),
                      CHANNEL_SIZE item))
        | None \<Rightarrow>
            (case dir_by_inode s inode of
               None \<Rightarrow> None
             | Some d \<Rightarrow> Some (dd_nlink d, S_IRUSR OR S_IFDIR OR S_IXUSR, 1, 4096)));
     Some \<lparr>st_dev = 2049, st_ino = inode, st_nlink = nlink, st_uid = 1000, st_gid = 1000, st_rdev = 0,
           st_mode = permissions, st_blksize = blksize, st_size = size,
           st_blocks = cdiv (cdiv (s64 (size + blksize - 1)) blksize * blksize) 512,
           st_time = env_time env (world s)\<rparr> }"

section \<open>Listing a directory\<close>

text \<open>
  A counting search: the position of the match at which the counter \<open>cur\<close> reaches \<open>index\<close>, both loops
  of \<open>iterate_dir_contents\<close>.
\<close>

function seek_match :: "(nat \<Rightarrow> bool) \<Rightarrow> nat \<Rightarrow> int \<Rightarrow> nat \<Rightarrow> int \<Rightarrow> nat option" where
  "seek_match p n index i cur =
     (if i < n then
        (if p i then (if index = cur then Some i else seek_match p n index (Suc i) (cur + 1))
         else seek_match p n index (Suc i) cur)
      else None)"
  by pat_completeness auto
termination
  by (relation "measure (\<lambda>(p, n, index, i, cur). n - i)") auto

declare seek_match.simps [simp del]

definition short_name :: "string \<Rightarrow> string option" where
  "short_name path = map_option (\<lambda>(start, _). drop start path) (name_from_path_get_path_len path)"

text \<open>The value: inode, name (a NULL name is \<open>None\<close>) and whether the item is a directory; \<open>None\<close> inside is \<open>-1\<close>.\<close>

definition iterate_dir_contents :: "('w, 'a) chan_scheme \<Rightarrow> int \<Rightarrow> int \<Rightarrow> (int \<times> string option \<times> bool) option option" where
  "iterate_dir_contents s dir_handle index = do {
     hentry \<leftarrow> entry s dir_handle;
     (if index = 0 then Some (Some (hi_inode hentry, Some ''.'', True))
      else do {
        dir_pattern \<leftarrow> dir_by_inode s (hi_inode hentry);
        (if index = 1 then Some (Some (dd_parent_dir_inode dir_pattern, Some ''..'', True))
         else Some
           (case seek_match (\<lambda>i. is_sub_path (dd_path dir_pattern) (dd_path (manifest_dirs s ! i)))
                   (length (manifest_dirs s)) index 0 2 of
              Some i \<Rightarrow> Some (dir_inode (manifest_dirs s ! i), short_name (dd_path (manifest_dirs s ! i)), True)
            | None \<Rightarrow>
                (case seek_match (\<lambda>i. is_sub_path (dd_path dir_pattern)
                                     (ch_name (ci_channel (the (channels_array_get (channels_array s) i)))))
                        (channels_array_count (channels_array s)) index 0 2 of
                   Some i \<Rightarrow> Some (INODE_FROM_ZVM_INODE (int i),
                                  short_name (ch_name (ci_channel (the (channels_array_get (channels_array s) i)))), False)
                 | None \<Rightarrow> None))) }) }"

definition GET_MODE_OF_ENTRY_BY_INODE :: "('w, 'a) chan_scheme \<Rightarrow> int \<Rightarrow> mode_t option" where
  "GET_MODE_OF_ENTRY_BY_INODE s inode =
     (case item_by_inode s inode of
        Some item \<Rightarrow> Some (channel_permissions item)
      | None \<Rightarrow> (case dir_by_inode s inode of
                   Some d \<Rightarrow> Some (S_IRUSR OR S_IFDIR OR S_IXUSR)
                 | None \<Rightarrow> None))"

text \<open>The \<open>while\<close> loop of \<open>channels_getdents\<close>: bytes used, next index, buffer.\<close>

function getdents_loop :: "nat \<Rightarrow> ('w, 'a) chan_scheme \<Rightarrow> int \<Rightarrow> nat \<Rightarrow> dirent_buf \<Rightarrow> nat \<Rightarrow> int
    \<Rightarrow> (nat \<times> int \<times> dirent_buf) option" where
  "getdents_loop name_off s fd buf_size buf bytes_read index =
     (case iterate_dir_contents s fd index of
        None \<Rightarrow> None
      | Some None \<Rightarrow> Some (bytes_read, index, buf)
      | Some (Some (inode, name, is_dir)) \<Rightarrow>
          (case GET_MODE_OF_ENTRY_BY_INODE s inode of
             None \<Rightarrow> None
           | Some mode \<Rightarrow>
               (case name of
                  None \<Rightarrow> None
                | Some nm \<Rightarrow>
                    (case put_dirent_into_buf name_off buf bytes_read (buf_size - bytes_read) inode 0 mode nm of
                       (ret, buf') \<Rightarrow>
                         if 0 < ret then getdents_loop name_off s fd buf_size buf' (bytes_read + nat ret) (index + 1)
                         else Some (bytes_read, index, buf')))))"
  by pat_completeness auto
termination
  by (relation "measure (\<lambda>(name_off, s, fd, buf_size, buf, bytes_read, index). buf_size - bytes_read)")
     (auto dest!: put_dirent_fits [OF sym])

declare getdents_loop.simps [simp del]

section \<open>Emulated devices\<close>

definition rand_byte :: "32 word \<Rightarrow> nat \<Rightarrow> byte" where
  "rand_byte r k = ucast (drop_bit (8 * k) r)"

text \<open>\<open>None\<close> is \<open>handled = 0\<close>; otherwise the \<open>int\<close> returned and what the buffer holds.\<close>

definition emu_handle_read :: "'w zvm_env \<Rightarrow> ('w, 'a) chan_scheme \<Rightarrow> int \<Rightarrow> nat \<Rightarrow> (int \<times> byte list) option" where
  "emu_handle_read env s inode nbyte =
     (case item_by_inode s inode of
        None \<Rightarrow> None
      | Some item \<Rightarrow>
          (let name = ch_name (ci_channel item)
           in if name = ''/dev/zero'' \<or> name = ''/dev/full'' then Some (s32 (int nbyte), replicate nbyte 0)
              else if name = ''/dev/null'' then Some (0, [])
              else if name = ''/dev/random'' \<or> name = ''/dev/urandom'' then
                Some (s32 (int nbyte), map (\<lambda>i. rand_byte (env_rand env (world s) (i div 4)) (i mod 4)) [0..<nbyte])
              else None))"

definition emu_handle_write :: "('w, 'a) chan_scheme \<Rightarrow> int \<Rightarrow> nat \<Rightarrow> (int \<times> ('w, 'a) chan_scheme) option" where
  "emu_handle_write s inode nbyte =
     (case item_by_inode s inode of
        None \<Rightarrow> None
      | Some item \<Rightarrow>
          (let name = ch_name (ci_channel item)
           in if name = ''/dev/zero'' \<or> name = ''/dev/null'' then Some (s32 (int nbyte), s)
              else if name = ''/dev/full'' then Some (-1, SET_ERRNO ENOSPC s)
              else if name = ''/dev/random'' \<or> name = ''/dev/urandom'' then Some (s32 (int nbyte), s)
              else None))"

definition update_artificial_channel_size :: "('w, 'a) chan_scheme \<Rightarrow> int \<Rightarrow> nat \<Rightarrow> ('w, 'a) chan_scheme option" where
  "update_artificial_channel_size s fd i = do {
     item \<leftarrow> channels_array_get (channels_array s) i;
     (if ch_type (ci_channel item) = SGetRPut \<or> ch_type (ci_channel item) = RGetRPut \<or> ch_type (ci_channel item) = RGetSPut
      then do {
        (p, s1) \<leftarrow> channel_pos s fd EPosGet EPosWrite 0;
        (let m = (if rt_maxsize (ci_runtime item) < p then p else rt_maxsize (ci_runtime item))
         in Some (s1\<lparr>channels_array := upd_item i (\<lambda>it. it\<lparr>ci_runtime := (ci_runtime it)\<lparr>rt_maxsize := m\<rparr>\<rparr>)
                       (channels_array s1)\<rparr>)) }
      else Some s) }"

section \<open>The operations of the mount interface\<close>

definition channels_chmod :: "('w, 'a) chan_scheme \<Rightarrow> string \<Rightarrow> mode_t \<Rightarrow> (int \<times> ('w, 'a) chan_scheme) option" where
  "channels_chmod s path mode = Some (-1, SET_ERRNO EPERM s)"

text \<open>The \<open>struct stat\<close> the call fills in is returned with the result.\<close>

definition channels_stat :: "'w zvm_env \<Rightarrow> ('w, 'a) chan_scheme \<Rightarrow> string option \<Rightarrow> (int \<times> stat option \<times> ('w, 'a) chan_scheme) option" where
  "channels_stat env s0 path =
     (let s = s0\<lparr>errno := 0\<rparr>
      in case path of
           None \<Rightarrow> Some (-1, None, SET_ERRNO EFAULT s)
         | Some p \<Rightarrow>
             (case item_by_name s p of
                Some item \<Rightarrow> do { st \<leftarrow> set_stat env s (rt_inode (ci_runtime item)); Some (0, Some st, s) }
              | None \<Rightarrow>
                  (case match_dir_in_directory_list (manifest_dirs s) p (length p) of
                     Some k \<Rightarrow> do { st \<leftarrow> set_stat env s (dir_inode (manifest_dirs s ! k)); Some (0, Some st, s) }
                   | None \<Rightarrow> Some (-1, None, SET_ERRNO ENOENT s))))"

definition channels_mkdir :: "('w, 'a) chan_scheme \<Rightarrow> string \<Rightarrow> mode_t \<Rightarrow> (int \<times> ('w, 'a) chan_scheme) option" where
  "channels_mkdir s path mode = Some (-1, SET_ERRNO ENOSYS s)"

definition channels_rmdir :: "('w, 'a) chan_scheme \<Rightarrow> string \<Rightarrow> (int \<times> ('w, 'a) chan_scheme) option" where
  "channels_rmdir s path = Some (-1, SET_ERRNO ENOSYS s)"

text \<open>
  The steps shared by the transfers: the emulated device or else the host, and the move of the position
  after a transfer of \<open>n\<close> bytes. \<open>readed\<close> and \<open>wrote\<close> are \<open>int32_t\<close>.
\<close>

definition read_source :: "'w zvm_env \<Rightarrow> ('w, 'a) chan_scheme \<Rightarrow> int \<Rightarrow> nat \<Rightarrow> off_t \<Rightarrow> (int \<times> byte list) \<times> ('w, 'a) chan_scheme" where
  "read_source env s inode nbyte offset =
     (case emu_handle_read env s inode nbyte of
        Some rb \<Rightarrow> (rb, s)
      | None \<Rightarrow> (case zvm_pread env (ZVM_INODE_FROM_INODE inode) nbyte offset (world s) of
                  ((r, b), w) \<Rightarrow> ((s32 r, b), s\<lparr>world := w\<rparr>)))"

definition write_source :: "'w zvm_env \<Rightarrow> ('w, 'a) chan_scheme \<Rightarrow> int \<Rightarrow> byte list \<Rightarrow> off_t \<Rightarrow> int \<times> ('w, 'a) chan_scheme" where
  "write_source env s inode buf offset =
     (case emu_handle_write s inode (length buf) of
        Some ws \<Rightarrow> ws
      | None \<Rightarrow> (case zvm_pwrite env (ZVM_INODE_FROM_INODE inode) buf offset (world s) of
                  (r, w) \<Rightarrow> (s32 r, s\<lparr>world := w\<rparr>)))"

definition advance :: "('w, 'a) chan_scheme \<Rightarrow> int \<Rightarrow> PosAccess \<Rightarrow> off_t \<Rightarrow> int \<Rightarrow> ('w, 'a) chan_scheme option" where
  "advance s fd access offset n =
     (if 0 < n then map_option snd (channel_pos s fd EPosSetAbsolute access (s64 (offset + n))) else Some s)"

text \<open>A failed host call is reported by storing its negative result in \<open>errno\<close>.\<close>

definition channels_pread :: "'w zvm_env \<Rightarrow> ('w, 'a) chan_scheme \<Rightarrow> int \<Rightarrow> nat \<Rightarrow> off_t \<Rightarrow> (int \<times> byte list \<times> ('w, 'a) chan_scheme) option" where
  "channels_pread env s0 fd nbyte offset =
     (let s = s0\<lparr>errno := 0\<rparr>
      in if \<not> related s fd then Some (-1, [], SET_ERRNO EBADF s)
         else do {
           hentry \<leftarrow> entry s fd;
           d \<leftarrow> ofd s fd;
           (let acc = ofd_flags d AND O_ACCMODE
            in if acc \<noteq> O_RDONLY \<and> acc \<noteq> O_RDWR then Some (-1, [], SET_ERRNO EINVAL s)
               else
                 (let ((readed, bytes), s1) = read_source env s (hi_inode hentry) nbyte offset
                  in do {
                    s2 \<leftarrow> advance s1 fd EPosRead offset readed;
                    (if readed < 0 then Some (-1, bytes, SET_ERRNO readed s2)
                     else Some (readed, bytes, s2)) })) })"

definition channels_pwrite :: "'w zvm_env \<Rightarrow> ('w, 'a) chan_scheme \<Rightarrow> int \<Rightarrow> byte list \<Rightarrow> off_t \<Rightarrow> (int \<times> ('w, 'a) chan_scheme) option" where
  "channels_pwrite env s0 fd buf offset =
     (let s = s0\<lparr>errno := 0\<rparr>
      in if \<not> related s fd then Some (-1, SET_ERRNO EBADF s)
         else do {
           hentry \<leftarrow> entry s fd;
           d \<leftarrow> ofd s fd;
           (let acc = ofd_flags d AND O_ACCMODE
            in if acc \<noteq> O_WRONLY \<and> acc \<noteq> O_RDWR then Some (-1, SET_ERRNO EINVAL s)
               else
                 (let (wrote, s1) = write_source env s (hi_inode hentry) buf offset
                  in do {
                    s2 \<leftarrow> advance s1 fd EPosWrite offset wrote;
                    (if wrote < 0 then Some (-1, SET_ERRNO wrote s2)
                     else do {
                       i \<leftarrow> channels_array_match_by_inode (channels_array s2) (hi_inode hentry);
                       s3 \<leftarrow> update_artificial_channel_size s2 fd i;
                       Some (wrote, s3) }) })) })"

definition channels_read :: "'w zvm_env \<Rightarrow> ('w, 'a) chan_scheme \<Rightarrow> int \<Rightarrow> nat \<Rightarrow> (int \<times> byte list \<times> ('w, 'a) chan_scheme) option" where
  "channels_read env s0 fd nbyte =
     (let s = s0\<lparr>errno := 0\<rparr>
      in if \<not> CHANNEL_IS_OPENED s fd then Some (-1, [], SET_ERRNO EBADF s)
         else do {
           (offset, s1) \<leftarrow> channel_pos s fd EPosGet EPosRead 0;
           (if s64 (offset + int nbyte) < 0 then Some (-1, [], SET_ERRNO EOVERFLOW s1)
            else channels_pread env s1 fd nbyte offset) })"

definition channels_write :: "'w zvm_env \<Rightarrow> ('w, 'a) chan_scheme \<Rightarrow> int \<Rightarrow> byte list \<Rightarrow> (int \<times> ('w, 'a) chan_scheme) option" where
  "channels_write env s0 fd buf =
     (let s = s0\<lparr>errno := 0\<rparr>
      in if \<not> CHANNEL_IS_OPENED s fd then Some (-1, SET_ERRNO EBADF s)
         else do {
           (offset, s1) \<leftarrow> channel_pos s fd EPosGet EPosWrite 0;
           (if s64 (offset + int (length buf)) < 0 then Some (-1, SET_ERRNO EOVERFLOW s1)
            else channels_pwrite env s1 fd buf offset) })"

definition channels_fchmod :: "('w, 'a) chan_scheme \<Rightarrow> int \<Rightarrow> mode_t \<Rightarrow> (int \<times> ('w, 'a) chan_scheme) option" where
  "channels_fchmod s fd mode = Some (-1, SET_ERRNO EPERM s)"

definition channels_fstat :: "'w zvm_env \<Rightarrow> ('w, 'a) chan_scheme \<Rightarrow> int \<Rightarrow> (int \<times> stat option \<times> ('w, 'a) chan_scheme) option" where
  "channels_fstat env s0 fd =
     (let s = s0\<lparr>errno := 0\<rparr>
      in if \<not> related s fd then Some (-1, None, SET_ERRNO EBADF s)
         else do {
           hentry \<leftarrow> entry s fd;
           st \<leftarrow> set_stat env s (hi_inode hentry);
           Some (0, Some st, s) })"

text \<open>\<open>aligned\<close> is the test of the buffer address: not NULL and a multiple of the word size.\<close>

definition channels_getdents :: "nat \<Rightarrow> ('w, 'a) chan_scheme \<Rightarrow> int \<Rightarrow> bool \<Rightarrow> dirent_buf \<Rightarrow> nat
    \<Rightarrow> (int \<times> dirent_buf \<times> ('w, 'a) chan_scheme) option" where
  "channels_getdents name_off s0 fd aligned buf buf_size =
     (let s = s0\<lparr>errno := 0\<rparr>
      in if \<not> related s fd then Some (-1, buf, SET_ERRNO EBADF s)
         else if \<not> aligned then Some (-1, buf, SET_ERRNO EINVAL s)
         else do {
           hentry \<leftarrow> entry s fd;
           d \<leftarrow> ofd s fd;
           (bytes_read, index, buf') \<leftarrow> getdents_loop name_off s fd buf_size buf 0 (s32 (ofd_offset d));
           Some (int bytes_read, buf', snd (set_offset s (hi_ofd_id hentry) index)) })"

definition channels_fsync :: "('w, 'a) chan_scheme \<Rightarrow> int \<Rightarrow> (int \<times> ('w, 'a) chan_scheme) option" where
  "channels_fsync s fd = Some (-1, SET_ERRNO ENOSYS s)"

definition channels_close :: "('w, 'a) chan_scheme \<Rightarrow> int \<Rightarrow> (int \<times> ('w, 'a) chan_scheme) option" where
  "channels_close s0 fd =
     (let s = s0\<lparr>errno := 0\<rparr>
      in if \<not> related s fd then Some (-1, SET_ERRNO EBADF s)
         else do {
           hentry \<leftarrow> entry s fd;
           (if item_by_inode s (hi_inode hentry) = None \<and> dir_by_inode s (hi_inode hentry) = None then None
            else let (res, s1) = release_ofd s (hi_ofd_id hentry)
                 in if res \<noteq> 0 then None else Some (0, snd (free_handle s1 fd))) })"

definition channels_lseek :: "('w, 'a) chan_scheme \<Rightarrow> int \<Rightarrow> off_t \<Rightarrow> int \<Rightarrow> (int \<times> ('w, 'a) chan_scheme) option" where
  "channels_lseek s0 fd offset whence =
     (let s = s0\<lparr>errno := 0\<rparr>
      in if \<not> related s fd then Some (-1, SET_ERRNO EBADF s)
         else do {
           hentry \<leftarrow> entry s fd;
           (if whence = SEEK_SET then channel_pos s fd EPosSetAbsolute EPosSeek offset
            else if whence = SEEK_CUR then
              (if offset = 0 then channel_pos s fd EPosGet EPosSeek offset
               else channel_pos s fd EPosSetRelative EPosSeek offset)
            else if whence = SEEK_END then do {
              item \<leftarrow> item_by_inode s (hi_inode hentry);
              channel_pos s fd EPosSetAbsolute EPosSeek (s64 (CHANNEL_SIZE item + offset)) }
            else Some (-1, SET_ERRNO EPERM s)) })"

definition channels_open :: "('w, 'a) chan_scheme \<Rightarrow> string \<Rightarrow> flags_t \<Rightarrow> mode_t \<Rightarrow> (int \<times> ('w, 'a) chan_scheme) option" where
  "channels_open s0 path oflag mode =
     (let s = s0\<lparr>errno := 0\<rparr>
      in if \<not> CHECK_FLAG oflag O_DIRECTORY then open_channel s path oflag mode
         else case match_dir_in_directory_list (manifest_dirs s) path (length path) of
           Some k \<Rightarrow>
             (if CHECK_FLAG oflag O_RDONLY then
                (let dir = manifest_dirs s ! k;
                     (ofd_id, s1) = getnew_ofd s oflag;
                     (handle, s2) = allocate_handle s1 (channels_ref s1) (dir_inode dir) (dd_parent_dir_inode dir) ofd_id
                 in if handle = -1 then Some (-1, SET_ERRNO ENFILE (snd (release_ofd s2 ofd_id)))
                    else Some (handle, s2))
              else Some (-1, SET_ERRNO EACCES s))
         | None \<Rightarrow> Some (-1, SET_ERRNO ENOENT s))"

definition channels_fcntl :: "('w, 'a) chan_scheme \<Rightarrow> int \<Rightarrow> int \<Rightarrow> (int \<times> ('w, 'a) chan_scheme) option" where
  "channels_fcntl s fd cmd =
     (if related s fd then do {
        hentry \<leftarrow> entry s fd;
        (if channels_array_match_by_inode (channels_array s) (hi_inode hentry) = None then Some (-1, SET_ERRNO EBADF s)
         else Some (0, s)) }
      else Some (-1, SET_ERRNO ENOENT s))"

definition channels_remove :: "('w, 'a) chan_scheme \<Rightarrow> string \<Rightarrow> (int \<times> ('w, 'a) chan_scheme) option" where
  "channels_remove s path = Some (-1, SET_ERRNO (if item_by_name s path = None then ENOENT else EPERM) s)"

definition channels_unlink :: "('w, 'a) chan_scheme \<Rightarrow> string \<Rightarrow> (int \<times> ('w, 'a) chan_scheme) option" where
  "channels_unlink s path = Some (-1, SET_ERRNO (if item_by_name s path = None then ENOENT else EPERM) s)"

text \<open>
  The remaining operations (\<open>rename\<close>, \<open>access\<close>, \<open>ftruncate_size\<close>, \<open>truncate_size\<close>, \<open>isatty\<close>, \<open>dup\<close>,
  \<open>dup2\<close>, \<open>link\<close>, \<open>readlink\<close>, \<open>symlink\<close>, \<open>statvfs\<close>, \<open>chown\<close>, \<open>fchown\<close>, \<open>utime\<close>) have one body.
\<close>

definition channels_enosys :: "('w, 'a) chan_scheme \<Rightarrow> (int \<times> ('w, 'a) chan_scheme) option" where
  "channels_enosys s = Some (-1, SET_ERRNO ENOSYS s)"

definition mode_updater_set_channel_mode :: "('w, 'a) chan_scheme \<Rightarrow> string \<Rightarrow> mode_t \<Rightarrow> ('w, 'a) chan_scheme" where
  "mode_updater_set_channel_mode s channel_name mode =
     (case channels_array_match_by_name (channels_array s) channel_name of
        None \<Rightarrow> s
      | Some i \<Rightarrow> s\<lparr>channels_array := upd_item i (\<lambda>it. it\<lparr>ci_runtime := (ci_runtime it)\<lparr>rt_mode := mode\<rparr>\<rparr>) (channels_array s)\<rparr>)"

text \<open>The loop of the constructor that gives every channel the inode of its directory.\<close>

fun assign_parents :: "manifest_dirs_t \<Rightarrow> channels_array_t \<Rightarrow> nat list \<Rightarrow> channels_array_t option" where
  "assign_parents md arr [] = Some arr"
| "assign_parents md arr (i # is) = do {
     item \<leftarrow> channels_array_get arr i;
     (let nm = ch_name (ci_channel item);
          (_, cursor, _) = path_subpath_backward DEFAULT_TEMP_CURSOR_VALUE nm 0;
          (parentdir_path, _, parentdir_len) = path_subpath_backward cursor nm 0
      in if parentdir_path = None then None
         else case match_dir_in_directory_list md nm (nat parentdir_len) of
           None \<Rightarrow> None
         | Some k \<Rightarrow> assign_parents md
             (upd_item i (\<lambda>it. it\<lparr>ci_runtime := (ci_runtime it)\<lparr>rt_parent_inode := dir_inode (md ! k)\<rparr>\<rparr>) arr) is) }"

definition channels_filesystem_construct :: "(nat \<Rightarrow> bool) \<Rightarrow> (nat \<Rightarrow> ZrtChannelRt) \<Rightarrow> ('w, 'a) chan_scheme
    \<Rightarrow> mount_ref \<Rightarrow> ZVMChannel list \<Rightarrow> ZVMChannel list \<Rightarrow> ('w, 'a) chan_scheme option" where
  "channels_filesystem_construct mem fresh s ref zvm_channels emu_channels = do {
     arr \<leftarrow> channels_array_construct mem fresh zvm_channels emu_channels;
     (let md = process_channels_create_dir_list arr []
      in do {
        arr' \<leftarrow> assign_parents md arr [0..<channels_array_count arr];
        Some (s\<lparr>channels_array := arr', manifest_dirs := md, channels_ref := ref\<rparr>) }) }"

end
