(* ===== verification/ChannelsInv.thy ===== *)
theory ChannelsInv
  imports ChannelsMount
begin

text \<open>
  The invariant of the channel file system and that every operation keeps it: the reference counts
  of the descriptions agree with the handles, the inodes number the channels and then the
  directories, every handle of this mount has one of these inodes, and no position is negative.
\<close>

section \<open>What the operations leave alone\<close>

lemma errno_lookups [simp, state_simps]:
  "SET_ERRNO e (s\<lparr>errno := x\<rparr>) = SET_ERRNO e s"
  "check_handle_is_related_to_filesystem (s\<lparr>errno := x\<rparr>) = check_handle_is_related_to_filesystem s"
  "entry (s\<lparr>errno := x\<rparr>) = entry s" "ofd (s\<lparr>errno := x\<rparr>) = ofd s" "ofd_entry (s\<lparr>errno := x\<rparr>) = ofd_entry s"
  "mount_interface (s\<lparr>errno := x\<rparr>) = mount_interface s"
  by (simp_all add: fun_eq_iff SET_ERRNO_def check_handle_is_related_to_filesystem_def entry_def ofd_def ofd_entry_def
      mount_interface_def VERIFY_HANDLE_def VERIFY_OFD_def)

lemma errno_lookups_chan [simp, state_simps]:
  "item_by_inode (s\<lparr>errno := x\<rparr>) = item_by_inode s" "item_by_name (s\<lparr>errno := x\<rparr>) = item_by_name s"
  "dir_by_inode (s\<lparr>errno := x\<rparr>) = dir_by_inode s" "CHANNEL_IS_OPENED (s\<lparr>errno := x\<rparr>) = CHANNEL_IS_OPENED s"
  by (simp_all add: fun_eq_iff item_by_inode_def item_by_name_def dir_by_inode_def CHANNEL_IS_OPENED_def)

definition pos_ok :: "'a kern_scheme \<Rightarrow> bool" where
  "pos_ok s \<longleftrightarrow> (\<forall>i. 0 \<le> channel_sequential_offset (os_public (s_open_files_array s i))
                 \<and> 0 \<le> ofd_offset (os_public (s_open_files_array s i)))"

definition static_item :: "ChannelArrayItem \<Rightarrow> ZVMChannel \<times> int" where
  "static_item it = (ci_channel it, rt_inode (ci_runtime it))"

definition same_tables :: "('w, 'a) chan_scheme \<Rightarrow> ('w, 'a) chan_scheme \<Rightarrow> bool" where
  "same_tables s s' \<longleftrightarrow>
     s_handle_slots s' = s_handle_slots s \<and> h_first_unused_slot s' = h_first_unused_slot s
     \<and> (\<forall>i. refcount (s_open_files_array s' i) = refcount (s_open_files_array s i))
     \<and> o_first_unused_slot s' = o_first_unused_slot s
     \<and> manifest_dirs s' = manifest_dirs s \<and> channels_ref s' = channels_ref s
     \<and> (arr_ok (channels_array s) \<longrightarrow> arr_ok (channels_array s')
          \<and> map static_item (items (channels_array s')) = map static_item (items (channels_array s)))"

text \<open>A step that keeps the tables, the access flags, and non-negative positions.\<close>

definition chan_frame :: "('w, 'a) chan_scheme \<Rightarrow> ('w, 'a) chan_scheme \<Rightarrow> bool" where
  "chan_frame s s' \<longleftrightarrow> same_tables s s'
     \<and> (\<forall>i. ofd_flags (os_public (s_open_files_array s' i)) = ofd_flags (os_public (s_open_files_array s i)))
     \<and> (pos_ok s \<longrightarrow> pos_ok s')"

lemma chan_frame_refl [simp]: "chan_frame s s"
  by (simp add: chan_frame_def same_tables_def)

lemma chan_frame_trans: "chan_frame s s' \<Longrightarrow> chan_frame s' s'' \<Longrightarrow> chan_frame s s''"
  by (auto simp: chan_frame_def same_tables_def)

lemma chan_frame_errno [simp, inv_intros]: "chan_frame s (SET_ERRNO e s)" "chan_frame s (s\<lparr>errno := e\<rparr>)"
  "chan_frame (s\<lparr>errno := x\<rparr>) (SET_ERRNO e s)"
  by (simp_all add: chan_frame_def same_tables_def pos_ok_def SET_ERRNO_def)

lemma chan_frame_world [simp, inv_intros]: "chan_frame s (s\<lparr>world := w\<rparr>)"
  by (simp add: chan_frame_def same_tables_def pos_ok_def)

lemma upd_item_ok:
  assumes "arr_ok arr" "i < num_entries arr"
  shows "arr_ok (upd_item i f arr)" "items (upd_item i f arr) = (items arr)[i := f (items arr ! i)]"
    "num_entries (upd_item i f arr) = num_entries arr"
proof -
  show num: "num_entries (upd_item i f arr) = num_entries arr" by (simp add: upd_item_def)
  have len: "num_entries arr \<le> length (ptr_array arr)"
    using assms(1) by (auto simp: arr_ok_def da_wf_def)
  have g: "DynArrayGet (upd_item i f arr) k = (if k = i then map_option f (DynArrayGet arr k) else DynArrayGet arr k)" for k
    using assms(2) len by (auto simp: DynArrayGet_def upd_item_def)
  have nn: "((ptr_array arr)[i := map_option f (ptr_array arr ! i)] ! k = None) = (ptr_array arr ! k = None)" for k
    using assms(2) len by (cases "k = i") simp_all
  have "da_wf (upd_item i f arr) = da_wf arr"
    unfolding da_wf_def upd_item_def by (simp add: nn del: not_None_eq)
  then show "arr_ok (upd_item i f arr)"
    using assms g num by (auto simp: arr_ok_def)
  have "DynArrayGet arr i \<noteq> None" using assms by (simp add: arr_ok_def)
  then show "items (upd_item i f arr) = (items arr)[i := f (items arr ! i)]"
    using assms(2)
    by (auto simp: items_def da.entries_def g num nth_list_update intro!: nth_equalityI)
qed

lemma chan_frame_item:
  assumes "\<And>it. static_item (f it) = static_item it" "i < num_entries (channels_array s)"
  shows "chan_frame s (s\<lparr>channels_array := upd_item i f (channels_array s)\<rparr>)"
proof -
  have "map static_item ((items (channels_array s))[i := f (items (channels_array s) ! i)])
      = map static_item (items (channels_array s))" if "arr_ok (channels_array s)"
    using assms that by (simp add: map_update list_update_same_conv)
  then show ?thesis using upd_item_ok [OF _ assms(2), of f] by (auto simp: chan_frame_def same_tables_def pos_ok_def)
qed

lemma chan_frame_upd_ofd:
  assumes "\<And>d. ofd_flags (f d) = ofd_flags d"
    and "\<And>d. 0 \<le> channel_sequential_offset d \<Longrightarrow> 0 \<le> ofd_offset d \<Longrightarrow>
            0 \<le> channel_sequential_offset (f d) \<and> 0 \<le> ofd_offset (f d)"
  shows "chan_frame s (snd (upd_ofd f s i))"
  using assms by (auto simp: chan_frame_def same_tables_def pos_ok_def upd_ofd_def Let_def)

lemma SET_SAFE_OFFSET_nonneg: "SET_SAFE_OFFSET whence pos offset = Some p \<Longrightarrow> 0 \<le> p"
  by (auto simp: SET_SAFE_OFFSET_def split: if_splits)

lemma chan_frame_move_pos:
  "chan_frame s (snd (move_pos set_offset s i whence pos offset))"
  "chan_frame s (snd (move_pos set_offset_sequential_channel s i whence pos offset))"
  unfolding move_pos_def set_offset_def set_offset_sequential_channel_def
  by (auto split: option.split dest: SET_SAFE_OFFSET_nonneg intro!: chan_frame_upd_ofd)

lemmas channel_pos_defs = channel_pos_sequen_get_sequen_put_def channel_pos_random_get_sequen_put_def
  channel_pos_sequen_get_random_put_def channel_pos_random_get_random_put_def

lemma chan_frame_move_pos_eq:
  "Some (move_pos set_offset s i whence pos offset) = Some (r, s') \<Longrightarrow> chan_frame s s'"
  "Some (move_pos set_offset_sequential_channel s i whence pos offset) = Some (r, s') \<Longrightarrow> chan_frame s s'"
  using chan_frame_move_pos [of s i whence pos offset] by (metis option.inject snd_conv)+

lemma chan_frame_channel_pos_kinds:
  "channel_pos_sequen_get_sequen_put s i whence access offset = Some (r, s') \<Longrightarrow> chan_frame s s'"
  "channel_pos_random_get_sequen_put s i fl whence access offset = Some (r, s') \<Longrightarrow> chan_frame s s'"
  "channel_pos_sequen_get_random_put s i fl whence access offset = Some (r, s') \<Longrightarrow> chan_frame s s'"
  "channel_pos_random_get_random_put s i whence access offset = Some (r, s') \<Longrightarrow> chan_frame s s'"
  unfolding channel_pos_defs
  by (auto simp: bind_eq_Some_conv split: if_splits PosAccess.splits dest: chan_frame_move_pos_eq [OF arg_cong [where f = Some]])

lemma chan_frame_channel_pos:
  "channel_pos s fd whence access offset = Some (r, s') \<Longrightarrow> chan_frame s s'"
proof (cases "related s fd")
  case True
  assume c: "channel_pos s fd whence access offset = Some (r, s')"
  with True obtain e d it where "entry s fd = Some e" "ofd s fd = Some d" "item_by_inode s (hi_inode e) = Some it"
    by (auto simp: channel_pos_def bind_eq_Some_conv)
  with True c show ?thesis
    by (cases "ch_type (ci_channel it)") (auto simp: channel_pos_def dest: chan_frame_channel_pos_kinds)
qed (auto simp: channel_pos_def)

section \<open>The invariant\<close>

definition numbered :: "('w, 'a) chan_scheme \<Rightarrow> bool" where
  "numbered s \<longleftrightarrow> arr_ok (channels_array s)
     \<and> (\<forall>i < num_entries (channels_array s). rt_inode (ci_runtime (items (channels_array s) ! i)) = 11 + int i)
     \<and> (\<forall>i < length (manifest_dirs s). dir_inode (manifest_dirs s ! i) = 11 + int (num_entries (channels_array s)) + int i)"

definition inode_known :: "('w, 'a) chan_scheme \<Rightarrow> int \<Rightarrow> bool" where
  "inode_known s ino \<longleftrightarrow> 11 \<le> ino \<and> ino < 11 + int (num_entries (channels_array s)) + int (length (manifest_dirs s))"

definition handles_known :: "('w, 'a) chan_scheme \<Rightarrow> bool" where
  "handles_known s \<longleftrightarrow> (\<forall>h e. entry s h = Some e \<longrightarrow> hi_mount_fs e = Some (channels_ref s) \<longrightarrow> inode_known s (hi_inode e))"

definition chan_wf :: "('w, 'a) chan_scheme \<Rightarrow> bool" where
  "chan_wf s \<longleftrightarrow> fd_wf None s \<and> numbered s \<and> handles_known s"

lemma chan_wfD:
  assumes "chan_wf s"
  shows "fd_wf None s" "numbered s" "handles_known s" "arr_ok (channels_array s)"
  using assms by (auto simp: chan_wf_def numbered_def)

lemma same_tablesD:
  assumes "same_tables s s'"
  shows "entry s' = entry s" "fd_wf ex s' = fd_wf ex s" "manifest_dirs s' = manifest_dirs s" "channels_ref s' = channels_ref s"
    "mount_interface s' = mount_interface s" "check_handle_is_related_to_filesystem s' = check_handle_is_related_to_filesystem s"
  using assms fd_wf_cong [of s' s ex]
  by (auto simp: same_tables_def entry_def mount_interface_def check_handle_is_related_to_filesystem_def VERIFY_HANDLE_def fun_eq_iff)

lemma same_tables_items:
  assumes "same_tables s s'" "arr_ok (channels_array s)"
  shows "arr_ok (channels_array s')" "num_entries (channels_array s') = num_entries (channels_array s)"
    and "i < num_entries (channels_array s) \<Longrightarrow> static_item (items (channels_array s') ! i) = static_item (items (channels_array s) ! i)"
proof -
  from assms have "arr_ok (channels_array s')" and m: "map static_item (items (channels_array s')) = map static_item (items (channels_array s))"
    by (auto simp: same_tables_def)
  then show "arr_ok (channels_array s')" "num_entries (channels_array s') = num_entries (channels_array s)"
    by (simp_all flip: length_items, metis length_map)
  then show "i < num_entries (channels_array s) \<Longrightarrow> static_item (items (channels_array s') ! i) = static_item (items (channels_array s) ! i)"
    using m by (metis length_items nth_map)
qed

lemma chan_wf_same_tables [inv_intros]:
  assumes f: "same_tables s s'" and wf: "chan_wf s"
  shows "chan_wf s'"
proof -
  note fr = same_tablesD [OF f] same_tables_items [OF f chan_wfD(4) [OF wf]]
  have "numbered s'"
    using chan_wfD(2) [OF wf] fr by (auto simp: numbered_def static_item_def)
  moreover have "handles_known s'" using chan_wfD(3) [OF wf] fr by (simp add: handles_known_def inode_known_def)
  ultimately show ?thesis using chan_wfD [OF wf] fr by (simp add: chan_wf_def)
qed

lemma chan_frame_same: "chan_frame s s' \<Longrightarrow> same_tables s s'"
  by (simp add: chan_frame_def)

lemmas chan_frameD = same_tablesD [OF chan_frame_same]
lemmas chan_frame_items = same_tables_items [OF chan_frame_same]
lemmas chan_wf_frame [inv_intros] = chan_wf_same_tables [OF chan_frame_same]

section \<open>Lookups under the invariant\<close>

lemma item_by_inode_eq:
  assumes "numbered s"
  shows "item_by_inode s ino = (if 11 \<le> ino \<and> ino < 11 + int (num_entries (channels_array s))
     then Some (items (channels_array s) ! nat (ino - 11)) else None)"
    and "channels_array_match_by_inode (channels_array s) ino = (if 11 \<le> ino \<and> ino < 11 + int (num_entries (channels_array s))
     then Some (nat (ino - 11)) else None)"
proof -
  have ok: "arr_ok (channels_array s)"
    and ino: "\<And>i. i < num_entries (channels_array s) \<Longrightarrow> rt_inode (ci_runtime (items (channels_array s) ! i)) = 11 + int i"
    using assms by (auto simp: numbered_def)
  show m: "channels_array_match_by_inode (channels_array s) ino = (if 11 \<le> ino \<and> ino < 11 + int (num_entries (channels_array s))
     then Some (nat (ino - 11)) else None)"
  proof (cases "11 \<le> ino \<and> ino < 11 + int (num_entries (channels_array s))")
    case True
    have "rt_inode (ci_runtime (items (channels_array s) ! k)) \<noteq> ino" if "k < nat (ino - 11)" for k
    proof -
      have "k < num_entries (channels_array s)" "11 + int k < ino" using True that by linarith+
      with ino [of k] show ?thesis by linarith
    qed
    with True have "channels_array_match_by_inode (channels_array s) ino = Some (nat (ino - 11))"
      unfolding match_by_inode_Some_iff [OF ok] by (auto simp: ino nat_less_iff)
    with True show ?thesis by simp
  next
    case False
    then have "channels_array_match_by_inode (channels_array s) ino \<noteq> Some i" for i
      unfolding match_by_inode_Some_iff [OF ok] by (auto simp: ino)
    with False show ?thesis by auto
  qed
  show "item_by_inode s ino = (if 11 \<le> ino \<and> ino < 11 + int (num_entries (channels_array s))
     then Some (items (channels_array s) ! nat (ino - 11)) else None)"
    unfolding item_by_inode_def m channels_array_get_def by (auto simp: get_items [OF ok] nat_less_iff)
qed

lemma dir_by_inode_eq:
  assumes "numbered s"
  shows "dir_by_inode s ino = (let k = ino - 11 - int (num_entries (channels_array s))
     in if 0 \<le> k \<and> k < int (length (manifest_dirs s)) then Some (manifest_dirs s ! nat k) else None)"
proof -
  let ?k = "ino - 11 - int (num_entries (channels_array s))"
  have ino: "\<And>i. i < length (manifest_dirs s) \<Longrightarrow> dir_inode (manifest_dirs s ! i) = 11 + int (num_entries (channels_array s)) + int i"
    using assms by (auto simp: numbered_def)
  show ?thesis
  proof (cases "0 \<le> ?k \<and> ?k < int (length (manifest_dirs s))")
    case True
    have "dir_inode (manifest_dirs s ! j) \<noteq> ino" if "j < nat ?k" for j
    proof -
      have "j < length (manifest_dirs s)" "int j < ?k" using True that by linarith+
      with ino [of j] show ?thesis by linarith
    qed
    with True have "match_inode_in_directory_list (manifest_dirs s) ino = Some (nat ?k)"
      unfolding match_inode_in_directory_list_def first_index_Some_iff by (auto simp: ino nat_less_iff)
    with True show ?thesis by (simp add: dir_by_inode_def Let_def)
  next
    case False
    then have "match_inode_in_directory_list (manifest_dirs s) ino = None"
      unfolding match_inode_in_directory_list_def first_index_None_iff by (auto simp: ino)
    with False show ?thesis by (auto simp: dir_by_inode_def Let_def)
  qed
qed

lemma inode_known_cases:
  assumes "numbered s" "inode_known s ino"
  obtains (channel) it where "item_by_inode s ino = Some it"
        "channels_array_match_by_inode (channels_array s) ino = Some (nat (ino - 11))" "nat (ino - 11) < num_entries (channels_array s)"
  | (directory) d where "item_by_inode s ino = None" "dir_by_inode s ino = Some d"
  using assms(2) item_by_inode_eq [OF assms(1), of ino] dir_by_inode_eq [OF assms(1), of ino]
  by (cases "ino < 11 + int (num_entries (channels_array s))") (auto simp: inode_known_def Let_def nat_less_iff)

lemma related_entry:
  "related s fd \<longleftrightarrow> (\<exists>e. entry s fd = Some e \<and> hi_mount_fs e = Some (channels_ref s))"
  by (auto simp: check_handle_is_related_to_filesystem_def entry_def)

lemma ofd_of_entry:
  assumes "fd_wf None s" "entry s fd = Some e"
  shows "ofd s fd = Some (os_public (s_open_files_array s (nat (hi_ofd_id e))))"
    and "ofd_entry s (hi_ofd_id e) = Some (os_public (s_open_files_array s (nat (hi_ofd_id e))))"
  using VERIFY_OFD_of_entry [OF assms] assms(2) by (auto simp: ofd_def ofd_entry_def entry_def split: if_splits)

section \<open>Positions under the invariant\<close>

text \<open>Which of the two positions of a description an access through a channel of a type uses.\<close>

definition uses_sequential :: "access_type \<Rightarrow> flags_t \<Rightarrow> PosAccess \<Rightarrow> bool" where
  "uses_sequential ty fl access \<longleftrightarrow>
     (case ty of SGetSPut \<Rightarrow> True
      | RGetSPut \<Rightarrow> access = EPosWrite
      | SGetRPut \<Rightarrow> access = EPosRead \<or> access = EPosSeek \<and> \<not> CHECK_FLAG fl O_WRONLY \<and> \<not> CHECK_FLAG fl O_RDWR
      | RGetRPut \<Rightarrow> False)"

definition position :: "access_type \<Rightarrow> PosAccess \<Rightarrow> OpenFileDescription \<Rightarrow> off_t" where
  "position ty access d = (if uses_sequential ty (ofd_flags d) access then channel_sequential_offset d else ofd_offset d)"

definition set_position :: "access_type \<Rightarrow> PosAccess \<Rightarrow> off_t \<Rightarrow> OpenFileDescription \<Rightarrow> OpenFileDescription" where
  "set_position ty access p d =
     (if uses_sequential ty (ofd_flags d) access then d\<lparr>channel_sequential_offset := p\<rparr> else d\<lparr>ofd_offset := p\<rparr>)"

text \<open>All four position routines in one: what \<open>channel_pos\<close> does on an open channel.\<close>

lemma channel_pos_open:
  assumes wf: "chan_wf s" and e: "entry s fd = Some e" "hi_mount_fs e = Some (channels_ref s)"
    and it: "item_by_inode s (hi_inode e) = Some it" and d: "ofd s fd = Some d"
    and ty: "ty = ch_type (ci_channel it)"
  shows "channel_pos s fd whence access offset =
    (if whence = EPosGet then Some (position ty access d, s)
     else if access = EPosSeek \<and> uses_sequential ty (ofd_flags d) access then Some (-1, SET_ERRNO ESPIPE s)
     else case SET_SAFE_OFFSET whence (position ty access d) offset of
       None \<Rightarrow> Some (-1, SET_ERRNO EOVERFLOW s)
     | Some p \<Rightarrow> Some (p, snd (upd_ofd (set_position ty access p) s (hi_ofd_id e))))"
proof -
  note o = ofd_of_entry [OF chan_wfD(1) [OF wf] e(1)]
  have od: "ofd_entry s (hi_ofd_id e) = Some d" using o d by simp
  have v: "VERIFY_OFD s (hi_ofd_id e)" by (rule VERIFY_OFD_of_entry(1) [OF chan_wfD(1) [OF wf] e(1)])
  have pub: "os_public (s_open_files_array s (nat (hi_ofd_id e))) = d" using o(1) d by simp
  have st: "set_offset_sequential_channel s (hi_ofd_id e) p = upd_ofd (set_position ty access p) s (hi_ofd_id e)"
    if "uses_sequential ty (ofd_flags d) access" for p
    using that v by (simp add: set_offset_sequential_channel_def upd_ofd_def set_position_def pub Let_def)
  have st2: "set_offset s (hi_ofd_id e) p = upd_ofd (set_position ty access p) s (hi_ofd_id e)"
    if "\<not> uses_sequential ty (ofd_flags d) access" for p
    using that v by (simp add: set_offset_def upd_ofd_def set_position_def pub Let_def)
  have r: "related s fd" using e by (simp add: related_entry)
  show ?thesis
    using r e it d od st st2
    by (cases ty; cases access)
       (auto simp: channel_pos_def channel_pos_defs move_pos_def position_def uses_sequential_def ty [symmetric]
             split: option.split PosAccess.splits)
qed

section \<open>Every operation keeps the invariant\<close>

text \<open>Operations that touch only positions, sizes, \<open>errno\<close> and the world.\<close>

lemma chan_frame_eq: "s' = s \<Longrightarrow> chan_frame s s'" "s' = SET_ERRNO e s \<Longrightarrow> chan_frame s s'"
  by simp_all

lemma chan_frame_update_size:
  assumes "update_artificial_channel_size s fd i = Some s'" "arr_ok (channels_array s)"
  shows "chan_frame s s'"
proof -
  from assms(1) obtain it where it: "channels_array_get (channels_array s) i = Some it"
    by (auto simp: update_artificial_channel_size_def bind_eq_Some_conv)
  then have i: "i < num_entries (channels_array s)" by (auto simp: channels_array_get_def DynArrayGet_def split: if_splits)
  have fr: "chan_frame s (s1\<lparr>channels_array := upd_item i (\<lambda>it. it\<lparr>ci_runtime := (ci_runtime it)\<lparr>rt_maxsize := m\<rparr>\<rparr>) (channels_array s1)\<rparr>)"
    if c: "channel_pos s fd EPosGet EPosWrite 0 = Some (p, s1)" for p s1 m
  proof -
    note f = chan_frame_channel_pos [OF c]
    have "i < num_entries (channels_array s1)" using chan_frame_items(2) [OF f assms(2)] i by simp
    then show ?thesis by (intro chan_frame_trans [OF f] chan_frame_item) (simp_all add: static_item_def)
  qed
  show ?thesis
    using assms(1) fr by (auto simp: update_artificial_channel_size_def it Let_def bind_eq_Some_conv split: if_splits)
qed

lemma chan_frame_emu_write: "emu_handle_write s ino n = Some (r, s') \<Longrightarrow> chan_frame s s'"
  by (auto simp: emu_handle_write_def Let_def split: option.splits if_splits)

lemma chan_frame_read_source: "read_source env s ino n off = (rb, s') \<Longrightarrow> chan_frame s s'"
  by (auto simp: read_source_def split: option.splits prod.splits)

lemma chan_frame_write_source: "write_source env s ino buf off = (w, s') \<Longrightarrow> chan_frame s s'"
  by (auto simp: write_source_def split: option.splits prod.splits dest: chan_frame_emu_write)

lemma chan_frame_advance: "advance s fd access off n = Some s' \<Longrightarrow> chan_frame s s'"
  by (auto simp: advance_def split: if_splits dest: chan_frame_channel_pos)

lemma chan_frame_pread:
  assumes "channels_pread env s fd nbyte offset = Some (r, bs, s')"
  shows "chan_frame s s'"
proof -
  have "chan_frame (s\<lparr>errno := 0\<rparr>) s'"
    using assms unfolding channels_pread_def Let_def
    by (auto simp: bind_eq_Some_conv split: if_splits prod.splits
             dest!: chan_frame_read_source chan_frame_advance intro: chan_frame_trans chan_frame_errno)
  then show ?thesis by (rule chan_frame_trans [OF chan_frame_errno(2)])
qed

lemma chan_frame_pwrite:
  assumes "channels_pwrite env s fd buf offset = Some (r, s')" "arr_ok (channels_array s)"
  shows "chan_frame s s'"
proof -
  let ?s = "s\<lparr>errno := 0\<rparr>"
  consider (err) e where "s' = SET_ERRNO e ?s"
    | (io) ino w s1 s2 where "write_source env ?s ino buf offset = (w, s1)" "advance s1 fd EPosWrite offset w = Some s2"
        "s' = SET_ERRNO w s2 \<or> (\<exists>i. update_artificial_channel_size s2 fd i = Some s')"
    using assms(1) unfolding channels_pwrite_def Let_def
    by (auto simp: bind_eq_Some_conv split: if_splits prod.splits) blast+
  then have "chan_frame ?s s'"
  proof cases
    case io
    have f2: "chan_frame ?s s2"
      by (rule chan_frame_trans [OF chan_frame_write_source [OF io(1)] chan_frame_advance [OF io(2)]])
    then have ok: "arr_ok (channels_array s2)" using chan_frame_items(1) [OF f2] assms(2) by simp
    from io(3) have "chan_frame s2 s'" by (auto dest: chan_frame_update_size [OF _ ok])
    then show ?thesis by (rule chan_frame_trans [OF f2])
  qed simp
  then show ?thesis by (rule chan_frame_trans [OF chan_frame_errno(2)])
qed

lemma chan_frame_read:
  assumes "channels_read env s fd nbyte = Some (r, bs, s')"
  shows "chan_frame s s'"
proof -
  have "chan_frame (s\<lparr>errno := 0\<rparr>) s'"
    using assms unfolding channels_read_def Let_def
    by (auto simp: bind_eq_Some_conv split: if_splits prod.splits
             dest!: chan_frame_channel_pos chan_frame_pread intro: chan_frame_trans chan_frame_errno)
  then show ?thesis by (rule chan_frame_trans [OF chan_frame_errno(2)])
qed

lemma chan_frame_write:
  assumes "channels_write env s fd buf = Some (r, s')" "arr_ok (channels_array s)"
  shows "chan_frame s s'"
proof -
  let ?s = "s\<lparr>errno := 0\<rparr>"
  consider "s' = SET_ERRNO EBADF ?s"
    | s1 off where "channel_pos ?s fd EPosGet EPosWrite 0 = Some (off, s1)"
        "s' = SET_ERRNO EOVERFLOW s1 \<or> channels_pwrite env s1 fd buf off = Some (r, s')"
    using assms(1) unfolding channels_write_def Let_def by (auto simp: bind_eq_Some_conv split: if_splits)
  then have "chan_frame ?s s'"
  proof cases
    case 2
    note f = chan_frame_channel_pos [OF 2(1)]
    have "arr_ok (channels_array s1)" using chan_frame_items(1) [OF f] assms(2) by simp
    with 2(2) have "chan_frame s1 s'" by (auto dest: chan_frame_pwrite)
    then show ?thesis by (rule chan_frame_trans [OF f])
  qed simp
  then show ?thesis by (rule chan_frame_trans [OF chan_frame_errno(2)])
qed

lemma chan_frame_lseek:
  assumes "channels_lseek s fd offset whence = Some (r, s')"
  shows "chan_frame s s'"
proof -
  have "chan_frame (s\<lparr>errno := 0\<rparr>) s'"
    using assms unfolding channels_lseek_def Let_def
    by (auto simp: bind_eq_Some_conv split: if_splits dest: chan_frame_channel_pos)
  then show ?thesis by (rule chan_frame_trans [OF chan_frame_errno(2)])
qed

lemma getdents_loop_index: "getdents_loop name_off s fd n buf k i = Some (k', i', buf') \<Longrightarrow> i \<le> i'"
proof (induction name_off s fd n buf k i rule: getdents_loop.induct)
  case (1 name_off s fd n buf k i)
  from "1.prems" show ?case
    by (subst (asm) getdents_loop.simps) (auto split: option.splits prod.splits if_splits dest!: "1.IH")
qed

lemma same_tables_upd_ofd: "same_tables s (snd (upd_ofd f s i))"
  by (auto simp: same_tables_def upd_ofd_def Let_def)

lemma same_tables_trans: "same_tables s s' \<Longrightarrow> same_tables s' s'' \<Longrightarrow> same_tables s s''"
  by (auto simp: same_tables_def)

lemma same_tables_getdents:
  assumes "channels_getdents name_off s fd al buf n = Some (r, buf', s')"
  shows "same_tables s s'"
proof -
  have "same_tables (s\<lparr>errno := 0\<rparr>) s'"
    using assms unfolding channels_getdents_def Let_def
    by (auto simp: bind_eq_Some_conv set_offset_def same_tables_upd_ofd chan_frame_same split: if_splits)
  then show ?thesis by (rule same_tables_trans [OF chan_frame_same [OF chan_frame_errno(2)]])
qed

lemma same_tables_setfl:
  assumes "set_file_status_flags s fd fl = Some (r, s')"
  shows "same_tables s s'"
  using assms unfolding set_file_status_flags_def
  by (auto simp: bind_eq_Some_conv set_flags_def same_tables_upd_ofd chan_frame_same split: if_splits)

lemma chan_frame_stats:
  "channels_stat env s path = Some (r, st, s') \<Longrightarrow> chan_frame s s'"
  "channels_fstat env s fd = Some (r, st, s') \<Longrightarrow> chan_frame s s'"
  "channels_fcntl s fd cmd = Some (r, s') \<Longrightarrow> chan_frame s s'"
  "channels_remove s p = Some (r, s') \<Longrightarrow> chan_frame s s'"
  "channels_unlink s p = Some (r, s') \<Longrightarrow> chan_frame s s'"
  "channels_enosys s = Some (r, s') \<Longrightarrow> chan_frame s s'"
  unfolding channels_stat_def channels_fstat_def channels_fcntl_def channels_remove_def channels_unlink_def channels_enosys_def Let_def
  by (auto simp: bind_eq_Some_conv split: if_splits option.splits intro: chan_frame_trans [OF chan_frame_errno(2)])

section \<open>Opening and closing\<close>

lemma chan_wf_close:
  assumes wf: "chan_wf s" and e: "entry s fd = Some e" "hi_mount_fs e = Some (channels_ref s)"
  shows "\<exists>s'. channels_close s fd = Some (0, s') \<and> chan_wf s' \<and> entry s' = (entry s)(fd := None)
     \<and> channels_ref s' = channels_ref s"
proof -
  let ?s = "s\<lparr>errno := 0\<rparr>"
  have wf0: "chan_wf ?s" by (rule chan_wf_frame [OF chan_frame_errno(2) wf])
  from fd_wf_close [OF chan_wfD(1) [OF wf0], of fd e] e obtain s1 s2 where
    r: "release_ofd ?s (hi_ofd_id e) = (0, s1)" and f: "free_handle s1 fd = (0, s2)" and w2: "fd_wf None s2"
    and e2: "entry s2 = (entry s)(fd := None)" by auto
  have k: "inode_known ?s (hi_inode e)" using chan_wfD(3) [OF wf0] e by (auto simp: handles_known_def)
  have nn: "\<not> (item_by_inode ?s (hi_inode e) = None \<and> dir_by_inode ?s (hi_inode e) = None)"
    by (rule inode_known_cases [OF chan_wfD(2) [OF wf0] k]) auto
  have rel: "related ?s fd" using e by (simp add: related_entry)
  have fr: "channels_array s2 = channels_array s" "manifest_dirs s2 = manifest_dirs s" "channels_ref s2 = channels_ref s"
    using r f by (auto simp: release_ofd_def free_handle_def Let_def split: if_splits)
  then have "chan_wf s2"
    using w2 e2 wf by (auto simp: chan_wf_def numbered_def handles_known_def inode_known_def split: if_splits)
  moreover have "channels_close s fd = Some (0, s2)"
    using rel e nn r f by (auto simp: channels_close_def)
  ultimately show ?thesis using e2 fr(3) by blast
qed

text \<open>Taking a description and putting a new handle of this mount on it: the common tail of both ways to open.\<close>

lemma chan_wf_new_handle:
  assumes wf: "chan_wf s" and g: "getnew_ofd s fl = (i, s1)" and k: "inode_known s ino"
    and a: "allocate_handle s1 (channels_ref s1) ino par i = (h, s2)"
  shows "if h = -1 then chan_wf (snd (release_ofd s2 i)) \<and> (\<forall>k < MAX_HANDLES_COUNT. \<not> handle_free s k)
           \<and> entry (snd (release_ofd s2 i)) = entry s
     else chan_wf s2 \<and> 0 \<le> h \<and> h < int MAX_HANDLES_COUNT \<and> handle_free s (nat h) \<and> (\<forall>k < nat h. \<not> handle_free s k)
       \<and> entry s2 = (entry s)(h \<mapsto> \<lparr>hi_inode = ino, hi_parent_dir_inode = par, hi_ofd_id = i, hi_mount_fs = Some (channels_ref s)\<rparr>)
       \<and> ofd s2 h = Some \<lparr>channel_sequential_offset = 0, ofd_offset = 0, ofd_flags = fl,
                          optional_data = optional_data (os_public (s_open_files_array s (nat i)))\<rparr>
       \<and> refcount (s_open_files_array s2 (nat i)) = 1"
proof -
  note w = chan_wfD(1) [OF wf]
  have s1: "channels_array s1 = channels_array s" "manifest_dirs s1 = manifest_dirs s" "channels_ref s1 = channels_ref s"
    "s_handle_slots s1 = s_handle_slots s" "h_first_unused_slot s1 = h_first_unused_slot s"
    using g by (auto simp: getnew_ofd_cases split: option.splits)
  have ok1: "ht.hint_ok s1" using fd_wfD(1) [OF w] s1 by (simp add: ht.hint_ok_def)
  have a': "alloc_handle_of s1 (channels_ref s1, ino, par, i) = (h, s2)" using a by simp
  have s2: "channels_array s2 = channels_array s1" "manifest_dirs s2 = manifest_dirs s1" "channels_ref s2 = channels_ref s1"
    using a by (auto simp: allocate_handle_cases put_handle_def split: option.splits)
  have i: "i \<noteq> -1" if "\<exists>k < MAX_HANDLES_COUNT. handle_free s k"
  proof
    assume "i = -1"
    from fd_wf_getnew_ofd_full [OF w] g this have "\<forall>h < MAX_HANDLES_COUNT. hs_used (s_handle_slots s1 h) = EHandleUsed" by blast
    with that s1(4) show False by fastforce
  qed
  show ?thesis
  proof (cases "h = -1")
    case True
    have "alloc_handle_of s1 (channels_ref s1, ino, par, i) = (-1, s2)" using a' True by simp
    from ht.alloc_full [OF ok1 this] have full: "\<forall>k < MAX_HANDLES_COUNT. \<not> handle_free s k" using s1(4) by simp
    let ?s3 = "snd (release_ofd s2 i)"
    have s3: "channels_array ?s3 = channels_array s2" "manifest_dirs ?s3 = manifest_dirs s2" "channels_ref ?s3 = channels_ref s2"
      "s_handle_slots ?s3 = s_handle_slots s2"
      by (auto simp: release_ofd_def Let_def)
    have "s_handle_slots s2 = s_handle_slots s1"
      using a True by (auto simp: allocate_handle_cases split: option.splits)
    then have ent: "entry ?s3 = entry s" using s3 s1 by (simp add: entry_def VERIFY_HANDLE_def fun_eq_iff)
    have "fd_wf None ?s3"
    proof (cases "i = -1")
      case True
      with fd_wf_getnew_ofd_full [OF w] g have w1: "fd_wf None s1" by blast
      have "s2 = s1\<lparr>h_first_unused_slot := -1\<rparr>" using a \<open>h = -1\<close> by (auto simp: allocate_handle_cases split: option.splits)
      moreover have "?s3 = s2" using True by (simp add: release_ofd_def VERIFY_OFD_def)
      ultimately show ?thesis
        using w1 ht.alloc_hint_ok [OF ok1 a'] by (simp add: fd_wf_def op.hint_ok_def handles_on_def)
    next
      case False
      from fd_wf_getnew_ofd [OF w g False] have b: "0 \<le> i" "i < int MAX_HANDLES_COUNT" "fd_wf (Some (nat i)) s1" by auto
      from fd_wf_allocate_handle [OF b(3,1,2) a] True have "fd_wf (Some (nat i)) s2" by simp
      from fd_wf_release_extra [OF this b(1,2)] show ?thesis by auto
    qed
    with ent s3 s2 s1 wf have "chan_wf ?s3" by (simp add: chan_wf_def numbered_def handles_known_def inode_known_def)
    with True full ent show ?thesis by simp
  next
    case False
    from ht.alloc_lowest [OF ok1 a' False] s1(4)
    have h: "0 \<le> h" "h < int MAX_HANDLES_COUNT" "handle_free s (nat h)" "\<forall>k < nat h. \<not> handle_free s k" by auto
    with i have i': "i \<noteq> -1" by (meson nat_less_iff)
    from fd_wf_getnew_ofd [OF w g i'] have b: "0 \<le> i" "i < int MAX_HANDLES_COUNT" "fd_wf (Some (nat i)) s1" by auto
    from fd_wf_allocate_handle [OF b(3,1,2) a] False have w2: "fd_wf None s2" by simp
    let ?item = "\<lparr>hi_inode = ino, hi_parent_dir_inode = par, hi_ofd_id = i, hi_mount_fs = Some (channels_ref s)\<rparr>"
    have sl: "s_handle_slots s2 = (s_handle_slots s)(nat h := \<lparr>hs_public = ?item, hs_used = EHandleUsed\<rparr>)"
      "s_open_files_array s2 = s_open_files_array s1"
      using a False s1 by (auto simp: allocate_handle_cases put_handle_def split: option.splits)
    then have ent: "entry s2 = (entry s)(h \<mapsto> ?item)"
      using h by (auto simp: entry_def VERIFY_HANDLE_def fun_eq_iff)
    have "chan_wf s2"
      using w2 wf k ent s1 s2 by (auto simp: chan_wf_def numbered_def handles_known_def inode_known_def)
    moreover have "os_public (s_open_files_array s1 (nat i)) = \<lparr>channel_sequential_offset = 0, ofd_offset = 0, ofd_flags = fl,
                          optional_data = optional_data (os_public (s_open_files_array s (nat i)))\<rparr>"
      using g i' by (auto simp: getnew_ofd_cases split: option.splits intro!: OpenFileDescription.equality)
    then have "ofd s2 h = Some \<lparr>channel_sequential_offset = 0, ofd_offset = 0, ofd_flags = fl,
                          optional_data = optional_data (os_public (s_open_files_array s (nat i)))\<rparr>"
      using ofd_of_entry(1) [OF w2, of h ?item] ent sl(2) by simp
    moreover have "refcount (s_open_files_array s2 (nat i)) = 1"
      using op.alloc_lowest [OF fd_wfD(2) [OF w] g i'] g i' sl(2) by (auto simp: getnew_ofd_cases split: option.splits)
    ultimately show ?thesis using False h ent by simp
  qed
qed

lemma item_by_name_known:
  assumes "numbered s" "item_by_name s nm = Some it"
  shows "inode_known s (rt_inode (ci_runtime it))" "item_by_inode s (rt_inode (ci_runtime it)) = Some it"
    "ch_name (ci_channel it) = nm"
proof -
  have ok: "arr_ok (channels_array s)" using assms(1) by (simp add: numbered_def)
  from assms(2) obtain k where k: "channels_array_match_by_name (channels_array s) nm = Some k"
    "DynArrayGet (channels_array s) k = Some it"
    by (auto simp: item_by_name_def channels_array_get_def bind_eq_Some_conv)
  then have l: "k < num_entries (channels_array s)" and nm: "ch_name (ci_channel (items (channels_array s) ! k)) = nm"
    by (auto simp: match_by_name_Some_iff [OF ok])
  with k(2) have it: "it = items (channels_array s) ! k" by (simp add: get_items [OF ok])
  with l assms(1) have ino: "rt_inode (ci_runtime it) = 11 + int k" by (simp add: numbered_def)
  show "inode_known s (rt_inode (ci_runtime it))" using l by (simp add: ino inode_known_def)
  show "item_by_inode s (rt_inode (ci_runtime it)) = Some it"
    using l unfolding item_by_inode_eq [OF assms(1)] ino by (simp add: it)
  show "ch_name (ci_channel it) = nm" using nm it by simp
qed

lemma match_dir_known:
  assumes "numbered s" "match_dir_in_directory_list (manifest_dirs s) p n = Some k"
  shows "inode_known s (dir_inode (manifest_dirs s ! k))" "dir_by_inode s (dir_inode (manifest_dirs s ! k)) = Some (manifest_dirs s ! k)"
    "item_by_inode s (dir_inode (manifest_dirs s ! k)) = None" "k < length (manifest_dirs s)"
proof -
  show l: "k < length (manifest_dirs s)"
    using assms(2) by (auto simp: match_dir_in_directory_list_def Let_def first_index_Some_iff)
  have ino: "dir_inode (manifest_dirs s ! k) = 11 + int (num_entries (channels_array s)) + int k"
    using assms(1) l by (simp add: numbered_def)
  show "inode_known s (dir_inode (manifest_dirs s ! k))" using l by (simp add: ino inode_known_def)
  show "dir_by_inode s (dir_inode (manifest_dirs s ! k)) = Some (manifest_dirs s ! k)"
    using l unfolding dir_by_inode_eq [OF assms(1)] ino by (simp add: Let_def)
  show "item_by_inode s (dir_inode (manifest_dirs s ! k)) = None"
    unfolding item_by_inode_eq [OF assms(1)] ino by simp
qed

text \<open>What a successful open leaves: the lowest free descriptor, on the inode and a fresh description.\<close>

definition opened :: "('w, 'a) chan_scheme \<Rightarrow> int \<Rightarrow> flags_t \<Rightarrow> int \<Rightarrow> ('w, 'a) chan_scheme \<Rightarrow> bool" where
  "opened s ino fl h s' \<longleftrightarrow>
     0 \<le> h \<and> h < int MAX_HANDLES_COUNT \<and> handle_free s (nat h) \<and> (\<forall>k < nat h. \<not> handle_free s k)
     \<and> (\<exists>e d. entry s' = (entry s)(h \<mapsto> e) \<and> hi_inode e = ino \<and> hi_mount_fs e = Some (channels_ref s)
              \<and> ofd s' h = Some d \<and> ofd_flags d = fl \<and> refcount (s_open_files_array s' (nat (hi_ofd_id e))) = 1)"

text \<open>The tail of \<open>open_channel\<close> and of opening a directory.\<close>

lemma new_handle_opened:
  assumes "chan_wf s" "getnew_ofd s fl = (i, s1)" "inode_known s ino"
    and "allocate_handle s1 (channels_ref s1) ino par i = (h, s2)" "h \<noteq> -1"
  shows "opened s ino fl h s2" "chan_wf s2"
  using chan_wf_new_handle [OF assms(1-4)] assms(5) by (auto simp: opened_def)

lemma opened_append:
  assumes "chan_wf s2" "opened s ino fl h s2" "channels_ref s2 = channels_ref s" "item_by_inode s2 ino = Some it"
  shows "\<exists>r s3. channel_pos s2 h EPosSetAbsolute EPosWrite off = Some (r, s3) \<and> chan_wf s3 \<and> opened s ino fl h s3"
proof -
  from assms(2,3) obtain e d where e: "entry s2 h = Some e" "hi_mount_fs e = Some (channels_ref s2)" "hi_inode e = ino"
    "ofd s2 h = Some d" "entry s2 = (entry s)(h \<mapsto> e)" "ofd_flags d = fl"
    "refcount (s_open_files_array s2 (nat (hi_ofd_id e))) = 1" by (auto simp: opened_def)
  obtain r s3 where c: "channel_pos s2 h EPosSetAbsolute EPosWrite off = Some (r, s3)"
    using channel_pos_open [OF assms(1) e(1,2) _ e(4) refl, of it EPosSetAbsolute EPosWrite off] assms(4) e(3)
    by (cases "SET_SAFE_OFFSET EPosSetAbsolute (position (ch_type (ci_channel it)) EPosWrite d) off") auto
  note f = chan_frame_channel_pos [OF c]
  note w3 = chan_wf_frame [OF f assms(1)]
  have e3: "entry s3 = entry s2" by (rule chan_frameD(1) [OF f])
  have "ofd s2 h = Some (os_public (s_open_files_array s2 (nat (hi_ofd_id e))))"
    "ofd s3 h = Some (os_public (s_open_files_array s3 (nat (hi_ofd_id e))))"
    using ofd_of_entry(1) [OF chan_wfD(1) [OF assms(1)] e(1)] ofd_of_entry(1) [OF chan_wfD(1) [OF w3], of h e] e(1) e3 by simp_all
  then obtain d3 where "ofd s3 h = Some d3" "ofd_flags d3 = fl"
    using f e(4,6) by (auto simp: chan_frame_def)
  moreover have "refcount (s_open_files_array s3 (nat (hi_ofd_id e))) = 1"
    using f e(7) by (auto simp: chan_frame_def same_tables_def)
  ultimately have "opened s ino fl h s3"
    using assms(2,3) e e3 by (auto simp: opened_def)
  with c w3 show ?thesis by blast
qed

definition no_handle_left :: "'a kern_scheme \<Rightarrow> bool" where
  "no_handle_left s \<longleftrightarrow> (\<forall>k < MAX_HANDLES_COUNT. \<not> handle_free s k)"

text \<open>The guards of \<open>open_channel\<close> before it takes a descriptor; \<open>0\<close> lets it pass.\<close>

definition open_guard :: "ChannelArrayItem \<Rightarrow> flags_t \<Rightarrow> int" where
  "open_guard it flags =
     (let perm = channel_permissions it; ftype = perm AND S_IFMT
      in if ch_type (ci_channel it) = RGetSPut \<and> \<not> CHECK_FLAG flags O_APPEND
            \<and> CHECK_FLAG perm S_IRUSR \<and> CHECK_FLAG perm S_IWUSR \<and> (ftype = S_IFBLK \<or> ftype = S_IFREG) then EPERM
         else if rt_emu (ci_runtime it) = 0 \<and> CHECK_FLAG flags O_TRUNC \<and> ftype \<noteq> S_IFCHR \<and> ftype \<noteq> S_IFIFO then EPERM
         else if check_channel_flags (ci_channel it) flags \<noteq> 0 then EACCES else 0)"

lemma open_channel_guard:
  "item_by_name s nm = None \<Longrightarrow> open_channel s nm fl md = Some (-1, SET_ERRNO ENOENT s)"
  "item_by_name s nm = Some it \<Longrightarrow> open_guard it fl \<noteq> 0 \<Longrightarrow> open_channel s nm fl md = Some (-1, SET_ERRNO (open_guard it fl) s)"
  by (auto simp: open_channel_def open_guard_def Let_def)

lemma open_channel_pass:
  assumes wf: "chan_wf s" and it: "item_by_name s nm = Some it" and g: "open_guard it fl = 0"
  shows "\<exists>h s'. open_channel s nm fl md = Some (h, s') \<and> chan_wf s' \<and>
    (if no_handle_left s then h = -1 \<and> errno s' = ENFILE \<and> entry s' = entry s
     else opened s (rt_inode (ci_runtime it)) fl h s')"
proof -
  obtain i s1 where n: "getnew_ofd s fl = (i, s1)" by fastforce
  obtain h s2 where a: "allocate_handle s1 (channels_ref s1) (rt_inode (ci_runtime it)) (rt_parent_inode (ci_runtime it)) i = (h, s2)"
    by fastforce
  note k = item_by_name_known [OF chan_wfD(2) [OF wf] it]
  note nw = chan_wf_new_handle [OF wf n k(1) a]
  define perm where "perm = channel_permissions it"
  from g have g1: "\<not> (ch_type (ci_channel it) = RGetSPut \<and> \<not> CHECK_FLAG fl O_APPEND \<and> CHECK_FLAG perm S_IRUSR
      \<and> CHECK_FLAG perm S_IWUSR \<and> (perm AND S_IFMT = S_IFBLK \<or> perm AND S_IFMT = S_IFREG))"
    and g2: "\<not> (rt_emu (ci_runtime it) = 0 \<and> CHECK_FLAG fl O_TRUNC \<and> perm AND S_IFMT \<noteq> S_IFCHR \<and> perm AND S_IFMT \<noteq> S_IFIFO)"
    and g3: "(check_channel_flags (ci_channel it) fl \<noteq> 0) = False"
    unfolding open_guard_def Let_def perm_def by (auto split: if_splits)
  have eq: "open_channel s nm fl md =
     (if h = -1 then Some (-1, SET_ERRNO ENFILE (snd (release_ofd s2 i)))
      else if CHECK_FLAG fl O_APPEND then do {
        (r, s3) \<leftarrow> channel_pos s2 h EPosSetAbsolute EPosWrite (CHANNEL_SIZE it mod 2 ^ 32); Some (h, s3) }
      else Some (h, s2))"
    unfolding open_channel_def Let_def it option.case perm_def [symmetric] if_not_P [OF g1] if_not_P [OF g2] g3 if_False n prod.case a
    by (rule refl)
  show ?thesis
  proof (cases "h = -1")
    case True
    let ?s = "snd (release_ofd s2 i)"
    have "chan_wf (SET_ERRNO ENFILE ?s)" using nw True by (auto intro: chan_wf_frame [OF chan_frame_errno(1)])
    moreover have "entry (SET_ERRNO ENFILE ?s) = entry s" using nw True by (simp add: SET_ERRNO_def)
    moreover have "no_handle_left s" using nw True by (simp add: no_handle_left_def)
    ultimately show ?thesis using eq True by (auto simp: SET_ERRNO_def)
  next
    case False
    note o = new_handle_opened [OF wf n k(1) a False]
    have "handle_free s (nat h)" "nat h < MAX_HANDLES_COUNT" using o(1) by (auto simp: opened_def nat_less_iff)
    then have nl: "\<not> no_handle_left s" unfolding no_handle_left_def by blast
    have st: "channels_ref s2 = channels_ref s" "channels_array s2 = channels_array s"
      using n a by (auto simp: allocate_handle_cases getnew_ofd_cases put_handle_def split: option.splits)
    then have "item_by_inode s2 (rt_inode (ci_runtime it)) = Some it" using k(2) by (simp add: item_by_inode_def)
    from opened_append [OF o(2,1) st(1) this] obtain r s3 where
      "channel_pos s2 h EPosSetAbsolute EPosWrite (CHANNEL_SIZE it mod 2 ^ 32) = Some (r, s3)" "chan_wf s3"
      "opened s (rt_inode (ci_runtime it)) fl h s3" by blast
    with eq False nl o show ?thesis by (cases "CHECK_FLAG fl O_APPEND") auto
  qed
qed

end
