(* ===== verification/ChannelsProps.thy ===== *)
theory ChannelsProps
  imports ChannelsInv
begin

text \<open>
  What the operations of the channel file system return and do, on every branch: opening, closing,
  reading, writing, seeking, and that each keeps the invariant.
\<close>

section \<open>Opening and closing\<close>

text \<open>The decision of \<open>channels_open\<close> before it takes a descriptor: an \<open>errno\<close>, or the inode to open.\<close>

definition open_target :: "('w, 'a) chan_scheme \<Rightarrow> string \<Rightarrow> flags_t \<Rightarrow> int + int" where
  "open_target s path fl =
     (if \<not> CHECK_FLAG fl O_DIRECTORY then
        (case item_by_name s path of
           None \<Rightarrow> Inl ENOENT
         | Some it \<Rightarrow> if open_guard it fl \<noteq> 0 then Inl (open_guard it fl) else Inr (rt_inode (ci_runtime it)))
      else (case match_dir_in_directory_list (manifest_dirs s) path (length path) of
              None \<Rightarrow> Inl ENOENT
            | Some k \<Rightarrow> Inr (dir_inode (manifest_dirs s ! k))))"

lemma open_dir_pass:
  assumes wf: "chan_wf s" and k: "match_dir_in_directory_list (manifest_dirs s) path (length path) = Some k"
    and dir: "CHECK_FLAG fl O_DIRECTORY" and e0: "errno s = 0"
  shows "\<exists>h s'. channels_open s path fl md = Some (h, s') \<and> chan_wf s' \<and>
    (if no_handle_left s then h = -1 \<and> errno s' = ENFILE \<and> entry s' = entry s
     else opened s (dir_inode (manifest_dirs s ! k)) fl h s')"
proof -
  have s0: "s\<lparr>errno := 0\<rparr> = s" using e0 by simp
  obtain i s1 where n: "getnew_ofd s fl = (i, s1)" by fastforce
  obtain h s2 where a: "allocate_handle s1 (channels_ref s1) (dir_inode (manifest_dirs s ! k))
      (dd_parent_dir_inode (manifest_dirs s ! k)) i = (h, s2)" by fastforce
  note kn = match_dir_known [OF chan_wfD(2) [OF wf] k]
  note nw = chan_wf_new_handle [OF wf n kn(1) a]
  have eq: "channels_open s path fl md = Some (if h = -1 then (-1, SET_ERRNO ENFILE (snd (release_ofd s2 i))) else (h, s2))"
    using dir k n a by (simp add: channels_open_def s0 Let_def)
  show ?thesis
  proof (cases "h = -1")
    case True
    let ?s = "snd (release_ofd s2 i)"
    have "chan_wf (SET_ERRNO ENFILE ?s)" using nw True by (auto intro: chan_wf_frame [OF chan_frame_errno(1)])
    moreover have "entry (SET_ERRNO ENFILE ?s) = entry s" using nw True by (simp add: SET_ERRNO_def)
    ultimately show ?thesis using eq True nw by (auto simp: SET_ERRNO_def no_handle_left_def)
  next
    case False
    note o = new_handle_opened [OF wf n kn(1) a False]
    have "handle_free s (nat h)" "nat h < MAX_HANDLES_COUNT" using o(1) by (auto simp: opened_def nat_less_iff)
    then have "\<not> no_handle_left s" unfolding no_handle_left_def by blast
    with eq False o show ?thesis by auto
  qed
qed

lemma opened_errno: "opened (s\<lparr>errno := x\<rparr>) ino fl h s' = opened s ino fl h s'"
  by (simp add: opened_def)

lemma no_handle_left_errno: "no_handle_left (s\<lparr>errno := x\<rparr>) = no_handle_left s"
  by (simp add: no_handle_left_def)

text \<open>The call, whatever the path and the flags.\<close>

lemma channels_open_cases:
  assumes "chan_wf s"
  shows "\<exists>h s'. channels_open s path fl mode = Some (h, s') \<and> chan_wf s' \<and>
    (case open_target s path fl of
       Inl err \<Rightarrow> h = -1 \<and> errno s' = err \<and> entry s' = entry s
     | Inr ino \<Rightarrow> if no_handle_left s then h = -1 \<and> errno s' = ENFILE \<and> entry s' = entry s
                  else opened s ino fl h s')"
proof -
  let ?s = "s\<lparr>errno := 0\<rparr>"
  have wf: "chan_wf ?s" by (rule chan_wf_frame [OF chan_frame_errno(2) assms])
  have err: "chan_wf (SET_ERRNO e s)" "entry (SET_ERRNO e s) = entry s" "errno (SET_ERRNO e s) = e" for e
    using chan_wf_frame [OF chan_frame_errno(1) assms, of e] by (simp_all add: SET_ERRNO_def)
  show ?thesis
  proof (cases "CHECK_FLAG fl O_DIRECTORY")
    case False
    then have o: "channels_open s path fl mode = open_channel ?s path fl mode" by (simp add: channels_open_def)
    show ?thesis
    proof (cases "item_by_name s path")
      case None
      with False o err show ?thesis by (simp add: open_target_def open_channel_guard)
    next
      case (Some it)
      show ?thesis
      proof (cases "open_guard it fl = 0")
        case True
        have t: "open_target s path fl = Inr (rt_inode (ci_runtime it))" using Some False True by (simp add: open_target_def)
        from open_channel_pass [OF wf _ True, of path mode] Some show ?thesis
          unfolding t sum.case o opened_errno no_handle_left_errno errno_lookups errno_lookups_chan by blast
      next
        case g: False
        with Some False o err show ?thesis by (simp add: open_target_def open_channel_guard)
      qed
    qed
  next
    case True
    show ?thesis
    proof (cases "match_dir_in_directory_list (manifest_dirs s) path (length path)")
      case None
      with True err show ?thesis by (simp add: open_target_def channels_open_def)
    next
      case (Some k)
      have c: "channels_open ?s path fl mode = channels_open s path fl mode" "manifest_dirs ?s = manifest_dirs s"
        by (simp_all add: channels_open_def)
      have t: "open_target s path fl = Inr (dir_inode (manifest_dirs s ! k))" using Some True by (simp add: open_target_def)
      have "errno ?s = 0" by simp
      from open_dir_pass [OF wf _ True this, of path k mode] Some show ?thesis
        unfolding t sum.case opened_errno no_handle_left_errno errno_lookups c by blast
    qed
  qed
qed

lemma channels_open_keeps: "chan_wf s \<Longrightarrow> channels_open s path fl mode = Some (h, s') \<Longrightarrow> chan_wf s'"
  using channels_open_cases [of s path fl mode] by auto

text \<open>
  (C2) Opening a channel or a directory never aborts and keeps the invariant. When the path or the access
  rights are refused, the call returns \<open>-1\<close> with that error and no descriptor changes; when the
  descriptors are used up it returns \<open>-1\<close> with \<open>ENFILE\<close>, again without a change, and the description it
  took is given back; otherwise it returns the lowest free descriptor, on the right inode, with a
  description of its own that has the flags of the call.
\<close>

theorem channels_open_correct:
  assumes "chan_wf s"
  shows "\<exists>h s'. channels_open s path fl mode = Some (h, s') \<and> chan_wf s' \<and>
    (case open_target s path fl of
       Inl err \<Rightarrow> h = -1 \<and> errno s' = err \<and> entry s' = entry s
     | Inr ino \<Rightarrow> if no_handle_left s then h = -1 \<and> errno s' = ENFILE \<and> entry s' = entry s
                  else opened s ino fl h s')"
  by (rule channels_open_cases [OF assms])

text \<open>
  (C6) Closing an open descriptor of the channel file system never fails an assertion, returns 0, frees
  exactly that descriptor and keeps the invariant, so that the description goes away with its last
  descriptor.
\<close>

theorem channels_close_correct:
  assumes "chan_wf s" "entry s fd = Some e" "hi_mount_fs e = Some (channels_ref s)"
  shows "\<exists>s'. channels_close s fd = Some (0, s') \<and> chan_wf s' \<and> entry s' = (entry s)(fd := None)"
  using chan_wf_close [OF assms] by blast

section \<open>Transfers\<close>

lemma world_lookups [simp, state_simps]:
  "check_handle_is_related_to_filesystem (s\<lparr>world := w\<rparr>) = check_handle_is_related_to_filesystem s"
  "entry (s\<lparr>world := w\<rparr>) = entry s" "ofd (s\<lparr>world := w\<rparr>) = ofd s"
  "item_by_inode (s\<lparr>world := w\<rparr>) = item_by_inode s"
  by (simp_all add: fun_eq_iff check_handle_is_related_to_filesystem_def entry_def ofd_def ofd_entry_def item_by_inode_def
      VERIFY_HANDLE_def VERIFY_OFD_def)

lemma read_source_world: "read_source env s ino n off = (rb, s1) \<Longrightarrow> \<exists>w. s1 = s\<lparr>world := w\<rparr>"
  by (auto simp: read_source_def split: option.splits prod.splits intro: exI [of _ "world s"])

lemma channel_pos_move:
  assumes "chan_wf s" "entry s fd = Some e" "hi_mount_fs e = Some (channels_ref s)"
    and "item_by_inode s (hi_inode e) = Some it" "ofd s fd = Some d" "access \<noteq> EPosSeek" "0 \<le> p"
  shows "channel_pos s fd EPosSetAbsolute access p
     = Some (p, snd (upd_ofd (set_position (ch_type (ci_channel it)) access p) s (hi_ofd_id e)))"
  using channel_pos_open [OF assms(1-5) refl, of EPosSetAbsolute access p] assms(6,7)
  by (simp add: SET_SAFE_OFFSET_def)

text \<open>What a transfer of \<open>n\<close> bytes from position \<open>p\<close> leaves of the descriptor: its position moved behind them.\<close>

definition moved :: "access_type \<Rightarrow> PosAccess \<Rightarrow> off_t \<Rightarrow> int \<Rightarrow> HandleItem \<Rightarrow> ('w, 'a) chan_scheme \<Rightarrow> ('w, 'a) chan_scheme" where
  "moved ty access p n e s = (if 0 < n then snd (upd_ofd (set_position ty access (p + n)) s (hi_ofd_id e)) else s)"

lemma advance_moved:
  assumes "chan_wf s" "entry s fd = Some e" "hi_mount_fs e = Some (channels_ref s)"
    and "item_by_inode s (hi_inode e) = Some it" "ofd s fd = Some d" "access \<noteq> EPosSeek"
    and "0 \<le> p" "p + n < 2 ^ 63"
  shows "advance s fd access p n = Some (moved (ch_type (ci_channel it)) access p n e s)"
proof (cases "0 < n")
  case True
  then have "s64 (p + n) = p + n" using assms(7,8) by (simp add: s64_id)
  with channel_pos_move [OF assms(1-6), of "p + n"] True assms(7) show ?thesis by (simp add: advance_def moved_def)
qed (simp add: advance_def moved_def)

text \<open>
  (C3) A read on an open channel: the device or host is asked for \<open>nbyte\<close> bytes at the current read
  position \<open>p\<close>; what it returns is returned, with the bytes, and a positive count moves exactly the
  read position of the description behind them. A host failure returns \<open>-1\<close> and stores the host's
  negative code in \<open>errno\<close>.
\<close>

theorem channels_read_correct:
  assumes wf: "chan_wf s" and e: "entry s fd = Some e" "hi_mount_fs e = Some (channels_ref s)"
    and it: "item_by_inode s (hi_inode e) = Some it" and d: "ofd s fd = Some d"
    and acc: "ofd_flags d AND O_ACCMODE = O_RDONLY \<or> ofd_flags d AND O_ACCMODE = O_RDWR"
    and p: "p = position (ch_type (ci_channel it)) EPosRead d" "0 \<le> p" "p + int nbyte < 2 ^ 63"
    and host: "read_source env (s\<lparr>errno := 0\<rparr>) (hi_inode e) nbyte p = ((n, bytes), s1)" "n \<le> int nbyte"
  shows "channels_read env s fd nbyte =
    Some (if n < 0 then (-1, bytes, SET_ERRNO n s1)
          else (n, bytes, moved (ch_type (ci_channel it)) EPosRead p n e s1))"
proof -
  let ?s = "s\<lparr>errno := 0\<rparr>"
  have wf0: "chan_wf ?s" by (rule chan_wf_frame [OF chan_frame_errno(2) wf])
  have rel: "related s fd" using e by (simp add: related_entry)
  have opn: "CHANNEL_IS_OPENED s fd" using e by (auto simp: CHANNEL_IS_OPENED_def mount_interface_def entry_def split: if_splits)
  have get: "channel_pos ?s fd EPosGet EPosRead 0 = Some (p, ?s)"
    using channel_pos_open [OF wf0 _ _ _ _ refl, of fd e it d EPosGet EPosRead 0] e it d p(1) by simp
  have small: "\<not> s64 (p + int nbyte) < 0" using p(2,3) by (simp add: s64_id)
  obtain w where s1: "s1 = ?s\<lparr>world := w\<rparr>" using read_source_world [OF host(1)] by blast
  have wf1: "chan_wf s1" unfolding s1 by (rule chan_wf_frame [OF chan_frame_world wf0])
  have "channels_ref s1 = channels_ref s" by (simp add: s1)
  have adv: "advance s1 fd EPosRead p n = Some (moved (ch_type (ci_channel it)) EPosRead p n e s1)"
    by (rule advance_moved [OF wf1, where d = d]) (use e it d p host(2) in \<open>simp_all add: s1\<close>)
  have "channels_pread env ?s fd nbyte p = Some (if n < 0 then (-1, bytes, SET_ERRNO n s1)
          else (n, bytes, moved (ch_type (ci_channel it)) EPosRead p n e s1))"
    using rel e(1) d acc host(1) adv by (auto simp: channels_pread_def moved_def)
  then show ?thesis using opn get small by (simp add: channels_read_def)
qed

lemma position_set_position [simp]: "position ty access (set_position ty access p d) = p"
  by (auto simp: position_def set_position_def uses_sequential_def split: access_type.splits if_splits)

lemma moved_frame:
  assumes "0 \<le> p"
  shows "chan_frame s (moved ty access p n e s)" "channels_array (moved ty access p n e s) = channels_array s"
    "world (moved ty access p n e s) = world s" "errno (moved ty access p n e s) = errno s"
proof -
  show "chan_frame s (moved ty access p n e s)"
    using assms unfolding moved_def by (auto simp: set_position_def intro!: chan_frame_upd_ofd)
qed (auto simp: moved_def upd_ofd_def Let_def)

lemma moved_ofd:
  assumes "fd_wf None s" "entry s fd = Some e" "ofd s fd = Some d"
  shows "ofd (moved ty access p n e s) fd = Some (if 0 < n then set_position ty access (p + n) d else d)"
proof -
  have v: "VERIFY_OFD s (hi_ofd_id e)" by (rule VERIFY_OFD_of_entry(1) [OF assms(1,2)])
  have d: "os_public (s_open_files_array s (nat (hi_ofd_id e))) = d" using ofd_of_entry(1) [OF assms(1,2)] assms(3) by simp
  show ?thesis
    using assms(2,3) v d
    by (auto simp: moved_def upd_ofd_def Let_def ofd_def ofd_entry_def entry_def VERIFY_HANDLE_def VERIFY_OFD_def split: if_splits)
qed

lemma emu_write_state: "emu_handle_write s ino n = Some (r, s') \<Longrightarrow> s' = s \<or> r = -1 \<and> s' = SET_ERRNO ENOSPC s"
  by (simp add: emu_handle_write_def Let_def split: option.splits if_split_asm)

lemma write_source_state:
  assumes "write_source env s ino buf off = (n, s1)"
  shows "(\<exists>w. s1 = s\<lparr>world := w\<rparr>) \<or> n = -1 \<and> s1 = SET_ERRNO ENOSPC s"
proof (cases "emu_handle_write s ino (length buf)")
  case None
  with assms show ?thesis by (auto simp: write_source_def split: prod.splits)
next
  case (Some x)
  with assms have "emu_handle_write s ino (length buf) = Some (n, s1)" by (simp add: write_source_def)
  from emu_write_state [OF this] show ?thesis by (metis chan.surjective chan.update_convs(4))
qed

text \<open>A channel with a seekable side remembers the furthest position it was written to.\<close>

definition grown :: "int \<Rightarrow> access_type \<Rightarrow> off_t \<Rightarrow> ('w, 'a) chan_scheme \<Rightarrow> ('w, 'a) chan_scheme" where
  "grown ino ty p s = (if ty = SGetSPut then s
     else s\<lparr>channels_array := upd_item (nat (ino - 11))
            (\<lambda>it. it\<lparr>ci_runtime := (ci_runtime it)\<lparr>rt_maxsize := max (rt_maxsize (ci_runtime it)) p\<rparr>\<rparr>) (channels_array s)\<rparr>)"

lemma upd_item_cong:
  assumes "DynArrayGet arr i = Some it" "f it = g it"
  shows "upd_item i f arr = upd_item i g arr"
  using assms by (auto simp: upd_item_def DynArrayGet_def split: if_splits)

lemma update_size_grown:
  assumes wf: "chan_wf s" and e: "entry s fd = Some e" "hi_mount_fs e = Some (channels_ref s)"
    and it: "item_by_inode s (hi_inode e) = Some it" and d: "ofd s fd = Some d"
    and ty: "ty = ch_type (ci_channel it)" and p: "p = position ty EPosWrite d"
  shows "Option.bind (channels_array_match_by_inode (channels_array s) (hi_inode e)) (update_artificial_channel_size s fd)
    = Some (grown (hi_inode e) ty p s)"
proof -
  from it have m: "channels_array_match_by_inode (channels_array s) (hi_inode e) = Some (nat (hi_inode e - 11))"
    using item_by_inode_eq [OF chan_wfD(2) [OF wf], of "hi_inode e"] by (auto split: if_splits)
  with it have g: "channels_array_get (channels_array s) (nat (hi_inode e - 11)) = Some it" by (simp add: item_by_inode_def)
  have cp: "channel_pos s fd EPosGet EPosWrite 0 = Some (p, s)"
    using channel_pos_open [OF wf e it d ty, of EPosGet EPosWrite 0] p by simp
  have u: "upd_item (nat (hi_inode e - 11)) (\<lambda>it. it\<lparr>ci_runtime := (ci_runtime it)\<lparr>rt_maxsize := m\<rparr>\<rparr>) (channels_array s)
      = upd_item (nat (hi_inode e - 11)) (\<lambda>it. it\<lparr>ci_runtime := (ci_runtime it)\<lparr>rt_maxsize := max (rt_maxsize (ci_runtime it)) p\<rparr>\<rparr>)
          (channels_array s)"
    if "m = (if rt_maxsize (ci_runtime it) < p then p else rt_maxsize (ci_runtime it))" for m
    by (rule upd_item_cong [OF g [unfolded channels_array_get_def]]) (simp add: that)
  show ?thesis
    using ty by (cases ty) (simp_all add: m update_artificial_channel_size_def g cp grown_def u)
qed

lemma channels_write_ok:
  assumes wf: "chan_wf s" and e: "entry s fd = Some e" "hi_mount_fs e = Some (channels_ref s)"
    and it: "item_by_inode s (hi_inode e) = Some it" and d: "ofd s fd = Some d"
    and acc: "ofd_flags d AND O_ACCMODE = O_WRONLY \<or> ofd_flags d AND O_ACCMODE = O_RDWR"
    and ty: "ty = ch_type (ci_channel it)"
    and p: "p = position ty EPosWrite d" "0 \<le> p" "p + int (length buf) < 2 ^ 63"
    and host: "write_source env (s\<lparr>errno := 0\<rparr>) (hi_inode e) buf p = (n, s1)" "n \<le> int (length buf)"
  shows "channels_write env s fd buf =
    Some (if n < 0 then (-1, SET_ERRNO n s1)
          else (n, grown (hi_inode e) ty (p + n) (moved ty EPosWrite p n e s1)))"
proof -
  let ?s = "s\<lparr>errno := 0\<rparr>" and ?s2 = "moved ty EPosWrite p n e s1"
  have wf0: "chan_wf ?s" by (rule chan_wf_frame [OF chan_frame_errno(2) wf])
  have rel: "related s fd" using e by (simp add: related_entry)
  have opn: "CHANNEL_IS_OPENED s fd" using e by (auto simp: CHANNEL_IS_OPENED_def mount_interface_def entry_def split: if_splits)
  have get: "channel_pos ?s fd EPosGet EPosWrite 0 = Some (p, ?s)"
    using channel_pos_open [OF wf0 _ _ _ _ refl, of fd e it d EPosGet EPosWrite 0] e it d p(1) ty by simp
  have small: "\<not> s64 (p + int (length buf)) < 0" using p(2,3) by (simp add: s64_id)
  have "channels_pwrite env ?s fd buf p = Some (if n < 0 then (-1, SET_ERRNO n s1)
          else (n, grown (hi_inode e) ty (p + n) ?s2))"
  proof (cases "n < 0")
    case True
    then show ?thesis using rel e(1) d acc host(1) by (auto simp: channels_pwrite_def advance_def)
  next
    case False
    then obtain w where s1: "s1 = ?s\<lparr>world := w\<rparr>" using write_source_state [OF host(1)] by auto
    have wf1: "chan_wf s1" unfolding s1 by (rule chan_wf_frame [OF chan_frame_world wf0])
    have e1: "entry s1 fd = Some e" "hi_mount_fs e = Some (channels_ref s1)" "item_by_inode s1 (hi_inode e) = Some it" "ofd s1 fd = Some d"
      using e it d by (simp_all add: s1)
    have adv: "advance s1 fd EPosWrite p n = Some ?s2"
      unfolding ty by (rule advance_moved [OF wf1 e1]) (use p host(2) in simp_all)
    note f = moved_frame(1) [OF p(2), of s1 ty EPosWrite n e]
    have it2: "item_by_inode ?s2 (hi_inode e) = Some it"
      using e1(3) moved_frame(2) [OF p(2), of ty EPosWrite n e s1] by (simp add: item_by_inode_def)
    have ent2: "entry ?s2 fd = Some e" "hi_mount_fs e = Some (channels_ref ?s2)" using e1 chan_frameD [OF f] by simp_all
    have pos: "p + n = position ty EPosWrite (if 0 < n then set_position ty EPosWrite (p + n) d else d)"
      using False p(1) by auto
    have "Option.bind (channels_array_match_by_inode (channels_array ?s2) (hi_inode e)) (update_artificial_channel_size ?s2 fd)
        = Some (grown (hi_inode e) ty (p + n) ?s2)"
      by (rule update_size_grown [OF chan_wf_frame [OF f wf1] ent2 it2 moved_ofd [OF chan_wfD(1) [OF wf1] e1(1,4)] ty pos])
    then show ?thesis using False rel e(1) d acc host(1) adv by (auto simp: channels_pwrite_def bind_eq_Some_conv)
  qed
  then show ?thesis using opn get small by (simp add: channels_write_def)
qed

text \<open>
  (C4) A write on an open channel: the bytes are offered to the device or host at the current write
  position \<open>p\<close>; a positive count moves exactly the write position of the description, and a channel
  with a seekable side then remembers its largest write position as its size. A failure returns
  \<open>-1\<close> and stores the negative code in \<open>errno\<close>.
\<close>

theorem channels_write_correct:
  assumes wf: "chan_wf s" and e: "entry s fd = Some e" "hi_mount_fs e = Some (channels_ref s)"
    and it: "item_by_inode s (hi_inode e) = Some it" and d: "ofd s fd = Some d"
    and acc: "ofd_flags d AND O_ACCMODE = O_WRONLY \<or> ofd_flags d AND O_ACCMODE = O_RDWR"
    and ty: "ty = ch_type (ci_channel it)"
    and p: "p = position ty EPosWrite d" "0 \<le> p" "p + int (length buf) < 2 ^ 63"
    and host: "write_source env (s\<lparr>errno := 0\<rparr>) (hi_inode e) buf p = (n, s1)" "n \<le> int (length buf)"
  shows "channels_write env s fd buf =
    Some (if n < 0 then (-1, SET_ERRNO n s1)
          else (n, grown (hi_inode e) ty (p + n) (moved ty EPosWrite p n e s1)))"
  by (rule channels_write_ok [OF assms])

text \<open>
  Writing to \<open>/dev/full\<close> always fails, and the \<open>errno\<close> the caller sees is \<open>-1\<close>: the code \<open>ENOSPC\<close> that the
  device stores is overwritten by the result of the device.
\<close>

theorem write_dev_full:
  assumes "chan_wf s" "entry s fd = Some e" "hi_mount_fs e = Some (channels_ref s)"
    and "item_by_inode s (hi_inode e) = Some it" "ch_name (ci_channel it) = ''/dev/full''" "ofd s fd = Some d"
    and "ofd_flags d AND O_ACCMODE = O_WRONLY \<or> ofd_flags d AND O_ACCMODE = O_RDWR"
    and "0 \<le> position (ch_type (ci_channel it)) EPosWrite d"
    and "position (ch_type (ci_channel it)) EPosWrite d + int (length buf) < 2 ^ 63"
  shows "\<exists>s'. channels_write env s fd buf = Some (-1, s') \<and> errno s' = -1 \<and> entry s' = entry s"
proof -
  let ?p = "position (ch_type (ci_channel it)) EPosWrite d"
  have "write_source env (s\<lparr>errno := 0\<rparr>) (hi_inode e) buf ?p = (-1, SET_ERRNO ENOSPC (s\<lparr>errno := 0\<rparr>))"
    using assms(4,5) by (simp add: write_source_def emu_handle_write_def)
  from channels_write_ok [OF assms(1-4,6,7) refl refl assms(8,9) this] show ?thesis
    by (simp add: SET_ERRNO_def)
qed

text \<open>
  A descriptor open on a directory must not be read or written: the position routine looks the inode up among
  the channels and dereferences the null pointer it gets. \<open>EISDIR\<close> is never returned.
\<close>

theorem directory_io_aborts:
  assumes "chan_wf s" "entry s fd = Some e" "hi_mount_fs e = Some (channels_ref s)" "dir_by_inode s (hi_inode e) = Some dp"
  shows "channels_read env s fd nbyte = None \<and> channels_write env s fd buf = None"
proof -
  have nb: "numbered s" using chan_wfD(2) [OF assms(1)] .
  have none: "item_by_inode s (hi_inode e) = None"
    using assms(4) unfolding dir_by_inode_eq [OF nb] item_by_inode_eq [OF nb] by (auto simp: Let_def split: if_splits)
  have rel: "related s fd" using assms(2,3) by (simp add: related_entry)
  have opn: "CHANNEL_IS_OPENED s fd"
    using assms(2,3) by (auto simp: CHANNEL_IS_OPENED_def mount_interface_def entry_def split: if_splits)
  have "channel_pos (s\<lparr>errno := 0\<rparr>) fd EPosGet a 0 = None" for a
    using rel assms(2) none by (cases "ofd s fd") (simp_all add: channel_pos_def)
  then show ?thesis using opn by (simp add: channels_read_def channels_write_def)
qed

section \<open>Seeking\<close>

text \<open>The position that \<open>lseek\<close> is asked for.\<close>

definition seek_goal :: "ChannelArrayItem \<Rightarrow> OpenFileDescription \<Rightarrow> off_t \<Rightarrow> int \<Rightarrow> off_t" where
  "seek_goal it d offset whence =
     (if whence = SEEK_SET then offset
      else if whence = SEEK_CUR then s64 (position (ch_type (ci_channel it)) EPosSeek d + offset)
      else s64 (CHANNEL_SIZE it + offset))"

text \<open>
  (C5) Seeking on an open channel. A channel that is sequential for this descriptor refuses every move
  with \<open>ESPIPE\<close> and still tells its position; otherwise the position asked for is stored and returned,
  unless it is negative or wraps around, which is \<open>EOVERFLOW\<close>. In the two refusals only \<open>errno\<close> changes.
\<close>

theorem channels_lseek_correct:
  assumes wf: "chan_wf s" and e: "entry s fd = Some e" "hi_mount_fs e = Some (channels_ref s)"
    and it: "item_by_inode s (hi_inode e) = Some it" and d: "ofd s fd = Some d"
    and ty: "ty = ch_type (ci_channel it)"
    and wh: "whence = SEEK_SET \<or> whence = SEEK_CUR \<or> whence = SEEK_END"
    and g: "g = seek_goal it d offset whence"
  shows "channels_lseek s fd offset whence =
    (if whence = SEEK_CUR \<and> offset = 0 then Some (position ty EPosSeek d, s\<lparr>errno := 0\<rparr>)
     else if uses_sequential ty (ofd_flags d) EPosSeek then Some (-1, SET_ERRNO ESPIPE s)
     else if g < 0 then Some (-1, SET_ERRNO EOVERFLOW s)
     else Some (g, snd (upd_ofd (set_position ty EPosSeek g) (s\<lparr>errno := 0\<rparr>) (hi_ofd_id e))))"
proof -
  let ?s = "s\<lparr>errno := 0\<rparr>"
  have wf0: "chan_wf ?s" by (rule chan_wf_frame [OF chan_frame_errno(2) wf])
  have rel: "related s fd" using e by (simp add: related_entry)
  have e0: "entry ?s fd = Some e" "hi_mount_fs e = Some (channels_ref ?s)" "item_by_inode ?s (hi_inode e) = Some it" "ofd ?s fd = Some d"
    using e it d by simp_all
  note cp = channel_pos_open [OF wf0 e0 ty, of _ EPosSeek]
  from wh show ?thesis
    using rel e it g
    by (elim disjE) (simp_all add: channels_lseek_def cp SET_SAFE_OFFSET_def seek_goal_def ty split: option.split)
qed

text \<open>
  A seek to a valid position is what the next \<open>lseek(fd, 0, SEEK_CUR)\<close> reports, on a channel that is
  seekable for this descriptor.
\<close>

theorem channels_seek_tell:
  assumes wf: "chan_wf s" and e: "entry s fd = Some e" "hi_mount_fs e = Some (channels_ref s)"
    and it: "item_by_inode s (hi_inode e) = Some it" and d: "ofd s fd = Some d"
    and seekable: "\<not> uses_sequential (ch_type (ci_channel it)) (ofd_flags d) EPosSeek" and off: "0 \<le> offset"
  shows "\<exists>s'. channels_lseek s fd offset SEEK_SET = Some (offset, s')
    \<and> channels_lseek s' fd 0 SEEK_CUR = Some (offset, s')"
proof -
  let ?ty = "ch_type (ci_channel it)" and ?s = "s\<lparr>errno := 0\<rparr>"
  let ?s' = "snd (upd_ofd (set_position ?ty EPosSeek offset) ?s (hi_ofd_id e))"
  have wf0: "chan_wf ?s" by (rule chan_wf_frame [OF chan_frame_errno(2) wf])
  have e0: "entry ?s fd = Some e" "hi_mount_fs e = Some (channels_ref ?s)" "item_by_inode ?s (hi_inode e) = Some it" "ofd ?s fd = Some d"
    using e it d by simp_all
  have rel: "related s fd" using e by (simp add: related_entry)
  have one: "channels_lseek s fd offset SEEK_SET = Some (offset, ?s')"
    using rel e seekable off channel_pos_open [OF wf0 e0 refl, of EPosSetAbsolute EPosSeek offset]
    by (simp add: channels_lseek_def SET_SAFE_OFFSET_def)
  have f: "chan_frame ?s ?s'" by (rule chan_frame_upd_ofd) (use off in \<open>auto simp: set_position_def\<close>)
  have wf': "chan_wf ?s'" by (rule chan_wf_frame [OF f wf0])
  have "VERIFY_OFD ?s (hi_ofd_id e)" by (rule VERIFY_OFD_of_entry(1) [OF chan_wfD(1) [OF wf0] e0(1)])
  moreover have pub: "os_public (s_open_files_array s (nat (hi_ofd_id e))) = d"
    using ofd_of_entry(1) [OF chan_wfD(1) [OF wf0] e0(1)] e0(4) by simp
  ultimately have "os_public (s_open_files_array ?s' (nat (hi_ofd_id e))) = set_position ?ty EPosSeek offset d"
    and arr: "channels_array ?s' = channels_array s" and eno: "?s'\<lparr>errno := 0\<rparr> = ?s'"
    by (simp_all add: upd_ofd_def Let_def VERIFY_OFD_def)
  moreover have ent: "entry ?s' fd = Some e" "channels_ref ?s' = channels_ref s" using e chan_frameD [OF f] by simp_all
  ultimately have d': "ofd ?s' fd = Some (set_position ?ty EPosSeek offset d)"
    using ofd_of_entry(1) [OF chan_wfD(1) [OF wf'] ent(1)] by simp
  have "item_by_inode ?s' (hi_inode e) = Some it" using it arr by (simp add: item_by_inode_def)
  then have "channel_pos ?s' fd EPosGet EPosSeek 0 = Some (offset, ?s')"
    using channel_pos_open [OF wf' ent(1) _ _ d' refl, of it EPosGet EPosSeek 0] e(2) ent(2) by simp
  moreover have "related ?s' fd" unfolding related_entry using ent e(2) by simp
  ultimately have "channels_lseek ?s' fd 0 SEEK_CUR = Some (offset, ?s')"
    using ent eno by (simp add: channels_lseek_def Let_def)
  with one show ?thesis by blast
qed

end
