(* ===== verification/ChannelsListing.thy ===== *)
theory ChannelsListing
  imports ChannelsProps
begin

text \<open>
  Listing the directories of the channel file system: which entries \<open>iterate_dir_contents\<close> finds, and
  that a reader of the buffer of \<open>channels_getdents\<close> gets them back in order.
\<close>

section \<open>The counting search\<close>

lemma seek_match_filter:
  "seek_match p n index i cur =
     (let m = filter p [i..<n]
      in if cur \<le> index \<and> nat (index - cur) < length m then Some (m ! nat (index - cur)) else None)"
proof (induction p n index i cur rule: seek_match.induct)
  case (1 p n index i cur)
  show ?case
  proof (cases "i < n")
    case True
    then have u: "[i..<n] = i # [Suc i..<n]" by (simp add: upt_conv_Cons)
    have nat: "index \<noteq> cur \<Longrightarrow> cur \<le> index \<Longrightarrow> nat (index - cur) = Suc (nat (index - (cur + 1)))" by simp
    show ?thesis
      unfolding seek_match.simps [of p n index i cur] u using 1 True nat
      by (cases "index = cur") (auto simp: Let_def)
  qed (simp add: seek_match.simps [of p n index i cur] Let_def)
qed

section \<open>What a directory contains\<close>

definition sub_dirs :: "('w, 'a) chan_scheme \<Rightarrow> string \<Rightarrow> nat list" where
  "sub_dirs s path = filter (\<lambda>i. is_sub_path path (dd_path (manifest_dirs s ! i))) [0..<length (manifest_dirs s)]"

definition sub_files :: "('w, 'a) chan_scheme \<Rightarrow> string \<Rightarrow> nat list" where
  "sub_files s path = filter (\<lambda>i. is_sub_path path (ch_name (ci_channel (items (channels_array s) ! i))))
                        [0..<num_entries (channels_array s)]"

definition dir_item :: "('w, 'a) chan_scheme \<Rightarrow> nat \<Rightarrow> int \<times> string option \<times> bool" where
  "dir_item s i = (dir_inode (manifest_dirs s ! i), short_name (dd_path (manifest_dirs s ! i)), True)"

definition file_item :: "('w, 'a) chan_scheme \<Rightarrow> nat \<Rightarrow> int \<times> string option \<times> bool" where
  "file_item s i = (11 + int i, short_name (ch_name (ci_channel (items (channels_array s) ! i))), False)"

lemma seek_dirs:
  "seek_match (\<lambda>i. is_sub_path path (dd_path (manifest_dirs s ! i))) (length (manifest_dirs s)) index 0 2
    = (if 2 \<le> index \<and> nat (index - 2) < length (sub_dirs s path) then Some (sub_dirs s path ! nat (index - 2)) else None)"
  by (simp add: seek_match_filter sub_dirs_def Let_def)

lemma seek_files:
  assumes "arr_ok (channels_array s)"
  shows "seek_match (\<lambda>i. is_sub_path path (ch_name (ci_channel (the (channels_array_get (channels_array s) i)))))
      (channels_array_count (channels_array s)) index 0 2
    = (if 2 \<le> index \<and> nat (index - 2) < length (sub_files s path) then Some (sub_files s path ! nat (index - 2)) else None)"
proof -
  have "filter (\<lambda>i. is_sub_path path (ch_name (ci_channel (the (DynArrayGet (channels_array s) i))))) [0..<num_entries (channels_array s)]
      = sub_files s path"
    unfolding sub_files_def by (rule filter_cong) (auto simp: get_items [OF assms])
  then show ?thesis by (simp add: seek_match_filter channels_array_get_def channels_array_count_def Let_def)
qed

text \<open>
  (C15) The listing of an open directory, entry by entry: the directory itself, its parent, its
  subdirectories in the order of the list, and then, from where the subdirectories end, the channels in
  it. The channels are numbered from the same start as the subdirectories, so that a directory with
  \<open>m\<close> subdirectories never lists its first \<open>m\<close> channels.
\<close>

theorem directory_listing:
  assumes wf: "chan_wf s" and e: "entry s fd = Some e" and dp: "dir_by_inode s (hi_inode e) = Some dp"
    and D: "D = sub_dirs s (dd_path dp)" and F: "F = sub_files s (dd_path dp)"
  shows "iterate_dir_contents s fd 0 = Some (Some (hi_inode e, Some ''.'', True))
    \<and> iterate_dir_contents s fd 1 = Some (Some (dd_parent_dir_inode dp, Some ''..'', True))
    \<and> (\<forall>k. iterate_dir_contents s fd (2 + int k) =
         Some (if k < length D then Some (dir_item s (D ! k))
               else if k < length F then Some (file_item s (F ! k)) else None))"
proof -
  note sf = seek_files [OF chan_wfD(4) [OF wf]]
  have "F ! k < num_entries (channels_array s)" if "k < length F" for k
    using nth_mem [OF that] by (auto simp: F sub_files_def)
  then have g: "the (channels_array_get (channels_array s) (F ! k)) = items (channels_array s) ! (F ! k)" if "k < length F" for k
    using that get_items [OF chan_wfD(4) [OF wf]] by (simp add: channels_array_get_def)
  have "iterate_dir_contents s fd (2 + int k) =
         Some (if k < length D then Some (dir_item s (D ! k))
               else if k < length F then Some (file_item s (F ! k)) else None)" for k
    using e dp g [of k]
    by (simp add: iterate_dir_contents_def sf seek_dirs D [symmetric] F [symmetric] dir_item_def file_item_def INODE_FROM_ZVM_INODE_def)
  then show ?thesis using e dp by (simp add: iterate_dir_contents_def)
qed

section \<open>The buffer\<close>

text \<open>The entry that \<open>channels_getdents\<close> writes for an index.\<close>

definition dirent_at :: "('w, 'a) chan_scheme \<Rightarrow> int \<Rightarrow> int \<Rightarrow> (int \<times> nat \<times> string) option" where
  "dirent_at s fd i =
     (case iterate_dir_contents s fd i of
        Some (Some (ino, Some nm, _)) \<Rightarrow> map_option (\<lambda>m. (ino mod 2 ^ 32, d_type_from_mode m, nm)) (GET_MODE_OF_ENTRY_BY_INODE s ino)
      | _ \<Rightarrow> None)"

text \<open>
  What a listing relies on: the parents of the directories are in the file system, as \<open>process_channels_create_dir_list\<close>
  links them, and the paths of directories and channels are absolute, without NUL and short of the 65536 bytes that the
  length of a record can count.
\<close>

definition named :: "nat \<Rightarrow> string \<Rightarrow> bool" where
  "named name_off p \<longleftrightarrow> chan_path p \<and> CHR 0x00 \<notin> set p \<and> name_off + length p < 65520"

definition listable :: "nat \<Rightarrow> ('w, 'a) chan_scheme \<Rightarrow> bool" where
  "listable name_off s \<longleftrightarrow> layout_ok name_off \<and> name_off < 65000
     \<and> (\<forall>d \<in> set (manifest_dirs s). inode_known s (dd_parent_dir_inode d) \<and> (dd_path d = [SLASH] \<or> named name_off (dd_path d)))
     \<and> (\<forall>it \<in> set (items (channels_array s)). named name_off (ch_name (ci_channel it)))"

lemma short_name_nonempty: "short_name p = Some nm \<Longrightarrow> nm \<noteq> []"
  by (auto simp: short_name_def name_from_path_get_path_len_def char_at_def split: option.splits if_splits)

lemma named_short_name:
  assumes "named name_off p"
  shows "\<exists>nm. short_name p = Some nm \<and> nm \<noteq> [] \<and> CHR 0x00 \<notin> set nm \<and> name_off + length nm < 65520"
proof -
  obtain ds c where p: "comps_ok (ds @ [c])" "p = path_of (ds @ [c])" using assms by (auto simp: named_def chan_path_def)
  have "locate_last p (length p) SLASH = Some (length (path_of ds))" using locate_last_path_of [OF p(1), of p] p(2) by simp
  moreover have "c \<noteq> []" "CHR 0x00 \<notin> set c" using p assms by (auto simp: comps_ok_def named_def)
  ultimately have "short_name p = Some c" using p(2)
    by (auto simp: short_name_def name_from_path_get_path_len_def char_at_def nth_append neq_Nil_conv)
  moreover have "name_off + length c < 65520" using assms p(2) by (simp add: named_def)
  ultimately show ?thesis using \<open>c \<noteq> []\<close> \<open>CHR 0x00 \<notin> set c\<close> by blast
qed

lemma mode_known:
  assumes "chan_wf s" "inode_known s ino"
  shows "\<exists>m. GET_MODE_OF_ENTRY_BY_INODE s ino = Some m"
  by (rule inode_known_cases [OF chan_wfD(2) [OF assms(1)] assms(2)]) (simp_all add: GET_MODE_OF_ENTRY_BY_INODE_def)

lemma d_type_less: "d_type_from_mode m < 256"
  by (simp add: d_type_from_mode_def Let_def)

text \<open>Every index from 0 on is an entry of the buffer or behind the end of the directory.\<close>

lemma dirent_total:
  assumes wf: "chan_wf s" and l: "listable name_off s" and e: "entry s fd = Some e" and dp: "dir_by_inode s (hi_inode e) = Some dp" and i: "0 \<le> i"
  shows "iterate_dir_contents s fd i = Some None \<and> dirent_at s fd i = None
    \<or> (\<exists>ino nm b m. iterate_dir_contents s fd i = Some (Some (ino, Some nm, b)) \<and> GET_MODE_OF_ENTRY_BY_INODE s ino = Some m
        \<and> dirent_at s fd i = Some (ino mod 2 ^ 32, d_type_from_mode m, nm) \<and> entry_ok (ino mod 2 ^ 32, d_type_from_mode m, nm)
        \<and> name_off + length nm < 65520)"
proof -
  note L = directory_listing [OF wf e dp refl refl]
  have found: ?thesis if "iterate_dir_contents s fd i = Some (Some (ino, Some nm, b))" "inode_known s ino" "nm \<noteq> []" "CHR 0x00 \<notin> set nm" "name_off + length nm < 65520" for ino nm b
    using that mode_known [OF wf that(2)] by (auto simp: dirent_at_def entry_ok_def d_type_less)
  have dpk: "dp \<in> set (manifest_dirs s)" "inode_known s (hi_inode e)"
    using dp dir_by_inode_eq [OF chan_wfD(2) [OF wf], of "hi_inode e"] by (auto simp: Let_def inode_known_def nat_less_iff split: if_splits)
  have "i = 0 \<or> i = 1 \<or> i = 2 + int (nat (i - 2))" using i by linarith
  then consider "i = 0" | "i = 1" | k where "i = 2 + int k" by blast
  then show ?thesis
  proof cases
    case 1
    with L dpk(2) l show ?thesis by (intro found) (auto simp: listable_def)
  next
    case 2
    with L dpk(1) l show ?thesis by (intro found) (auto simp: listable_def)
  next
    case (3 k)
    define D where "D = sub_dirs s (dd_path dp)"
    define F where "F = sub_files s (dd_path dp)"
    have it: "iterate_dir_contents s fd i = Some (if k < length D then Some (dir_item s (D ! k)) else if k < length F then Some (file_item s (F ! k)) else None)"
      using L 3 by (simp add: D_def F_def)
    show ?thesis
    proof (cases "k < length D")
      case True
      let ?d = "manifest_dirs s ! (D ! k)"
      have "D ! k \<in> set D" using True by simp
      then have d: "D ! k < length (manifest_dirs s)" "is_sub_path (dd_path dp) (dd_path ?d)" by (auto simp: D_def sub_dirs_def)
      then have "dd_path ?d \<noteq> [SLASH]" by (auto simp: is_sub_path_def)
      then have "named name_off (dd_path ?d)" using l d(1) by (auto simp: listable_def)
      from named_short_name [OF this] obtain nm where nm: "short_name (dd_path ?d) = Some nm" "nm \<noteq> []" "CHR 0x00 \<notin> set nm" "name_off + length nm < 65520" by blast
      have "inode_known s (dir_inode ?d)" using chan_wfD(2) [OF wf] d(1) by (simp add: numbered_def inode_known_def)
      then show ?thesis by (rule found [rotated]) (use it True nm in \<open>simp_all add: dir_item_def\<close>)
    next
      case False
      show ?thesis
      proof (cases "k < length F")
        case True
        let ?it = "items (channels_array s) ! (F ! k)"
        have "F ! k \<in> set F" using True by simp
        then have d: "F ! k < num_entries (channels_array s)" by (auto simp: F_def sub_files_def)
        then have "?it \<in> set (items (channels_array s))" using chan_wfD(4) [OF wf] by simp
        then have "named name_off (ch_name (ci_channel ?it))" using l by (auto simp: listable_def)
        from named_short_name [OF this] obtain nm where nm: "short_name (ch_name (ci_channel ?it)) = Some nm" "nm \<noteq> []" "CHR 0x00 \<notin> set nm" "name_off + length nm < 65520" by blast
        have "inode_known s (11 + int (F ! k))" using d by (simp add: inode_known_def)
        then show ?thesis by (rule found [rotated]) (use it True False nm in \<open>simp_all add: file_item_def\<close>)
      qed (use it False in \<open>simp add: dirent_at_def\<close>)
    qed
  qed
qed

lemma adjusted_small: "name_off + n < 65520 \<Longrightarrow> adjusted_dirent_size name_off n < 65536"
proof -
  assume "name_off + n < 65520"
  moreover have "(name_off + n + 8) div 8 * 8 \<le> name_off + n + 8" by (rule div_times_less_eq_dividend)
  ultimately show ?thesis by (simp add: adjusted_dirent_size_def ROUND_UP_def)
qed

text \<open>The end of the listing, or an entry that does not fit any more.\<close>

definition full :: "nat \<Rightarrow> ('w, 'a) chan_scheme \<Rightarrow> int \<Rightarrow> nat \<Rightarrow> nat \<Rightarrow> int \<Rightarrow> bool" where
  "full name_off s fd n k i \<longleftrightarrow> (case dirent_at s fd i of
     None \<Rightarrow> iterate_dir_contents s fd i = Some None
   | Some (_, _, nm) \<Rightarrow> n < k + adjusted_dirent_size name_off (length nm))"

lemma getdents_loop_ok:
  assumes wf: "chan_wf s" and l: "listable name_off s" and e: "entry s fd = Some e" and dp: "dir_by_inode s (hi_inode e) = Some dp"
  shows "0 \<le> i \<Longrightarrow> k \<le> n \<Longrightarrow> laid_out name_off buf 0 es k \<Longrightarrow>
    \<exists>k' i' buf'. getdents_loop name_off s fd n buf k i = Some (k', i', buf') \<and> i \<le> i' \<and> k \<le> k' \<and> k' \<le> n
      \<and> laid_out name_off buf' 0 (es @ map (\<lambda>j. the (dirent_at s fd j)) [i..i' - 1]) k'
      \<and> (\<forall>j \<in> {i..<i'}. dirent_at s fd j \<noteq> None) \<and> full name_off s fd n k' i' \<and> (\<forall>x \<ge> k'. buf' x = buf x)"
proof (induction "n - k" arbitrary: i k buf es rule: less_induct)
  case less
  have lay: "layout_ok name_off" using l by (simp add: listable_def)
  from dirent_total [OF wf l e dp less.prems(1)] show ?case
  proof (elim disjE exE conjE)
    assume "iterate_dir_contents s fd i = Some None" "dirent_at s fd i = None"
    then show ?thesis using less.prems by (subst getdents_loop.simps) (simp add: full_def)
  next
    fix ino nm b m
    assume it: "iterate_dir_contents s fd i = Some (Some (ino, Some nm, b))" and m: "GET_MODE_OF_ENTRY_BY_INODE s ino = Some m"
      and at: "dirent_at s fd i = Some (ino mod 2 ^ 32, d_type_from_mode m, nm)" and ok: "entry_ok (ino mod 2 ^ 32, d_type_from_mode m, nm)"
      and sm: "name_off + length nm < 65520"
    let ?a = "adjusted_dirent_size name_off (length nm)"
    obtain ret buf1 where put: "put_dirent_into_buf name_off buf k (n - k) ino 0 m nm = (ret, buf1)" by fastforce
    show ?thesis
    proof (cases "?a \<le> n - k")
      case False
      then have "ret = -1" "buf1 = buf" using put by (auto simp: put_dirent_into_buf_def Let_def)
      then have "getdents_loop name_off s fd n buf k i = Some (k, i, buf)" using it m put by (subst getdents_loop.simps) simp
      moreover have "full name_off s fd n k i" using False at by (simp add: full_def)
      ultimately show ?thesis using less.prems by (intro exI [of _ k] exI [of _ i] exI [of _ buf]) simp
    next
      case True
      have "ret = int ?a" using put True adjusted_small [OF sm] by (auto simp: put_dirent_into_buf_def Let_def)
      moreover have "0 < ?a" by (rule adjusted_dirent_size_pos)
      ultimately have un: "getdents_loop name_off s fd n buf k i = getdents_loop name_off s fd n buf1 (k + ?a) (i + 1)"
        using it m put by (subst getdents_loop.simps) simp
      note pb = put_dirent_bytes [OF lay put True]
      have "laid_out name_off buf1 0 (es @ [(ino mod 2 ^ 32, d_type_from_mode m, nm)]) (k + ?a)"
        by (rule laid_out_append [OF laid_out_cong [OF lay pb(2) less.prems(3)]]) (use pb(1) ok in simp)
      moreover have "n - (k + ?a) < n - k" "k + ?a \<le> n" using True \<open>0 < ?a\<close> less.prems(2) by linarith+
      ultimately obtain k' i' buf' where ih: "getdents_loop name_off s fd n buf1 (k + ?a) (i + 1) = Some (k', i', buf')" "i + 1 \<le> i'" "k + ?a \<le> k'" "k' \<le> n"
        "laid_out name_off buf' 0 ((es @ [(ino mod 2 ^ 32, d_type_from_mode m, nm)]) @ map (\<lambda>j. the (dirent_at s fd j)) [i + 1..i' - 1]) k'"
        "\<forall>j \<in> {i + 1..<i'}. dirent_at s fd j \<noteq> None" "full name_off s fd n k' i'" "\<forall>x \<ge> k'. buf' x = buf1 x"
        using less.hyps [of "k + ?a" "i + 1" buf1 "es @ [(ino mod 2 ^ 32, d_type_from_mode m, nm)]"] less.prems(1) by auto
      have "[i..i' - 1] = i # [i + 1..i' - 1]" using ih(2) by (simp add: upto_rec1)
      then have "laid_out name_off buf' 0 (es @ map (\<lambda>j. the (dirent_at s fd j)) [i..i' - 1]) k'" using ih(5) at by simp
      moreover have "\<forall>j \<in> {i..<i'}. dirent_at s fd j \<noteq> None"
      proof
        fix j assume "j \<in> {i..<i'}"
        then show "dirent_at s fd j \<noteq> None" using ih(6) at by (cases "j = i") auto
      qed
      moreover have "\<forall>x \<ge> k'. buf' x = buf x" using ih(3,8) pb(3) by auto
      ultimately show ?thesis using ih un by (intro exI [of _ k'] exI [of _ i'] exI [of _ buf']) simp
    qed
  qed
qed

text \<open>
  (C16) \<open>channels_getdents\<close> on an open directory returns, for every buffer, and fills it with as many entries as fit: it
  stops only at the end of the directory or before an entry that is longer than the room left. A reader that
  walks the returned bytes with \<open>get_next_item_from_dirent_buf\<close> gets back, in order, exactly the entries from the old
  position of the descriptor up to the position that it has then; the memory behind them is not touched.
\<close>

theorem getdents_roundtrip:
  assumes "chan_wf s" "listable name_off s" "entry s fd = Some e" "hi_mount_fs e = Some (channels_ref s)"
    and "dir_by_inode s (hi_inode e) = Some dp" "ofd s fd = Some d" "0 \<le> ofd_offset d" "ofd_offset d < 2 ^ 31"
  shows "\<exists>k i' buf' s'. channels_getdents name_off s fd True buf n = Some (int k, buf', s') \<and> k \<le> n \<and> ofd_offset d \<le> i'
    \<and> ofd s' fd = Some (d\<lparr>ofd_offset := i'\<rparr>)
    \<and> (\<forall>j \<in> {ofd_offset d..<i'}. dirent_at s fd j \<noteq> None)
    \<and> read_dirents name_off buf' k 0 = Some (map (\<lambda>j. the (dirent_at s fd j)) [ofd_offset d..i' - 1])
    \<and> (case dirent_at s fd i' of None \<Rightarrow> iterate_dir_contents s fd i' = Some None
        | Some (_, _, nm) \<Rightarrow> n < k + adjusted_dirent_size name_off (length nm))
    \<and> (\<forall>x \<ge> k. buf' x = buf x)"
proof -
  let ?s = "s\<lparr>errno := 0\<rparr>"
  have ent: "entry ?s = entry s" "ofd ?s = ofd s" by (simp_all add: entry_def ofd_def ofd_entry_def VERIFY_HANDLE_def VERIFY_OFD_def fun_eq_iff)
  have dir: "dir_by_inode ?s = dir_by_inode s" "item_by_inode ?s = item_by_inode s" by (simp_all add: dir_by_inode_def item_by_inode_def fun_eq_iff)
  have fields: "manifest_dirs ?s = manifest_dirs s" "channels_array ?s = channels_array s" by simp_all
  have it: "iterate_dir_contents ?s = iterate_dir_contents s" by (intro ext) (unfold iterate_dir_contents_def ent dir fields, rule refl)
  have at: "dirent_at ?s = dirent_at s" by (intro ext) (unfold dirent_at_def it GET_MODE_OF_ENTRY_BY_INODE_def dir, rule refl)
  have "chan_wf ?s" by (rule chan_wf_same_tables [OF chan_frame_same [OF chan_frame_errno(2)] assms(1)])
  moreover have "listable name_off ?s" using assms(2) by (simp add: listable_def inode_known_def)
  moreover have pos: "s32 (ofd_offset d) = ofd_offset d" using assms(7,8) by (intro s32_id) simp_all
  ultimately obtain k i' buf' where g: "getdents_loop name_off ?s fd n buf 0 (s32 (ofd_offset d)) = Some (k, i', buf')" "ofd_offset d \<le> i'" "k \<le> n"
    "laid_out name_off buf' 0 (map (\<lambda>j. the (dirent_at s fd j)) [ofd_offset d..i' - 1]) k" "\<forall>j \<in> {ofd_offset d..<i'}. dirent_at s fd j \<noteq> None"
    "full name_off ?s fd n k i'" "\<forall>x \<ge> k. buf' x = buf x"
    using getdents_loop_ok [of ?s name_off fd e dp "ofd_offset d" 0 n buf "[]"] assms(3,5,7) by (auto simp: ent dir at)
  have "layout_ok name_off" using assms(2) by (simp add: listable_def)
  from read_laid_out [OF this g(4)] have rd: "read_dirents name_off buf' k 0 = Some (map (\<lambda>j. the (dirent_at s fd j)) [ofd_offset d..i' - 1])" .
  let ?t = "snd (set_offset ?s (hi_ofd_id e) i')"
  have rel: "related ?s fd" using assms(3,4) by (auto simp: related_entry ent)
  have "channels_getdents name_off s fd True buf n = Some (int k, buf', ?t)"
    using rel assms(3,6) g(1) by (simp add: channels_getdents_def ent)
  moreover have "ofd ?t fd = Some (d\<lparr>ofd_offset := i'\<rparr>)"
    using assms(3,6) by (auto simp: ofd_def entry_def ofd_entry_def set_offset_def upd_ofd_def VERIFY_HANDLE_def VERIFY_OFD_def Let_def split: if_splits)
  ultimately show ?thesis using g(2,3,5,7) g(6) [unfolded full_def at it] rd by (intro exI [of _ k] exI [of _ i'] exI [of _ buf'] exI [of _ ?t]) simp
qed

end
