(* ===== verification/MountsManager.thy ===== *)
theory MountsManager
  imports Descriptors DynArrays
begin

text \<open>
  The table of mounts (\<open>lib/fs/mounts_manager.c\<close>): which file system serves a path, and the path as that
  file system expects it. A mount is named by its reference; \<open>free\<close> of a removed mount has no
  counterpart here but the loss of its table entry. The state extends any run-time state \<open>kern\<close> with the
  array \<open>mount_items\<close>; since other components extend \<open>kern\<close> too, the operations take the array and the
  remaining state side by side.

  The search is the longest mount path that is a prefix of the path, the first of them among equals.
\<close>

record MountInfo =
  mi_path :: string
  mi_expect_absolute_path :: bool \<comment> \<open>\<open>EAbsolutePathExpected\<close>\<close>
  mi_mount :: mount_ref

type_synonym mounts_t = "MountInfo DynArray"

text \<open>The loop of \<open>mm_mountinfo_bypath\<close> over the indices, with \<open>mount_info\<close> and \<open>*mount_index\<close>.\<close>

fun scan_mounts :: "mounts_t \<Rightarrow> string \<Rightarrow> nat list \<Rightarrow> (nat \<times> MountInfo) option \<Rightarrow> (nat \<times> MountInfo) option" where
  "scan_mounts mounts path [] best = best"
| "scan_mounts mounts path (i # is) best =
     (case DynArrayGet mounts i of
        None \<Rightarrow> scan_mounts mounts path is best
      | Some m \<Rightarrow>
          if strncmp_eq (mi_path m) path (length (mi_path m))
             \<and> (case best of None \<Rightarrow> True | Some (_, b) \<Rightarrow> length (mi_path b) < length (mi_path m))
          then scan_mounts mounts path is (Some (i, m))
          else scan_mounts mounts path is best)"

definition mm_mountinfo_bypath :: "mounts_t \<Rightarrow> string \<Rightarrow> (nat \<times> MountInfo) option" where
  "mm_mountinfo_bypath mounts path = scan_mounts mounts path [0..<num_entries mounts] None"

definition mm_mount_add :: "(nat \<Rightarrow> bool) \<Rightarrow> mounts_t \<Rightarrow> 'a kern_scheme \<Rightarrow> string \<Rightarrow> mount_ref \<Rightarrow> bool
    \<Rightarrow> (int \<times> mounts_t \<times> 'a kern_scheme) option" where
  "mm_mount_add mem mounts s path filesystem_mount expect_absolute_path =
     (if \<exists>(i, m) \<in> set_option (mm_mountinfo_bypath mounts path). mi_path m = path
      then Some (-1, mounts, SET_ERRNO EBUSY s)
      else do {
        (r, mounts') \<leftarrow> DynArraySet mem mounts (num_entries mounts)
          (Some \<lparr>mi_path = path, mi_expect_absolute_path = expect_absolute_path, mi_mount = filesystem_mount\<rparr>);
        Some (if r = 0 then 1 else 0, mounts', s) })"

text \<open>\<open>fs\<close> is the mount that the constructor of the FUSE adapter returns.\<close>

definition mm_fusemount_add :: "(nat \<Rightarrow> bool) \<Rightarrow> mounts_t \<Rightarrow> 'a kern_scheme \<Rightarrow> string \<Rightarrow> mount_ref \<Rightarrow> bool
    \<Rightarrow> (int \<times> mounts_t \<times> 'a kern_scheme) option" where
  "mm_fusemount_add mem mounts s path fs expect_absolute_path = mm_mount_add mem mounts s path fs expect_absolute_path"

definition mm_mount_remove :: "(nat \<Rightarrow> bool) \<Rightarrow> mounts_t \<Rightarrow> string \<Rightarrow> (int \<times> mounts_t) option" where
  "mm_mount_remove mem mounts path =
     (case mm_mountinfo_bypath mounts path of
        None \<Rightarrow> Some (-1, mounts)
      | Some (located_index, m) \<Rightarrow> do {
          (r, mounts') \<leftarrow> DynArraySet mem mounts located_index None;
          Some (if r \<noteq> 0 then 0 else -1, mounts') })"

definition mm_mount_bypath :: "mounts_t \<Rightarrow> string \<Rightarrow> mount_ref option" where
  "mm_mount_bypath mounts path = map_option (\<lambda>(_, m). mi_mount m) (mm_mountinfo_bypath mounts path)"

definition mm_mount_byhandle :: "'a kern_scheme \<Rightarrow> int \<Rightarrow> mount_ref option" where
  "mm_mount_byhandle s handle =
     (case entry s handle of
        None \<Rightarrow> None
      | Some e \<Rightarrow> if ofd_entry s (hi_ofd_id e) \<noteq> None then hi_mount_fs e else None)"

definition mm_convert_path_to_mount :: "mounts_t \<Rightarrow> string \<Rightarrow> string option" where
  "mm_convert_path_to_mount mounts full_path =
     (case mm_mountinfo_bypath mounts full_path of
        None \<Rightarrow> None
      | Some (_, m) \<Rightarrow>
          if mi_expect_absolute_path m then Some full_path
          else if length (mi_path m) = 1 \<and> mi_path m ! 0 = CHR 0x2F then Some full_path
          else Some (drop (length (mi_path m)) full_path))"

text \<open>\<open>alloc_mounts_manager\<close>; \<open>self\<close> is the memory that \<open>malloc\<close> returned.\<close>

definition alloc_mounts_manager :: "(nat \<Rightarrow> bool) \<Rightarrow> mounts_t \<Rightarrow> mounts_t" where
  "alloc_mounts_manager mem self = snd (DynArrayCtor mem self 2)"

section \<open>The search\<close>

text \<open>The specification of the search among the entries of a list of indices.\<close>

definition candidate :: "mounts_t \<Rightarrow> string \<Rightarrow> nat \<Rightarrow> MountInfo \<Rightarrow> bool" where
  "candidate mounts path i m \<longleftrightarrow> DynArrayGet mounts i = Some m \<and> prefix (mi_path m) path"

definition best_among :: "mounts_t \<Rightarrow> string \<Rightarrow> nat \<Rightarrow> (nat \<times> MountInfo) option \<Rightarrow> bool" where
  "best_among mounts path n b \<longleftrightarrow>
     (case b of
        None \<Rightarrow> (\<forall>i < n. \<forall>m. \<not> candidate mounts path i m)
      | Some (i, m) \<Rightarrow> i < n \<and> candidate mounts path i m
          \<and> (\<forall>j < n. \<forall>m'. candidate mounts path j m' \<longrightarrow>
                length (mi_path m') \<le> length (mi_path m) \<and> (j < i \<longrightarrow> length (mi_path m') < length (mi_path m))))"

lemma scan_mounts_best:
  "best_among mounts path n b \<Longrightarrow> n \<le> k \<Longrightarrow> best_among mounts path k (scan_mounts mounts path [n..<k] b)"
proof (induction "k - n" arbitrary: n b)
  case (Suc x)
  then have u: "[n..<k] = n # [Suc n..<k]" by (simp add: upt_conv_Cons)
  show ?case
  proof (cases "\<exists>m. candidate mounts path n m \<and> (case b of None \<Rightarrow> True | Some (_, b) \<Rightarrow> length (mi_path b) < length (mi_path m))")
    case True
    then obtain m where m: "DynArrayGet mounts n = Some m" "prefix (mi_path m) path"
      "case b of None \<Rightarrow> True | Some (_, b) \<Rightarrow> length (mi_path b) < length (mi_path m)" by (auto simp: candidate_def)
    have "best_among mounts path (Suc n) (Some (n, m))"
      using Suc.prems(1) m
      by (auto simp: best_among_def candidate_def less_Suc_eq split: option.splits)
    with Suc m show ?thesis by (simp add: u strncmp_eq_prefix)
  next
    case False
    then have "best_among mounts path (Suc n) b"
      using Suc.prems(1) by (fastforce simp: best_among_def candidate_def less_Suc_eq split: option.splits)
    moreover have "scan_mounts mounts path [n..<k] b = scan_mounts mounts path [Suc n..<k] b"
      using False by (auto simp: u candidate_def strncmp_eq_prefix split: option.split)
    ultimately show ?thesis using Suc by simp
  qed
qed simp

lemma mm_mountinfo_best: "best_among mounts path (num_entries mounts) (mm_mountinfo_bypath mounts path)"
  unfolding mm_mountinfo_bypath_def by (rule scan_mounts_best) (simp_all add: best_among_def)

lemma candidate_bound: "candidate mounts path i m \<Longrightarrow> i < num_entries mounts"
  by (auto simp: candidate_def DynArrayGet_def split: if_splits)

lemma lookup_None: "mm_mountinfo_bypath mounts path = None \<Longrightarrow> \<not> candidate mounts path i m"
  using mm_mountinfo_best [of mounts path] candidate_bound [of mounts path i m] by (auto simp: best_among_def)

lemma lookup_Some:
  assumes "mm_mountinfo_bypath mounts path = Some (i, m)"
  shows "candidate mounts path i m"
    and "candidate mounts path j m' \<Longrightarrow> length (mi_path m') \<le> length (mi_path m) \<and> (j < i \<longrightarrow> length (mi_path m') < length (mi_path m))"
  using mm_mountinfo_best [of mounts path] candidate_bound [of mounts path j m'] assms by (auto simp: best_among_def)

lemma lookup_SomeI:
  assumes "candidate mounts path i m"
    and "\<And>j m'. candidate mounts path j m' \<Longrightarrow>
       length (mi_path m') \<le> length (mi_path m) \<and> (j < i \<longrightarrow> length (mi_path m') < length (mi_path m))"
  shows "mm_mountinfo_bypath mounts path = Some (i, m)"
proof (cases "mm_mountinfo_bypath mounts path")
  case None
  with lookup_None assms(1) show ?thesis by blast
next
  case (Some b)
  obtain i' m' where l: "b = (i', m')" by fastforce
  note c = lookup_Some [OF Some [unfolded l]]
  have "i' = i" using assms c by (metis linorder_neqE_nat not_le)
  with assms c(1) have "m' = m" by (simp add: candidate_def)
  with l \<open>i' = i\<close> Some show ?thesis by simp
qed

text \<open>
  (C13) The search for the mount of a path finds a mount exactly when the path of some mount is a prefix of
  it, and then the one with the longest such path, the first in the table among equally long ones.
\<close>

theorem mount_lookup_longest_prefix:
  "(mm_mountinfo_bypath mounts path = None \<longleftrightarrow> (\<forall>i m. \<not> candidate mounts path i m))
   \<and> (mm_mountinfo_bypath mounts path = Some (i, m) \<longleftrightarrow>
       candidate mounts path i m
       \<and> (\<forall>j m'. candidate mounts path j m' \<longrightarrow>
             length (mi_path m') \<le> length (mi_path m) \<and> (j < i \<longrightarrow> length (mi_path m') < length (mi_path m))))"
proof
  show "mm_mountinfo_bypath mounts path = None \<longleftrightarrow> (\<forall>i m. \<not> candidate mounts path i m)"
    using lookup_None [of mounts path] lookup_Some(1) [of mounts path] by (metis not_None_eq surj_pair)
  show "mm_mountinfo_bypath mounts path = Some (i, m) \<longleftrightarrow>
       candidate mounts path i m
       \<and> (\<forall>j m'. candidate mounts path j m' \<longrightarrow>
             length (mi_path m') \<le> length (mi_path m) \<and> (j < i \<longrightarrow> length (mi_path m') < length (mi_path m)))" (is "?l \<longleftrightarrow> ?r")
  proof
    assume ?l
    from lookup_Some [OF this] show ?r by blast
  next
    assume ?r
    then show ?l by (intro lookup_SomeI) blast+
  qed
qed

section \<open>Adding and removing\<close>

lemma scan_mounts_append:
  "scan_mounts mounts path (is @ js) b = scan_mounts mounts path js (scan_mounts mounts path is b)"
  by (induction "is" arbitrary: b) (auto split: option.split)

lemma scan_mounts_cong:
  "(\<And>i. i \<in> set is \<Longrightarrow> DynArrayGet mounts' i = DynArrayGet mounts i) \<Longrightarrow>
   scan_mounts mounts' path is b = scan_mounts mounts path is b"
  by (induction "is" arbitrary: b) (auto split: option.split)

text \<open>
  (C14) Adding a mount at a path that no mount has: when the table accepts it, a path below the new mount
  path is served by the new mount unless a mount with a path at least as long already serves it, and
  every other path is served as before. A path already mounted is refused with \<open>EBUSY\<close> and nothing
  changes.
\<close>

theorem mount_add_lookup:
  assumes wf: "da_wf mounts" and n: "num_entries mounts < 2 ^ 29"
    and new: "new = \<lparr>mi_path = path, mi_expect_absolute_path = ea, mi_mount = fs\<rparr>"
  shows "\<exists>r mounts' s'. mm_mount_add mem mounts s path fs ea = Some (r, mounts', s') \<and> da_wf mounts' \<and>
    (if \<exists>i m. DynArrayGet mounts i = Some m \<and> mi_path m = path
     then r = -1 \<and> mounts' = mounts \<and> errno s' = EBUSY
     else s' = s \<and> (if r = 0
       then \<forall>q. mm_mountinfo_bypath mounts' q =
            (if prefix path q \<and> (case mm_mountinfo_bypath mounts q of None \<Rightarrow> True | Some (_, b) \<Rightarrow> length (mi_path b) < length path)
             then Some (num_entries mounts, new) else mm_mountinfo_bypath mounts q)
       else \<forall>q. mm_mountinfo_bypath mounts' q = mm_mountinfo_bypath mounts q))"
proof -
  note best = mm_mountinfo_best [of mounts path]
  have mp: "mi_path new = path" by (simp add: new)
  have dup: "(\<exists>(i, m) \<in> set_option (mm_mountinfo_bypath mounts path). mi_path m = path)
      \<longleftrightarrow> (\<exists>i m. DynArrayGet mounts i = Some m \<and> mi_path m = path)" (is "?d \<longleftrightarrow> ?e")
  proof
    assume ?d
    then obtain i m where "mm_mountinfo_bypath mounts path = Some (i, m)" "mi_path m = path" by auto
    with best show ?e by (auto simp: best_among_def candidate_def)
  next
    assume ?e
    then obtain i m where c: "candidate mounts path i m" "mi_path m = path" by (auto simp: candidate_def)
    with best candidate_bound [OF c(1)] obtain i' m' where b: "mm_mountinfo_bypath mounts path = Some (i', m')"
      by (auto simp: best_among_def split: option.splits)
    have "length path \<le> length (mi_path m')" "prefix (mi_path m') path"
      using best b c candidate_bound [OF c(1)] by (auto simp: best_among_def candidate_def)
    then have "mi_path m' = path" by (metis prefix_length_prefix prefix_order.antisym prefix_order.refl)
    with b show ?d by simp
  qed
  from DynArraySet_total [OF wf n] obtain r d where d: "DynArraySet mem mounts (num_entries mounts) (Some new) = Some (r, d)" by blast
  have same: "mm_mountinfo_bypath d q = mm_mountinfo_bypath mounts q"
    if "DynArrayGet d = DynArrayGet mounts" "num_entries d = num_entries mounts" for q
    unfolding mm_mountinfo_bypath_def that by (rule scan_mounts_cong) (simp add: that)
  have add: "mm_mountinfo_bypath d q =
      (if prefix path q \<and> (case mm_mountinfo_bypath mounts q of None \<Rightarrow> True | Some (_, b) \<Rightarrow> length (mi_path b) < length path)
       then Some (num_entries mounts, new) else mm_mountinfo_bypath mounts q)"
    if "DynArrayGet d = (DynArrayGet mounts)(num_entries mounts := Some new)" "num_entries d = Suc (num_entries mounts)" for q
  proof -
    have "scan_mounts d q [0..<num_entries mounts] None = mm_mountinfo_bypath mounts q"
      unfolding mm_mountinfo_bypath_def by (rule scan_mounts_cong) (simp add: that)
    then show ?thesis
      unfolding mm_mountinfo_bypath_def [of d] that(2)
      by (cases "mm_mountinfo_bypath mounts q") (auto simp: scan_mounts_append that(1) mp strncmp_eq_prefix)
  qed
  show ?thesis
    using dup d da.put_done [OF wf d] da.put_refused [OF wf, of mem "num_entries mounts" "Some new" d] same add
    by (cases "r = 0"; cases ?e) (simp_all add: mm_mount_add_def new [symmetric] SET_ERRNO_def wf)
qed

text \<open>
  Removing by a path takes out of the table the mount that serves the path, and only that one: the
  lookups that it did not serve are as before. No comparison is made between the path and the path of
  the mount, so a path below a mount point unmounts it.
\<close>

theorem mount_remove_serving:
  assumes wf: "da_wf mounts" and n: "num_entries mounts < 2 ^ 29" and l: "mm_mountinfo_bypath mounts path = Some (i, m)"
  shows "\<exists>r mounts'. mm_mount_remove mem mounts path = Some (r, mounts') \<and> da_wf mounts' \<and>
    (if r = 0 then DynArrayGet mounts' = (DynArrayGet mounts)(i := None)
         \<and> (\<forall>q. mm_mountinfo_bypath mounts q \<noteq> Some (i, m) \<longrightarrow> mm_mountinfo_bypath mounts' q = mm_mountinfo_bypath mounts q)
     else DynArrayGet mounts' = DynArrayGet mounts)"
proof -
  have i: "i < num_entries mounts" "DynArrayGet mounts i = Some m"
    using lookup_Some(1) [OF l] candidate_bound by (auto simp: candidate_def)
  then have "i < 2 ^ 29" using n by simp
  from DynArraySet_total [OF wf this] obtain r d where d: "DynArraySet mem mounts i None = Some (r, d)" by blast
  have rm: "mm_mountinfo_bypath d q = mm_mountinfo_bypath mounts q"
    if g: "DynArrayGet d = (DynArrayGet mounts)(i := None)" and q: "mm_mountinfo_bypath mounts q \<noteq> Some (i, m)" for q
  proof (cases "mm_mountinfo_bypath mounts q")
    case None
    have "\<not> candidate d q j m'" for j m'
      using lookup_None [OF None, of j m'] g by (auto simp: candidate_def split: if_splits)
    with None show ?thesis using lookup_Some(1) [of d q] by (metis not_None_eq surj_pair)
  next
    case (Some b)
    obtain k b' where b: "b = (k, b')" by fastforce
    note c = lookup_Some [OF Some [unfolded b]]
    have "k \<noteq> i" using c(1) i(2) q Some b by (auto simp: candidate_def)
    then have "candidate d q k b'" using c(1) g by (simp add: candidate_def)
    moreover have "candidate mounts q j m'" if "candidate d q j m'" for j m'
      using that g by (auto simp: candidate_def split: if_splits)
    ultimately have "mm_mountinfo_bypath d q = Some (k, b')" using c(2) by (intro lookup_SomeI) blast+
    with Some b show ?thesis by simp
  qed
  show ?thesis
    using d l da.put_done [OF wf d] da.put_refused [OF wf, of mem i None d] rm
    by (cases "r = 0") (auto simp: mm_mount_remove_def)
qed

text \<open>
  The path handed to a mount that wants paths of its own: the full path is the path of the mount
  followed by the converted path, except for the mount at the root, which gets the full path.
\<close>

theorem convert_path_splits:
  assumes "mm_mountinfo_bypath mounts full_path = Some (i, m)" "\<not> mi_expect_absolute_path m"
  shows "\<exists>p. mm_convert_path_to_mount mounts full_path = Some p
    \<and> (if mi_path m = ''/'' then p = full_path else full_path = mi_path m @ p)"
proof -
  have "prefix (mi_path m) full_path" using lookup_Some(1) [OF assms(1)] by (simp add: candidate_def)
  then have "full_path = mi_path m @ drop (length (mi_path m)) full_path" by (auto simp: prefix_def)
  moreover have "length (mi_path m) = 1 \<and> mi_path m ! 0 = CHR 0x2F \<longleftrightarrow> mi_path m = ''/''"
    by (cases "mi_path m") auto
  ultimately show ?thesis using assms by (simp add: mm_convert_path_to_mount_def)
qed

end
