(* ===== verification/TransparentMount.thy ===== *)
theory TransparentMount
  imports ChannelsListing MountsManager
begin

text \<open>
  The dispatching mount (\<open>lib/fs/transparent_mount.c\<close>, \<open>lib/fs/fcntl_implem.c\<close>): every call on a path goes
  to the mount of the path, every call on a descriptor to the mount the descriptor was opened on;
  \<open>dup\<close> and \<open>dup2\<close> are done here, on the shared tables.

  \<open>struct MountsPublicInterface\<close> is a record of functions on the run-time state. Which table of
  functions a mount reference points to, the C library's \<open>realpath\<close> and working directory, and the
  observer of postponed mounts are the fields of \<open>tm_env\<close>.
\<close>

section \<open>Interfaces\<close>

type_synonym 's res = "(int \<times> 's) option"

record 's MountSpecificPublicInterface =
  ms_check_handle :: "'s \<Rightarrow> int \<Rightarrow> int"
  ms_handle_path :: "'s \<Rightarrow> int \<Rightarrow> string option option"
  ms_file_status_flags :: "'s \<Rightarrow> int \<Rightarrow> 's res"
  ms_set_file_status_flags :: "'s \<Rightarrow> int \<Rightarrow> flags_t \<Rightarrow> 's res"

record 's MountsPublicInterface =
  m_chown :: "'s \<Rightarrow> string \<Rightarrow> int \<Rightarrow> int \<Rightarrow> 's res"
  m_chmod :: "'s \<Rightarrow> string \<Rightarrow> mode_t \<Rightarrow> 's res"
  m_stat :: "'s \<Rightarrow> string option \<Rightarrow> (int \<times> stat option \<times> 's) option"
  m_mkdir :: "'s \<Rightarrow> string \<Rightarrow> mode_t \<Rightarrow> 's res"
  m_rmdir :: "'s \<Rightarrow> string \<Rightarrow> 's res"
  m_read :: "'s \<Rightarrow> int \<Rightarrow> nat \<Rightarrow> (int \<times> byte list \<times> 's) option"
  m_write :: "'s \<Rightarrow> int \<Rightarrow> byte list \<Rightarrow> 's res"
  m_pread :: "'s \<Rightarrow> int \<Rightarrow> nat \<Rightarrow> off_t \<Rightarrow> (int \<times> byte list \<times> 's) option"
  m_pwrite :: "'s \<Rightarrow> int \<Rightarrow> byte list \<Rightarrow> off_t \<Rightarrow> 's res"
  m_fchown :: "'s \<Rightarrow> int \<Rightarrow> int \<Rightarrow> int \<Rightarrow> 's res"
  m_fchmod :: "'s \<Rightarrow> int \<Rightarrow> mode_t \<Rightarrow> 's res"
  m_fstat :: "'s \<Rightarrow> int \<Rightarrow> (int \<times> stat option \<times> 's) option"
  m_getdents :: "'s \<Rightarrow> int \<Rightarrow> bool \<Rightarrow> dirent_buf \<Rightarrow> nat \<Rightarrow> (int \<times> dirent_buf \<times> 's) option"
  m_fsync :: "'s \<Rightarrow> int \<Rightarrow> 's res"
  m_close :: "'s \<Rightarrow> int \<Rightarrow> 's res"
  m_lseek :: "'s \<Rightarrow> int \<Rightarrow> off_t \<Rightarrow> int \<Rightarrow> 's res"
  m_open :: "'s \<Rightarrow> string \<Rightarrow> flags_t \<Rightarrow> mode_t \<Rightarrow> 's res"
  m_fcntl :: "'s \<Rightarrow> int \<Rightarrow> int \<Rightarrow> 's res"
  m_remove :: "'s \<Rightarrow> string \<Rightarrow> 's res"
  m_unlink :: "'s \<Rightarrow> string \<Rightarrow> 's res"
  m_rename :: "'s \<Rightarrow> string \<Rightarrow> string option \<Rightarrow> 's res"
  m_access :: "'s \<Rightarrow> string \<Rightarrow> int \<Rightarrow> 's res"
  m_ftruncate_size :: "'s \<Rightarrow> int \<Rightarrow> off_t \<Rightarrow> 's res"
  m_truncate_size :: "'s \<Rightarrow> string \<Rightarrow> off_t \<Rightarrow> 's res"
  m_isatty :: "'s \<Rightarrow> int \<Rightarrow> 's res"
  m_link :: "'s \<Rightarrow> string \<Rightarrow> string \<Rightarrow> 's res"
  m_utime :: "'s \<Rightarrow> string \<Rightarrow> int \<Rightarrow> 's res"
  m_implem :: "'s MountSpecificPublicInterface"

record 'w zrt = "'w chan" +
  mount_items :: mounts_t

record ('s, 'r) tm_env =
  te_realpath :: "string \<Rightarrow> string option"
  te_cwd :: string
  te_locate_postpone_mount :: "'s \<Rightarrow> string \<Rightarrow> 'r option"
  te_mount_import :: "'s \<Rightarrow> 'r \<Rightarrow> 's res"
  te_mounts :: "mount_ref \<Rightarrow> 's MountsPublicInterface"

type_synonym ('w, 'a, 'r) tenv = "(('w, 'a) zrt_scheme, 'r) tm_env"

text \<open>The function table \<open>KChannels_mount\<close> and \<open>KMountSpecificImplem\<close> of the channel file system.\<close>

definition KMountSpecificImplem :: "('w, 'a) chan_scheme MountSpecificPublicInterface" where
  "KMountSpecificImplem = \<lparr>ms_check_handle = check_handle, ms_handle_path = handle_path, ms_file_status_flags = file_status_flags,
     ms_set_file_status_flags = set_file_status_flags\<rparr>"

definition KChannels_mount :: "'w zvm_env \<Rightarrow> nat \<Rightarrow> ('w, 'a) chan_scheme MountsPublicInterface" where
  "KChannels_mount env name_off = \<lparr>
     m_chown = \<lambda>s _ _ _. channels_enosys s, m_chmod = channels_chmod, m_stat = channels_stat env,
     m_mkdir = channels_mkdir, m_rmdir = channels_rmdir, m_read = channels_read env, m_write = channels_write env,
     m_pread = channels_pread env, m_pwrite = channels_pwrite env, m_fchown = \<lambda>s _ _ _. channels_enosys s,
     m_fchmod = channels_fchmod, m_fstat = channels_fstat env, m_getdents = channels_getdents name_off,
     m_fsync = channels_fsync, m_close = channels_close, m_lseek = channels_lseek, m_open = channels_open,
     m_fcntl = channels_fcntl, m_remove = channels_remove, m_unlink = channels_unlink,
     m_rename = \<lambda>s _ _. channels_enosys s, m_access = \<lambda>s _ _. channels_enosys s,
     m_ftruncate_size = \<lambda>s _ _. channels_enosys s, m_truncate_size = \<lambda>s _ _. channels_enosys s,
     m_isatty = \<lambda>s _. channels_enosys s, m_link = \<lambda>s _ _. channels_enosys s, m_utime = \<lambda>s _ _. channels_enosys s,
     m_implem = KMountSpecificImplem\<rparr>"

section \<open>Applying an fcntl command\<close>

text \<open>The optional argument is a pointer to a lock (\<open>None\<close> for NULL) or the new flags; the lock is written back.\<close>

definition fcntl_implem :: "'a kern_scheme MountSpecificPublicInterface \<Rightarrow> 'a kern_scheme \<Rightarrow> int \<Rightarrow> int \<Rightarrow> flock option \<Rightarrow> flags_t
    \<Rightarrow> (int \<times> flock option \<times> 'a kern_scheme) option" where
  "fcntl_implem this s fd cmd lock flags =
     (if ms_check_handle this s fd = 0 then Some (-1, lock, SET_ERRNO EBADF s)
      else if cmd = F_GETFD \<or> cmd = F_SETFD then Some (-1, lock, SET_ERRNO ENOSYS s)
      else if cmd = F_SETLK \<or> cmd = F_SETLKW \<or> cmd = F_GETLK then
        (case lock of
           None \<Rightarrow> Some (-1, None, SET_ERRNO EINVAL s)
         | Some l \<Rightarrow> Some (0, Some (l\<lparr>l_type := F_UNLCK\<rparr>), s))
      else if cmd = F_GETFL then do { (rc, s') \<leftarrow> ms_file_status_flags this s fd; Some (rc, lock, s') }
      else if cmd = F_SETFL then do { (rc, s') \<leftarrow> ms_set_file_status_flags this s fd flags; Some (rc, lock, s') }
      else Some (0, lock, SET_ERRNO ENOSYS s))"

section \<open>Calls on a path\<close>

definition lazy_mount :: "('w, 'a, 'r) tenv \<Rightarrow> ('w, 'a) zrt_scheme \<Rightarrow> string \<Rightarrow> ('w, 'a) zrt_scheme res" where
  "lazy_mount env s path =
     (case te_locate_postpone_mount env s path of
        None \<Rightarrow> Some (-1, s)
      | Some record \<Rightarrow> do { (_, s') \<leftarrow> te_mount_import env s record; Some (0, s') })"

text \<open>\<open>ensure_path_is_absolute\<close> never returns NULL, so neither does this.\<close>

definition try_lazy_mount_verify_absolute_path :: "('w, 'a, 'r) tenv \<Rightarrow> ('w, 'a) zrt_scheme \<Rightarrow> string
    \<Rightarrow> (string \<times> ('w, 'a) zrt_scheme) option" where
  "try_lazy_mount_verify_absolute_path env s path =
     (let abs_path = ensure_path_is_absolute (te_realpath env) (te_cwd env) path
      in do { (_, s') \<leftarrow> lazy_mount env s abs_path; Some (abs_path, s') })"

text \<open>
  The body shared by the calls on a path: the mount of the path, with the path converted for it, or the
  given \<open>errno\<close>. A NULL from the conversion is \<open>None\<close>.
\<close>

definition mount_call :: "('w, 'a, 'r) tenv \<Rightarrow> ('w, 'a) zrt_scheme \<Rightarrow> string \<Rightarrow> int
    \<Rightarrow> (('w, 'a) zrt_scheme MountsPublicInterface \<Rightarrow> string \<Rightarrow> 'x option) \<Rightarrow> (('w, 'a) zrt_scheme \<Rightarrow> 'x) \<Rightarrow> 'x option" where
  "mount_call env s path err call fail =
     (case mm_mount_bypath (mount_items s) path of
        Some m \<Rightarrow> do { p \<leftarrow> mm_convert_path_to_mount (mount_items s) path; call (te_mounts env m) p }
      | None \<Rightarrow> Some (fail (SET_ERRNO err s)))"

definition transparent_chown :: "('w, 'a, 'r) tenv \<Rightarrow> ('w, 'a) zrt_scheme \<Rightarrow> string \<Rightarrow> int \<Rightarrow> int \<Rightarrow> ('w, 'a) zrt_scheme res" where
  "transparent_chown env s0 path owner grp = do {
     (absolute_path, s) \<leftarrow> try_lazy_mount_verify_absolute_path env s0 path;
     mount_call env s absolute_path ENOENT (\<lambda>mount p. m_chown mount s p owner grp) (\<lambda>s. (-1, s)) }"

definition transparent_chmod :: "('w, 'a, 'r) tenv \<Rightarrow> ('w, 'a) zrt_scheme \<Rightarrow> string \<Rightarrow> mode_t \<Rightarrow> ('w, 'a) zrt_scheme res" where
  "transparent_chmod env s0 path mode = do {
     (absolute_path, s) \<leftarrow> try_lazy_mount_verify_absolute_path env s0 path;
     mount_call env s absolute_path ENOENT (\<lambda>mount p. m_chmod mount s p mode) (\<lambda>s. (-1, s)) }"

definition transparent_stat :: "('w, 'a, 'r) tenv \<Rightarrow> ('w, 'a) zrt_scheme \<Rightarrow> string \<Rightarrow> (int \<times> stat option \<times> ('w, 'a) zrt_scheme) option" where
  "transparent_stat env s0 path = do {
     (absolute_path, s) \<leftarrow> try_lazy_mount_verify_absolute_path env s0 path;
     mount_call env s absolute_path ENOENT (\<lambda>mount p. m_stat mount s (Some p)) (\<lambda>s. (-1, None, s)) }"

definition transparent_mkdir :: "('w, 'a, 'r) tenv \<Rightarrow> ('w, 'a) zrt_scheme \<Rightarrow> string \<Rightarrow> mode_t \<Rightarrow> ('w, 'a) zrt_scheme res" where
  "transparent_mkdir env s0 path mode = do {
     (absolute_path, s) \<leftarrow> try_lazy_mount_verify_absolute_path env s0 path;
     mount_call env s absolute_path ENOENT (\<lambda>mount p. m_mkdir mount s p mode) (\<lambda>s. (-1, s)) }"

definition transparent_rmdir :: "('w, 'a, 'r) tenv \<Rightarrow> ('w, 'a) zrt_scheme \<Rightarrow> string \<Rightarrow> ('w, 'a) zrt_scheme res" where
  "transparent_rmdir env s0 path = do {
     (absolute_path, s) \<leftarrow> try_lazy_mount_verify_absolute_path env s0 path;
     mount_call env s absolute_path ENOENT (\<lambda>mount p. m_rmdir mount s p) (\<lambda>s. (-1, s)) }"

definition transparent_open :: "('w, 'a, 'r) tenv \<Rightarrow> ('w, 'a) zrt_scheme \<Rightarrow> string \<Rightarrow> flags_t \<Rightarrow> mode_t \<Rightarrow> ('w, 'a) zrt_scheme res" where
  "transparent_open env s0 path oflag mode = do {
     (absolute_path, s) \<leftarrow> try_lazy_mount_verify_absolute_path env s0 path;
     mount_call env s absolute_path ENOENT (\<lambda>mount p. m_open mount s p oflag mode) (\<lambda>s. (-1, s)) }"

text \<open>The following calls use the path as given, without making it absolute.\<close>

definition transparent_remove :: "('w, 'a, 'r) tenv \<Rightarrow> ('w, 'a) zrt_scheme \<Rightarrow> string \<Rightarrow> ('w, 'a) zrt_scheme res" where
  "transparent_remove env s path = mount_call env s path ENOENT (\<lambda>mount p. m_remove mount s p) (\<lambda>s. (-1, s))"

definition transparent_unlink :: "('w, 'a, 'r) tenv \<Rightarrow> ('w, 'a) zrt_scheme \<Rightarrow> string \<Rightarrow> ('w, 'a) zrt_scheme res" where
  "transparent_unlink env s path = mount_call env s path ENOENT (\<lambda>mount p. m_unlink mount s p) (\<lambda>s. (-1, s))"

definition transparent_rename :: "('w, 'a, 'r) tenv \<Rightarrow> ('w, 'a) zrt_scheme \<Rightarrow> string \<Rightarrow> string \<Rightarrow> ('w, 'a) zrt_scheme res" where
  "transparent_rename env s oldpath newpath =
     mount_call env s oldpath ENOENT
       (\<lambda>mount p. m_rename mount s p (mm_convert_path_to_mount (mount_items s) newpath)) (\<lambda>s. (-1, s))"

definition transparent_access :: "('w, 'a, 'r) tenv \<Rightarrow> ('w, 'a) zrt_scheme \<Rightarrow> string \<Rightarrow> int \<Rightarrow> ('w, 'a) zrt_scheme res" where
  "transparent_access env s path amode = mount_call env s path ENOENT (\<lambda>mount p. m_access mount s p amode) (\<lambda>s. (-1, s))"

definition transparent_truncate_size :: "('w, 'a, 'r) tenv \<Rightarrow> ('w, 'a) zrt_scheme \<Rightarrow> string \<Rightarrow> off_t \<Rightarrow> ('w, 'a) zrt_scheme res" where
  "transparent_truncate_size env s path len =
     mount_call env s path EBADF (\<lambda>mount p. m_truncate_size mount s p len) (\<lambda>s. (-1, s))"

definition transparent_utime :: "('w, 'a, 'r) tenv \<Rightarrow> ('w, 'a) zrt_scheme \<Rightarrow> string \<Rightarrow> int \<Rightarrow> ('w, 'a) zrt_scheme res" where
  "transparent_utime env s filename tms =
     mount_call env s filename ENOENT (\<lambda>mount p. m_utime mount s p tms) (\<lambda>s. (-1, s))"

definition transparent_link :: "('w, 'a, 'r) tenv \<Rightarrow> ('w, 'a) zrt_scheme \<Rightarrow> string \<Rightarrow> string \<Rightarrow> ('w, 'a) zrt_scheme res" where
  "transparent_link env s0 oldpath newpath = do {
     (absolute_oldpath, s1) \<leftarrow> try_lazy_mount_verify_absolute_path env s0 oldpath;
     (absolute_newpath, s) \<leftarrow> try_lazy_mount_verify_absolute_path env s1 newpath;
     (let mount1 = mm_mount_bypath (mount_items s) absolute_oldpath;
          mount2 = mm_mount_bypath (mount_items s) absolute_newpath
      in if mount1 = mount2 \<and> mount1 \<noteq> None then do {
           p1 \<leftarrow> mm_convert_path_to_mount (mount_items s) absolute_oldpath;
           p2 \<leftarrow> mm_convert_path_to_mount (mount_items s) absolute_newpath;
           m \<leftarrow> mount1;
           m_link (te_mounts env m) s p1 p2 }
         else Some (-1, SET_ERRNO ENOENT s)) }"

definition transparent_enosys :: "('w, 'a) zrt_scheme \<Rightarrow> ('w, 'a) zrt_scheme res" where
  "transparent_enosys s = Some (-1, SET_ERRNO ENOSYS s)" \<comment> \<open>\<open>readlink\<close>, \<open>symlink\<close>, \<open>statvfs\<close>\<close>

section \<open>Calls on a descriptor\<close>

definition handle_call :: "('w, 'a, 'r) tenv \<Rightarrow> ('w, 'a) zrt_scheme \<Rightarrow> int
    \<Rightarrow> (('w, 'a) zrt_scheme MountsPublicInterface \<Rightarrow> 'x option) \<Rightarrow> (('w, 'a) zrt_scheme \<Rightarrow> 'x) \<Rightarrow> 'x option" where
  "handle_call env s fd call fail =
     (case mm_mount_byhandle s fd of
        Some m \<Rightarrow> call (te_mounts env m)
      | None \<Rightarrow> Some (fail (SET_ERRNO EBADF s)))"

definition transparent_read :: "('w, 'a, 'r) tenv \<Rightarrow> ('w, 'a) zrt_scheme \<Rightarrow> int \<Rightarrow> nat \<Rightarrow> (int \<times> byte list \<times> ('w, 'a) zrt_scheme) option" where
  "transparent_read env s fd nbyte = handle_call env s fd (\<lambda>mount. m_read mount s fd nbyte) (\<lambda>s. (-1, [], s))"

definition transparent_write :: "('w, 'a, 'r) tenv \<Rightarrow> ('w, 'a) zrt_scheme \<Rightarrow> int \<Rightarrow> byte list \<Rightarrow> ('w, 'a) zrt_scheme res" where
  "transparent_write env s fd buf = handle_call env s fd (\<lambda>mount. m_write mount s fd buf) (\<lambda>s. (-1, s))"

definition transparent_pread :: "('w, 'a, 'r) tenv \<Rightarrow> ('w, 'a) zrt_scheme \<Rightarrow> int \<Rightarrow> nat \<Rightarrow> off_t \<Rightarrow> (int \<times> byte list \<times> ('w, 'a) zrt_scheme) option" where
  "transparent_pread env s fd nbyte offset = handle_call env s fd (\<lambda>mount. m_pread mount s fd nbyte offset) (\<lambda>s. (-1, [], s))"

definition transparent_pwrite :: "('w, 'a, 'r) tenv \<Rightarrow> ('w, 'a) zrt_scheme \<Rightarrow> int \<Rightarrow> byte list \<Rightarrow> off_t \<Rightarrow> ('w, 'a) zrt_scheme res" where
  "transparent_pwrite env s fd buf offset = handle_call env s fd (\<lambda>mount. m_pwrite mount s fd buf offset) (\<lambda>s. (-1, s))"

definition transparent_fchown :: "('w, 'a, 'r) tenv \<Rightarrow> ('w, 'a) zrt_scheme \<Rightarrow> int \<Rightarrow> int \<Rightarrow> int \<Rightarrow> ('w, 'a) zrt_scheme res" where
  "transparent_fchown env s fd owner grp = handle_call env s fd (\<lambda>mount. m_fchown mount s fd owner grp) (\<lambda>s. (-1, s))"

definition transparent_fchmod :: "('w, 'a, 'r) tenv \<Rightarrow> ('w, 'a) zrt_scheme \<Rightarrow> int \<Rightarrow> mode_t \<Rightarrow> ('w, 'a) zrt_scheme res" where
  "transparent_fchmod env s fd mode = handle_call env s fd (\<lambda>mount. m_fchmod mount s fd mode) (\<lambda>s. (-1, s))"

definition transparent_fstat :: "('w, 'a, 'r) tenv \<Rightarrow> ('w, 'a) zrt_scheme \<Rightarrow> int \<Rightarrow> (int \<times> stat option \<times> ('w, 'a) zrt_scheme) option" where
  "transparent_fstat env s fd = handle_call env s fd (\<lambda>mount. m_fstat mount s fd) (\<lambda>s. (-1, None, s))"

definition transparent_getdents :: "('w, 'a, 'r) tenv \<Rightarrow> ('w, 'a) zrt_scheme \<Rightarrow> int \<Rightarrow> bool \<Rightarrow> dirent_buf \<Rightarrow> nat
    \<Rightarrow> (int \<times> dirent_buf \<times> ('w, 'a) zrt_scheme) option" where
  "transparent_getdents env s fd aligned buf count =
     handle_call env s fd (\<lambda>mount. m_getdents mount s fd aligned buf count) (\<lambda>s. (-1, buf, s))"

definition transparent_fsync :: "('w, 'a, 'r) tenv \<Rightarrow> ('w, 'a) zrt_scheme \<Rightarrow> int \<Rightarrow> ('w, 'a) zrt_scheme res" where
  "transparent_fsync env s fd = handle_call env s fd (\<lambda>mount. m_fsync mount s fd) (\<lambda>s. (-1, s))"

definition transparent_close :: "('w, 'a, 'r) tenv \<Rightarrow> ('w, 'a) zrt_scheme \<Rightarrow> int \<Rightarrow> ('w, 'a) zrt_scheme res" where
  "transparent_close env s fd = handle_call env s fd (\<lambda>mount. m_close mount s fd) (\<lambda>s. (-1, s))"

definition transparent_lseek :: "('w, 'a, 'r) tenv \<Rightarrow> ('w, 'a) zrt_scheme \<Rightarrow> int \<Rightarrow> off_t \<Rightarrow> int \<Rightarrow> ('w, 'a) zrt_scheme res" where
  "transparent_lseek env s fd offset whence =
     handle_call env s fd
       (\<lambda>mount. do {
          (ret, st, s1) \<leftarrow> m_fstat mount s fd;
          (if ret \<noteq> 0 then Some (-1, s1)
           else do {
             st' \<leftarrow> st;
             (if st_mode st' AND S_IFMT = S_IFDIR then Some (-1, SET_ERRNO EBADF s1)
              else m_lseek mount s1 fd offset whence) }) })
       (\<lambda>s. (-1, s))"

definition transparent_ftruncate_size :: "('w, 'a, 'r) tenv \<Rightarrow> ('w, 'a) zrt_scheme \<Rightarrow> int \<Rightarrow> off_t \<Rightarrow> ('w, 'a) zrt_scheme res" where
  "transparent_ftruncate_size env s fd len = handle_call env s fd (\<lambda>mount. m_ftruncate_size mount s fd len) (\<lambda>s. (-1, s))"

definition transparent_isatty :: "('w, 'a, 'r) tenv \<Rightarrow> ('w, 'a) zrt_scheme \<Rightarrow> int \<Rightarrow> ('w, 'a) zrt_scheme res" where
  "transparent_isatty env s fd = handle_call env s fd (\<lambda>mount. m_isatty mount s fd) (\<lambda>s. (-1, s))"

text \<open>Two stages: the mount checks, then \<open>fcntl_implem\<close> applies.\<close>

definition transparent_fcntl :: "('w, 'a, 'r) tenv \<Rightarrow> ('w, 'a) zrt_scheme \<Rightarrow> int \<Rightarrow> int \<Rightarrow> flock option \<Rightarrow> flags_t
    \<Rightarrow> (int \<times> flock option \<times> ('w, 'a) zrt_scheme) option" where
  "transparent_fcntl env s fd cmd lock flags =
     handle_call env s fd
       (\<lambda>mount.
          if cmd = F_SETLK \<or> cmd = F_SETLKW \<or> cmd = F_GETLK \<or> cmd = F_GETFL \<or> cmd = F_SETFL then do {
            (ret, s1) \<leftarrow> m_fcntl mount s fd cmd;
            (if ret = 0 then fcntl_implem (m_implem mount) s1 fd cmd lock flags else Some (ret, lock, s1)) }
          else Some (-1, lock, SET_ERRNO ENOSYS s))
       (\<lambda>s. (-1, lock, s))"

section \<open>Duplicating descriptors\<close>

definition transparent_dup :: "('w, 'a) zrt_scheme \<Rightarrow> int \<Rightarrow> ('w, 'a) zrt_scheme res" where
  "transparent_dup s0 oldfd =
     (case mm_mount_byhandle s0 oldfd of
        None \<Rightarrow> Some (-1, SET_ERRNO EBADF s0)
      | Some mount \<Rightarrow>
          (let s = s0\<lparr>errno := 0\<rparr>
           in if check_handle_is_related_to_filesystem s oldfd mount = -1 then Some (-1, SET_ERRNO EBADF s)
              else do {
                hentry \<leftarrow> entry s oldfd;
                (let (ret, s1) = refer_ofd s (hi_ofd_id hentry)
                 in if ret \<noteq> 0 then None
                    else let (handle, s2) = allocate_handle s1 mount (hi_inode hentry) (hi_parent_dir_inode hentry) (hi_ofd_id hentry)
                         in if handle = -1 then Some (-1, SET_ERRNO ENFILE (snd (release_ofd s2 (hi_ofd_id hentry))))
                            else Some (handle, s2)) }))"

definition transparent_dup2 :: "('w, 'a, 'r) tenv \<Rightarrow> ('w, 'a) zrt_scheme \<Rightarrow> int \<Rightarrow> int \<Rightarrow> ('w, 'a) zrt_scheme res" where
  "transparent_dup2 env s0 oldfd newfd =
     (case mm_mount_byhandle s0 oldfd of
        None \<Rightarrow> Some (-1, SET_ERRNO EBADF s0)
      | Some mount \<Rightarrow>
          (let s = s0\<lparr>errno := 0\<rparr>
           in if check_handle_is_related_to_filesystem s oldfd mount = -1 then Some (-1, SET_ERRNO EBADF s)
              else if oldfd = newfd then Some (newfd, s)
              else do {
                s1 \<leftarrow> (case mm_mount_byhandle s newfd of
                         None \<Rightarrow> Some s
                       | Some mount2 \<Rightarrow>
                           if check_handle_is_related_to_filesystem s newfd mount2 = 0
                           then map_option snd (m_close (te_mounts env mount2) s newfd) else Some s);
                hentry \<leftarrow> entry s1 oldfd;
                (let (ret, s2) = refer_ofd s1 (hi_ofd_id hentry)
                 in if ret \<noteq> 0 then None
                    else let (handle, s3) = allocate_handle2 s2 mount (hi_inode hentry) (hi_parent_dir_inode hentry)
                                              (hi_ofd_id hentry) newfd
                         in if handle = -1 then Some (-1, SET_ERRNO ENFILE (snd (release_ofd s3 (hi_ofd_id hentry))))
                            else Some (handle, s3)) }))"

end
