(* ===== verification/Syscalls.thy ===== *)
theory Syscalls
  imports TransparentMount
begin

text \<open>
  Sequences of file system calls through the dispatching mount. The locale \<open>mount_contract\<close> is what the
  dispatcher relies on: no operation of a mount breaks the invariant of the shared tables. It is met by
  the channel file system. \<open>dup\<close> and \<open>dup2\<close> are proved here on the tables themselves. The step
  relation \<open>reachable\<close> then gives the invariant for every state that a session can reach.
\<close>

section \<open>What the dispatcher relies on\<close>

locale mount_contract =
  fixes inv :: "'s \<Rightarrow> bool" and ops :: "'s MountsPublicInterface"
  assumes stat_keeps: "inv s \<Longrightarrow> m_stat ops s p = Some (r, st, s') \<Longrightarrow> inv s'"
    and read_keeps: "inv s \<Longrightarrow> m_read ops s fd n = Some (r, bs, s') \<Longrightarrow> inv s'"
    and write_keeps: "inv s \<Longrightarrow> m_write ops s fd buf = Some (r, s') \<Longrightarrow> inv s'"
    and pread_keeps: "inv s \<Longrightarrow> m_pread ops s fd n off = Some (r, bs, s') \<Longrightarrow> inv s'"
    and pwrite_keeps: "inv s \<Longrightarrow> m_pwrite ops s fd buf off = Some (r, s') \<Longrightarrow> inv s'"
    and fstat_keeps: "inv s \<Longrightarrow> m_fstat ops s fd = Some (r, st, s') \<Longrightarrow> inv s'"
    and getdents_keeps: "inv s \<Longrightarrow> m_getdents ops s fd al db k = Some (r, db', s') \<Longrightarrow> inv s'"
    and close_keeps: "inv s \<Longrightarrow> m_close ops s fd = Some (r, s') \<Longrightarrow> inv s'"
    and lseek_keeps: "inv s \<Longrightarrow> m_lseek ops s fd off wh = Some (r, s') \<Longrightarrow> inv s'"
    and open_keeps: "inv s \<Longrightarrow> m_open ops s path fl md = Some (r, s') \<Longrightarrow> inv s'"
    and fcntl_keeps: "inv s \<Longrightarrow> m_fcntl ops s fd cmd = Some (r, s') \<Longrightarrow> inv s'"
    and getfl_keeps: "inv s \<Longrightarrow> ms_file_status_flags (m_implem ops) s fd = Some (r, s') \<Longrightarrow> inv s'"
    and setfl_keeps: "inv s \<Longrightarrow> ms_set_file_status_flags (m_implem ops) s fd fl = Some (r, s') \<Longrightarrow> inv s'"

lemma channels_close_keeps:
  assumes "chan_wf s" "channels_close s fd = Some (r, s')"
  shows "chan_wf s'"
proof (cases "related s fd")
  case True
  then obtain e where "entry s fd = Some e" "hi_mount_fs e = Some (channels_ref s)" by (auto simp: related_entry)
  from chan_wf_close [OF assms(1) this] assms(2) show ?thesis by auto
next
  case False
  with assms(2) have "s' = SET_ERRNO EBADF s" by (simp add: channels_close_def)
  with chan_wf_frame [OF chan_frame_errno(1) assms(1)] show ?thesis by simp
qed

lemma channels_getfl_keeps: "file_status_flags s fd = Some (r, s') \<Longrightarrow> chan_frame s s'"
  by (auto simp: file_status_flags_def bind_eq_Some_conv split: if_splits)

interpretation cm: mount_contract chan_wf "KChannels_mount env name_off" for env name_off
proof unfold_locales
  fix s s' :: "('a, 'b) chan_scheme" and r path fl md
  assume wf: "chan_wf s" and "m_open (KChannels_mount env name_off) s path fl md = Some (r, s')"
  then have "channels_open s path fl md = Some (r, s')" by (simp add: KChannels_mount_def)
  with channels_open_keeps [OF wf] show "chan_wf s'" by blast
qed (auto simp: KChannels_mount_def KMountSpecificImplem_def intro: channels_close_keeps
     chan_wf_frame [OF chan_frame_stats(1)] chan_wf_frame [OF chan_frame_stats(2)] chan_wf_frame [OF chan_frame_stats(3)]
     chan_wf_frame [OF chan_frame_read] chan_wf_frame [OF chan_frame_write] chan_wf_frame [OF chan_frame_pread]
     chan_wf_frame [OF chan_frame_pwrite] chan_wf_frame [OF chan_frame_lseek] chan_wf_frame [OF channels_getfl_keeps]
     chan_wf_same_tables [OF same_tables_getdents] chan_wf_same_tables [OF same_tables_setfl] dest: chan_wfD(4))

section \<open>Duplicating descriptors\<close>

lemma mount_byhandle_open:
  assumes "fd_wf None s" "entry s fd = Some e"
  shows "mm_mount_byhandle s fd = hi_mount_fs e"
  using ofd_of_entry(2) [OF assms] assms(2) by (simp add: mm_mount_byhandle_def)

lemma related_of_entry: "entry s fd = Some e \<Longrightarrow> hi_mount_fs e = Some m \<Longrightarrow> check_handle_is_related_to_filesystem s fd m = 0"
  by (auto simp: check_handle_is_related_to_filesystem_def entry_def split: if_splits)

text \<open>One more handle on a description in use: what both calls have in common.\<close>

lemma chan_wf_extend:
  assumes "chan_wf s" "fd_wf None s'" "entry s' = (entry s)(h \<mapsto> e)" "e' = e" "entry s fd = Some e'"
    and "channels_array s' = channels_array s" "manifest_dirs s' = manifest_dirs s" "channels_ref s' = channels_ref s"
  shows "chan_wf s'"
  using assms by (auto simp: chan_wf_def numbered_def handles_known_def inode_known_def)

lemma HandleItem_eta:
  "hi_mount_fs e = Some m \<Longrightarrow>
   \<lparr>hi_inode = hi_inode e, hi_parent_dir_inode = hi_parent_dir_inode e, hi_ofd_id = hi_ofd_id e, hi_mount_fs = Some m\<rparr> = e"
  by (cases e) simp

lemma entry_put_handle: "0 \<le> h \<Longrightarrow> h < int MAX_HANDLES_COUNT \<Longrightarrow> entry (put_handle s h e) = (entry s)(h \<mapsto> e)"
  by (auto simp: entry_def put_handle_def VERIFY_HANDLE_def fun_eq_iff)

lemma entry_slots: "s_handle_slots s' = s_handle_slots s \<Longrightarrow> entry s' = entry s"
  by (simp add: entry_def VERIFY_HANDLE_def fun_eq_iff)

lemma put_handle_chan [simp]:
  "channels_array (put_handle s h e) = channels_array s" "manifest_dirs (put_handle s h e) = manifest_dirs s"
  "channels_ref (put_handle s h e) = channels_ref s"
  by (simp_all add: put_handle_def)

lemma refer_ofd_frame:
  assumes "refer_ofd s i = (r, s')"
  shows "s_handle_slots s' = s_handle_slots s" "h_first_unused_slot s' = h_first_unused_slot s"
    "entry s' = entry s" "os_public (s_open_files_array s' j) = os_public (s_open_files_array s j)"
proof -
  show h: "s_handle_slots s' = s_handle_slots s" "h_first_unused_slot s' = h_first_unused_slot s"
    "os_public (s_open_files_array s' j) = os_public (s_open_files_array s j)"
    using assms by (auto simp: refer_ofd_def Let_def split: if_splits)
  show "entry s' = entry s" by (rule entry_slots [OF h(1)])
qed

lemma ofd_frames_chan [state_simps]:
  "refer_ofd s i = (r, s') \<Longrightarrow> channels_array s' = channels_array s \<and> manifest_dirs s' = manifest_dirs s \<and> channels_ref s' = channels_ref s"
  "release_ofd s i = (r, s') \<Longrightarrow> channels_array s' = channels_array s \<and> manifest_dirs s' = manifest_dirs s \<and> channels_ref s' = channels_ref s
     \<and> s_handle_slots s' = s_handle_slots s"
  by (auto simp: refer_ofd_def release_ofd_def Let_def split: if_splits)

lemma chan_wf_unchanged:
  assumes "chan_wf s" "fd_wf None s'" "entry s' = entry s"
    "channels_array s' = channels_array s" "manifest_dirs s' = manifest_dirs s" "channels_ref s' = channels_ref s"
  shows "chan_wf s'"
  using assms by (simp add: chan_wf_def numbered_def handles_known_def inode_known_def)

lemma dup_ok:
  fixes s :: "('w, 'a) zrt_scheme"
  assumes wf: "chan_wf s" and e: "entry s fd = Some e" "hi_mount_fs e = Some m"
  shows "\<exists>h s'. transparent_dup s fd = Some (h, s') \<and> chan_wf s' \<and> channels_ref s' = channels_ref s \<and>
    (if no_handle_left s then h = -1 \<and> errno s' = ENFILE \<and> entry s' = entry s
     else 0 \<le> h \<and> h < int MAX_HANDLES_COUNT \<and> handle_free s (nat h) \<and> (\<forall>k < nat h. \<not> handle_free s k)
        \<and> entry s' = (entry s)(h \<mapsto> e) \<and> ofd s' h = ofd s fd \<and> ofd s' fd = ofd s fd)"
proof -
  let ?s = "s\<lparr>errno := 0\<rparr>" and ?i = "hi_ofd_id e"
  have wf0: "chan_wf ?s" by (rule chan_wf_frame [OF chan_frame_errno(2) wf])
  note w0 = chan_wfD(1) [OF wf0]
  have e0: "entry ?s fd = Some e" using e by simp
  note v = VERIFY_OFD_of_entry [OF w0 e0]
  from fd_wf_refer_ofd [OF w0 v(1)] obtain s1 where r: "refer_ofd ?s ?i = (0, s1)" and w1: "fd_wf (Some (nat ?i)) s1" by blast
  note f1 = refer_ofd_frame [OF r]
  obtain h s2 where a: "allocate_handle s1 m (hi_inode e) (hi_parent_dir_inode e) ?i = (h, s2)" by fastforce
  have eq: "transparent_dup s fd = (if h = -1 then Some (-1, SET_ERRNO ENFILE (snd (release_ofd s2 ?i))) else Some (h, s2))"
    using mount_byhandle_open [OF chan_wfD(1) [OF wf] e(1)] related_of_entry [OF e] e r a by (simp add: transparent_dup_def Let_def)
  note al = fd_wf_allocate_handle [OF w1 v(2,3) a]
  have a': "alloc_handle_of s1 (m, hi_inode e, hi_parent_dir_inode e, ?i) = (h, s2)" using a by simp
  have ok1: "ht.hint_ok s1" by (rule fd_wfD(1) [OF w1])
  have st: "channels_array s2 = channels_array s" "manifest_dirs s2 = manifest_dirs s" "channels_ref s2 = channels_ref s"
    "s_open_files_array s2 = s_open_files_array s1"
    using a ofd_frames_chan(1) [OF r] by (auto simp: allocate_handle_cases split: option.splits)
  show ?thesis
  proof (cases "h = -1")
    case True
    with al obtain s3 where r3: "release_ofd s2 ?i = (0, s3)" and w3: "fd_wf None s3"
      using fd_wf_release_extra [OF _ v(2,3)] by force
    have "s_handle_slots s2 = s_handle_slots s1" using a True by (auto simp: allocate_handle_cases split: option.splits)
    then have ent: "entry s3 = entry s" using ofd_frames_chan(2) [OF r3] f1(1) entry_slots [of s3 s] by simp
    have wf3: "chan_wf s3" by (rule chan_wf_unchanged [OF wf w3 ent]) (use ofd_frames_chan(2) [OF r3] st in simp_all)
    have "no_handle_left s"
    proof -
      have "alloc_handle_of s1 (m, hi_inode e, hi_parent_dir_inode e, ?i) = (-1, s2)" using a' True by simp
      from ht.alloc_full [OF ok1 this] show ?thesis using f1(1) by (simp add: no_handle_left_def)
    qed
    with True eq r3 ent chan_wf_frame [OF chan_frame_errno(1) wf3] ofd_frames_chan(2) [OF r3] st show ?thesis
      by (simp add: SET_ERRNO_def)
  next
    case False
    with al have w2: "fd_wf None s2" by simp
    from ht.alloc_lowest [OF ok1 a' False] f1(1)
    have h: "0 \<le> h" "h < int MAX_HANDLES_COUNT" "handle_free s (nat h)" "\<forall>k < nat h. \<not> handle_free s k" by auto
    then have "nat h < MAX_HANDLES_COUNT" by (simp add: nat_less_iff)
    with h(3) have nl: "\<not> no_handle_left s" unfolding no_handle_left_def by blast
    have "s_handle_slots s2 = s_handle_slots (put_handle s1 h e)"
      using a False HandleItem_eta [OF e(2)] by (auto simp: allocate_handle_cases put_handle_def split: option.splits)
    then have ent: "entry s2 = (entry s)(h \<mapsto> e)" using entry_slots [of s2 "put_handle s1 h e"] entry_put_handle [OF h(1,2), of s1 e] f1(3) by simp
    have wf2: "chan_wf s2" by (rule chan_wf_extend [OF wf w2 ent refl e(1)]) (use st in simp_all)
    have pub: "os_public (s_open_files_array s2 (nat ?i)) = os_public (s_open_files_array s (nat ?i))"
      using st(4) f1(4) by simp
    have "fd \<noteq> h" using h(3) e(1) by (auto simp: entry_def VERIFY_HANDLE_def split: if_splits)
    then have "ofd s2 h = ofd s fd" "ofd s2 fd = ofd s fd"
      using ofd_of_entry(1) [OF w2, of h e] ofd_of_entry(1) [OF w2, of fd e] ofd_of_entry(1) [OF chan_wfD(1) [OF wf] e(1)] ent e(1) pub
      by simp_all
    with eq False wf2 h ent nl st show ?thesis by simp
  qed
qed

text \<open>
  (C9) \<open>dup\<close> of an open descriptor never fails its assertion and keeps the invariant: it returns the lowest
  free descriptor, which has the handle of the old one and shares its description; when no descriptor
  is free it returns \<open>-1\<close> with \<open>ENFILE\<close> and no descriptor changes.
\<close>

theorem transparent_dup_correct:
  fixes s :: "('w, 'a) zrt_scheme"
  assumes "chan_wf s" "entry s fd = Some e" "hi_mount_fs e = Some m"
  shows "\<exists>h s'. transparent_dup s fd = Some (h, s') \<and> chan_wf s' \<and>
    (if no_handle_left s then h = -1 \<and> errno s' = ENFILE \<and> entry s' = entry s
     else 0 \<le> h \<and> h < int MAX_HANDLES_COUNT \<and> handle_free s (nat h) \<and> (\<forall>k < nat h. \<not> handle_free s k)
        \<and> entry s' = (entry s)(h \<mapsto> e) \<and> ofd s' h = ofd s fd \<and> ofd s' fd = ofd s fd)"
  using dup_ok [OF assms] by blast

text \<open>The tail of \<open>dup2\<close>, once the new descriptor is closed.\<close>

lemma dup2_tail:
  fixes s1 :: "('w, 'a) zrt_scheme"
  assumes wf: "chan_wf s1" and e: "entry s1 fd = Some e" "hi_mount_fs e = Some m" and n: "entry s1 nfd = None"
    and r: "refer_ofd s1 (hi_ofd_id e) = (r, s2)"
    and a: "allocate_handle2 s2 m (hi_inode e) (hi_parent_dir_inode e) (hi_ofd_id e) nfd = (h, s3)"
  shows "r = 0" and "if 0 \<le> nfd \<and> nfd < int MAX_HANDLES_COUNT
     then h = nfd \<and> chan_wf s3 \<and> entry s3 = (entry s1)(nfd \<mapsto> e) \<and> ofd s3 nfd = ofd s1 fd \<and> ofd s3 fd = ofd s1 fd
       \<and> channels_ref s3 = channels_ref s1
     else h = -1 \<and> channels_ref (snd (release_ofd s3 (hi_ofd_id e))) = channels_ref s1 \<and> chan_wf (snd (release_ofd s3 (hi_ofd_id e))) \<and> entry (snd (release_ofd s3 (hi_ofd_id e))) = entry s1"
proof -
  let ?i = "hi_ofd_id e"
  note v = VERIFY_OFD_of_entry [OF chan_wfD(1) [OF wf] e(1)]
  from fd_wf_refer_ofd [OF chan_wfD(1) [OF wf] v(1)] r show "r = 0" by auto
  from fd_wf_refer_ofd [OF chan_wfD(1) [OF wf] v(1)] r have w2: "fd_wf (Some (nat ?i)) s2" by auto
  note f = refer_ofd_frame [OF r] ofd_frames_chan(1) [OF r]
  note al = fd_wf_allocate_handle2 [OF w2 v(2,3) a]
  show "if 0 \<le> nfd \<and> nfd < int MAX_HANDLES_COUNT
     then h = nfd \<and> chan_wf s3 \<and> entry s3 = (entry s1)(nfd \<mapsto> e) \<and> ofd s3 nfd = ofd s1 fd \<and> ofd s3 fd = ofd s1 fd
       \<and> channels_ref s3 = channels_ref s1
     else h = -1 \<and> channels_ref (snd (release_ofd s3 (hi_ofd_id e))) = channels_ref s1 \<and> chan_wf (snd (release_ofd s3 ?i)) \<and> entry (snd (release_ofd s3 ?i)) = entry s1"
  proof (cases "0 \<le> nfd \<and> nfd < int MAX_HANDLES_COUNT")
    case True
    have "hs_used (s_handle_slots s1 (nat nfd)) = EHandleAvailable"
      using n True handle_state.exhaust by (auto simp: entry_def VERIFY_HANDLE_def split: if_splits)
    with True f(1) have av: "VERIFY_HANDLE s2 nfd EHandleAvailable" by (simp add: VERIFY_HANDLE_def)
    with a have h: "h = nfd" and s3: "s3 = put_handle s2 nfd e" by (auto simp: allocate_handle2_def HandleItem_eta [OF e(2)])
    from True h have "h \<noteq> -1" by simp
    with al have w3: "fd_wf None s3" by simp
    have ent: "entry s3 = (entry s1)(nfd \<mapsto> e)" using entry_put_handle [of nfd s2 e] True f(3) s3 by simp
    have wf3: "chan_wf s3" by (rule chan_wf_extend [OF wf w3 ent refl e(1)]) (use f s3 in simp_all)
    have "fd \<noteq> nfd" using n e(1) by auto
    then have "ofd s3 nfd = ofd s1 fd" "ofd s3 fd = ofd s1 fd"
      using ofd_of_entry(1) [OF w3, of nfd e] ofd_of_entry(1) [OF w3, of fd e] ofd_of_entry(1) [OF chan_wfD(1) [OF wf] e(1)] ent e(1) f(4) s3
      by simp_all
    with True h wf3 ent f s3 show ?thesis by simp
  next
    case False
    with a have h: "h = -1" "s3 = s2" by (auto simp: allocate_handle2_def VERIFY_HANDLE_def split: if_splits)
    from fd_wf_release_extra [OF w2 v(2,3)] obtain s4 where r4: "release_ofd s2 ?i = (0, s4)" and w4: "fd_wf None s4" by blast
    have ent: "entry s4 = entry s1" using ofd_frames_chan(2) [OF r4] f(1) entry_slots [of s4 s1] by simp
    have "chan_wf s4" by (rule chan_wf_unchanged [OF wf w4 ent]) (use ofd_frames_chan(2) [OF r4] f in simp_all)
    with False h r4 ent ofd_frames_chan(2) [OF r4] f show ?thesis by auto
  qed
qed

lemma dup2_ok:
  fixes s :: "('w, 'a) zrt_scheme"
  assumes wf: "chan_wf s" and e: "entry s fd = Some e" "hi_mount_fs e = Some m" and ne: "fd \<noteq> nfd"
    and old: "entry s nfd = None \<or> (\<exists>e2. entry s nfd = Some e2 \<and> hi_mount_fs e2 = Some (channels_ref s))"
    and chn: "te_mounts env (channels_ref s) = KChannels_mount zenv name_off"
  shows "\<exists>h s'. transparent_dup2 env s fd nfd = Some (h, s') \<and> chan_wf s' \<and> channels_ref s' = channels_ref s \<and>
    (if 0 \<le> nfd \<and> nfd < int MAX_HANDLES_COUNT
     then h = nfd \<and> entry s' = (entry s)(nfd \<mapsto> e) \<and> ofd s' nfd = ofd s' fd
     else h = -1 \<and> errno s' = ENFILE \<and> entry s' = entry s)"
proof -
  let ?s = "s\<lparr>errno := 0\<rparr>"
  have wf0: "chan_wf ?s" by (rule chan_wf_frame [OF chan_frame_errno(2) wf])
  define closed where "closed = (case mm_mount_byhandle ?s nfd of None \<Rightarrow> Some ?s | Some mount2 \<Rightarrow>
      if check_handle_is_related_to_filesystem ?s nfd mount2 = 0 then map_option snd (m_close (te_mounts env mount2) ?s nfd) else Some ?s)"
  obtain s1 where s1: "closed = Some s1" "chan_wf s1" "entry s1 = (entry s)(nfd := None)" "channels_ref s1 = channels_ref s"
  proof (cases "entry s nfd")
    case None
    then have "closed = Some ?s" by (simp add: closed_def mm_mount_byhandle_def)
    with None that wf0 show ?thesis by (simp add: fun_upd_idem)
  next
    case (Some e2)
    with old have m2: "entry ?s nfd = Some e2" "hi_mount_fs e2 = Some (channels_ref ?s)" by auto
    from chan_wf_close [OF wf0 this] obtain s' where
      c: "channels_close ?s nfd = Some (0, s')" "chan_wf s'" "entry s' = (entry s)(nfd := None)"
      "channels_ref s' = channels_ref s" by auto
    have "closed = Some s'"
      using mount_byhandle_open [OF chan_wfD(1) [OF wf0] m2(1)] m2 related_of_entry [OF m2] chn c(1)
      by (simp add: closed_def KChannels_mount_def)
    with c that show ?thesis by blast
  qed
  have e1: "entry s1 fd = Some e" "entry s1 nfd = None" using s1(3) e ne by simp_all
  obtain r s2 where r: "refer_ofd s1 (hi_ofd_id e) = (r, s2)" by fastforce
  obtain h s3 where a: "allocate_handle2 s2 m (hi_inode e) (hi_parent_dir_inode e) (hi_ofd_id e) nfd = (h, s3)" by fastforce
  note tl = dup2_tail [OF s1(2) e1(1) e(2) e1(2) r a]
  have eq: "transparent_dup2 env s fd nfd = (if h = -1 then Some (-1, SET_ERRNO ENFILE (snd (release_ofd s3 (hi_ofd_id e)))) else Some (h, s3))"
    using mount_byhandle_open [OF chan_wfD(1) [OF wf] e(1)] e related_of_entry [OF e] ne s1(1) e1(1) r a tl(1)
    unfolding transparent_dup2_def closed_def by (simp add: Let_def)
  show ?thesis
  proof (cases "0 \<le> nfd \<and> nfd < int MAX_HANDLES_COUNT")
    case True
    with tl(2) eq s1(3,4) show ?thesis by auto
  next
    case False
    let ?s4 = "snd (release_ofd s3 (hi_ofd_id e))"
    have "entry s nfd = None" using False by (auto simp: entry_def VERIFY_HANDLE_def)
    then have "entry s1 = entry s" using s1(3) by (simp add: fun_upd_idem)
    with False tl(2) s1(4) have "h = -1" "chan_wf ?s4" "entry ?s4 = entry s" "channels_ref ?s4 = channels_ref s" by auto
    with eq False chan_wf_frame [OF chan_frame_errno(1), of ?s4 ENFILE] show ?thesis by (simp add: SET_ERRNO_def)
  qed
qed

text \<open>
  (C8) \<open>dup2\<close> onto another descriptor, when that descriptor is free or belongs to the channel file system:
  a valid new descriptor ends up with the handle of the old one and shares its description, whatever it
  was before; a number outside the table is refused with \<open>ENFILE\<close> and changes no descriptor. Neither
  assertion nor a NULL pointer is hit, and the invariant is kept.
\<close>

theorem transparent_dup2_correct:
  fixes s :: "('w, 'a) zrt_scheme"
  assumes wf: "chan_wf s" and e: "entry s fd = Some e" "hi_mount_fs e = Some m" and ne: "fd \<noteq> nfd"
    and old: "entry s nfd = None \<or> (\<exists>e2. entry s nfd = Some e2 \<and> hi_mount_fs e2 = Some (channels_ref s))"
    and chn: "te_mounts env (channels_ref s) = KChannels_mount zenv name_off"
  shows "\<exists>h s'. transparent_dup2 env s fd nfd = Some (h, s') \<and> chan_wf s' \<and>
    (if 0 \<le> nfd \<and> nfd < int MAX_HANDLES_COUNT
     then h = nfd \<and> entry s' = (entry s)(nfd \<mapsto> e) \<and> ofd s' nfd = ofd s' fd
     else h = -1 \<and> errno s' = ENFILE \<and> entry s' = entry s)"
  using dup2_ok [OF assms] by blast

end
