(* ===== verification/Sessions.thy ===== *)
theory Sessions
  imports Syscalls
begin

text \<open>
  Sessions: finite sequences of calls through the dispatching mount. \<open>dispatcher\<close> is the locale of an
  environment whose mounts all meet \<open>mount_contract\<close> for an invariant that the table operations of the
  dispatcher keep; every call then keeps the invariant. It is interpreted on the environment in which
  the channel file system is the only mount, as in the build without the memory file system.
\<close>

section \<open>One call\<close>

datatype call =
    Open string flags_t mode_t
  | Close int
  | Dup int
  | Dup2 int int
  | Read int nat
  | Write int "byte list"
  | Pread int nat off_t
  | Pwrite int "byte list" off_t
  | Lseek int off_t int
  | Getdents int bool dirent_buf nat
  | Fcntl int int "flock option" flags_t
  | Stat string
  | Fstat int

definition state_of :: "(int \<times> 'x \<times> 's) option \<Rightarrow> 's option" where
  "state_of r = map_option (\<lambda>(_, _, s). s) r"

text \<open>The state after a call, \<open>None\<close> when the call aborts.\<close>

fun run :: "('w, 'a, 'r) tenv \<Rightarrow> ('w, 'a) zrt_scheme \<Rightarrow> call \<Rightarrow> ('w, 'a) zrt_scheme option" where
  "run env s (Open path fl md) = map_option snd (transparent_open env s path fl md)"
| "run env s (Close fd) = map_option snd (transparent_close env s fd)"
| "run env s (Dup fd) = map_option snd (transparent_dup s fd)"
| "run env s (Dup2 fd nfd) = map_option snd (transparent_dup2 env s fd nfd)"
| "run env s (Read fd n) = state_of (transparent_read env s fd n)"
| "run env s (Write fd buf) = map_option snd (transparent_write env s fd buf)"
| "run env s (Pread fd n off) = state_of (transparent_pread env s fd n off)"
| "run env s (Pwrite fd buf off) = map_option snd (transparent_pwrite env s fd buf off)"
| "run env s (Lseek fd off wh) = map_option snd (transparent_lseek env s fd off wh)"
| "run env s (Getdents fd al buf n) = state_of (transparent_getdents env s fd al buf n)"
| "run env s (Fcntl fd cmd lock fl) = state_of (transparent_fcntl env s fd cmd lock fl)"
| "run env s (Stat path) = state_of (transparent_stat env s path)"
| "run env s (Fstat fd) = state_of (transparent_fstat env s fd)"

inductive reachable :: "('w, 'a, 'r) tenv \<Rightarrow> ('w, 'a) zrt_scheme \<Rightarrow> ('w, 'a) zrt_scheme \<Rightarrow> bool" for env s0 where
  start: "reachable env s0 s0"
| step: "reachable env s0 s \<Longrightarrow> run env s c = Some s' \<Longrightarrow> reachable env s0 s'"

inductive_cases reachableE: "reachable env s0 s"

section \<open>The dispatcher over mounts that keep their contract\<close>

locale dispatcher =
  fixes env :: "(('w, 'a) zrt_scheme, 'r) tm_env" and inv :: "('w, 'a) zrt_scheme \<Rightarrow> bool"
  assumes mounts_ok: "mount_contract inv (te_mounts env m)"
    and import_ok: "inv s \<Longrightarrow> te_mount_import env s rec = Some (r, s') \<Longrightarrow> inv s'"
    and errno_ok: "inv s \<Longrightarrow> inv (SET_ERRNO x s)"
    and dup_ok: "inv s \<Longrightarrow> transparent_dup s fd = Some (r, s') \<Longrightarrow> inv s'"
    and dup2_ok: "inv s \<Longrightarrow> transparent_dup2 env s fd nfd = Some (r, s') \<Longrightarrow> inv s'"
begin

lemmas mount_keeps = mount_contract.stat_keeps [OF mounts_ok] mount_contract.read_keeps [OF mounts_ok]
  mount_contract.write_keeps [OF mounts_ok] mount_contract.pread_keeps [OF mounts_ok] mount_contract.pwrite_keeps [OF mounts_ok]
  mount_contract.fstat_keeps [OF mounts_ok] mount_contract.getdents_keeps [OF mounts_ok] mount_contract.close_keeps [OF mounts_ok]
  mount_contract.lseek_keeps [OF mounts_ok] mount_contract.open_keeps [OF mounts_ok] mount_contract.fcntl_keeps [OF mounts_ok]
  mount_contract.getfl_keeps [OF mounts_ok] mount_contract.setfl_keeps [OF mounts_ok]

lemma try_lazy_keeps: "inv s \<Longrightarrow> try_lazy_mount_verify_absolute_path env s path = Some (p, s') \<Longrightarrow> inv s'"
  by (auto simp: try_lazy_mount_verify_absolute_path_def lazy_mount_def Let_def bind_eq_Some_conv
      split: option.splits dest: import_ok)

lemma mount_call_keeps:
  "mount_call env s p err call (\<lambda>s. (c, s)) = Some (r, s') \<Longrightarrow> inv s
     \<Longrightarrow> (\<And>m q. call (te_mounts env m) q = Some (r, s') \<Longrightarrow> inv s') \<Longrightarrow> inv s'"
  "mount_call env s p err call3 (\<lambda>s. (c, d, s)) = Some (r, x, s') \<Longrightarrow> inv s
     \<Longrightarrow> (\<And>m q. call3 (te_mounts env m) q = Some (r, x, s') \<Longrightarrow> inv s') \<Longrightarrow> inv s'"
  by (auto simp: mount_call_def bind_eq_Some_conv split: option.splits intro: errno_ok)

lemma handle_call_keeps:
  "handle_call env s fd call (\<lambda>s. (c, s)) = Some (r, s') \<Longrightarrow> inv s
     \<Longrightarrow> (\<And>m. call (te_mounts env m) = Some (r, s') \<Longrightarrow> inv s') \<Longrightarrow> inv s'"
  "handle_call env s fd call3 (\<lambda>s. (c, d, s)) = Some (r, x, s') \<Longrightarrow> inv s
     \<Longrightarrow> (\<And>m. call3 (te_mounts env m) = Some (r, x, s') \<Longrightarrow> inv s') \<Longrightarrow> inv s'"
  by (auto simp: handle_call_def split: option.splits intro: errno_ok)

lemma fcntl_implem_keeps:
  assumes "inv s" "fcntl_implem (m_implem (te_mounts env m)) s fd cmd lock fl = Some (r, l', s')"
  shows "inv s'"
  using assms(2,1)
  by (auto simp: fcntl_implem_def bind_eq_Some_conv split: if_splits option.splits intro: errno_ok mount_keeps(12,13))

lemma open_keeps:
  assumes i: "inv s" and c: "transparent_open env s path fl md = Some (r, s')"
  shows "inv s'"
proof -
  from c obtain p s1 where t: "try_lazy_mount_verify_absolute_path env s path = Some (p, s1)"
    and m: "mount_call env s1 p ENOENT (\<lambda>mount p. m_open mount s1 p fl md) (\<lambda>s. (-1, s)) = Some (r, s')"
    by (auto simp: transparent_open_def bind_eq_Some_conv)
  have i1: "inv s1" by (rule try_lazy_keeps [OF i t])
  show ?thesis by (rule mount_call_keeps(1) [OF m i1]) (rule mount_keeps(10) [OF i1])
qed

lemma stat_keeps:
  assumes i: "inv s" and c: "transparent_stat env s path = Some (r, st, s')"
  shows "inv s'"
proof -
  from c obtain p s1 where t: "try_lazy_mount_verify_absolute_path env s path = Some (p, s1)"
    and m: "mount_call env s1 p ENOENT (\<lambda>mount p. m_stat mount s1 (Some p)) (\<lambda>s. (-1, None, s)) = Some (r, st, s')"
    by (auto simp: transparent_stat_def bind_eq_Some_conv)
  have i1: "inv s1" by (rule try_lazy_keeps [OF i t])
  show ?thesis by (rule mount_call_keeps(2) [OF m i1]) (rule mount_keeps(1) [OF i1])
qed

lemma close_keeps: "inv s \<Longrightarrow> transparent_close env s fd = Some (r, s') \<Longrightarrow> inv s'"
  unfolding transparent_close_def by (rule handle_call_keeps(1)) (blast intro: mount_keeps(8))+

lemma write_keeps: "inv s \<Longrightarrow> transparent_write env s fd buf = Some (r, s') \<Longrightarrow> inv s'"
  unfolding transparent_write_def by (rule handle_call_keeps(1)) (blast intro: mount_keeps(3))+

lemma pwrite_keeps: "inv s \<Longrightarrow> transparent_pwrite env s fd buf off = Some (r, s') \<Longrightarrow> inv s'"
  unfolding transparent_pwrite_def by (rule handle_call_keeps(1)) (blast intro: mount_keeps(5))+

lemma read_keeps: "inv s \<Longrightarrow> transparent_read env s fd n = Some (r, x, s') \<Longrightarrow> inv s'"
  unfolding transparent_read_def by (rule handle_call_keeps(2)) (blast intro: mount_keeps(2))+

lemma pread_keeps: "inv s \<Longrightarrow> transparent_pread env s fd n off = Some (r, x, s') \<Longrightarrow> inv s'"
  unfolding transparent_pread_def by (rule handle_call_keeps(2)) (blast intro: mount_keeps(4))+

lemma fstat_keeps: "inv s \<Longrightarrow> transparent_fstat env s fd = Some (r, x, s') \<Longrightarrow> inv s'"
  unfolding transparent_fstat_def by (rule handle_call_keeps(2)) (blast intro: mount_keeps(6))+

lemma getdents_keeps: "inv s \<Longrightarrow> transparent_getdents env s fd al buf n = Some (r, x, s') \<Longrightarrow> inv s'"
  unfolding transparent_getdents_def by (rule handle_call_keeps(2)) (blast intro: mount_keeps(7))+

lemma lseek_keeps:
  assumes i: "inv s" and c: "transparent_lseek env s fd off wh = Some (r, s')"
  shows "inv s'"
proof (rule handle_call_keeps(1) [OF c [unfolded transparent_lseek_def] i], goal_cases)
  case (1 m)
  then obtain ret st s1 where f: "m_fstat (te_mounts env m) s fd = Some (ret, st, s1)" by (auto simp: bind_eq_Some_conv)
  then have "inv s1" by (rule mount_keeps(6) [OF i])
  with 1 f show ?case by (auto simp: bind_eq_Some_conv split: if_splits intro: errno_ok mount_keeps(9))
qed

lemma fcntl_keeps:
  assumes i: "inv s" and c: "transparent_fcntl env s fd cmd lock fl = Some (r, x, s')"
  shows "inv s'"
proof (rule handle_call_keeps(2) [OF c [unfolded transparent_fcntl_def] i], goal_cases)
  case (1 m)
  show ?case
  proof (cases "cmd = F_SETLK \<or> cmd = F_SETLKW \<or> cmd = F_GETLK \<or> cmd = F_GETFL \<or> cmd = F_SETFL")
    case True
    with 1 obtain ret s1 where f: "m_fcntl (te_mounts env m) s fd cmd = Some (ret, s1)"
      and "(if ret = 0 then fcntl_implem (m_implem (te_mounts env m)) s1 fd cmd lock fl else Some (ret, lock, s1)) = Some (r, x, s')"
      by (auto simp: bind_eq_Some_conv)
    then show ?thesis using mount_keeps(11) [OF i f] by (auto split: if_splits intro: fcntl_implem_keeps)
  next
    case False
    with 1 i show ?thesis by (auto intro: errno_ok)
  qed
qed

lemmas call_keeps = open_keeps stat_keeps close_keeps write_keeps pwrite_keeps read_keeps pread_keeps fstat_keeps
  getdents_keeps lseek_keeps fcntl_keeps dup_ok dup2_ok

lemma run_keeps: "inv s \<Longrightarrow> run env s c = Some s' \<Longrightarrow> inv s'"
  by (cases c) (auto simp: state_of_def intro: call_keeps)

lemma reachable_keeps: "reachable env s0 s \<Longrightarrow> inv s0 \<Longrightarrow> inv s"
  by (induction rule: reachable.induct) (auto dest: run_keeps)

end

section \<open>The channel file system as the only mount\<close>

text \<open>Every open descriptor belongs to the channel file system, and its tables are well formed.\<close>

definition sys_wf :: "('w, 'a) chan_scheme \<Rightarrow> bool" where
  "sys_wf s \<longleftrightarrow> chan_wf s \<and> (\<forall>h e. entry s h = Some e \<longrightarrow> hi_mount_fs e = Some (channels_ref s))"

lemma sys_wf_same_tables: "same_tables s s' \<Longrightarrow> sys_wf s \<Longrightarrow> sys_wf s'"
  using chan_wf_same_tables [of s s'] same_tablesD(1,4) [of s s'] by (auto simp: sys_wf_def)

lemmas sys_wf_frame = sys_wf_same_tables [OF chan_frame_same]

lemma sys_wf_errno: "sys_wf s \<Longrightarrow> sys_wf (SET_ERRNO e s)"
  by (rule sys_wf_frame [OF chan_frame_errno(1)])

lemma table_refs:
  "getnew_ofd s fl = (i, s1) \<Longrightarrow> channels_ref s1 = channels_ref s"
  "allocate_handle s m x y i = (h, s1) \<Longrightarrow> channels_ref s1 = channels_ref s"
  "allocate_handle2 s m x y i nfd = (h, s1) \<Longrightarrow> channels_ref s1 = channels_ref s"
  "release_ofd s i = (h, s1) \<Longrightarrow> channels_ref s1 = channels_ref s"
  "refer_ofd s i = (h, s1) \<Longrightarrow> channels_ref s1 = channels_ref s"
  by (auto simp: getnew_ofd_cases allocate_handle_cases allocate_handle2_def release_ofd_def refer_ofd_def Let_def
      split: option.splits if_splits)

lemma opened_ref:
  assumes "channels_open s path fl md = Some (h, s')"
  shows "channels_ref s' = channels_ref s"
proof -
  have r: "channels_ref (snd (release_ofd s i)) = channels_ref s" for i and s :: "('a, 'b) chan_scheme"
    using table_refs(4) [of s i] by (metis prod.collapse)
  show ?thesis
    using assms unfolding channels_open_def open_channel_def Let_def
    by (auto simp: SET_ERRNO_def r bind_eq_Some_conv split: if_splits option.splits prod.splits
        dest!: table_refs(1,2) chan_frame_channel_pos dest: chan_frameD(4))
qed

lemma sys_wf_open:
  assumes "sys_wf s" "channels_open s path fl md = Some (h, s')"
  shows "sys_wf s'"
proof -
  have wf: "chan_wf s" using assms(1) by (simp add: sys_wf_def)
  from channels_open_cases [OF wf, of path fl md] assms(2)
  have "chan_wf s'" and "entry s' = entry s \<or> (\<exists>ino. opened s ino fl h s')"
    by (auto split: sum.splits if_splits)
  then show ?thesis using assms(1) opened_ref [OF assms(2)] by (auto simp: sys_wf_def opened_def split: if_splits)
qed

lemma sys_wf_close:
  assumes "sys_wf s" "channels_close s fd = Some (r, s')"
  shows "sys_wf s'"
proof (cases "related s fd")
  case True
  then obtain e where e: "entry s fd = Some e" "hi_mount_fs e = Some (channels_ref s)" by (auto simp: related_entry)
  have wf: "chan_wf s" using assms(1) by (simp add: sys_wf_def)
  have "channels_ref s' = channels_ref s"
    using assms(2) by (auto simp: channels_close_def release_ofd_def free_handle_def SET_ERRNO_def Let_def bind_eq_Some_conv split: if_splits)
  with chan_wf_close [OF wf e] assms show ?thesis by (auto simp: sys_wf_def split: if_splits)
next
  case False
  with assms(2) have "s' = SET_ERRNO EBADF s" by (simp add: channels_close_def)
  with sys_wf_errno [OF assms(1)] show ?thesis by simp
qed

interpretation sm: mount_contract sys_wf "KChannels_mount env name_off" for env name_off
proof unfold_locales
  fix s s' :: "('a, 'b) chan_scheme" and fd buf off r
  assume wf: "sys_wf s"
  then have ok: "arr_ok (channels_array s)" by (auto simp: sys_wf_def dest: chan_wfD(4))
  show "m_write (KChannels_mount env name_off) s fd buf = Some (r, s') \<Longrightarrow> sys_wf s'"
    by (auto simp: KChannels_mount_def intro: sys_wf_frame [OF chan_frame_write [OF _ ok] wf])
  show "m_pwrite (KChannels_mount env name_off) s fd buf off = Some (r, s') \<Longrightarrow> sys_wf s'"
    by (auto simp: KChannels_mount_def intro: sys_wf_frame [OF chan_frame_pwrite [OF _ ok] wf])
qed (auto simp: KChannels_mount_def KMountSpecificImplem_def intro: sys_wf_open sys_wf_close
     sys_wf_frame [OF chan_frame_stats(1)] sys_wf_frame [OF chan_frame_stats(2)] sys_wf_frame [OF chan_frame_stats(3)]
     sys_wf_frame [OF chan_frame_read] sys_wf_frame [OF chan_frame_pread]
     sys_wf_frame [OF chan_frame_lseek] sys_wf_frame [OF channels_getfl_keeps]
     sys_wf_same_tables [OF same_tables_getdents] sys_wf_same_tables [OF same_tables_setfl])

definition channels_env :: "'w zvm_env \<Rightarrow> nat \<Rightarrow> (string \<Rightarrow> string option) \<Rightarrow> string \<Rightarrow> ('w, 'a, unit) tenv" where
  "channels_env zenv name_off realpath cwd = \<lparr>te_realpath = realpath, te_cwd = cwd,
     te_locate_postpone_mount = \<lambda>_ _. None, te_mount_import = \<lambda>s _. Some (-1, s),
     te_mounts = \<lambda>_. KChannels_mount zenv name_off\<rparr>"

lemma sys_wf_dup:
  assumes "sys_wf s" "transparent_dup s fd = Some (r, s')"
  shows "sys_wf s'"
proof (cases "entry s fd")
  case None
  then have "s' = SET_ERRNO EBADF s" using assms(2) by (simp add: transparent_dup_def mm_mount_byhandle_def)
  with sys_wf_errno [OF assms(1)] show ?thesis by simp
next
  case (Some e)
  with assms(1) have wf: "chan_wf s" and m: "hi_mount_fs e = Some (channels_ref s)" by (auto simp: sys_wf_def)
  from dup_ok [OF wf Some m] assms m Some show ?thesis by (auto simp: sys_wf_def split: if_splits)
qed

lemma sys_wf_dup2:
  assumes "sys_wf s" "transparent_dup2 env s fd nfd = Some (r, s')" "te_mounts env = (\<lambda>_. KChannels_mount zenv name_off)"
  shows "sys_wf s'"
proof (cases "entry s fd")
  case None
  then have "s' = SET_ERRNO EBADF s" using assms(2) by (simp add: transparent_dup2_def mm_mount_byhandle_def)
  with sys_wf_errno [OF assms(1)] show ?thesis by simp
next
  case (Some e)
  with assms(1) have wf: "chan_wf s" and m: "hi_mount_fs e = Some (channels_ref s)" by (auto simp: sys_wf_def)
  show ?thesis
  proof (cases "fd = nfd")
    case True
    have "mm_mount_byhandle s fd = Some (channels_ref s)" using mount_byhandle_open [OF chan_wfD(1) [OF wf] Some] m by simp
    with True assms(2) related_of_entry [OF Some m] have "s' = s\<lparr>errno := 0\<rparr>" by (simp add: transparent_dup2_def)
    with sys_wf_frame [OF chan_frame_errno(2) assms(1)] show ?thesis by simp
  next
    case False
    have "entry s nfd = None \<or> (\<exists>e2. entry s nfd = Some e2 \<and> hi_mount_fs e2 = Some (channels_ref s))"
      using assms(1) by (auto simp: sys_wf_def)
    from dup2_ok [OF wf Some m False this, of env zenv name_off] assms(2,3)
    have "chan_wf s' \<and> channels_ref s' = channels_ref s \<and> (entry s' = (entry s)(nfd \<mapsto> e) \<or> entry s' = entry s)" by (auto split: if_splits)
    then show ?thesis using assms(1) m by (auto simp: sys_wf_def split: if_splits)
  qed
qed

lemma channels_env_mounts [simp]:
  "te_mounts (channels_env zenv name_off realpath cwd) = (\<lambda>_. KChannels_mount zenv name_off)"
  "te_mount_import (channels_env zenv name_off realpath cwd) = (\<lambda>s _. Some (-1, s))"
  by (simp_all add: channels_env_def)

interpretation cs: dispatcher "channels_env zenv name_off realpath cwd" sys_wf for zenv name_off realpath cwd
  by unfold_locales (auto intro: sm.stat_keeps sm.read_keeps sm.write_keeps sm.pread_keeps sm.pwrite_keeps sm.fstat_keeps
     sm.getdents_keeps sm.close_keeps sm.lseek_keeps sm.open_keeps sm.fcntl_keeps sm.getfl_keeps sm.setfl_keeps sys_wf_errno sys_wf_dup sys_wf_dup2 [OF _ _ channels_env_mounts(1)])

text \<open>
  (C1) In every session of the channel file system, whatever the calls and whatever the host answers, the
  tables stay well formed from a well-formed start: the reference count of each description is the
  number of descriptors on it, so none is freed while in use and none leaks; the hints of both
  allocators are sound; every descriptor names an existing channel or directory.
\<close>

theorem sessions_keep_tables:
  assumes "reachable (channels_env zenv name_off realpath cwd) s0 s" "sys_wf s0"
  shows "sys_wf s"
  by (rule cs.reachable_keeps [OF assms])

end
