(* ===== verification/ChannelsStart.thy ===== *)
theory ChannelsStart
  imports Sessions
begin

text \<open>
  The constructor of the channel file system (\<open>channels_filesystem_construct\<close>): when the manifest names its
  channels by absolute paths, it runs through without a failed assertion and leaves a state that meets
  the invariant of the sessions, with the directory of every channel as its parent.
\<close>

lemma parent_walk:
  assumes "comps_ok (ds @ [c])" "nm = path_of (ds @ [c])"
  shows "\<exists>x len cur cur'. path_subpath_backward DEFAULT_TEMP_CURSOR_VALUE nm 0 = (x, cur, len)
     \<and> path_subpath_backward cur nm 0 = (Some 0, cur', int (length (dir_name ds)))"
proof -
  have nm: "nm = path_of ds @ SLASH # c" and c: "c \<noteq> []" "SLASH \<notin> set c" and ds: "comps_ok ds" using assms by auto
  have e: "path_of ds = [] \<longleftrightarrow> ds = []" by (cases ds) auto
  from path_subpath_backward_parent [OF path_of_ends [OF ds], of c 0] obtain cur' where
    "path_subpath_backward (int (length (path_of ds))) nm 0 = (Some 0, cur', int (length (dir_name ds)))"
    unfolding nm by (auto simp: dir_name_def e split: if_splits)
  with path_subpath_backward_first [OF c(2,1), of "path_of ds" 0] show ?thesis unfolding nm by blast
qed

lemma parent_dir_found:
  assumes "comps_ok (ds @ [c])" "nm = path_of (ds @ [c])" "dir_name ds \<in> set (dir_paths md)"
  shows "\<exists>k. match_dir_in_directory_list md nm (length (dir_name ds)) = Some k \<and> k < length md \<and> dd_path (md ! k) = dir_name ds"
proof -
  have t: "take (length (dir_name ds)) nm = dir_name ds" "length (dir_name ds) \<le> length nm" "comps_ok ds"
    using assms(1,2) by (auto simp: dir_name_def)
  from match_dir_None_iff [OF t(3,1,2), of md] assms(3) obtain k where "match_dir_in_directory_list md nm (length (dir_name ds)) = Some k"
    by auto
  with match_dir_SomeD [OF t(3,1,2)] show ?thesis by blast
qed

definition has_parent :: "manifest_dirs_t \<Rightarrow> ChannelArrayItem \<Rightarrow> bool" where
  "has_parent md it \<longleftrightarrow> (\<exists>ds c k. ch_name (ci_channel it) = path_of (ds @ [c]) \<and> comps_ok (ds @ [c])
     \<and> k < length md \<and> dd_path (md ! k) = dir_name ds \<and> rt_parent_inode (ci_runtime it) = dir_inode (md ! k))"

lemma assign_parents_ok:
  assumes "arr_ok arr" "\<forall>i \<in> set is. i < num_entries arr" "distinct is"
    and "\<forall>it \<in> set (items arr). \<exists>ds c. ch_name (ci_channel it) = path_of (ds @ [c]) \<and> comps_ok (ds @ [c]) \<and> dir_name ds \<in> set (dir_paths md)"
  shows "\<exists>arr'. assign_parents md arr is = Some arr' \<and> arr_ok arr'
    \<and> map static_item (items arr') = map static_item (items arr)
    \<and> (\<forall>i < num_entries arr. (i \<in> set is \<longrightarrow> has_parent md (items arr' ! i)) \<and> (i \<notin> set is \<longrightarrow> items arr' ! i = items arr ! i))"
  using assms
proof (induction "is" arbitrary: arr)
  case (Cons i "is")
  then have i: "i < num_entries arr" by simp
  have it: "channels_array_get arr i = Some (items arr ! i)"
    using Cons.prems(1) i by (simp add: channels_array_get_def get_items)
  have "items arr ! i \<in> set (items arr)" using i by simp
  with Cons.prems(4) obtain ds c where nm: "comps_ok (ds @ [c])" "ch_name (ci_channel (items arr ! i)) = path_of (ds @ [c])"
    "dir_name ds \<in> set (dir_paths md)" by blast
  from parent_walk [OF nm(1,2)] obtain x len cur cur' where
    w: "path_subpath_backward DEFAULT_TEMP_CURSOR_VALUE (ch_name (ci_channel (items arr ! i))) 0 = (x, cur, len)"
      "path_subpath_backward cur (ch_name (ci_channel (items arr ! i))) 0 = (Some 0, cur', int (length (dir_name ds)))" by blast
  from parent_dir_found [OF nm] obtain k where
    k: "match_dir_in_directory_list md (ch_name (ci_channel (items arr ! i))) (length (dir_name ds)) = Some k"
      "k < length md" "dd_path (md ! k) = dir_name ds" by blast
  let ?f = "\<lambda>it. it\<lparr>ci_runtime := (ci_runtime it)\<lparr>rt_parent_inode := dir_inode (md ! k)\<rparr>\<rparr>"
  let ?arr = "upd_item i ?f arr"
  note u = upd_item_ok [OF Cons.prems(1) i, of ?f]
  have st: "map static_item (items ?arr) = map static_item (items arr)"
    using i unfolding u(2) by (simp add: map_update list_update_same_conv static_item_def)
  have names: "\<forall>it \<in> set (items ?arr). \<exists>ds c. ch_name (ci_channel it) = path_of (ds @ [c]) \<and> comps_ok (ds @ [c]) \<and> dir_name ds \<in> set (dir_paths md)"
  proof
    fix it assume "it \<in> set (items ?arr)"
    then consider "it \<in> set (items arr)" | "it = ?f (items arr ! i)"
      unfolding u(2) by (meson insertE set_update_subset_insert subsetD)
    then show "\<exists>ds c. ch_name (ci_channel it) = path_of (ds @ [c]) \<and> comps_ok (ds @ [c]) \<and> dir_name ds \<in> set (dir_paths md)"
      by cases (use Cons.prems(4) nm in auto)
  qed
  have step: "assign_parents md arr (i # is) = assign_parents md ?arr is"
    by (simp add: it w k Let_def)
  obtain arr' where ih: "assign_parents md ?arr is = Some arr'" "arr_ok arr'" "map static_item (items arr') = map static_item (items ?arr)"
    "\<forall>j < num_entries ?arr. (j \<in> set is \<longrightarrow> has_parent md (items arr' ! j)) \<and> (j \<notin> set is \<longrightarrow> items arr' ! j = items ?arr ! j)"
    using Cons.IH [OF u(1) _ _ names] Cons.prems(2,3) u(3) by auto
  have here: "has_parent md (?f (items arr ! i))"
    unfolding has_parent_def using nm(1,2) k by (auto intro!: exI [of _ ds] exI [of _ c] exI [of _ k])
  have "(j \<in> set (i # is) \<longrightarrow> has_parent md (items arr' ! j)) \<and> (j \<notin> set (i # is) \<longrightarrow> items arr' ! j = items arr ! j)"
    if "j < num_entries arr" for j
    using ih(4) that u(2,3) i here Cons.prems(3) by (cases "j = i") auto
  with step ih st show ?case by auto
qed simp

lemma new_items: "map ci_channel (map (\<lambda>(n, c). new_item fresh emu n c) (enumerate k cs)) = cs"
  by (induction cs arbitrary: k) (simp_all add: new_item_def)

lemma constructed_items:
  assumes "items arr = map (\<lambda>(n, c). new_item fresh False n c) (enumerate 0 zs)
                 @ map (\<lambda>(n, c). new_item fresh True n c) (enumerate (length zs) es)"
  shows "map ci_channel (items arr) = zs @ es" "num_entries arr = length zs + length es"
    and "i < num_entries arr \<Longrightarrow> rt_inode (ci_runtime (items arr ! i)) = 11 + int i"
proof -
  show "map ci_channel (items arr) = zs @ es" unfolding assms map_append new_items ..
  then show n: "num_entries arr = length zs + length es" by (metis length_items length_map length_append)
  show "rt_inode (ci_runtime (items arr ! i)) = 11 + int i" if "i < num_entries arr"
    using that n unfolding assms nth_append
    by (cases "i < length zs") (simp_all add: nth_enumerate_eq new_item_def Let_def INODE_FROM_ZVM_INODE_def)
qed

lemma numbered_construct:
  assumes ok: "arr_ok arr" and st: "arr_ok arr'" "map static_item (items arr') = map static_item (items arr)"
    and ino: "\<And>i. i < num_entries arr \<Longrightarrow> rt_inode (ci_runtime (items arr ! i)) = 11 + int i"
    and md: "\<And>i. i < length md \<Longrightarrow> dir_inode (md ! i) = 11 + int (num_entries arr) + int i"
  shows "numbered (s\<lparr>channels_array := arr', manifest_dirs := md, channels_ref := ref\<rparr>)"
    and "map ci_channel (items arr') = map ci_channel (items arr)"
proof -
  have n: "num_entries arr' = num_entries arr" using st(2) by (metis length_items length_map)
  have each: "static_item (items arr' ! i) = static_item (items arr ! i)" if "i < num_entries arr" for i
    using st(2) that n by (metis length_items nth_map)
  show "numbered (s\<lparr>channels_array := arr', manifest_dirs := md, channels_ref := ref\<rparr>)"
    using st(1) n each ino md by (simp add: numbered_def static_item_def)
  show "map ci_channel (items arr') = map ci_channel (items arr)"
    using each n by (intro nth_equalityI) (simp_all add: static_item_def)
qed

lemma final_dirs:
  assumes "arr_ok arr" "\<forall>it \<in> set (items arr). chan_path (ch_name (ci_channel it))"
    and full: "length (create_dirs [] (map (\<lambda>it. ch_name (ci_channel it)) (items arr))) < DIRECTORIES_MAX_NUMBER"
    and md: "md = process_channels_create_dir_list arr []"
  shows "\<forall>it \<in> set (items arr). \<exists>ds c. ch_name (ci_channel it) = path_of (ds @ [c]) \<and> comps_ok (ds @ [c]) \<and> dir_name ds \<in> set (dir_paths md)"
    and "i < length md \<Longrightarrow> dir_inode (md ! i) = 11 + int (num_entries arr) + int i"
proof -
  from channel_dirs_built [OF assms(1,2) md] obtain md1 where
    m: "md1 = create_dirs [] (map (\<lambda>it. ch_name (ci_channel it)) (items arr))" "dirs_inv md1"
    and anc: "\<forall>ds c. path_of (ds @ [c]) \<in> (\<lambda>it. ch_name (ci_channel it)) ` set (items arr) \<longrightarrow> comps_ok (ds @ [c]) \<longrightarrow> has_ancestors md1 ds"
    and dp: "dir_paths md = dir_paths md1" "length md = length md1" by metis
  show "\<forall>it \<in> set (items arr). \<exists>ds c. ch_name (ci_channel it) = path_of (ds @ [c]) \<and> comps_ok (ds @ [c]) \<and> dir_name ds \<in> set (dir_paths md)"
  proof
    fix it assume it: "it \<in> set (items arr)"
    with assms(2) obtain ds c where nm: "comps_ok (ds @ [c])" "ch_name (ci_channel it) = path_of (ds @ [c])"
      unfolding chan_path_def by blast
    then have "has_ancestors md1 ds" using anc it by (metis imageI)
    then have "dir_name (take (length ds) ds) \<in> set (dir_paths md1) \<or> DIRECTORIES_MAX_NUMBER \<le> length md1"
      unfolding has_ancestors_def by blast
    then show "\<exists>ds c. ch_name (ci_channel it) = path_of (ds @ [c]) \<and> comps_ok (ds @ [c]) \<and> dir_name ds \<in> set (dir_paths md)"
      using nm full m(1) dp by auto
  qed
  show "dir_inode (md ! i) = 11 + int (num_entries arr) + int i" if "i < length md"
  proof -
    have i: "i < length md1" using that dp by simp
    then have "dir_inode (md1 ! i) = int i" using m(2) by (simp add: dirs_inv_def)
    with final_dir_fields(1) [OF assms(1) m(1) i md] show ?thesis by (simp add: INODE_FROM_ZVM_INODE_def)
  qed
qed

text \<open>
  (C7) The channel file system of a manifest can be constructed: when the channel names are absolute paths
  without empty components, the emulated names are distinct and none is the name of a manifest channel,
  the memory for the array is there and the names need fewer than 255 directories, no assertion of the
  constructors fails, the channels are those of the manifest followed by the emulated ones, each has the
  directory above it as its parent, and the state meets the invariant of all sessions.
\<close>

theorem channels_filesystem_constructed:
  assumes n: "0 < length zs + length es" "(length zs + length es) * 4 < 2 ^ 32"
    and mem: "mem ((length zs + length es) * 4)" "mem (BitsToAllocWords (length zs + length es) * 4)"
    and names: "distinct (map ch_name es)" "set (map ch_name zs) \<inter> set (map ch_name es) = {}"
    and paths: "\<forall>c \<in> set (zs @ es). chan_path (ch_name c)"
    and dirs: "length (create_dirs [] (map ch_name (zs @ es))) < DIRECTORIES_MAX_NUMBER"
    and s: "fd_wf None s" "\<forall>h. entry s h = None"
  shows "\<exists>s'. channels_filesystem_construct mem fresh s ref zs es = Some s' \<and> sys_wf s'
    \<and> map ci_channel (items (channels_array s')) = zs @ es
    \<and> (\<forall>it \<in> set (items (channels_array s')). has_parent (manifest_dirs s') it)"
proof -
  from channels_array_construct_items [OF n mem names] obtain arr where
    arr: "channels_array_construct mem fresh zs es = Some arr" "arr_ok arr"
      "items arr = map (\<lambda>(n, c). new_item fresh False n c) (enumerate 0 zs) @ map (\<lambda>(n, c). new_item fresh True n c) (enumerate (length zs) es)"
    by blast
  note ci = constructed_items [OF arr(3)]
  have nm: "map (\<lambda>it. ch_name (ci_channel it)) (items arr) = map ch_name (zs @ es)"
    unfolding ci(1) [symmetric] by simp
  have cp: "\<forall>it \<in> set (items arr). chan_path (ch_name (ci_channel it))"
  proof
    fix it assume "it \<in> set (items arr)"
    then have "ci_channel it \<in> set (zs @ es)" using ci(1) by (metis image_eqI list.set_map)
    with paths show "chan_path (ch_name (ci_channel it))" by blast
  qed
  define md where "md = process_channels_create_dir_list arr []"
  note fd = final_dirs [OF arr(2) cp dirs [folded nm] md_def]
  from assign_parents_ok [OF arr(2) _ _ fd(1), of "[0..<num_entries arr]"] obtain arr' where
    a: "assign_parents md arr [0..<num_entries arr] = Some arr'" "arr_ok arr'" "map static_item (items arr') = map static_item (items arr)"
      "\<forall>i < num_entries arr. has_parent md (items arr' ! i)" by auto
  let ?s = "s\<lparr>channels_array := arr', manifest_dirs := md, channels_ref := ref\<rparr>"
  note nb = numbered_construct [OF arr(2) a(2,3) ci(3) fd(2)]
  have "fd_wf None ?s" using s(1) fd_wf_cong [of ?s s None] by simp
  moreover have none: "\<forall>h. entry ?s h = None" using s(2) entry_slots [of ?s s] by simp
  ultimately have "sys_wf ?s" using nb(1) [where s = s and ref = ref] by (simp add: sys_wf_def chan_wf_def handles_known_def)
  moreover have "channels_filesystem_construct mem fresh s ref zs es = Some ?s"
    using arr(1) a(1) by (simp add: channels_filesystem_construct_def md_def channels_array_count_def Let_def)
  moreover have "num_entries arr' = num_entries arr" using a(3) by (metis length_items length_map)
  then have "\<forall>it \<in> set (items arr'). has_parent md it" using a(4) by (auto simp: in_set_conv_nth)
  ultimately show ?thesis using nb(2) ci(1) by auto
qed

end
