(* ===== verification/BitArrays.thy ===== *)
theory BitArrays
  imports ZrtPrelude
begin

text \<open>
  The bit array of the memory manager (\<open>lib/helpers/bitarray.c\<close>): one bit per page, set when the page is
  in use. The storage is the list of its bytes, longer than the \<open>array_size\<close> bytes that are searched; an
  access outside it is \<open>None\<close>.

  The search walks byte by byte, skipping full bytes, and returns the first run of clear bits of the
  length asked for; it is proved equal to the walk over single bits and to the least such run.
\<close>

record BitArray =
  array_size :: nat
  array :: "byte list"
  array_search_pos :: nat

definition bitarray_get_bit :: "BitArray \<Rightarrow> nat \<Rightarrow> bool option" where
  "bitarray_get_bit this index =
     (if index div 8 < length (array this) then Some (bit (array this ! (index div 8)) (index mod 8)) else None)"

definition bitarray_toggle_bit :: "BitArray \<Rightarrow> nat \<Rightarrow> BitArray option" where
  "bitarray_toggle_bit this index =
     (if index div 8 < length (array this) then
        (let this1 = this\<lparr>array := (array this)[index div 8 := array this ! (index div 8) XOR push_bit (index mod 8) 1]\<rparr>
         in Some (if bitarray_get_bit this1 index = Some False \<and> index < array_search_pos this1
                  then this1\<lparr>array_search_pos := index div 8\<rparr> else this1))
      else None)"

text \<open>The inner loop: from bit \<open>j\<close> of byte \<open>i\<close> with a run of \<open>search_seq_len\<close> clear bits behind it.\<close>

function search_byte :: "byte \<Rightarrow> nat \<Rightarrow> nat \<Rightarrow> nat \<Rightarrow> nat \<times> nat" where
  "search_byte b len j search_seq_len =
     (if j < 8 \<and> search_seq_len < len then
        (if \<not> bit b j then search_byte b len (Suc j) (Suc search_seq_len) else search_byte b len (Suc j) 0)
      else (j, search_seq_len))"
  by pat_completeness auto
termination
  by (relation "measure (\<lambda>(b, len, j, q). 8 - j)") auto

declare search_byte.simps [simp del]

text \<open>The outer loop; the value is the index found and the byte that becomes the search position.\<close>

function search_bytes :: "BitArray \<Rightarrow> nat \<Rightarrow> nat \<Rightarrow> nat \<Rightarrow> (nat \<times> nat) option" where
  "search_bytes this len i search_seq_len =
     (if i < array_size this then
        (if array this ! i \<noteq> 0xFF then
           (case search_byte (array this ! i) len 0 search_seq_len of
              (j, q) \<Rightarrow> if q = len then Some (i * 8 + j - len, i) else search_bytes this len (Suc i) q)
         else search_bytes this len (Suc i) 0)
      else None)"
  by pat_completeness auto
termination
  by (relation "measure (\<lambda>(this, len, i, q). array_size this - i)") auto

declare search_bytes.simps [simp del]

text \<open>\<open>begin_offset\<close> is not used by the source. \<open>None\<close>: the failed assertion on an empty sequence.\<close>

definition bitarray_search_emptybit_sequence_begin :: "BitArray \<Rightarrow> int \<Rightarrow> nat \<Rightarrow> (int \<times> BitArray) option" where
  "bitarray_search_emptybit_sequence_begin this begin_offset len_of_sequence =
     (if len_of_sequence = 0 then None
      else Some (case search_bytes this len_of_sequence 0 0 of
                   Some (k, i) \<Rightarrow> (int k, this\<lparr>array_search_pos := i\<rparr>)
                 | None \<Rightarrow> (-1, this)))"

definition bit_array_construct :: "byte list \<Rightarrow> nat \<Rightarrow> BitArray" where
  "bit_array_construct arr sz = \<lparr>array_size = sz, array = arr, array_search_pos = 0\<rparr>"

section \<open>The walk over single bits\<close>

definition ba_used :: "BitArray \<Rightarrow> nat \<Rightarrow> bool" where
  "ba_used this i = bit (array this ! (i div 8)) (i mod 8)"

function bit_walk :: "(nat \<Rightarrow> bool) \<Rightarrow> nat \<Rightarrow> nat \<Rightarrow> nat \<Rightarrow> nat \<Rightarrow> nat option" where
  "bit_walk u n len p q =
     (if p < n then
        (if u p then bit_walk u n len (Suc p) 0
         else if Suc q = len then Some (Suc p - len) else bit_walk u n len (Suc p) (Suc q))
      else None)"
  by pat_completeness auto
termination
  by (relation "measure (\<lambda>(u, n, len, p, q). n - p)") auto

declare bit_walk.simps [simp del]

lemma search_byte_walk:
  assumes "j \<le> 8" "q < len" "i < n" "\<And>j. j < 8 \<Longrightarrow> u (i * 8 + j) = bit b j"
    and "search_byte b len j q = (j', q')"
  shows "(q' = len \<longrightarrow> bit_walk u (8 * n) len (i * 8 + j) q = Some (i * 8 + j' - len))
     \<and> (q' \<noteq> len \<longrightarrow> q' < len \<and> bit_walk u (8 * n) len (i * 8 + j) q = bit_walk u (8 * n) len (8 + i * 8) q')"
  using assms
proof (induction b len j q rule: search_byte.induct)
  case (1 b len j q)
  show ?case
  proof (cases "j < 8")
    case False
    then have "search_byte b len j q = (j, q)" by (simp add: search_byte.simps)
    with "1.prems" False show ?thesis by (auto simp: add.commute)
  next
    case True
    let ?w = "bit_walk u (8 * n) len"
    have p: "i * 8 + j < 8 * n" using "1.prems"(3) True by simp
    have u: "u (i * 8 + j) = bit b j" by (rule "1.prems"(4) [OF True])
    show ?thesis
    proof (cases "bit b j")
      case b: True
      have "search_byte b len (Suc j) 0 = (j', q')"
        using "1.prems"(2,5) True b by (simp add: search_byte.simps [of b len j q])
      with "1.IH"(2) [OF _ _ _ _ "1.prems"(3,4)] True b "1.prems"(2)
      have "(q' = len \<longrightarrow> ?w (Suc (i * 8 + j)) 0 = Some (i * 8 + j' - len))
         \<and> (q' \<noteq> len \<longrightarrow> q' < len \<and> ?w (Suc (i * 8 + j)) 0 = ?w (8 + i * 8) q')" by simp
      then show ?thesis using p u b by (simp add: bit_walk.simps [of u "8 * n" len "i * 8 + j" q])
    next
      case b: False
      have s: "search_byte b len (Suc j) (Suc q) = (j', q')"
        using "1.prems"(2,5) True b by (simp add: search_byte.simps [of b len j q])
      show ?thesis
      proof (cases "Suc q = len")
        case True
        then have "search_byte b len (Suc j) (Suc q) = (Suc j, len)" by (subst search_byte.simps) simp
        with s have "j' = Suc j" "q' = len" by simp_all
        then show ?thesis using p u b True by (simp add: bit_walk.simps [of u "8 * n" len "i * 8 + j" q])
      next
        case False
        with "1.IH"(1) [OF _ _ _ _ "1.prems"(3,4) s] \<open>j < 8\<close> b "1.prems"(2)
        have "(q' = len \<longrightarrow> ?w (Suc (i * 8 + j)) (Suc q) = Some (i * 8 + j' - len))
         \<and> (q' \<noteq> len \<longrightarrow> q' < len \<and> ?w (Suc (i * 8 + j)) (Suc q) = ?w (8 + i * 8) q')" by simp
        then show ?thesis using p u b False by (simp add: bit_walk.simps [of u "8 * n" len "i * 8 + j" q])
      qed
    qed
  qed
qed

lemma search_bytes_walk:
  assumes "q < len" "array_size this \<le> length (array this)" "i \<le> array_size this"
  shows "map_option fst (search_bytes this len i q) = bit_walk (ba_used this) (8 * array_size this) len (i * 8) q"
  using assms
proof (induction this len i q rule: search_bytes.induct)
  case (1 this len i q)
  let ?w = "bit_walk (ba_used this) (8 * array_size this) len" and ?b = "array this ! i"
  show ?case
  proof (cases "i < array_size this")
    case False
    then show ?thesis by (simp add: search_bytes.simps [of this len i q] bit_walk.simps)
  next
    case True
    have u: "ba_used this (i * 8 + j) = bit ?b j" if "j < 8" for j
      using that by (simp add: ba_used_def)
    obtain j' q' where s: "search_byte ?b len 0 q = (j', q')" by fastforce
    from search_byte_walk [OF _ "1.prems"(1) True u s]
    have w: "(q' = len \<longrightarrow> ?w (i * 8) q = Some (i * 8 + j' - len)) \<and> (q' \<noteq> len \<longrightarrow> q' < len \<and> ?w (i * 8) q = ?w (8 + i * 8) q')"
      by simp
    show ?thesis
    proof (cases "?b = 0xFF")
      case False
      show ?thesis
        using True False s w "1.IH"(1) [OF True False s [symmetric]] "1.prems"
        by (simp add: search_bytes.simps [of this len i q] split: if_splits)
    next
      case ff: True
      have bits: "bit ?b j" if "j < 8" for j using that unfolding ff
        by (simp add: bit_numeral_rec(2)) (auto simp: less_Suc_eq numeral_eq_Suc)
      have skip: "?w (i * 8 + j) r = ?w (8 + i * 8) 0" if "j < 8" for j r
        using that
      proof (induction "8 - j" arbitrary: j r)
        case (Suc x)
        have step: "?w (i * 8 + j) r = ?w (i * 8 + Suc j) 0"
          using True Suc.prems u [of j] bits [of j] by (simp add: bit_walk.simps [of _ _ _ "i * 8 + j" r])
        show ?case
        proof (cases "Suc j = 8")
          case True
          then show ?thesis using step by (simp add: add.commute)
        next
          case False
          have "?w (i * 8 + Suc j) 0 = ?w (8 + i * 8) 0" by (rule Suc.hyps(1)) (use Suc.hyps(2) Suc.prems False in simp_all)
          with step show ?thesis by simp
        qed
      qed simp
      then have "?w (i * 8) q = ?w (8 + i * 8) 0" using skip [of 0 q] by simp
      with True ff "1.IH"(2) "1.prems" show ?thesis by (simp add: search_bytes.simps [of this len i q])
    qed
  qed
qed

text \<open>A run of clear bits.\<close>

definition clear_run :: "(nat \<Rightarrow> bool) \<Rightarrow> nat \<Rightarrow> nat \<Rightarrow> nat \<Rightarrow> bool" where
  "clear_run u n len k \<longleftrightarrow> k + len \<le> n \<and> (\<forall>i. k \<le> i \<longrightarrow> i < k + len \<longrightarrow> \<not> u i)"

lemma bit_walk_least:
  assumes "q < len" "q \<le> p" "\<forall>i. p - q \<le> i \<longrightarrow> i < p \<longrightarrow> \<not> u i" "q = p \<or> u (p - q - 1)"
    and "\<And>k. clear_run u n len k \<Longrightarrow> p < k + len"
  shows "(case bit_walk u n len p q of None \<Rightarrow> \<forall>k. \<not> clear_run u n len k
     | Some k \<Rightarrow> clear_run u n len k \<and> (\<forall>k'. clear_run u n len k' \<longrightarrow> k \<le> k'))"
  using assms
proof (induction u n len p q rule: bit_walk.induct)
  case (1 u n len p q)
  show ?case
  proof (cases "p < n")
    case False
    then have "\<not> clear_run u n len k" for k using "1.prems"(5) [of k] by (auto simp: clear_run_def)
    with False show ?thesis by (simp add: bit_walk.simps)
  next
    case p: True
    show ?thesis
    proof (cases "u p")
      case True
      have "Suc p < k + len" if "clear_run u n len k" for k
      proof -
        have "p < k + len" by (rule "1.prems"(5) [OF that])
        with that True have "p < k" by (auto simp: clear_run_def not_le [symmetric])
        then show ?thesis using "1.prems"(1) by simp
      qed
      then show ?thesis using "1.IH"(1) [OF p True] "1.prems"(1) p True by (simp add: bit_walk.simps [of u n len p q])
    next
      case free: False
      have starts: "p - q \<le> k" if "clear_run u n len k" for k
      proof (rule ccontr)
        assume "\<not> p - q \<le> k"
        then have "u (p - q - 1)" "k \<le> p - q - 1" "p - q - 1 < p" using "1.prems"(4) by auto
        with that "1.prems"(5) [OF that] show False by (auto simp: clear_run_def)
      qed
      show ?thesis
      proof (cases "Suc q = len")
        case True
        have "clear_run u n len (Suc p - len)"
          unfolding clear_run_def
        proof (intro conjI allI impI)
          show "Suc p - len + len \<le> n" using True p "1.prems"(2) by simp
          fix i assume "Suc p - len \<le> i" "i < Suc p - len + len"
          then have "i = p \<or> p - q \<le> i \<and> i < p" using True "1.prems"(2) by auto
          then show "\<not> u i" using free "1.prems"(3) by auto
        qed
        moreover have "Suc p - len = p - q" using True by auto
        ultimately show ?thesis using p free True starts by (simp add: bit_walk.simps [of u n len p q])
      next
        case False
        have "Suc p < k + len" if "clear_run u n len k" for k
          using starts [OF that] "1.prems"(1,2) False by linarith
        moreover have "\<forall>i. Suc p - Suc q \<le> i \<longrightarrow> i < Suc p \<longrightarrow> \<not> u i" using "1.prems"(3) free by (auto simp: less_Suc_eq)
        moreover have "Suc q = Suc p \<or> u (Suc p - Suc q - 1)" using "1.prems"(4) by auto
        ultimately show ?thesis
          using "1.IH"(2) [OF p free False] "1.prems"(1,2) False p free by (simp add: bit_walk.simps [of u n len p q])
      qed
    qed
  qed
qed

lemma search_first_fit:
  assumes "0 < len" "array_size this \<le> length (array this)"
  shows "\<exists>r this'. bitarray_search_emptybit_sequence_begin this off len = Some (r, this')
    \<and> array this' = array this \<and> array_size this' = array_size this
    \<and> (r = -1 \<and> (\<forall>k. \<not> clear_run (ba_used this) (8 * array_size this) len k)
       \<or> 0 \<le> r \<and> clear_run (ba_used this) (8 * array_size this) len (nat r)
          \<and> (\<forall>k. clear_run (ba_used this) (8 * array_size this) len k \<longrightarrow> nat r \<le> k))"
proof -
  have w: "map_option fst (search_bytes this len 0 0) = bit_walk (ba_used this) (8 * array_size this) len 0 0"
    using search_bytes_walk [of 0 len this 0] assms by simp
  have "case bit_walk (ba_used this) (8 * array_size this) len 0 0 of
      None \<Rightarrow> \<forall>k. \<not> clear_run (ba_used this) (8 * array_size this) len k
    | Some k \<Rightarrow> clear_run (ba_used this) (8 * array_size this) len k \<and> (\<forall>k'. clear_run (ba_used this) (8 * array_size this) len k' \<longrightarrow> k \<le> k')"
    by (rule bit_walk_least) (use assms in auto)
  then show ?thesis
    using assms(1) w
    by (cases "search_bytes this len 0 0")
       (auto simp: bitarray_search_emptybit_sequence_begin_def split: option.splits)
qed

text \<open>
  (C12) The page search returns the least index at which \<open>len\<close> consecutive bits of the array are clear, and
  \<open>-1\<close> exactly when there is no such run; it changes nothing but the search position. An empty sequence
  fails the assertion.
\<close>

theorem bitarray_search_least:
  assumes "0 < len" "array_size this \<le> length (array this)"
  shows "\<exists>r this'. bitarray_search_emptybit_sequence_begin this off len = Some (r, this')
    \<and> array this' = array this \<and> array_size this' = array_size this
    \<and> (r = -1 \<and> (\<forall>k. \<not> clear_run (ba_used this) (8 * array_size this) len k)
       \<or> 0 \<le> r \<and> clear_run (ba_used this) (8 * array_size this) len (nat r)
          \<and> (\<forall>k. clear_run (ba_used this) (8 * array_size this) len k \<longrightarrow> nat r \<le> k))"
  by (rule search_first_fit [OF assms])

end
