(* ===== verification/MemoryManager.thy ===== *)
theory MemoryManager
  imports BitArrays
begin

text \<open>
  The memory manager (\<open>lib/memory/memory_syscall_handlers.c\<close>): \<open>brk\<close> grows from the start of the heap,
  \<open>mmap\<close> hands out pages of 64 KB from its end, a bit per page in a bit array. Addresses are unbounded integers: a heap
  whose end lies above 4 GB, where the address arithmetic of 32 bits would wrap around, is not distinguished.
  \<open>size_t\<close> is 32 bits wide: the sum in \<open>ROUND_UP\<close> of a length wraps around. The bit array is held in
  the manager, as the storage it points to is. A failed assertion is \<open>None\<close>.

  A file mapping calls \<open>fstat\<close>, \<open>lseek\<close> and \<open>read\<close>: arguments of the model (\<open>file_env\<close>), with the
  world they act on.
\<close>

abbreviation (input) PAGE_SIZE :: nat where "PAGE_SIZE \<equiv> 65536"
abbreviation (input) MAX_MMAP_PAGES_COUNT :: nat where "MAX_MMAP_PAGES_COUNT \<equiv> 65536"
abbreviation (input) PROT_READ :: flags_t where "PROT_READ \<equiv> 1"
abbreviation (input) PROT_WRITE :: flags_t where "PROT_WRITE \<equiv> 2"
abbreviation (input) MAP_ANONYMOUS :: flags_t where "MAP_ANONYMOUS \<equiv> 0x20"
abbreviation (input) MAP_FAILED :: int where "MAP_FAILED \<equiv> -1"

record MemoryManager =
  heap_start_ptr :: int
  heap_brk :: int
  heap_size :: int
  heap_lowest_mmap_addr :: int
  bitarray :: BitArray
  mm_errno :: int

record 'w file_env =
  fe_fstat :: "int \<Rightarrow> 'w \<Rightarrow> (off_t option \<times> int) \<times> 'w" \<comment> \<open>\<open>st_size\<close>, or \<open>None\<close> on failure; and \<open>errno\<close> after it\<close>
  fe_lseek :: "int \<Rightarrow> off_t \<Rightarrow> int \<Rightarrow> 'w \<Rightarrow> off_t \<times> 'w"
  fe_read :: "int \<Rightarrow> int \<Rightarrow> int \<Rightarrow> 'w \<Rightarrow> int \<times> 'w" \<comment> \<open>descriptor, address, length\<close>

definition HEAP_MAX_ADDR :: "MemoryManager \<Rightarrow> int" where
  "HEAP_MAX_ADDR m = heap_start_ptr m + heap_size m"

definition MMAP_REGION_SIZE_ALIGNED :: "MemoryManager \<Rightarrow> int" where
  "MMAP_REGION_SIZE_ALIGNED m = int (ROUND_UP (nat (heap_size m - (heap_brk m - heap_start_ptr m))) PAGE_SIZE)"

definition MMAP_LOWEST_PAGE_ADDR :: "MemoryManager \<Rightarrow> int" where
  "MMAP_LOWEST_PAGE_ADDR m = HEAP_MAX_ADDR m - MMAP_REGION_SIZE_ALIGNED m"

definition MMAP_HIGHEST_PAGE_ADDR :: "MemoryManager \<Rightarrow> int" where
  "MMAP_HIGHEST_PAGE_ADDR m = HEAP_MAX_ADDR m - int PAGE_SIZE"

definition MEMORY_PAGE_FROM_INDEX :: "MemoryManager \<Rightarrow> int \<Rightarrow> int" where
  "MEMORY_PAGE_FROM_INDEX m index = MMAP_HIGHEST_PAGE_ADDR m - index * int PAGE_SIZE"

text \<open>\<open>ROUND_UP(len,PAGE_SIZE)/PAGE_SIZE\<close> on \<open>size_t\<close>.\<close>

definition pages_of :: "nat \<Rightarrow> nat" where
  "pages_of len = ((len + PAGE_SIZE - 1) mod 2 ^ 32) div PAGE_SIZE"

fun toggle_bits :: "BitArray \<Rightarrow> nat list \<Rightarrow> BitArray option" where
  "toggle_bits ba [] = Some ba"
| "toggle_bits ba (i # is) = Option.bind (bitarray_toggle_bit ba i) (\<lambda>ba'. toggle_bits ba' is)"

definition alloc_memory_pseudo_mmap :: "MemoryManager \<Rightarrow> nat \<Rightarrow> (int \<times> MemoryManager) option" where
  "alloc_memory_pseudo_mmap m memsize =
     (let map_pages_requested = pages_of memsize
      in do {
        (mmap_index, ba) \<leftarrow> bitarray_search_emptybit_sequence_begin (bitarray m) 0 map_pages_requested;
        (let m1 = m\<lparr>bitarray := ba\<rparr>;
             mmap_low_page_index = mmap_index + int map_pages_requested - 1;
             high_page_memory_addr = MEMORY_PAGE_FROM_INDEX m1 mmap_index;
             low_page_memory_addr = MEMORY_PAGE_FROM_INDEX m1 mmap_low_page_index
         in if mmap_index \<noteq> -1 then
              (if heap_brk m1 \<le> low_page_memory_addr \<and> high_page_memory_addr \<le> MEMORY_PAGE_FROM_INDEX m1 mmap_index then
                 (if heap_brk m1 \<le> low_page_memory_addr \<and> low_page_memory_addr \<le> high_page_memory_addr then do {
                    ba' \<leftarrow> toggle_bits ba [nat mmap_index..<nat mmap_index + map_pages_requested];
                    Some (low_page_memory_addr, m1\<lparr>bitarray := ba'\<rparr>) }
                  else None)
               else Some (0, m1))
            else Some (0, m1)) })"

definition bit_mask_after_hi :: "32 word \<Rightarrow> 32 word" where
  "bit_mask_after_hi x0 =
     (let x1 = x0 OR drop_bit 1 x0;
          x2 = x1 OR drop_bit 2 x1;
          x3 = x2 OR drop_bit 4 x2;
          x4 = x3 OR drop_bit 8 x3
      in x4 OR drop_bit 16 x4)"

definition roundup_pow2 :: "32 word \<Rightarrow> 32 word" where
  "roundup_pow2 value = bit_mask_after_hi (value - 1) + 1"

text \<open>
  \<open>SELF_CHECK\<close> asserts five values of \<open>roundup_pow2\<close>, the page size of the system (taken to be
  \<open>PAGE_SIZE\<close>), and that the end of the heap is aligned. \<open>chunks\<close> is the static storage of the bits.
\<close>

definition SELF_CHECK :: "int \<Rightarrow> int \<Rightarrow> bool" where
  "SELF_CHECK heap_ptr hsize =
     (roundup_pow2 0 = 0 \<and> roundup_pow2 4 = 4 \<and> roundup_pow2 63 = 64 \<and> roundup_pow2 66 = 128
      \<and> roundup_pow2 536860612 = 536870912
      \<and> nat (heap_ptr + hsize) = ROUND_UP (nat (heap_ptr + hsize)) PAGE_SIZE)"

definition memory_init :: "MemoryManager \<Rightarrow> byte list \<Rightarrow> int \<Rightarrow> int \<Rightarrow> int \<Rightarrow> MemoryManager option" where
  "memory_init m chunks heap_ptr hsize brk =
     (let m1 = m\<lparr>heap_start_ptr := heap_ptr, heap_size := hsize, heap_brk := brk\<rparr>;
          m2 = m1\<lparr>heap_lowest_mmap_addr := MMAP_HIGHEST_PAGE_ADDR m1\<rparr>;
          mmap_pages_count = nat (MMAP_REGION_SIZE_ALIGNED m2) div PAGE_SIZE;
          bit_array_size = mmap_pages_count div 8 + (if 0 < mmap_pages_count mod 8 then 1 else 0)
      in if SELF_CHECK heap_ptr hsize then Some (m2\<lparr>bitarray := bit_array_construct chunks bit_array_size\<rparr>) else None)"

definition memory_sysbrk :: "MemoryManager \<Rightarrow> int \<Rightarrow> int \<times> MemoryManager" where
  "memory_sysbrk m addr =
     (if addr < heap_start_ptr m then (heap_brk m, m\<lparr>mm_errno := 0\<rparr>)
      else if addr < heap_lowest_mmap_addr m then (addr, m\<lparr>mm_errno := 0, heap_brk := addr\<rparr>)
      else (-1, m\<lparr>mm_errno := ENOMEM\<rparr>))"

text \<open>The end of \<open>memory_mmap\<close>, common to its branches.\<close>

definition mmap_finish :: "MemoryManager \<Rightarrow> int \<Rightarrow> int \<Rightarrow> int \<times> MemoryManager" where
  "mmap_finish m errcode alloc_addr =
     (if errcode = 0 then
        (alloc_addr, if alloc_addr < heap_lowest_mmap_addr m then m\<lparr>heap_lowest_mmap_addr := alloc_addr\<rparr> else m)
      else (MAP_FAILED, m\<lparr>mm_errno := errcode\<rparr>))"

definition memory_mmap :: "'w file_env \<Rightarrow> MemoryManager \<Rightarrow> 'w \<Rightarrow> int \<Rightarrow> nat \<Rightarrow> flags_t \<Rightarrow> flags_t \<Rightarrow> int \<Rightarrow> off_t
    \<Rightarrow> (int \<times> MemoryManager \<times> 'w) option" where
  "memory_mmap env m w addr len prot flags fd offset =
     (if CHECK_FLAG prot PROT_READ \<and> 0 < fd then
        (case fe_fstat env fd w of
           ((Some st_size, e), w1) \<Rightarrow> do {
             (let m1 = m\<lparr>mm_errno := e\<rparr>;
                  wanted_mem_block_size = (if st_size = 0 then int PAGE_SIZE else st_size)
              in do {
                (alloc_addr, m2) \<leftarrow> alloc_memory_pseudo_mmap m1 (nat (wanted_mem_block_size mod 2 ^ 32));
                (if alloc_addr \<noteq> 0 then
                   (let (cur, w2) = fe_lseek env fd 0 SEEK_CUR w1
                    in if cur = -1 then None
                       else let (cur', w3) = (if cur \<noteq> offset then fe_lseek env fd offset SEEK_SET w2 else (cur, w2))
                            in if cur' = -1 then None
                               else let mmap_data_len = s32 (st_size - offset);
                                        (copied, w4) = fe_read env fd (alloc_addr + offset) mmap_data_len w3
                                    in if copied \<noteq> mmap_data_len then None
                                       else let (r, m3) = mmap_finish m2 0 alloc_addr in Some (r, m3, w4))
                 else let (r, m3) = mmap_finish m2 (mm_errno m2) alloc_addr in Some (r, m3, w1)) }) }
         | ((None, e), w1) \<Rightarrow> (let (r, m3) = mmap_finish (m\<lparr>mm_errno := e\<rparr>) EBADF 0 in Some (r, m3, w1)))
      else if CHECK_FLAG prot (PROT_READ OR PROT_WRITE) \<and> CHECK_FLAG flags MAP_ANONYMOUS \<and> 0 < len then do {
        (alloc_addr, m2) \<leftarrow> alloc_memory_pseudo_mmap m len;
        (let (r, m3) = mmap_finish m2 (if alloc_addr \<noteq> 0 then 0 else ENOMEM) alloc_addr in Some (r, m3, w)) }
      else (let (r, m3) = mmap_finish m ENOSYS 0 in Some (r, m3, w)))"

text \<open>The loop of \<open>memory_munmap\<close>: it clears the bits that are set.\<close>

fun clear_bits :: "BitArray \<Rightarrow> nat list \<Rightarrow> BitArray option" where
  "clear_bits ba [] = Some ba"
| "clear_bits ba (i # is) = do {
     b \<leftarrow> bitarray_get_bit ba i;
     ba' \<leftarrow> (if b then bitarray_toggle_bit ba i else Some ba);
     clear_bits ba' is }"

definition memory_munmap :: "MemoryManager \<Rightarrow> int \<Rightarrow> nat \<Rightarrow> (int \<times> MemoryManager) option" where
  "memory_munmap m addr len =
     (let m1 = m\<lparr>mm_errno := 0\<rparr>
      in if MMAP_LOWEST_PAGE_ADDR m1 \<le> addr \<and> addr \<le> MMAP_HIGHEST_PAGE_ADDR m1 then
           (let munmap_begin_chunk_index = nat ((MMAP_HIGHEST_PAGE_ADDR m1 - addr) div int PAGE_SIZE);
                munmap_chunks_count = pages_of len
            in do {
              ba \<leftarrow> clear_bits (bitarray m1) [munmap_begin_chunk_index..<munmap_begin_chunk_index + munmap_chunks_count];
              Some (0, m1\<lparr>bitarray := ba\<rparr>) })
         else Some (0, m1))"

definition memory_get_phys_pages :: "MemoryManager \<Rightarrow> int" where
  "memory_get_phys_pages m =
     cdiv (MMAP_HIGHEST_PAGE_ADDR m - int (ROUND_UP (nat (heap_start_ptr m)) PAGE_SIZE)) (int PAGE_SIZE) + 1"

definition memory_get_avphys_pages :: "MemoryManager \<Rightarrow> int option" where
  "memory_get_avphys_pages m =
     (let all_map_pages_count = cdiv (MMAP_HIGHEST_PAGE_ADDR m - MMAP_LOWEST_PAGE_ADDR m) (int PAGE_SIZE) + 1;
          bits = map (bitarray_get_bit (bitarray m)) [0..<nat all_map_pages_count]
      in if None \<in> set bits then None else Some (int (length (filter (\<lambda>b. b = Some False) bits))))"

section \<open>Bits\<close>

lemma toggle_bit_used:
  assumes "bitarray_toggle_bit ba i = Some ba'"
  shows "ba_used ba' = (ba_used ba)(i := \<not> ba_used ba i)" "length (array ba') = length (array ba)" "array_size ba' = array_size ba"
proof -
  from assms have i: "i div 8 < length (array ba)" by (auto simp: bitarray_toggle_bit_def split: if_splits)
  have arr: "array ba' = (array ba)[i div 8 := array ba ! (i div 8) XOR push_bit (i mod 8) 1]"
    using assms i by (auto simp: bitarray_toggle_bit_def Let_def split: if_splits)
  show "length (array ba') = length (array ba)" by (simp add: arr)
  show "array_size ba' = array_size ba" using assms i by (auto simp: bitarray_toggle_bit_def Let_def split: if_splits)
  show "ba_used ba' = (ba_used ba)(i := \<not> ba_used ba i)"
  proof
    fix j
    have eq: "j = i \<longleftrightarrow> j div 8 = i div 8 \<and> j mod 8 = i mod 8" by (metis div_mult_mod_eq)
    have lt: "j mod 8 < 8" by simp
    show "ba_used ba' j = ((ba_used ba)(i := \<not> ba_used ba i)) j"
    proof (cases "j div 8 = i div 8")
      case True
      then show ?thesis using eq i lt
        by (cases "j mod 8 = i mod 8") (auto simp: ba_used_def arr bit_simps)
    next
      case False
      then show ?thesis using eq by (auto simp: ba_used_def arr)
    qed
  qed
qed

lemma toggle_bit_defined: "i div 8 < length (array ba) \<Longrightarrow> \<exists>ba'. bitarray_toggle_bit ba i = Some ba'"
  by (simp add: bitarray_toggle_bit_def Let_def)

lemma toggle_bits_used:
  assumes "distinct is" "\<forall>i \<in> set is. i div 8 < length (array ba)"
  shows "\<exists>ba'. toggle_bits ba is = Some ba' \<and> ba_used ba' = (\<lambda>j. if j \<in> set is then \<not> ba_used ba j else ba_used ba j)
    \<and> length (array ba') = length (array ba) \<and> array_size ba' = array_size ba"
  using assms
proof (induction "is" arbitrary: ba)
  case (Cons i "is")
  then obtain b1 where b1: "bitarray_toggle_bit ba i = Some b1" using toggle_bit_defined by fastforce
  note u = toggle_bit_used [OF b1]
  from Cons.IH [of b1] Cons.prems u obtain ba' where
    "toggle_bits b1 is = Some ba'" "ba_used ba' = (\<lambda>j. if j \<in> set is then \<not> ba_used b1 j else ba_used b1 j)"
    "length (array ba') = length (array b1)" "array_size ba' = array_size b1" by auto
  with b1 u Cons.prems(1) show ?case by (auto simp: fun_eq_iff)
qed simp

lemma clear_bits_used:
  assumes "\<forall>i \<in> set is. i div 8 < length (array ba)"
  shows "\<exists>ba'. clear_bits ba is = Some ba' \<and> ba_used ba' = (\<lambda>j. if j \<in> set is then False else ba_used ba j)
    \<and> length (array ba') = length (array ba) \<and> array_size ba' = array_size ba"
  using assms
proof (induction "is" arbitrary: ba)
  case (Cons i "is")
  then have g: "bitarray_get_bit ba i = Some (ba_used ba i)" by (simp add: bitarray_get_bit_def ba_used_def)
  obtain b1 where b1: "(if ba_used ba i then bitarray_toggle_bit ba i else Some ba) = Some b1"
    using toggle_bit_defined [of i ba] Cons.prems by (cases "ba_used ba i") auto
  have u: "ba_used b1 = (ba_used ba)(i := False)" "length (array b1) = length (array ba)" "array_size b1 = array_size ba"
    using b1 toggle_bit_used [of ba i b1] by (auto split: if_splits simp: fun_eq_iff)
  from Cons.IH [of b1] Cons.prems u obtain ba' where
    "clear_bits b1 is = Some ba'" "ba_used ba' = (\<lambda>j. if j \<in> set is then False else ba_used b1 j)"
    "length (array ba') = length (array b1)" "array_size ba' = array_size b1" by auto
  with g b1 u show ?case by (auto simp: fun_eq_iff)
qed simp

section \<open>The invariant\<close>

abbreviation page_addr :: "MemoryManager \<Rightarrow> nat \<Rightarrow> int" where
  "page_addr m i \<equiv> MEMORY_PAGE_FROM_INDEX m (int i)"

abbreviation page_used :: "MemoryManager \<Rightarrow> nat \<Rightarrow> bool" where
  "page_used m i \<equiv> ba_used (bitarray m) i"

definition mm_wf :: "MemoryManager \<Rightarrow> bool" where
  "mm_wf m \<longleftrightarrow> length (array (bitarray m)) = MAX_MMAP_PAGES_COUNT div 8 \<and> array_size (bitarray m) \<le> MAX_MMAP_PAGES_COUNT div 8
     \<and> 0 < heap_brk m \<and> heap_brk m \<le> heap_lowest_mmap_addr m \<and> heap_lowest_mmap_addr m \<le> MMAP_HIGHEST_PAGE_ADDR m
     \<and> int PAGE_SIZE dvd HEAP_MAX_ADDR m
     \<and> (\<forall>i < MAX_MMAP_PAGES_COUNT. page_used m i \<longrightarrow> i < 8 * array_size (bitarray m) \<and> heap_lowest_mmap_addr m \<le> page_addr m i)"

lemma page_addr_simps:
  "page_addr m i = HEAP_MAX_ADDR m - int PAGE_SIZE * (int i + 1)"
  by (simp add: MEMORY_PAGE_FROM_INDEX_def MMAP_HIGHEST_PAGE_ADDR_def)

lemma page_addr_aligned: "int PAGE_SIZE dvd HEAP_MAX_ADDR m \<Longrightarrow> int PAGE_SIZE dvd page_addr m i"
  by (simp add: page_addr_simps)

text \<open>A block of \<open>n\<close> free pages above the break, with \<open>k\<close> the index of its highest page.\<close>

definition free_block :: "MemoryManager \<Rightarrow> nat \<Rightarrow> nat \<Rightarrow> bool" where
  "free_block m n k \<longleftrightarrow> clear_run (ba_used (bitarray m)) (8 * array_size (bitarray m)) n k \<and> heap_brk m \<le> page_addr m (k + n - 1)"

lemma alloc_pages:
  assumes wf: "mm_wf m" and n: "n = pages_of memsize" "0 < n"
  shows "\<exists>addr m'. alloc_memory_pseudo_mmap m memsize = Some (addr, m')
    \<and> m' = m\<lparr>bitarray := bitarray m'\<rparr> \<and> length (array (bitarray m')) = length (array (bitarray m))
    \<and> array_size (bitarray m') = array_size (bitarray m)
    \<and> (if addr = 0 then page_used m' = page_used m \<and> (\<forall>k. \<not> free_block m n k)
       else \<exists>k. free_block m n k \<and> addr = page_addr m (k + n - 1)
          \<and> page_used m' = (\<lambda>j. j \<in> {k..<k + n} \<or> page_used m j))"
proof -
  have sz: "array_size (bitarray m) \<le> length (array (bitarray m))" using wf by (simp add: mm_wf_def)
  from search_first_fit [OF n(2) sz, of 0] obtain r ba where
    s: "bitarray_search_emptybit_sequence_begin (bitarray m) 0 n = Some (r, ba)"
      "array ba = array (bitarray m)" "array_size ba = array_size (bitarray m)"
    and r: "r = -1 \<and> (\<forall>k. \<not> clear_run (ba_used (bitarray m)) (8 * array_size (bitarray m)) n k)
       \<or> 0 \<le> r \<and> clear_run (ba_used (bitarray m)) (8 * array_size (bitarray m)) n (nat r)
          \<and> (\<forall>k. clear_run (ba_used (bitarray m)) (8 * array_size (bitarray m)) n k \<longrightarrow> nat r \<le> k)" by blast
  let ?m1 = "m\<lparr>bitarray := ba\<rparr>"
  have pa: "MEMORY_PAGE_FROM_INDEX ?m1 = MEMORY_PAGE_FROM_INDEX m" "ba_used ba = ba_used (bitarray m)"
    using s(2) by (auto simp: fun_eq_iff MEMORY_PAGE_FROM_INDEX_def MMAP_HIGHEST_PAGE_ADDR_def HEAP_MAX_ADDR_def ba_used_def)
  show ?thesis
  proof (cases "r = -1")
    case True
    with r have "\<forall>k. \<not> free_block m n k" by (auto simp: free_block_def)
    with True s pa show ?thesis by (simp add: alloc_memory_pseudo_mmap_def n(1) [symmetric] Let_def)
  next
    case False
    with r have r0: "0 \<le> r" and run: "clear_run (ba_used (bitarray m)) (8 * array_size (bitarray m)) n (nat r)"
      and least: "\<And>k. clear_run (ba_used (bitarray m)) (8 * array_size (bitarray m)) n k \<Longrightarrow> nat r \<le> k" by auto
    have low: "MEMORY_PAGE_FROM_INDEX m (r + int n - 1) = page_addr m (nat r + n - 1)" using r0 n(2) by (simp add: of_nat_diff)
    show ?thesis
    proof (cases "heap_brk m \<le> page_addr m (nat r + n - 1)")
      case False
      have "\<not> free_block m n k" for k
        using least [of k] False by (auto simp: free_block_def page_addr_simps)
      with \<open>r \<noteq> -1\<close> False s pa low show ?thesis by (simp add: alloc_memory_pseudo_mmap_def n(1) [symmetric] Let_def)
    next
      case True
      have "\<forall>i \<in> set [nat r..<nat r + n]. i div 8 < length (array ba)"
      proof
        fix i assume "i \<in> set [nat r..<nat r + n]"
        then have "i < 8 * array_size (bitarray m)" using run by (auto simp: clear_run_def)
        then show "i div 8 < length (array ba)" using sz s(2) by (simp add: less_mult_imp_div_less mult.commute)
      qed
      from toggle_bits_used [OF distinct_upt this] obtain ba' where
        ba': "toggle_bits ba [nat r..<nat r + n] = Some ba'"
        "ba_used ba' = (\<lambda>j. if j \<in> {nat r..<nat r + n} then \<not> ba_used ba j else ba_used ba j)"
        "length (array ba') = length (array ba)" "array_size ba' = array_size ba" by auto
      have u: "ba_used ba' = (\<lambda>j. j \<in> {nat r..<nat r + n} \<or> page_used m j)"
        using ba'(2) run pa by (auto simp: fun_eq_iff clear_run_def)
      have hi: "page_addr m (nat r + n - 1) \<le> MEMORY_PAGE_FROM_INDEX m r"
        using r0 n(2) by (simp add: page_addr_simps MEMORY_PAGE_FROM_INDEX_def MMAP_HIGHEST_PAGE_ADDR_def of_nat_diff)
      have "alloc_memory_pseudo_mmap m memsize = Some (page_addr m (nat r + n - 1), ?m1\<lparr>bitarray := ba'\<rparr>)"
        using \<open>r \<noteq> -1\<close> True s pa low hi ba'(1) by (simp add: alloc_memory_pseudo_mmap_def n(1) [symmetric] Let_def)
      moreover have "free_block m n (nat r)" using run True by (simp add: free_block_def)
      moreover have "page_addr m (nat r + n - 1) \<noteq> 0" using True wf by (auto simp: mm_wf_def)
      ultimately show ?thesis using u ba'(3,4) s(2,3) by auto
    qed
  qed
qed

section \<open>Operations under the invariant\<close>

lemma mm_wf_D:
  assumes "mm_wf m" "i < MAX_MMAP_PAGES_COUNT" "page_used m i"
  shows "heap_brk m \<le> page_addr m i"
  using assms by (auto simp: mm_wf_def)

lemma pages_of_small: "len \<le> 2 ^ 32 - PAGE_SIZE \<Longrightarrow> pages_of len = ROUND_UP len PAGE_SIZE div PAGE_SIZE"
  by (simp add: pages_of_def ROUND_UP_def)

lemma pages_of_pos: "0 < len \<Longrightarrow> len \<le> 2 ^ 32 - PAGE_SIZE \<Longrightarrow> 0 < pages_of len"
  by (simp add: pages_of_def div_greater_zero_iff)

text \<open>Where a block lies: below the end of the heap, on a page boundary.\<close>

lemma free_block_place:
  assumes "free_block m n k" "0 < n"
  shows "page_addr m (k + n - 1) + int (n * PAGE_SIZE) \<le> HEAP_MAX_ADDR m"
    and "j \<in> {k..<k + n} \<Longrightarrow> page_addr m (k + n - 1) \<le> page_addr m j"
  using assms by (auto simp: MEMORY_PAGE_FROM_INDEX_def MMAP_HIGHEST_PAGE_ADDR_def of_nat_diff algebra_simps)

lemma page_addr_upd [simp]:
  "MEMORY_PAGE_FROM_INDEX (m\<lparr>bitarray := ba\<rparr>) = MEMORY_PAGE_FROM_INDEX m"
  "MEMORY_PAGE_FROM_INDEX (m\<lparr>heap_lowest_mmap_addr := a\<rparr>) = MEMORY_PAGE_FROM_INDEX m"
  "MEMORY_PAGE_FROM_INDEX (m\<lparr>mm_errno := e\<rparr>) = MEMORY_PAGE_FROM_INDEX m"
  "MEMORY_PAGE_FROM_INDEX (m\<lparr>heap_brk := b\<rparr>) = MEMORY_PAGE_FROM_INDEX m"
  by (simp_all add: fun_eq_iff MEMORY_PAGE_FROM_INDEX_def MMAP_HIGHEST_PAGE_ADDR_def HEAP_MAX_ADDR_def)

lemma heap_max_upd [simp]:
  "HEAP_MAX_ADDR (m\<lparr>bitarray := ba\<rparr>) = HEAP_MAX_ADDR m" "HEAP_MAX_ADDR (m\<lparr>heap_lowest_mmap_addr := a\<rparr>) = HEAP_MAX_ADDR m"
  "HEAP_MAX_ADDR (m\<lparr>mm_errno := e\<rparr>) = HEAP_MAX_ADDR m" "HEAP_MAX_ADDR (m\<lparr>heap_brk := b\<rparr>) = HEAP_MAX_ADDR m"
  by (simp_all add: HEAP_MAX_ADDR_def)

lemma mm_wf_errno [simp]: "mm_wf (m\<lparr>mm_errno := e\<rparr>) = mm_wf m"
  by (simp add: mm_wf_def MMAP_HIGHEST_PAGE_ADDR_def)

lemma mm_wf_bits:
  assumes "mm_wf m" "length (array ba) = length (array (bitarray m))" "array_size ba = array_size (bitarray m)"
    and "\<And>j. ba_used ba j \<Longrightarrow> page_used m j"
  shows "mm_wf (m\<lparr>bitarray := ba\<rparr>)"
  using assms by (auto simp: mm_wf_def MMAP_HIGHEST_PAGE_ADDR_def)

lemma mm_wf_mapped:
  assumes wf: "mm_wf m" and b: "free_block m n k" "0 < n"
    and ba: "length (array ba) = length (array (bitarray m))" "array_size ba = array_size (bitarray m)"
      "ba_used ba = (\<lambda>j. j \<in> {k..<k + n} \<or> page_used m j)"
    and a: "a = page_addr m (k + n - 1)"
  shows "mm_wf (snd (mmap_finish (m\<lparr>bitarray := ba\<rparr>) 0 a))"
proof -
  let ?l = "min a (heap_lowest_mmap_addr m)"
  have brk: "heap_brk m \<le> a" using b(1) a by (simp add: free_block_def)
  have f: "snd (mmap_finish (m\<lparr>bitarray := ba\<rparr>) 0 a) = m\<lparr>bitarray := ba, heap_lowest_mmap_addr := ?l\<rparr>"
    by (auto simp: mmap_finish_def min_def)
  have "i < 8 * array_size ba \<and> ?l \<le> page_addr m i" if "i < MAX_MMAP_PAGES_COUNT" "ba_used ba i" for i
  proof (cases "i \<in> {k..<k + n}")
    case True
    have "i < 8 * array_size ba" using b(1) True ba(2) by (auto simp: free_block_def clear_run_def)
    moreover have "a \<le> page_addr m i" using free_block_place(2) [OF b True] a by simp
    ultimately show ?thesis by simp
  next
    case False
    then show ?thesis using that ba(2,3) wf by (auto simp: mm_wf_def min_def)
  qed
  then show ?thesis unfolding f using wf brk ba(1,2) by (auto simp: mm_wf_def MMAP_HIGHEST_PAGE_ADDR_def)
qed

lemma mmap_anonymous_ok:
  assumes wf: "mm_wf m" and fd: "fd \<le> 0" and prot: "CHECK_FLAG prot (PROT_READ OR PROT_WRITE)"
    and fl: "CHECK_FLAG flags MAP_ANONYMOUS" and len: "0 < len" "len \<le> 2 ^ 32 - PAGE_SIZE"
    and n: "n = pages_of len"
  shows "\<exists>r m'. memory_mmap env m w addr len prot flags fd offset = Some (r, m', w) \<and> mm_wf m' \<and>
    (if \<exists>k. free_block m n k
     then \<exists>k. free_block m n k \<and> r = page_addr m (k + n - 1) \<and> int PAGE_SIZE dvd r
        \<and> heap_brk m \<le> r \<and> r + int (n * PAGE_SIZE) \<le> HEAP_MAX_ADDR m
        \<and> page_used m' = (\<lambda>j. j \<in> {k..<k + n} \<or> page_used m j) \<and> heap_brk m' = heap_brk m
     else r = MAP_FAILED \<and> mm_errno m' = ENOMEM \<and> page_used m' = page_used m \<and> heap_brk m' = heap_brk m)"
proof -
  have n0: "0 < n" using pages_of_pos [OF len] n by simp
  from alloc_pages [OF wf n n0] obtain a m1 where
    al: "alloc_memory_pseudo_mmap m len = Some (a, m1)" "m1 = m\<lparr>bitarray := bitarray m1\<rparr>"
      "length (array (bitarray m1)) = length (array (bitarray m))" "array_size (bitarray m1) = array_size (bitarray m)"
      "if a = 0 then page_used m1 = page_used m \<and> (\<forall>k. \<not> free_block m n k)
       else \<exists>k. free_block m n k \<and> a = page_addr m (k + n - 1) \<and> page_used m1 = (\<lambda>j. j \<in> {k..<k + n} \<or> page_used m j)" by blast
  have mm: "memory_mmap env m w addr len prot flags fd offset =
      Some (fst (mmap_finish m1 (if a \<noteq> 0 then 0 else ENOMEM) a), snd (mmap_finish m1 (if a \<noteq> 0 then 0 else ENOMEM) a), w)"
    using fd prot fl len(1) al(1) by (simp add: memory_mmap_def case_prod_beta)
  show ?thesis
  proof (cases "a = 0")
    case True
    have "mm_wf m1" by (subst al(2)) (rule mm_wf_bits [OF wf al(3,4)], use al(5) True in simp)
    then have "mm_wf (snd (mmap_finish m1 ENOMEM a))" by (simp add: mmap_finish_def)
    moreover have "heap_brk m1 = heap_brk m" by (subst al(2)) simp
    ultimately show ?thesis using mm True al(5) by (auto simp: mmap_finish_def)
  next
    case False
    with al(5) obtain k where k: "free_block m n k" "a = page_addr m (k + n - 1)" "page_used m1 = (\<lambda>j. j \<in> {k..<k + n} \<or> page_used m j)"
      by auto
    let ?m2 = "snd (mmap_finish m1 0 a)"
    have "mm_wf (snd (mmap_finish (m\<lparr>bitarray := bitarray m1\<rparr>) 0 a))"
      by (rule mm_wf_mapped [OF wf k(1) n0 al(3,4) k(3,2)])
    then have wf2: "mm_wf ?m2" using al(2) by simp
    have st: "bitarray ?m2 = bitarray m1" "heap_brk ?m2 = heap_brk m1" by (auto simp: mmap_finish_def)
    have "heap_brk m1 = heap_brk m" by (subst al(2)) simp
    moreover have "int PAGE_SIZE dvd a" using wf k(2) page_addr_aligned [of m] by (simp add: mm_wf_def)
    moreover have "heap_brk m \<le> a" using k by (simp add: free_block_def)
    moreover have "a + int (n * PAGE_SIZE) \<le> HEAP_MAX_ADDR m" using free_block_place(1) [OF k(1) n0] k(2) by simp
    ultimately show ?thesis using mm False k wf2 st by (auto simp: mmap_finish_def)
  qed
qed

text \<open>
  (C10) An anonymous mapping of up to 4 GB less a page: when some run of free pages of the length lies above
  the break, the call returns such a run: page aligned, inside the heap, above the break, made of pages
  that no mapping uses, which it marks, and only these. Otherwise, and only then, it returns
  \<open>MAP_FAILED\<close> with \<open>ENOMEM\<close> and marks nothing. The break does not move.
\<close>

theorem mmap_anonymous_correct:
  assumes "mm_wf m" "fd \<le> 0" "CHECK_FLAG prot (PROT_READ OR PROT_WRITE)" "CHECK_FLAG flags MAP_ANONYMOUS"
    and "0 < len" "len \<le> 2 ^ 32 - PAGE_SIZE" "n = pages_of len"
  shows "\<exists>r m'. memory_mmap env m w addr len prot flags fd offset = Some (r, m', w) \<and> mm_wf m' \<and>
    (if \<exists>k. free_block m n k
     then \<exists>k. free_block m n k \<and> r = page_addr m (k + n - 1) \<and> int PAGE_SIZE dvd r
        \<and> heap_brk m \<le> r \<and> r + int (n * PAGE_SIZE) \<le> HEAP_MAX_ADDR m
        \<and> page_used m' = (\<lambda>j. j \<in> {k..<k + n} \<or> page_used m j) \<and> heap_brk m' = heap_brk m
     else r = MAP_FAILED \<and> mm_errno m' = ENOMEM \<and> page_used m' = page_used m \<and> heap_brk m' = heap_brk m)"
  by (rule mmap_anonymous_ok [OF assms])

section \<open>The break, unmapping, and whole sequences\<close>

lemma sysbrk_wf: "mm_wf m \<Longrightarrow> 0 < heap_start_ptr m \<Longrightarrow> mm_wf (snd (memory_sysbrk m addr))"
  by (auto simp: memory_sysbrk_def mm_wf_def MMAP_HIGHEST_PAGE_ADDR_def)

lemma munmap_ok:
  assumes wf: "mm_wf m" and u: "memory_munmap m addr len = Some (r, m')"
  shows "mm_wf m'" "r = 0" "page_used m' i \<Longrightarrow> page_used m i" "heap_brk m' = heap_brk m" "heap_start_ptr m' = heap_start_ptr m"
proof -
  let ?m1 = "m\<lparr>mm_errno := 0\<rparr>"
  have "r = 0 \<and> (m' = ?m1 \<or> (\<exists>is ba. clear_bits (bitarray m) is = Some ba \<and> m' = ?m1\<lparr>bitarray := ba\<rparr>))"
    using u by (auto simp: memory_munmap_def Let_def bind_eq_Some_conv split: if_splits)
  moreover have cb: "length (array ba) = length (array b0) \<and> array_size ba = array_size b0 \<and> (\<forall>j. ba_used ba j \<longrightarrow> ba_used b0 j)"
    if "clear_bits b0 is = Some ba" for b0 "is" ba
    using that
  proof (induction "is" arbitrary: b0)
    case (Cons i "is")
    then obtain b b1 where b: "bitarray_get_bit b0 i = Some b" "(if b then bitarray_toggle_bit b0 i else Some b0) = Some b1"
      "clear_bits b1 is = Some ba" by (auto simp: bind_eq_Some_conv)
    then have "b = ba_used b0 i" by (auto simp: bitarray_get_bit_def ba_used_def split: if_splits)
    then have "length (array b1) = length (array b0) \<and> array_size b1 = array_size b0 \<and> (\<forall>j. ba_used b1 j \<longrightarrow> ba_used b0 j)"
      using b(2) toggle_bit_used [of b0 i b1] by (auto split: if_splits)
    with Cons.IH [OF b(3)] show ?case by auto
  qed simp
  ultimately show "mm_wf m'" "r = 0" "page_used m' i \<Longrightarrow> page_used m i" "heap_brk m' = heap_brk m" "heap_start_ptr m' = heap_start_ptr m"
    using wf by (auto intro!: mm_wf_bits)
qed

text \<open>Calls of the memory manager that involve no file.\<close>

inductive mem_step :: "MemoryManager \<Rightarrow> MemoryManager \<Rightarrow> bool" where
  brk: "mem_step m (snd (memory_sysbrk m addr))"
| mmap: "\<lbrakk>fd \<le> 0; CHECK_FLAG prot (PROT_READ OR PROT_WRITE); CHECK_FLAG flags MAP_ANONYMOUS; 0 < len; len \<le> 2 ^ 32 - PAGE_SIZE;
          memory_mmap (env :: unit file_env) m w addr len prot flags fd offset = Some (r, m', w')\<rbrakk> \<Longrightarrow> mem_step m m'"
| munmap: "memory_munmap m addr len = Some (r, m') \<Longrightarrow> mem_step m m'"

inductive_cases mem_stepE: "mem_step m m'"

lemma mmap_finish_start: "heap_start_ptr (snd (mmap_finish m e a)) = heap_start_ptr m"
  by (simp add: mmap_finish_def)

lemma mem_step_wf:
  assumes "mem_step m m'" "mm_wf m" "0 < heap_start_ptr m"
  shows "mm_wf m' \<and> heap_start_ptr m' = heap_start_ptr m"
  using assms
proof (cases rule: mem_step.cases)
  case (brk addr)
  with assms sysbrk_wf [of m addr] show ?thesis by (auto simp: memory_sysbrk_def)
next
  case (mmap fd prot flags len env w addr offset r w')
  from mmap_anonymous_ok [OF assms(2) mmap(1-5) refl, of env w addr offset] mmap(6) have "mm_wf m'" by auto
  moreover have "heap_start_ptr m' = heap_start_ptr m"
  proof -
    obtain a m1 where al: "alloc_memory_pseudo_mmap m len = Some (a, m1)" "m1 = m\<lparr>bitarray := bitarray m1\<rparr>"
      using alloc_pages [OF assms(2) refl pages_of_pos [OF mmap(4,5)]] by blast
    have "heap_start_ptr m1 = heap_start_ptr m" by (subst al(2)) simp
    then show ?thesis
      using mmap al(1) mmap_finish_start [of m1] by (auto simp: memory_mmap_def case_prod_beta)
  qed
  ultimately show ?thesis by simp
next
  case (munmap addr len r)
  with munmap_ok [OF assms(2)] show ?thesis by auto
qed

text \<open>
  (C11) Whatever the sequence of \<open>brk\<close>, anonymous \<open>mmap\<close> and \<open>munmap\<close> calls, the heap below the break and the
  mapped pages never overlap: every page marked as mapped lies at or above the break and inside the
  heap.
\<close>

theorem brk_and_mappings_disjoint:
  assumes "mem_step\<^sup>*\<^sup>* m0 m" "mm_wf m0" "0 < heap_start_ptr m0" "i < MAX_MMAP_PAGES_COUNT" "page_used m i"
  shows "heap_brk m \<le> page_addr m i \<and> page_addr m i + int PAGE_SIZE \<le> HEAP_MAX_ADDR m"
proof -
  have "mm_wf m \<and> 0 < heap_start_ptr m"
    using assms(1-3) by (induction rule: rtranclp_induct) (auto dest: mem_step_wf)
  with mm_wf_D [of m i] assms(4,5) show ?thesis by (auto simp: page_addr_simps)
qed

section \<open>Rounding up to a power of two\<close>

text \<open>Folding a word onto itself shifted by \<open>s\<close> doubles the distance its bits have been spread over.\<close>

lemma spread_step:
  fixes x y :: "32 word"
  assumes "\<And>n. bit y n \<longleftrightarrow> (\<exists>d < s. bit x (n + d))"
  shows "bit (y OR drop_bit s y) n \<longleftrightarrow> (\<exists>d < 2 * s. bit x (n + d))"
proof -
  have "(\<exists>d < s. bit x (s + n + d)) \<longleftrightarrow> (\<exists>d. s \<le> d \<and> d < 2 * s \<and> bit x (n + d))"
  proof
    assume "\<exists>d < s. bit x (s + n + d)"
    then obtain d where "d < s" "bit x (s + n + d)" by blast
    then show "\<exists>d. s \<le> d \<and> d < 2 * s \<and> bit x (n + d)" by (intro exI [of _ "s + d"]) (simp add: ac_simps)
  next
    assume "\<exists>d. s \<le> d \<and> d < 2 * s \<and> bit x (n + d)"
    then obtain d where "s \<le> d" "d < 2 * s" "bit x (n + d)" by blast
    then show "\<exists>d < s. bit x (s + n + d)" by (intro exI [of _ "d - s"]) simp
  qed
  moreover have "(\<exists>d < 2 * s. bit x (n + d)) \<longleftrightarrow> (\<exists>d < s. bit x (n + d)) \<or> (\<exists>d. s \<le> d \<and> d < 2 * s \<and> bit x (n + d))" (is "?l = ?r")
  proof
    assume ?l then show ?r by (meson not_le)
  next
    assume ?r
    then obtain d where "d < 2 * s" "bit x (n + d)" by (elim disjE exE conjE) (metis trans_less_add1 mult_2, blast)
    then show ?l by blast
  qed
  ultimately show ?thesis by (simp add: bit_or_iff bit_drop_bit_eq assms add.assoc)
qed

lemma bit_mask_after_hi_bits: "bit (bit_mask_after_hi x) n \<longleftrightarrow> (\<exists>m \<ge> n. bit x m)"
proof -
  let ?f = "\<lambda>s y. y OR drop_bit s y :: 32 word"
  have s0: "bit x n \<longleftrightarrow> (\<exists>d < 1. bit x (n + d))" for n by simp
  note s1 = spread_step [OF s0]
  note s2 = spread_step [OF s1]
  note s3 = spread_step [OF s2]
  note s4 = spread_step [OF s3]
  note s5 = spread_step [OF s4]
  have "bit (bit_mask_after_hi x) n \<longleftrightarrow> (\<exists>d < 32. bit x (n + d))"
    using s5 [of n] by (simp add: bit_mask_after_hi_def Let_def)
  also have "\<dots> \<longleftrightarrow> (\<exists>m \<ge> n. bit x m)"
  proof
    assume "\<exists>m \<ge> n. bit x m"
    then obtain m where m: "n \<le> m" "bit x m" by blast
    then have "m < 32" using bit_imp_le_length [of x m] by simp
    with m show "\<exists>d < 32. bit x (n + d)" by (intro exI [of _ "m - n"]) auto
  qed (metis le_add1)
  finally show ?thesis .
qed

lemma bit_mask_after_hi_mask:
  assumes "2 ^ h \<le> unat x" "unat x < 2 ^ Suc h" "h < 32"
  shows "bit_mask_after_hi x = mask (Suc h)"
proof (rule bit_word_eqI)
  fix n assume "n < LENGTH(32)"
  have nat_bit: "bit x m \<longleftrightarrow> odd (unat x div 2 ^ m)" if "m < 32" for m
  proof -
    have "bit (unat x) m \<longleftrightarrow> bit x m" using that by (simp add: bit_unsigned_iff)
    then show ?thesis by (simp add: bit_iff_odd)
  qed
  have "unat x div 2 ^ h = 1" using assms(1,2) by (simp add: Euclidean_Rings.div_nat_eqI)
  with nat_bit assms(3) have top: "bit x h" by simp
  have above: "\<not> bit x m" if "h < m" for m
  proof
    assume b: "bit x m"
    then have "m < 32" using bit_imp_le_length [of x m] by simp
    have "(2::nat) ^ Suc h \<le> 2 ^ m" using that by (intro power_increasing) auto
    then have "unat x div 2 ^ m = 0" using assms(2) by simp
    with nat_bit [OF \<open>m < 32\<close>] b show False by simp
  qed
  have "(\<exists>m \<ge> n. bit x m) \<longleftrightarrow> n \<le> h" using top above by (meson le_trans not_le)
  then show "bit (bit_mask_after_hi x) n = bit (mask (Suc h) :: 32 word) n"
    using \<open>n < LENGTH(32)\<close> by (simp add: bit_mask_after_hi_bits bit_mask_iff less_Suc_eq_le)
qed

text \<open>
  \<open>roundup_pow2\<close> returns the least power of two that is not below its argument, on every 32-bit value that
  has one of 32 bits; on 0 and above \<open>2^31\<close> it wraps around to 0.
\<close>

theorem roundup_pow2_correct:
  "unat (roundup_pow2 v) = (if v = 0 \<or> 2 ^ 31 < unat v then 0 else 2 ^ (LEAST k. unat v \<le> 2 ^ k))"
proof (cases "v = 0 \<or> v = 1")
  case True
  have "bit_mask_after_hi (- 1) = - 1" by (rule bit_word_eqI) (auto simp: bit_mask_after_hi_bits)
  moreover have "bit_mask_after_hi 0 = 0" by (rule bit_word_eqI) (auto simp: bit_mask_after_hi_bits)
  moreover have "(LEAST k. (1::nat) \<le> 2 ^ k) = 0" by (rule Least_equality) auto
  ultimately show ?thesis using True by (auto simp: roundup_pow2_def)
next
  case False
  then have v2: "2 \<le> unat v" using word_unat_eq_iff [of v 0] word_unat_eq_iff [of v 1] by simp
  let ?x = "v - 1"
  have ux: "unat ?x = unat v - 1" using False unat_minus_one [of v] by simp
  obtain h where h: "2 ^ h \<le> unat ?x" "unat ?x < 2 ^ Suc h"
  proof -
    have "1 \<le> unat ?x" using ux v2 by linarith
    with ex_power_ivl1 [of 2 "unat ?x"] show thesis using that by auto
  qed
  have "unat ?x < 2 ^ 32" using unsigned_less [of ?x] by simp
  with h(1) have "(2::nat) ^ h < 2 ^ 32" by linarith
  then have h32: "h < 32" by (simp only: power_strict_increasing_iff)
  have r: "roundup_pow2 v = 2 ^ Suc h"
    by (simp add: roundup_pow2_def bit_mask_after_hi_mask [OF h h32] mask_eq_exp_minus_1)
  have least: "(LEAST k. unat v \<le> 2 ^ k) = Suc h"
  proof (rule Least_equality)
    show "unat v \<le> 2 ^ Suc h" using h(2) ux by linarith
    fix k assume "unat v \<le> 2 ^ k"
    then have "(2::nat) ^ h < 2 ^ k" using h(1) ux v2 by linarith
    then show "Suc h \<le> k" by (simp add: Suc_leI)
  qed
  show ?thesis
  proof (cases "h = 31")
    case True
    with h(1) ux v2 have "2 ^ 31 < unat v" by simp
    with True show ?thesis by (simp add: r)
  next
    case False
    with h32 have "Suc h \<le> 31" by simp
    then have "(2::nat) ^ Suc h \<le> 2 ^ 31" by (intro power_increasing) auto
    then have le: "unat v \<le> 2 ^ 31" using h(2) ux by linarith
    have "unat (2 ^ Suc h :: 32 word) = 2 ^ Suc h" 
    proof -
      have "(2::nat) ^ Suc h < 2 ^ 32" using \<open>Suc h \<le> 31\<close> by (intro power_strict_increasing) auto
      then have "unat (word_of_nat (2 ^ Suc h) :: 32 word) = 2 ^ Suc h" by (simp add: unat_of_nat del: of_nat_power power_Suc)
      then show ?thesis by simp
    qed
    then show ?thesis using le least r v2 by auto
  qed
qed

section \<open>The start, and what unmapping and file mappings do\<close>

lemma self_check:
  assumes "0 \<le> heap_ptr + hsize" "int PAGE_SIZE dvd heap_ptr + hsize"
  shows "SELF_CHECK heap_ptr hsize"
proof -
  obtain q where q: "heap_ptr + hsize = int PAGE_SIZE * q" using assms(2) by (auto simp: dvd_def)
  with assms(1) have "nat (heap_ptr + hsize) = PAGE_SIZE * nat q" by (simp add: nat_mult_distrib)
  then have "nat (heap_ptr + hsize) = ROUND_UP (nat (heap_ptr + hsize)) PAGE_SIZE" by (simp add: ROUND_UP_def)
  moreover have "roundup_pow2 0 = 0" "roundup_pow2 4 = 4" "roundup_pow2 63 = 64" "roundup_pow2 66 = 128"
    "roundup_pow2 536860612 = 536870912"
    by (simp_all add: roundup_pow2_def bit_mask_after_hi_def Let_def)
  ultimately show ?thesis by (simp add: SELF_CHECK_def)
qed

lemma bytes_for_bits:
  fixes n :: nat
  shows "n \<le> 8 * (n div 8 + (if 0 < n mod 8 then 1 else 0))"
    and "n \<le> 65536 \<Longrightarrow> n div 8 + (if 0 < n mod 8 then 1 else 0) \<le> 8192"
  by presburger+

lemma region_pages:
  assumes "n = ROUND_UP R PAGE_SIZE div PAGE_SIZE"
  shows "R < 2 ^ 32 \<Longrightarrow> n \<le> 65536" and "PAGE_SIZE * (i + 1) \<le> R \<Longrightarrow> i + 1 \<le> n"
proof -
  have n: "n = (R + (PAGE_SIZE - 1)) div PAGE_SIZE" by (simp add: assms ROUND_UP_def)
  show "n \<le> 65536" if "R < 2 ^ 32"
  proof -
    have "n < 65537" unfolding n using that by (intro less_mult_imp_div_less) simp
    then show ?thesis by simp
  qed
  show "i + 1 \<le> n" if "PAGE_SIZE * (i + 1) \<le> R"
  proof -
    have "i + 1 = PAGE_SIZE * (i + 1) div PAGE_SIZE" by simp
    also have "\<dots> \<le> n" unfolding n using that by (intro div_le_mono) linarith
    finally show ?thesis .
  qed
qed

text \<open>
  (C19) The start of the memory manager on a heap whose end is aligned, with a page or more above the break and
  the static bits clear: all its assertions hold, nothing is mapped, the invariant of the later calls
  holds, and every whole page above the break has its bit within the searched part of the bit array.
\<close>

theorem memory_init_correct:
  assumes "0 < heap_ptr" "heap_ptr \<le> brk" "brk \<le> heap_ptr + hsize - int PAGE_SIZE" "hsize < 2 ^ 32"
    and "int PAGE_SIZE dvd heap_ptr + hsize"
  shows "\<exists>m'. memory_init m (replicate (MAX_MMAP_PAGES_COUNT div 8) 0) heap_ptr hsize brk = Some m' \<and> mm_wf m'
    \<and> heap_brk m' = brk \<and> heap_start_ptr m' = heap_ptr \<and> heap_lowest_mmap_addr m' = MMAP_HIGHEST_PAGE_ADDR m'
    \<and> (\<forall>i < MAX_MMAP_PAGES_COUNT. \<not> page_used m' i)
    \<and> (\<forall>i. brk \<le> page_addr m' i \<longrightarrow> i < 8 * array_size (bitarray m'))"
proof -
  let ?c = "replicate (MAX_MMAP_PAGES_COUNT div 8) 0 :: byte list"
  let ?R = "nat (hsize - (brk - heap_ptr))"
  define n where n: "n = ROUND_UP ?R PAGE_SIZE div PAGE_SIZE"
  define sz where sz: "sz = n div 8 + (if 0 < n mod 8 then 1 else 0)"
  let ?m = "m\<lparr>heap_start_ptr := heap_ptr, heap_size := hsize, heap_brk := brk,
      heap_lowest_mmap_addr := heap_ptr + hsize - int PAGE_SIZE, bitarray := bit_array_construct ?c sz\<rparr>"
  have init: "memory_init m ?c heap_ptr hsize brk = Some ?m"
    using self_check [of heap_ptr hsize] assms unfolding sz n
    by (simp add: memory_init_def Let_def MMAP_REGION_SIZE_ALIGNED_def MMAP_HIGHEST_PAGE_ADDR_def HEAP_MAX_ADDR_def)
  have "?R < 2 ^ 32" using assms(2,4) by simp
  with region_pages(1) [OF n] bytes_for_bits [of n] have szs: "sz \<le> 8192" "n \<le> 8 * sz" by (simp_all only: sz)
  have bits: "array (bitarray ?m) = ?c" "array_size (bitarray ?m) = sz" by (simp_all add: bit_array_construct_def)
  have none: "\<not> page_used ?m i" if "i < MAX_MMAP_PAGES_COUNT" for i
  proof -
    have "i div 8 < MAX_MMAP_PAGES_COUNT div 8" using that by (intro less_mult_imp_div_less) simp
    then show ?thesis by (simp add: ba_used_def bit_array_construct_def)
  qed
  have hi: "MMAP_HIGHEST_PAGE_ADDR ?m = heap_ptr + hsize - int PAGE_SIZE" "HEAP_MAX_ADDR ?m = heap_ptr + hsize"
    by (simp_all add: MMAP_HIGHEST_PAGE_ADDR_def HEAP_MAX_ADDR_def)
  have wf: "mm_wf ?m"
    unfolding mm_wf_def bits hi using assms szs(1) none by (simp)
  have cover: "i < 8 * sz" if "brk \<le> page_addr ?m i" for i
  proof -
    have "int PAGE_SIZE * (int i + 1) \<le> hsize - (brk - heap_ptr)" using that by (simp add: page_addr_simps HEAP_MAX_ADDR_def)
    then have "PAGE_SIZE * (i + 1) \<le> ?R" by (simp add: le_nat_iff)
    from region_pages(2) [OF n this] szs(2) show ?thesis by linarith
  qed
  have low: "heap_lowest_mmap_addr ?m = MMAP_HIGHEST_PAGE_ADDR ?m"
    by (simp add: MMAP_HIGHEST_PAGE_ADDR_def HEAP_MAX_ADDR_def)
  show ?thesis
  proof (intro exI [of _ ?m] conjI allI impI)
    show "i < 8 * array_size (bitarray ?m)" if "brk \<le> page_addr ?m i" for i using cover [OF that] bits(2) by simp
  qed (rule init, rule wf, simp, simp, rule low, rule none)
qed

text \<open>
  (C20) Which pages \<open>munmap\<close> releases: counted from the page at the address towards lower addresses, since indexes
  grow downwards. After unmapping a block of \<open>n\<close> pages by its address and length, only its lowest page is
  free; the \<open>n - 1\<close> pages above it stay marked, and the \<open>n - 1\<close> pages below the block, which belong to
  others, lose their marks.
\<close>

theorem munmap_releases:
  assumes "mm_wf m" "0 < n" "n \<le> 65535" "MMAP_LOWEST_PAGE_ADDR m \<le> page_addr m (k + n - 1)" "k + 2 * n \<le> Suc MAX_MMAP_PAGES_COUNT"
  shows "\<exists>m'. memory_munmap m (page_addr m (k + n - 1)) (n * PAGE_SIZE) = Some (0, m') \<and> mm_wf m'
    \<and> page_used m' = (\<lambda>j. page_used m j \<and> \<not> (k + n - 1 \<le> j \<and> j < k + 2 * n - 1))"
proof -
  let ?i = "k + n - 1"
  have len: "pages_of (n * PAGE_SIZE) = n" using assms(2,3) by (simp add: pages_of_def)
  have i: "nat ((MMAP_HIGHEST_PAGE_ADDR m - page_addr m ?i) div int PAGE_SIZE) = ?i"
    by (simp add: MEMORY_PAGE_FROM_INDEX_def)
  have hi: "page_addr m ?i \<le> MMAP_HIGHEST_PAGE_ADDR m" by (simp add: MEMORY_PAGE_FROM_INDEX_def)
  have "\<forall>j \<in> set [?i..<?i + n]. j div 8 < length (array (bitarray m))"
    using assms by (auto simp: mm_wf_def less_mult_imp_div_less)
  from clear_bits_used [OF this] obtain ba where
    ba: "clear_bits (bitarray m) [?i..<?i + n] = Some ba" "ba_used ba = (\<lambda>j. if j \<in> set [?i..<?i + n] then False else page_used m j)"
      "length (array ba) = length (array (bitarray m))" "array_size ba = array_size (bitarray m)" by blast
  let ?m = "m\<lparr>mm_errno := 0, bitarray := ba\<rparr>"
  have "memory_munmap m (page_addr m ?i) (n * PAGE_SIZE) = Some (0, ?m)"
    using assms(4) hi i len ba(1)
    by (simp add: memory_munmap_def Let_def MMAP_LOWEST_PAGE_ADDR_def MMAP_HIGHEST_PAGE_ADDR_def MMAP_REGION_SIZE_ALIGNED_def)
  moreover have "mm_wf ?m" using mm_wf_bits [of "m\<lparr>mm_errno := 0\<rparr>" ba] assms(1) ba(2-4) by (auto split: if_splits)
  moreover have "page_used ?m = (\<lambda>j. page_used m j \<and> \<not> (?i \<le> j \<and> j < k + 2 * n - 1))"
    using ba(2) assms(2) by (auto simp: fun_eq_iff)
  ultimately show ?thesis by blast
qed

text \<open>
  A file mapping that finds no room. When \<open>errno\<close> is 0 after \<open>fstat\<close>, the call returns a null pointer
  instead of \<open>MAP_FAILED\<close> and records the null pointer as the lowest mapped address, after which no call of
  \<open>brk\<close> moves the break any more.
\<close>

theorem mmap_file_without_room:
  assumes "mm_wf m" "0 < heap_start_ptr m" "CHECK_FLAG prot PROT_READ" "0 < fd" "fe_fstat env fd w = ((Some sz, 0), w1)"
    and "0 < sz" "sz \<le> 2 ^ 32 - int PAGE_SIZE" "\<forall>k. \<not> free_block m (pages_of (nat sz)) k"
  shows "\<exists>m'. memory_mmap env m w addr len prot flags fd offset = Some (0, m', w1) \<and> heap_lowest_mmap_addr m' = 0
    \<and> (\<forall>a. heap_brk (snd (memory_sysbrk m' a)) = heap_brk m')
    \<and> (\<forall>a \<ge> heap_start_ptr m'. fst (memory_sysbrk m' a) = -1)"
proof -
  let ?e = "m\<lparr>mm_errno := 0\<rparr>"
  have wf: "mm_wf ?e" using assms(1) by simp
  have z: "nat (sz mod 2 ^ 32) = nat sz" using assms(6,7) by simp
  have p: "0 < pages_of (nat sz)" using pages_of_pos [of "nat sz"] assms(6,7) by (simp add: le_nat_iff nat_le_iff)
  from alloc_pages [OF wf refl p] obtain a m1 where
    al: "alloc_memory_pseudo_mmap ?e (nat sz) = Some (a, m1)" "m1 = ?e\<lparr>bitarray := bitarray m1\<rparr>"
      "if a = 0 then page_used m1 = page_used ?e \<and> (\<forall>k. \<not> free_block ?e (pages_of (nat sz)) k)
       else \<exists>k. free_block ?e (pages_of (nat sz)) k \<and> a = page_addr ?e (k + pages_of (nat sz) - 1)
         \<and> page_used m1 = (\<lambda>j. j \<in> {k..<k + pages_of (nat sz)} \<or> page_used ?e j)" by blast
  have a0: "a = 0" using al(3) assms(8) by (auto simp: free_block_def split: if_splits)
  have m1: "mm_errno m1 = 0" "heap_lowest_mmap_addr m1 = heap_lowest_mmap_addr m" "heap_start_ptr m1 = heap_start_ptr m"
    by (subst al(2), simp)+
  have "memory_mmap env m w addr len prot flags fd offset = Some (0, snd (mmap_finish m1 0 0), w1)"
    using assms(3-6) al(1) a0 m1 z by (simp add: memory_mmap_def mmap_finish_def Let_def)
  moreover have "snd (mmap_finish m1 0 0) = m1\<lparr>heap_lowest_mmap_addr := 0\<rparr>"
    using m1 assms(1) by (auto simp: mmap_finish_def mm_wf_def)
  ultimately show ?thesis using m1 assms(2) by (auto simp: memory_sysbrk_def)
qed

end
