(* ===== verification/Demo.thy ===== *)
theory Demo
  imports ChannelsStart MemoryManager
begin

text \<open>
  A small session on which the properties are evaluated: a manifest with one random-access channel
  \<open>/dv/xy\<close>, the two directories above it, descriptor 0 open for reading and writing on the channel
  and descriptor 1 open on the directory \<open>/dv\<close>. \<open>demo_of nm\<close> is the session with the
  channel under another name.
\<close>

section \<open>The state of the session\<close>

definition demo_channel_of :: "string \<Rightarrow> ZVMChannel" where
  "demo_channel_of nm = \<lparr>ch_limits = (\<lambda>_. 100), ch_size = 5, ch_type = RGetRPut, ch_name = nm\<rparr>"

definition demo_rt :: ZrtChannelRt where
  "demo_rt = \<lparr>rt_inode = 11, rt_parent_inode = 13, rt_maxsize = 0, rt_mode = 0, rt_emu = 0,
      rt_fcntl_flock = \<lparr>l_type = 0, l_whence = 0, l_start = 0, l_len = 0\<rparr>\<rparr>"

definition demo_item_of :: "string \<Rightarrow> ChannelArrayItem" where
  "demo_item_of nm = \<lparr>ci_channel = demo_channel_of nm, ci_runtime = demo_rt\<rparr>"

definition demo_array_of :: "string \<Rightarrow> channels_array_t" where
  "demo_array_of nm = \<lparr>num_entries = 1, ptr_array = [Some (demo_item_of nm)], ptr_array_space = 1, available = [1], avail_ix = 0\<rparr>"

definition demo_dirs :: manifest_dirs_t where
  "demo_dirs = [\<lparr>dir_inode = 12, dd_parent_dir_inode = 12, dd_nlink = 3, dd_path = ''/''\<rparr>,
                \<lparr>dir_inode = 13, dd_parent_dir_inode = 12, dd_nlink = 2, dd_path = ''/dv''\<rparr>]"

definition demo_handle :: "int \<Rightarrow> int \<Rightarrow> int \<Rightarrow> HandleItem" where
  "demo_handle ino parent i = \<lparr>hi_inode = ino, hi_parent_dir_inode = parent, hi_ofd_id = i, hi_mount_fs = Some 7\<rparr>"

definition demo_ofd :: "flags_t \<Rightarrow> OpenFileDescription" where
  "demo_ofd fl = \<lparr>channel_sequential_offset = 0, ofd_offset = 0, ofd_flags = fl, optional_data = 0\<rparr>"

definition demo_of :: "string \<Rightarrow> unit zrt" where
  "demo_of nm = \<lparr>s_handle_slots = (s_handle_slots kern_init)
              (0 := \<lparr>hs_public = demo_handle 11 13 0, hs_used = EHandleUsed\<rparr>,
               1 := \<lparr>hs_public = demo_handle 13 12 1, hs_used = EHandleUsed\<rparr>),
           h_first_unused_slot = 1,
           s_open_files_array = (s_open_files_array kern_init)
              (0 := \<lparr>os_public = demo_ofd O_RDWR, refcount = 1\<rparr>,
               1 := \<lparr>os_public = demo_ofd O_DIRECTORY, refcount = 1\<rparr>),
           o_first_unused_slot = 1, errno = 0,
           channels_array = demo_array_of nm, manifest_dirs = demo_dirs, channels_ref = 7, world = (),
           mount_items = \<lparr>num_entries = 0, ptr_array = [None], ptr_array_space = 1, available = [0], avail_ix = 0\<rparr>\<rparr>"

abbreviation "demo_channel \<equiv> demo_channel_of ''/dv/xy''"
abbreviation "demo_item \<equiv> demo_item_of ''/dv/xy''"
abbreviation "demo_array \<equiv> demo_array_of ''/dv/xy''"
abbreviation "demo \<equiv> demo_of ''/dv/xy''"

lemma demo_tables:
  "entry (demo_of nm) h = (if h = 0 then Some (demo_handle 11 13 0) else if h = 1 then Some (demo_handle 13 12 1) else None)"
  "ofd (demo_of nm) 0 = Some (demo_ofd O_RDWR)" "ofd (demo_of nm) 1 = Some (demo_ofd O_DIRECTORY)" "channels_ref (demo_of nm) = 7"
  "hi_mount_fs (demo_handle ino p i) = Some 7" "hi_inode (demo_handle ino p i) = ino" "hi_ofd_id (demo_handle ino p i) = i"
  by (auto simp: demo_of_def demo_handle_def entry_def ofd_def ofd_entry_def VERIFY_HANDLE_def VERIFY_OFD_def kern_init_def nat_eq_iff)

lemma demo_array_ok: "arr_ok (demo_array_of nm)" "items (demo_array_of nm) = [demo_item_of nm]" "num_entries (demo_array_of nm) = 1"
proof -
  show "num_entries (demo_array_of nm) = 1" by (simp add: demo_array_of_def)
  have "DynArrayGet (demo_array_of nm) 0 = Some (demo_item_of nm)" by (simp add: DynArrayGet_def demo_array_of_def)
  moreover have "da_wf (demo_array_of nm)"
    by (auto simp: da_wf_def demo_array_of_def BitsToAllocWords_def bit_1_iff)
  ultimately show "arr_ok (demo_array_of nm)" "items (demo_array_of nm) = [demo_item_of nm]"
    by (auto simp: arr_ok_def items_def da.entries_def demo_array_of_def)
qed

lemma demo_handles_on: "handles_on (demo_of nm) i = (if i = 0 then {0} else if i = 1 then {1} else {})"
  by (auto simp: handles_on_def demo_of_def kern_init_def demo_handle_def split: if_splits)

lemma demo_wf: "chan_wf (demo_of nm)" "sys_wf (demo_of nm)"
proof -
  have "fd_wf None (demo_of nm)"
    unfolding fd_wf_def demo_handles_on
    by (auto simp: ht.hint_ok_def op.hint_ok_def demo_of_def kern_init_def demo_handle_def)
  moreover have "numbered (demo_of nm)"
    using demo_array_ok by (auto simp: numbered_def demo_of_def demo_item_of_def demo_rt_def demo_dirs_def less_Suc_eq)
  moreover have "handles_known (demo_of nm)"
    unfolding handles_known_def demo_tables inode_known_def
    by (auto simp: demo_tables split: if_splits) (simp_all add: demo_of_def demo_array_of_def demo_dirs_def)
  ultimately show "chan_wf (demo_of nm)" by (simp add: chan_wf_def)
  then show "sys_wf (demo_of nm)" by (simp add: sys_wf_def demo_tables)
qed

lemma demo_item_11: "item_by_inode (demo_of nm) 11 = Some (demo_item_of nm)"
  by (simp add: item_by_inode_eq [OF chan_wfD(2) [OF demo_wf(1)]]) (simp add: demo_of_def demo_array_ok)

lemmas demo_ok = demo_wf [of "''/dv/xy''"]

lemma demo_dir_13: "dir_by_inode demo 13 = Some (demo_dirs ! 1)"
  by code_simp

lemma demo_chan_path: "chan_path ''/dv/xy''"
  unfolding chan_path_def
  by (intro exI [of _ "[''dv'']"] exI [of _ "''xy''"]) (simp add: path_of_def)

lemma demo_array_paths: "\<forall>it \<in> set (items demo_array). chan_path (ch_name (ci_channel it))"
  by (simp add: demo_array_ok demo_item_of_def demo_channel_of_def demo_chan_path)

definition demo_zvm :: "unit zvm_env" where
  "demo_zvm = \<lparr>zvm_pread = (\<lambda>_ n _ w. ((int (min n 3), take n [65, 66, 67]), w)), zvm_pwrite = (\<lambda>_ buf _ w. (int (length buf), w)),
      env_rand = (\<lambda>_ _. 0), env_time = (\<lambda>_. 0)\<rparr>"

lemma demo_sources:
  "read_source demo_zvm (demo\<lparr>errno := 0\<rparr>) 11 2 0 = ((2, [65, 66]), demo\<lparr>errno := 0\<rparr>)"
  "write_source demo_zvm (demo\<lparr>errno := 0\<rparr>) 11 [1, 2] 0 = (2, demo\<lparr>errno := 0\<rparr>)"
proof -
  have w: "demo\<lparr>errno := 0, world := w\<rparr> = demo\<lparr>errno := 0\<rparr>" for w :: unit by (simp add: demo_of_def)
  show "read_source demo_zvm (demo\<lparr>errno := 0\<rparr>) 11 2 0 = ((2, [65, 66]), demo\<lparr>errno := 0\<rparr>)"
    by (simp add: read_source_def emu_handle_read_def demo_item_11 demo_item_of_def demo_channel_of_def demo_zvm_def s32_def w)
  show "write_source demo_zvm (demo\<lparr>errno := 0\<rparr>) 11 [1, 2] 0 = (2, demo\<lparr>errno := 0\<rparr>)"
    by (simp add: write_source_def emu_handle_write_def demo_item_11 demo_item_of_def demo_channel_of_def demo_zvm_def s32_def w)
qed

section \<open>The channel file system on the session\<close>

theorem channel_directories_complete_witness:
  "arr_ok demo_array \<and> distinct (dir_paths (process_channels_create_dir_list demo_array []))
   \<and> length (process_channels_create_dir_list demo_array []) \<le> DIRECTORIES_MAX_NUMBER"
  using channel_directories_complete [OF demo_array_ok(1) demo_array_paths refl] demo_array_ok(1) by blast

lemma demo_dir_list: "process_channels_create_dir_list demo_array [] = demo_dirs"
  by code_simp

theorem channel_directories_linked_witness:
  "dir_inode (demo_dirs ! 1) = 13 \<and> dd_nlink (demo_dirs ! 1) = 2 + int (length (filter (is_sub_path ''/dv'') (dir_paths demo_dirs)))"
  using channel_directories_linked [OF demo_array_ok(1) demo_array_paths refl, of 1]
  unfolding demo_dir_list by (simp add: demo_array_ok demo_dirs_def)

theorem channels_open_correct_witness:
  "chan_wf demo \<and> (\<exists>s'. channels_open demo ''/dv/none'' O_RDONLY 0 = Some (-1, s') \<and> errno s' = ENOENT \<and> entry s' = entry demo)"
proof -
  have "open_target demo ''/dv/none'' O_RDONLY = Inl ENOENT" by code_simp
  with channels_open_correct [OF demo_ok(1), of "''/dv/none''" O_RDONLY 0] demo_ok(1) show ?thesis by auto
qed

theorem channels_close_correct_witness:
  "\<exists>s'. channels_close demo 0 = Some (0, s') \<and> chan_wf s' \<and> entry s' 0 = None \<and> entry s' 1 = entry demo 1"
  using channels_close_correct [OF demo_ok(1), of 0 "demo_handle 11 13 0"] by (auto simp: demo_tables)

theorem channels_read_correct_witness:
  "\<exists>s'. channels_read demo_zvm demo 0 2 = Some (2, [65, 66], s')"
proof -
  have "read_source demo_zvm (demo\<lparr>errno := 0\<rparr>) (hi_inode (demo_handle 11 13 0)) 2 0 = ((2, [65, 66]), demo\<lparr>errno := 0\<rparr>)"
    by (simp add: demo_tables demo_sources)
  from channels_read_correct [OF demo_ok(1) _ _ _ _ _ refl _ _ _ _, where n = 2 and bytes = "[65, 66]" and e = "demo_handle 11 13 0" and env = demo_zvm and nbyte = 2 and ?s1.0 = "demo\<lparr>errno := 0\<rparr>" and fd = 0 and it = demo_item and d = "demo_ofd O_RDWR"] this
  show ?thesis
    by (simp add: demo_tables demo_item_11 demo_item_of_def demo_channel_of_def demo_ofd_def position_def uses_sequential_def)
qed

theorem channels_write_correct_witness:
  "\<exists>s'. channels_write demo_zvm demo 0 [1, 2] = Some (2, s')"
proof -
  have "write_source demo_zvm (demo\<lparr>errno := 0\<rparr>) (hi_inode (demo_handle 11 13 0)) [1, 2] 0 = (2, demo\<lparr>errno := 0\<rparr>)"
    by (simp add: demo_tables demo_sources)
  from channels_write_correct [OF demo_ok(1) _ _ _ _ _ refl refl _ _ _ _, where n = 2 and buf = "[1, 2]" and e = "demo_handle 11 13 0" and env = demo_zvm and ?s1.0 = "demo\<lparr>errno := 0\<rparr>" and fd = 0 and it = demo_item and d = "demo_ofd O_RDWR"] this
  show ?thesis
    by (simp add: demo_tables demo_item_11 demo_item_of_def demo_channel_of_def demo_ofd_def position_def uses_sequential_def)
qed

theorem channels_lseek_correct_witness:
  "\<exists>s'. channels_lseek demo 0 3 SEEK_SET = Some (3, s')"
  using channels_lseek_correct [OF demo_ok(1), of 0 "demo_handle 11 13 0" demo_item "demo_ofd O_RDWR" _ SEEK_SET _ 3]
  by (simp add: demo_tables demo_item_11 demo_item_of_def demo_channel_of_def uses_sequential_def seek_goal_def)

theorem channels_seek_tell_witness:
  "\<exists>s'. channels_lseek demo 0 4 SEEK_SET = Some (4, s') \<and> channels_lseek s' 0 0 SEEK_CUR = Some (4, s')"
  using channels_seek_tell [OF demo_ok(1), of 0 "demo_handle 11 13 0" demo_item "demo_ofd O_RDWR" 4]
  by (simp add: demo_tables demo_item_11 demo_item_of_def demo_channel_of_def uses_sequential_def)

theorem directory_listing_witness:
  "iterate_dir_contents demo 1 0 = Some (Some (13, Some ''.'', True))
   \<and> iterate_dir_contents demo 1 1 = Some (Some (12, Some ''..'', True))
   \<and> iterate_dir_contents demo 1 2 = Some (Some (11, Some ''xy'', False))"
proof -
  have d: "sub_dirs demo ''/dv'' = []" by code_simp
  have f: "sub_files demo ''/dv'' = [0]"
    by (simp add: sub_files_def demo_of_def demo_array_ok demo_item_of_def demo_channel_of_def) code_simp
  have n: "short_name ''/dv/xy'' = Some ''xy''" by code_simp
  have it: "items (channels_array demo) = [demo_item]" by (simp add: demo_of_def demo_array_ok)
  have dd: "dd_path (demo_dirs ! 1) = ''/dv''" "dd_parent_dir_inode (demo_dirs ! 1) = 12" by (simp_all add: demo_dirs_def)
  have e: "entry demo 1 = Some (demo_handle 13 12 1)" "dir_by_inode demo (hi_inode (demo_handle 13 12 1)) = Some (demo_dirs ! 1)"
    by (simp_all add: demo_tables demo_dir_13)
  note L = directory_listing [OF demo_ok(1) e refl refl]
  show ?thesis
    using L [THEN conjunct1] L [THEN conjunct2, THEN conjunct1] L [THEN conjunct2, THEN conjunct2, THEN spec, of 0]
    by (simp only: dd d f list.size of_nat_0 add_0_right if_True less_irrefl if_False nth_Cons_0)
       (simp add: demo_tables file_item_def it n demo_item_of_def demo_channel_of_def)
qed

definition demo_buf :: dirent_buf where
  "demo_buf = (\<lambda>_. CHR 0x00)"

lemma demo_listable: "listable 19 demo"
proof -
  have "chan_path ''/dv''" unfolding chan_path_def by (intro exI [of _ "[]"] exI [of _ "''dv''"]) (simp add: path_of_def)
  moreover have "items (channels_array demo) = [demo_item]" by (simp add: demo_of_def demo_array_ok)
  moreover have "manifest_dirs demo = demo_dirs" "num_entries (channels_array demo) = 1" by (simp_all add: demo_of_def demo_array_ok)
  ultimately show ?thesis
    using demo_chan_path by (simp add: listable_def named_def layout_ok_def inode_known_def demo_dirs_def demo_item_of_def demo_channel_of_def)
qed

theorem getdents_roundtrip_witness:
  "listable 19 demo \<and> (\<exists>k i' buf' s'. channels_getdents 19 demo 1 True demo_buf 50 = Some (int k, buf', s') \<and> k \<le> 50
     \<and> ofd s' 1 = Some ((demo_ofd O_DIRECTORY)\<lparr>ofd_offset := i'\<rparr>)
     \<and> read_dirents 19 buf' k 0 = Some (map (\<lambda>j. the (dirent_at demo 1 j)) [0..i' - 1]))"
proof -
  have e: "entry demo 1 = Some (demo_handle 13 12 1)" "dir_by_inode demo (hi_inode (demo_handle 13 12 1)) = Some (demo_dirs ! 1)"
    "hi_mount_fs (demo_handle 13 12 1) = Some (channels_ref demo)" "ofd demo 1 = Some (demo_ofd O_DIRECTORY)"
    by (simp_all add: demo_tables demo_dir_13)
  have d: "ofd_offset (demo_ofd O_DIRECTORY) = 0" by (simp add: demo_ofd_def)
  show ?thesis
    using getdents_roundtrip [OF demo_ok(1) demo_listable e(1,3,2,4), of demo_buf 50] demo_listable unfolding d by auto
qed

definition demo_start :: "unit zrt" where
  "demo_start = demo\<lparr>s_handle_slots := s_handle_slots kern_init, h_first_unused_slot := 0,
     s_open_files_array := s_open_files_array kern_init, o_first_unused_slot := 0\<rparr>"

theorem channels_filesystem_constructed_witness:
  "\<exists>s'. channels_filesystem_construct (\<lambda>_. True) (\<lambda>_. demo_rt) demo_start 7 [demo_channel] [] = Some s' \<and> sys_wf s'
     \<and> map ci_channel (items (channels_array s')) = [demo_channel]"
proof -
  have "length (create_dirs [] (map ch_name ([demo_channel] @ []))) < DIRECTORIES_MAX_NUMBER" by code_simp
  moreover have "fd_wf None demo_start"
    using fd_wf_kern_init by (simp add: fd_wf_def demo_start_def ht.hint_ok_def op.hint_ok_def handles_on_def kern_init_def)
  moreover have "\<forall>h. entry demo_start h = None" by (simp add: demo_start_def kern_init_def entry_def VERIFY_HANDLE_def)
  ultimately show ?thesis
    using channels_filesystem_constructed [of "[demo_channel]" "[]" "\<lambda>_. True" demo_start "\<lambda>_. demo_rt" 7]
    by (auto simp: demo_channel_of_def demo_chan_path)
qed

section \<open>Calls through the dispatcher\<close>

definition demo_env :: "(unit, unit, unit) tenv" where
  "demo_env = channels_env demo_zvm 19 (\<lambda>_. None) ''/''"

theorem transparent_dup_correct_witness:
  "\<exists>s'. transparent_dup demo 0 = Some (2, s') \<and> chan_wf s' \<and> entry s' 2 = entry demo 0 \<and> ofd s' 2 = ofd demo 0"
proof -
  have free: "handle_free demo 2" "\<not> handle_free demo 0" "\<not> handle_free demo 1"
    by (simp_all add: demo_of_def kern_init_def)
  then have "\<not> no_handle_left demo" unfolding no_handle_left_def by (auto intro!: exI [of _ 2])
  with transparent_dup_correct [OF demo_ok(1), of 0 "demo_handle 11 13 0" 7] obtain h s' where
    h: "transparent_dup demo 0 = Some (h, s')" "chan_wf s'" "0 \<le> h" "handle_free demo (nat h)" "\<forall>k < nat h. \<not> handle_free demo k"
      "entry s' = (entry demo)(h \<mapsto> demo_handle 11 13 0)" "ofd s' h = ofd demo 0"
    by (auto simp: demo_tables)
  have "\<not> 2 < nat h" "nat h \<noteq> 0" "nat h \<noteq> 1" using h(4,5) free by auto
  then have "h = 2" using h(3) by linarith
  with h show ?thesis by (simp add: demo_tables)
qed

theorem transparent_dup2_correct_witness:
  "\<exists>s'. transparent_dup2 demo_env demo 0 1 = Some (1, s') \<and> chan_wf s' \<and> entry s' 1 = entry demo 0 \<and> ofd s' 1 = ofd s' 0"
  using transparent_dup2_correct [OF demo_ok(1), of 0 "demo_handle 11 13 0" 7 1 demo_env demo_zvm 19]
  by (auto simp: demo_tables demo_env_def)

theorem sessions_keep_tables_witness:
  "\<exists>s'. reachable demo_env demo s' \<and> s' \<noteq> demo \<and> sys_wf s'"
proof -
  have t: "transparent_dup demo 9 = Some (-1, SET_ERRNO EBADF demo)"
    by (simp add: transparent_dup_def mm_mount_byhandle_def mount_interface_def demo_tables)
  then have "reachable demo_env demo (SET_ERRNO EBADF demo)"
    by (intro reachable.step [OF reachable.start, of _ _ "Dup 9"]) simp
  moreover have "SET_ERRNO EBADF demo \<noteq> demo" by (simp add: SET_ERRNO_def demo_of_def)
  ultimately show ?thesis
    using sessions_keep_tables [of demo_zvm 19 "\<lambda>_. None" "''/''" demo] demo_ok(2) unfolding demo_env_def by blast
qed

section \<open>The table of mounts\<close>

definition demo_root :: MountInfo where
  "demo_root = \<lparr>mi_path = ''/'', mi_expect_absolute_path = False, mi_mount = 7\<rparr>"

definition demo_tmp :: MountInfo where
  "demo_tmp = \<lparr>mi_path = ''/tmp'', mi_expect_absolute_path = False, mi_mount = 8\<rparr>"

definition demo_mounts :: mounts_t where
  "demo_mounts = \<lparr>num_entries = 2, ptr_array = [Some demo_root, Some demo_tmp], ptr_array_space = 2, available = [3], avail_ix = 0\<rparr>"

lemma demo_mounts_wf: "da_wf demo_mounts" "num_entries demo_mounts = 2"
proof -
  have "bit (3 :: 32 word) i \<longleftrightarrow> i < 2" for i
    using bit_mask_iff [of 2 i, where 'a = "32 word"] by (auto simp: mask_eq_exp_minus_1)
  then show "da_wf demo_mounts"
    by (auto simp: da_wf_def demo_mounts_def BitsToAllocWords_def less_2_cases_iff nth_Cons split: nat.splits)
qed (simp add: demo_mounts_def)

lemma demo_lookup: "mm_mountinfo_bypath demo_mounts ''/tmp/a'' = Some (1, demo_tmp)"
  by code_simp

theorem mount_lookup_longest_prefix_witness:
  "candidate demo_mounts ''/tmp/a'' 0 demo_root \<and> candidate demo_mounts ''/tmp/a'' 1 demo_tmp
   \<and> length (mi_path demo_root) \<le> length (mi_path demo_tmp)"
proof -
  have "candidate demo_mounts ''/tmp/a'' 0 demo_root"
    by (simp add: candidate_def DynArrayGet_def demo_mounts_def demo_root_def)
  with mount_lookup_longest_prefix [of demo_mounts "''/tmp/a''" 1 demo_tmp] demo_lookup show ?thesis by blast
qed

theorem mount_add_lookup_witness:
  "\<exists>mounts' s'. mm_mount_add (\<lambda>_. True) demo_mounts demo ''/tmp'' 9 False = Some (-1, mounts', s') \<and> errno s' = EBUSY"
proof -
  have "DynArrayGet demo_mounts 1 = Some demo_tmp \<and> mi_path demo_tmp = ''/tmp''"
    by (simp add: DynArrayGet_def demo_mounts_def demo_tmp_def)
  then have "(\<exists>i m. DynArrayGet demo_mounts i = Some m \<and> mi_path m = ''/tmp'') = True" by blast
  with mount_add_lookup [OF demo_mounts_wf(1) _ refl, of "\<lambda>_. True" demo "''/tmp''" 9 False] show ?thesis
    by (auto simp: demo_mounts_wf(2))
qed

theorem mount_remove_serving_witness:
  "\<exists>r mounts'. mm_mount_remove (\<lambda>_. True) demo_mounts ''/tmp/a'' = Some (r, mounts') \<and> da_wf mounts'"
  using mount_remove_serving [OF demo_mounts_wf(1) _ demo_lookup, of "\<lambda>_. True"] by (auto simp: demo_mounts_wf(2))

theorem convert_path_splits_witness:
  "mm_convert_path_to_mount demo_mounts ''/tmp/a'' = Some ''/a''"
  using convert_path_splits [OF demo_lookup] by (auto simp: demo_tmp_def)

section \<open>The memory manager\<close>

definition demo_bits :: BitArray where
  "demo_bits = \<lparr>array_size = 2, array = 1 # replicate 8191 0, array_search_pos = 0\<rparr>"

definition demo_mm :: MemoryManager where
  "demo_mm = \<lparr>heap_start_ptr = 65536, heap_brk = 131072, heap_size = 1048576, heap_lowest_mmap_addr = 1048576,
      bitarray = demo_bits, mm_errno = 0\<rparr>"

lemma demo_page_used: "i < MAX_MMAP_PAGES_COUNT \<Longrightarrow> page_used demo_mm i \<longleftrightarrow> i = 0"
proof -
  assume "i < MAX_MMAP_PAGES_COUNT"
  then have "i div 8 < 8192" by (intro less_mult_imp_div_less) simp
  then show ?thesis
    by (cases "i div 8") (auto simp: demo_mm_def demo_bits_def ba_used_def bit_1_iff)
qed

lemma demo_mm_wf: "mm_wf demo_mm"
  using demo_page_used
  by (auto simp: mm_wf_def)
     (auto simp: demo_mm_def demo_bits_def MEMORY_PAGE_FROM_INDEX_def MMAP_HIGHEST_PAGE_ADDR_def HEAP_MAX_ADDR_def)

definition demo_files :: "unit file_env" where
  "demo_files = \<lparr>fe_fstat = (\<lambda>_ w. ((Some 2000000, 0), w)), fe_lseek = (\<lambda>_ off _ w. (off, w)), fe_read = (\<lambda>_ _ n w. (n, w))\<rparr>"

theorem bitarray_search_least_witness:
  "\<exists>r ba. bitarray_search_emptybit_sequence_begin demo_bits 0 3 = Some (r, ba) \<and> array ba = array demo_bits"
  using bitarray_search_least [of 3 demo_bits 0] by (auto simp: demo_bits_def)

theorem mmap_anonymous_correct_witness:
  "\<exists>r m'. memory_mmap demo_files demo_mm () 0 2000000 (PROT_READ OR PROT_WRITE) MAP_ANONYMOUS (-1) 0 = Some (r, m', ())
     \<and> mm_wf m' \<and> r = MAP_FAILED \<and> mm_errno m' = ENOMEM"
proof -
  have p: "pages_of 2000000 = 31" by (simp add: pages_of_def)
  have "\<not> (\<exists>k. free_block demo_mm 31 k)" by (auto simp: free_block_def clear_run_def demo_mm_def demo_bits_def)
  with mmap_anonymous_correct [OF demo_mm_wf, of "-1" "PROT_READ OR PROT_WRITE" MAP_ANONYMOUS 2000000 31 demo_files "()" 0 0] p
  show ?thesis by (auto simp: CHECK_FLAG_def)
qed

theorem brk_and_mappings_disjoint_witness:
  "\<exists>m. mem_step demo_mm m \<and> heap_brk m = 200000 \<and> heap_brk m \<le> page_addr m 0"
proof -
  let ?m = "snd (memory_sysbrk demo_mm 200000)"
  have m: "?m = demo_mm\<lparr>heap_brk := 200000, mm_errno := 0\<rparr>" by (simp add: memory_sysbrk_def demo_mm_def)
  have step: "mem_step demo_mm ?m" by (rule mem_step.brk)
  have "page_used ?m 0" using demo_page_used [of 0] by (simp add: m)
  with brk_and_mappings_disjoint [of demo_mm ?m 0] step demo_mm_wf have "heap_brk ?m \<le> page_addr ?m 0"
    by (auto simp: demo_mm_def)
  moreover have "heap_brk ?m = 200000" by (simp add: m)
  ultimately show ?thesis using step by blast
qed

theorem memory_init_correct_witness:
  "\<exists>m'. memory_init demo_mm (replicate (MAX_MMAP_PAGES_COUNT div 8) 0) 65536 1048576 70000 = Some m' \<and> mm_wf m' \<and> heap_brk m' = 70000"
  using memory_init_correct [of 65536 70000 1048576 demo_mm] by auto

theorem munmap_releases_witness:
  "\<exists>m'. memory_munmap demo_mm (page_addr demo_mm 1) (2 * PAGE_SIZE) = Some (0, m') \<and> page_used m' 0"
proof -
  have low: "MMAP_LOWEST_PAGE_ADDR demo_mm \<le> page_addr demo_mm (0 + 2 - 1)"
    by (simp add: MMAP_LOWEST_PAGE_ADDR_def MMAP_REGION_SIZE_ALIGNED_def MEMORY_PAGE_FROM_INDEX_def MMAP_HIGHEST_PAGE_ADDR_def
        ROUND_UP_def HEAP_MAX_ADDR_def demo_mm_def)
  obtain m' where "memory_munmap demo_mm (page_addr demo_mm (0 + 2 - 1)) (2 * PAGE_SIZE) = Some (0, m')"
    and u: "page_used m' = (\<lambda>j. page_used demo_mm j \<and> \<not> (0 + 2 - 1 \<le> j \<and> j < 0 + 2 * 2 - 1))"
    using munmap_releases [OF demo_mm_wf _ _ low] by auto
  moreover have "page_used m' 0" unfolding u using demo_page_used [of 0] by simp
  ultimately show ?thesis by auto
qed

theorem mmap_file_without_room_witness:
  "\<exists>m'. memory_mmap demo_files demo_mm () 0 0 PROT_READ 0 3 0 = Some (0, m', ()) \<and> heap_lowest_mmap_addr m' = 0"
proof -
  have p: "pages_of (nat 2000000) = 31" by (simp add: pages_of_def)
  have "\<forall>k. \<not> free_block demo_mm 31 k" by (auto simp: free_block_def clear_run_def demo_mm_def demo_bits_def)
  with mmap_file_without_room [OF demo_mm_wf, of PROT_READ 3 demo_files "()" 2000000 "()" 0 0 0 0] p
  show ?thesis by (auto simp: CHECK_FLAG_def demo_files_def demo_mm_def)
qed

section \<open>Devices, directories and the growable array\<close>

theorem write_dev_full_witness:
  "\<exists>s'. channels_write demo_zvm (demo_of ''/dev/full'') 0 [1] = Some (-1, s') \<and> errno s' = -1"
  using write_dev_full [OF demo_wf(1) [of "''/dev/full''"], where fd = 0 and e = "demo_handle 11 13 0" and it = "demo_item_of ''/dev/full''"
      and d = "demo_ofd O_RDWR" and buf = "[1]" and env = demo_zvm]
  by (auto simp: demo_tables demo_item_11 demo_item_of_def demo_channel_of_def demo_ofd_def position_def uses_sequential_def)

theorem directory_io_aborts_witness:
  "channels_read demo_zvm demo 1 10 = None \<and> channels_write demo_zvm demo 1 [1] = None"
  using directory_io_aborts [OF demo_ok(1), of 1 "demo_handle 13 12 1"] by (simp add: demo_tables demo_dir_13)

theorem dyn_array_store_witness:
  "\<exists>r d'. DynArraySet (\<lambda>_. True) demo_mounts 5 (Some demo_root) = Some (r, d') \<and> da_wf d'"
  using dyn_array_store [OF demo_mounts_wf(1), of 5 "\<lambda>_. True" "Some demo_root"] by auto

end
