(* ===== verification/ConfParser.thy ===== *)
theory ConfParser
  imports PathUtils
begin

text \<open>
  The parser of the configuration (\<open>lib/helpers/conf_parser.c\<close>) with the keys of a section
  (\<open>lib/helpers/conf_keys.c\<close>). A section is a piece of a NUL-terminated buffer; pointers into the buffer
  are positions, and a pointer with a length is the substr of the buffer it stands for. Reading before the
  buffer, writing past a fixed array and a failed assertion are \<open>None\<close>. \<open>uint16_t\<close> lengths wrap around.

  A record under construction is a local variable of the source that is not cleared: its cells that
  were not stored to are \<open>None\<close>.
\<close>

abbreviation (input) NVRAM_MAX_RECORDS_IN_SECTION :: nat where "NVRAM_MAX_RECORDS_IN_SECTION \<equiv> 100"
abbreviation (input) NVRAM_MAX_KEYS_COUNT_IN_RECORD :: nat where "NVRAM_MAX_KEYS_COUNT_IN_RECORD \<equiv> 5"
abbreviation (input) COMMENT_CHAR :: char where "COMMENT_CHAR \<equiv> CHR 0x23"
abbreviation (input) KEY_VALUE_DELIMETER :: char where "KEY_VALUE_DELIMETER \<equiv> CHR 0x3D"
abbreviation (input) COMMA :: char where "COMMA \<equiv> CHR 0x2C"
abbreviation (input) NEWLINE :: char where "NEWLINE \<equiv> CHR 0x0A"
abbreviation (input) NUL :: char where "NUL \<equiv> CHR 0x00"

section \<open>Keys\<close>

record KeyList =
  keys :: "string list"
  optional_default_values :: "string option list"

definition keys_construct :: KeyList where
  "keys_construct = \<lparr>keys = [], optional_default_values = []\<rparr>"

definition add_key_to_list :: "KeyList \<Rightarrow> string \<Rightarrow> string option \<Rightarrow> (int \<times> KeyList) option" where
  "add_key_to_list l key optional_default_value =
     (if length (keys l) < NVRAM_MAX_KEYS_COUNT_IN_RECORD
      then Some (int (length (keys l)),
                 \<lparr>keys = keys l @ [key], optional_default_values = optional_default_values l @ [optional_default_value]\<rparr>)
      else None)"

definition key_find :: "KeyList \<Rightarrow> string \<Rightarrow> int" where
  "key_find l key =
     (case first_index (\<lambda>i. strncmp_eq key (keys l ! i) (length (keys l ! i)) \<and> length key = length (keys l ! i))
             (length (keys l)) 0 of
        Some i \<Rightarrow> int i
      | None \<Rightarrow> -1)"

section \<open>Helpers\<close>

definition substr :: "string \<Rightarrow> nat \<Rightarrow> nat \<Rightarrow> string" where
  "substr buf p n = map (\<lambda>i. char_at buf (p + i)) [0..<n]"

text \<open>\<open>strchr(STRIPING_CHARS, chr)\<close> finds the terminating NUL too.\<close>

definition IS_IT_CHAR_TO_STRIP :: "char \<Rightarrow> bool" where
  "IS_IT_CHAR_TO_STRIP c = (c = CHR 0x20 \<or> c = CHR 0x09 \<or> c = NEWLINE \<or> c = NUL)"

text \<open>\<open>strchr(buf + i, c)\<close>.\<close>

function strchr :: "string \<Rightarrow> nat \<Rightarrow> char \<Rightarrow> nat option" where
  "strchr buf i c = (if char_at buf i = c then Some i else if char_at buf i = NUL then None else strchr buf (Suc i) c)"
  by pat_completeness auto
termination
  by (relation "measure (\<lambda>(buf, i, c). length buf - i)") (auto simp: char_at_def split: if_splits)

declare strchr.simps [simp del]

text \<open>The loop from the right end: it stops at index 0 without looking at it.\<close>

fun strip_end :: "string \<Rightarrow> nat \<Rightarrow> nat \<Rightarrow> nat" where
  "strip_end buf p 0 = 0"
| "strip_end buf p (Suc e) = (if IS_IT_CHAR_TO_STRIP (char_at buf (p + Suc e)) then strip_end buf p e else Suc e)"

definition strip_all :: "string \<Rightarrow> int \<Rightarrow> int \<Rightarrow> (int \<times> nat) option" where
  "strip_all buf p len =
     (if p < 0 \<and> 0 < len then None
      else let begin = (case first_index (\<lambda>i. \<not> IS_IT_CHAR_TO_STRIP (char_at buf (nat p + i))) (nat len) 0 of
                          Some i \<Rightarrow> int i | None \<Rightarrow> int (nat len));
               end = (if 0 < len then int (strip_end buf (nat p) (nat (len - 1))) else len - 1);
               striped_len = (end - begin + 1) mod 2 ^ 16
           in if len < striped_len then None else Some (p + begin, nat striped_len))"

text \<open>\<open>Some None\<close> is \<open>-1\<close>; otherwise key and value.\<close>

definition extract_key_value :: "string \<Rightarrow> int \<Rightarrow> int \<Rightarrow> (string \<times> string) option option" where
  "extract_key_value buf src src_len =
     (case strchr buf (nat src) KEY_VALUE_DELIMETER of
        None \<Rightarrow> Some None
      | Some delim \<Rightarrow>
          if src + src_len < int delim then Some None
          else do {
            (key, key_len) \<leftarrow> strip_all buf src (int delim - src);
            (val, val_len) \<leftarrow> strip_all buf (int delim + 1) (src_len - (int delim - src) - 1);
            Some (Some (substr buf (nat key) key_len, substr buf (nat val) val_len)) })"

section \<open>Records\<close>

record ParsedParam =
  key_index :: int
  pp_val :: string

type_synonym ParsedRecord = "ParsedParam option list"

record internal_parse_data =
  ip_key :: string
  ip_val :: string

text \<open>The loop over the parameters; \<open>Some None\<close> is the NULL returned on an unknown key.\<close>

fun get_parsed_record :: "KeyList \<Rightarrow> ParsedRecord \<Rightarrow> internal_parse_data option list \<Rightarrow> ParsedRecord option option" where
  "get_parsed_record kl record [] = Some (Some record)"
| "get_parsed_record kl record (None # ps) = None"
| "get_parsed_record kl record (Some d # ps) =
     (let k = key_find kl (ip_key d)
      in if k < 0 then Some None
         else get_parsed_record kl (record[nat k := Some \<lparr>key_index = k, pp_val = ip_val d\<rparr>]) ps)"

text \<open>The loop that stores the default of an absent optional key and counts it.\<close>

fun fill_defaults :: "string list \<Rightarrow> string option list \<Rightarrow> internal_parse_data option list \<Rightarrow> nat
    \<Rightarrow> internal_parse_data option list \<times> nat" where
  "fill_defaults (k # ks) (d # ds) (t # ts) n =
     (let (t', n') = (case d of
                        Some v \<Rightarrow> if t = None then (Some \<lparr>ip_key = k, ip_val = v\<rparr>, n + 1) else (t, n)
                      | None \<Rightarrow> (t, n));
          (ts', n'') = fill_defaults ks ds ts n'
      in (t' # ts', n''))"
| "fill_defaults _ _ ts n = (ts, n)"

definition no_params :: "internal_parse_data option list" where
  "no_params = replicate NVRAM_MAX_KEYS_COUNT_IN_RECORD None"

text \<open>The records after it; the caller then starts with no parameters again.\<close>

definition handle_parsed_params :: "KeyList \<Rightarrow> internal_parse_data option list \<Rightarrow> nat \<Rightarrow> ParsedRecord list \<Rightarrow> ParsedRecord list option" where
  "handle_parsed_params kl temp parsed_params_count records =
     (if 0 < parsed_params_count then
        (let (temp', n) = fill_defaults (keys kl) (optional_default_values kl) temp parsed_params_count
         in if length (keys kl) = n then
              (case get_parsed_record kl (replicate NVRAM_MAX_KEYS_COUNT_IN_RECORD None) (take n temp') of
                 None \<Rightarrow> None
               | Some None \<Rightarrow> Some records
               | Some (Some record) \<Rightarrow>
                   if length records < NVRAM_MAX_RECORDS_IN_SECTION then Some (records @ [record]) else None)
            else Some records)
      else Some records)"

section \<open>The state machine over the text of a section\<close>

datatype ParsingStatus = EStComment | EStProcessing | EStToken

record parse_state =
  st :: ParsingStatus
  st_new :: ParsingStatus
  new_record_flag :: bool
  lex_cursor :: int
  lex_length :: int
  parsed_params_count :: nat
  temp_keys_parsed :: "internal_parse_data option list"
  records :: "ParsedRecord list"

definition parse_init :: parse_state where
  "parse_init = \<lparr>st = EStProcessing, st_new = EStProcessing, new_record_flag = False, lex_cursor = 0, lex_length = 0,
     parsed_params_count = 0, temp_keys_parsed = no_params, records = []\<rparr>"

text \<open>The \<open>if\<close> chain at the head of the loop body.\<close>

definition next_status :: "char \<Rightarrow> nat \<Rightarrow> nat \<Rightarrow> parse_state \<Rightarrow> parse_state" where
  "next_status c cursor len ps =
     (if c = COMMENT_CHAR then
        (if st ps = EStProcessing then ps\<lparr>st_new := EStComment, st := EStToken\<rparr> else ps\<lparr>st := EStComment\<rparr>)
      else if (st ps \<noteq> EStComment \<and> c = COMMA) \<or> c = NEWLINE then
        (if st ps = EStProcessing then
           (if c = NEWLINE then ps\<lparr>st := EStToken, new_record_flag := True\<rparr> else ps\<lparr>st := EStToken, st_new := EStProcessing\<rparr>)
         else ps\<lparr>st := EStProcessing, lex_cursor := int cursor + 1, lex_length := -1\<rparr>)
      else if int cursor = int len - 1 then ps\<lparr>lex_length := lex_length ps + 1, st := EStToken\<rparr>
      else ps)"

text \<open>What is done with the token at position \<open>p\<close>.\<close>

definition store_token :: "string \<Rightarrow> KeyList \<Rightarrow> int \<Rightarrow> int \<Rightarrow> parse_state \<Rightarrow> parse_state option" where
  "store_token buf kl p len ps = do {
     (striped_token, striped_token_len) \<leftarrow> strip_all buf p len;
     (if 0 < striped_token_len then do {
        kv \<leftarrow> extract_key_value buf striped_token (int striped_token_len);
        Some (case kv of
                None \<Rightarrow> ps
              | Some (k, v) \<Rightarrow>
                  (let i = key_find kl k
                   in if 0 \<le> i \<and> temp_keys_parsed ps ! nat i = None
                      then ps\<lparr>temp_keys_parsed := (temp_keys_parsed ps)[nat i := Some \<lparr>ip_key = k, ip_val = v\<rparr>],
                              parsed_params_count := parsed_params_count ps + 1\<rparr>
                      else ps)) }
      else Some ps) }"

definition end_record :: "KeyList \<Rightarrow> parse_state \<Rightarrow> parse_state option" where
  "end_record kl ps = do {
     rs \<leftarrow> handle_parsed_params kl (temp_keys_parsed ps) (parsed_params_count ps) (records ps);
     Some (ps\<lparr>records := rs, parsed_params_count := 0, temp_keys_parsed := no_params\<rparr>) }"

text \<open>One turn of the loop; the section starts at \<open>base\<close>.\<close>

definition parse_step :: "string \<Rightarrow> nat \<Rightarrow> nat \<Rightarrow> KeyList \<Rightarrow> nat \<Rightarrow> parse_state \<Rightarrow> parse_state option" where
  "parse_step buf base len kl cursor ps =
     (let ps1 = next_status (char_at buf (base + cursor)) cursor len ps
      in case st ps1 of
           EStProcessing \<Rightarrow> Some (ps1\<lparr>lex_length := lex_length ps1 + 1\<rparr>)
         | EStComment \<Rightarrow> Some (ps1\<lparr>lex_cursor := -1, lex_length := 0\<rparr>)
         | EStToken \<Rightarrow> do {
             ps2 \<leftarrow> store_token buf kl (int base + lex_cursor ps1) (lex_length ps1) ps1;
             ps3 \<leftarrow> (if new_record_flag ps2 then map_option (\<lambda>q. q\<lparr>new_record_flag := False\<rparr>) (end_record kl ps2) else Some ps2);
             Some (ps3\<lparr>st := st_new ps3, lex_cursor := int cursor + 1, lex_length := 0\<rparr>) })"

fun parse_loop :: "string \<Rightarrow> nat \<Rightarrow> nat \<Rightarrow> KeyList \<Rightarrow> nat list \<Rightarrow> parse_state \<Rightarrow> parse_state option" where
  "parse_loop buf base len kl [] ps = Some ps"
| "parse_loop buf base len kl (c # cs) ps = Option.bind (parse_step buf base len kl c ps) (parse_loop buf base len kl cs)"

text \<open>The loop body runs once even on an empty text.\<close>

definition get_parsed_records :: "string \<Rightarrow> nat \<Rightarrow> nat \<Rightarrow> KeyList \<Rightarrow> ParsedRecord list option" where
  "get_parsed_records buf base len kl = do {
     ps \<leftarrow> parse_loop buf base len kl [0..<max 1 len] parse_init;
     map_option records (end_record kl ps) }"

section \<open>Command line arguments and escapes\<close>

record arg_state =
  arg_val :: "nat option" \<comment> \<open>where the argument being read starts\<close>
  arg_args :: "string list"

definition SAVE_PARSED_ARG :: "nat \<Rightarrow> string \<Rightarrow> nat \<Rightarrow> nat \<Rightarrow> arg_state \<Rightarrow> arg_state" where
  "SAVE_PARSED_ARG array_len buf p vallen a =
     (if length (arg_args a) < array_len
      then \<lparr>arg_val = None, arg_args = arg_args a @ [substr buf p (vallen mod 2 ^ 16)]\<rparr> else a)"

text \<open>\<open>strchrnul(buf + i, c)\<close>.\<close>

definition strchrnul :: "string \<Rightarrow> nat \<Rightarrow> char \<Rightarrow> nat" where
  "strchrnul buf i c = (case strchr buf i c of Some j \<Rightarrow> j | None \<Rightarrow> i + length (takeWhile (\<lambda>x. x \<noteq> NUL) (drop i buf)))"

function parse_args_loop :: "nat \<Rightarrow> string \<Rightarrow> nat \<Rightarrow> nat \<Rightarrow> arg_state \<Rightarrow> nat \<times> arg_state" where
  "parse_args_loop array_len buf bufsize index a =
     (if index < bufsize then
        (let c = char_at buf index
         in if c = CHR 0x20 \<or> c = CHR 0x09 then
              parse_args_loop array_len buf bufsize (index + 1)
                (case arg_val a of Some p \<Rightarrow> SAVE_PARSED_ARG array_len buf p (index - p) a | None \<Rightarrow> a)
            else if c = CHR 0x22 \<and> arg_val a = None then
              (if index + 1 < bufsize then
                 (let q = strchrnul buf (index + 1) (CHR 0x22);
                      vallen = (q - (index + 1)) mod 2 ^ 16
                  in parse_args_loop array_len buf bufsize (index + (vallen + 1) + 1)
                       (SAVE_PARSED_ARG array_len buf (index + 1) vallen (a\<lparr>arg_val := Some (index + 1)\<rparr>)))
               else parse_args_loop array_len buf bufsize (index + 1) (a\<lparr>arg_val := Some index\<rparr>))
            else if arg_val a = None then parse_args_loop array_len buf bufsize (index + 1) (a\<lparr>arg_val := Some index\<rparr>)
            else parse_args_loop array_len buf bufsize (index + 1) a)
      else (index, a))"
  by pat_completeness auto
termination
  by (relation "measure (\<lambda>(n, buf, bufsize, index, a). bufsize - index)") auto

declare parse_args_loop.simps [simp del]

definition parse_args :: "nat \<Rightarrow> string \<Rightarrow> nat \<Rightarrow> string list" where
  "parse_args array_len buf bufsize =
     (case parse_args_loop array_len buf bufsize 0 \<lparr>arg_val = None, arg_args = []\<rparr> of
        (index, a) \<Rightarrow> arg_args (case arg_val a of Some p \<Rightarrow> SAVE_PARSED_ARG array_len buf p (index - p) a | None \<Rightarrow> a))"

text \<open>The three \<open>if\<close>s of the macro; on any other character the variable stays indeterminate.\<close>

definition GET_VALIDATED_HEX_CHAR_TO_INT :: "char \<Rightarrow> nat option" where
  "GET_VALIDATED_HEX_CHAR_TO_INT hexchar =
     (let n = of_char hexchar
      in if 0x30 \<le> n \<and> n \<le> 0x39 then Some (n - 0x30)
         else if 0x61 \<le> n \<and> n \<le> 0x66 then Some (10 + n - 0x61)
         else if 0x41 \<le> n \<and> n \<le> 0x46 then Some (10 + n - 0x41)
         else None)"

definition str_hex_to_int_not_using_locale :: "char \<Rightarrow> char \<Rightarrow> char option" where
  "str_hex_to_int_not_using_locale hi lo = do {
     temp \<leftarrow> GET_VALIDATED_HEX_CHAR_TO_INT hi;
     res \<leftarrow> GET_VALIDATED_HEX_CHAR_TO_INT lo;
     Some (char_of ((16 * temp) mod 256 + res)) }"

text \<open>\<open>MATCH_2ESCAPING_CHARS\<close> expands to a conditional expression without parentheses around it: in the
  condition of the loop \<open>... ? 1 : 0 && MATCH_2HEX_DIGITS(...)\<close> the test of the digits belongs to the
  branch that is 0 anyway, and is not made.\<close>

function unescape_loop :: "string \<Rightarrow> nat \<Rightarrow> nat \<Rightarrow> string option" where
  "unescape_loop source sourcelen i =
     (if i < sourcelen then
        (if i + 3 < sourcelen \<and> char_at source i = CHR 0x5C \<and> char_at source (i + 1) = CHR 0x78
         then do {
           c \<leftarrow> str_hex_to_int_not_using_locale (char_at source (i + 2)) (char_at source (i + 3));
           map_option (Cons c) (unescape_loop source sourcelen (i + 4)) }
         else map_option (Cons (char_at source i)) (unescape_loop source sourcelen (i + 1)))
      else Some [])"
  by pat_completeness auto
termination
  by (relation "measure (\<lambda>(source, n, i). n - i)") auto

declare unescape_loop.simps [simp del]

text \<open>The characters put into \<open>dest\<close> before the final NUL, and their number.\<close>

definition unescape_string_copy_to_dest :: "string \<Rightarrow> nat \<Rightarrow> (int \<times> string) option" where
  "unescape_string_copy_to_dest source sourcelen =
     map_option (\<lambda>dest. (int (length dest), dest)) (unescape_loop source sourcelen 0)"

text \<open>A copy reads every cell of the record, those never stored to included.\<close>

definition copy_record :: "ParsedRecord \<Rightarrow> ParsedRecord option" where
  "copy_record record = (if None \<in> set record then None else Some record)"

end
