(* ===== verification/ConfProps.thy ===== *)
theory ConfProps
  imports ConfParser
begin

text \<open>
  What the configuration parser does with well-formed sections, with comments, with blank tokens, with
  command lines and with escapes.
\<close>

section \<open>Slices of the buffer\<close>

lemma length_substr [simp]: "length (substr buf p n) = n"
  by (simp add: substr_def)

lemma nth_substr [simp]: "i < n \<Longrightarrow> substr buf p n ! i = char_at buf (p + i)"
  by (simp add: substr_def)

lemma substr_append: "substr buf p (m + n) = substr buf p m @ substr buf (p + m) n"
  by (rule nth_equalityI) (auto simp: nth_append)

text \<open>\<open>has buf p w\<close>: the buffer holds \<open>w\<close> at position \<open>p\<close>.\<close>

definition has :: "string \<Rightarrow> nat \<Rightarrow> string \<Rightarrow> bool" where
  "has buf p w \<longleftrightarrow> substr buf p (length w) = w"

lemma has_nth: "has buf p w \<Longrightarrow> i < length w \<Longrightarrow> char_at buf (p + i) = w ! i"
  by (metis has_def nth_substr)

lemma has_append [simp]: "has buf p (u @ w) \<longleftrightarrow> has buf p u \<and> has buf (p + length u) w"
  by (auto simp: has_def substr_append)

lemma has_Nil [simp]: "has buf p []"
  by (simp add: has_def substr_def)

lemma has_Cons [simp]: "has buf p (c # w) \<longleftrightarrow> char_at buf p = c \<and> has buf (Suc p) w"
  using has_append [of buf p "[c]" w] by (simp add: has_def substr_def)

lemma has_substr: "has buf p w \<Longrightarrow> n = length w \<Longrightarrow> substr buf p n = w"
  by (simp add: has_def)

lemma has_within: "has (pre @ w @ post) (length pre) w"
  unfolding has_def by (rule nth_equalityI) (simp_all add: char_at_def nth_append)

lemma strchr_has:
  assumes "has buf p (w @ [c])" "c \<notin> set w" "NUL \<notin> set w"
  shows "strchr buf p c = Some (p + length w)"
  using assms by (induction w arbitrary: p) (auto simp: strchr.simps [of buf])

lemma strchr_ge: "strchr buf p c = Some d \<Longrightarrow> p \<le> d \<and> char_at buf d = c"
  by (induction buf p c rule: strchr.induct) (auto simp: strchr.simps [of _ p for p] split: if_splits dest: Suc_leD)

section \<open>Stripping\<close>

text \<open>Text whose ends are not stripped.\<close>

definition tight :: "string \<Rightarrow> bool" where
  "tight w \<longleftrightarrow> w \<noteq> [] \<longrightarrow> \<not> IS_IT_CHAR_TO_STRIP (hd w) \<and> \<not> IS_IT_CHAR_TO_STRIP (last w)"

lemma strip_end_stop: "\<not> IS_IT_CHAR_TO_STRIP (char_at buf (p + e)) \<Longrightarrow> strip_end buf p e = e"
  by (cases e) simp_all

lemma strip_all_tight:
  assumes h: "has buf p w" and t: "tight w" and n: "length w < 2 ^ 16"
  shows "strip_all buf (int p) (int (length w)) = Some (int p, length w)"
proof (cases "w = []")
  case True
  then show ?thesis by (simp add: strip_all_def first_index_step)
next
  case False
  then have l: "0 < length w" by simp
  have first: "\<not> IS_IT_CHAR_TO_STRIP (char_at buf p)"
    using has_nth [OF h l] t False by (simp add: tight_def hd_conv_nth)
  have last: "\<not> IS_IT_CHAR_TO_STRIP (char_at buf (p + (length w - 1)))"
  proof -
    have "char_at buf (p + (length w - 1)) = last w"
      using has_nth [OF h, of "length w - 1"] l False by (metis diff_less last_conv_nth zero_less_one)
    then show ?thesis using t False by (simp add: tight_def)
  qed
  have e: "strip_end buf p (length w - 1) = length w - 1"
    by (rule strip_end_stop [OF last])
  have b: "first_index (\<lambda>i. \<not> IS_IT_CHAR_TO_STRIP (char_at buf (p + i))) (length w) 0 = Some 0"
    using first l by (simp add: first_index_step)
  obtain m where m: "length w = Suc m" using l by (cases "length w") auto
  have "strip_end buf p m = m" using e m by simp
  moreover have "nat (1 + int m) = Suc m" "(int m + 1) mod 65536 = int m + 1" using n m by simp_all
  ultimately show ?thesis using b by (simp add: strip_all_def m)
qed

lemma strip_end_blank: "(\<And>i. i < n \<Longrightarrow> IS_IT_CHAR_TO_STRIP (char_at buf (p + i))) \<Longrightarrow> e < n \<Longrightarrow> strip_end buf p e = 0"
proof (induction e)
  case (Suc e)
  then show ?case using Suc.prems(1) [of "Suc e"] by simp
qed simp

lemma strip_all_blank:
  assumes "\<And>i. i < n \<Longrightarrow> IS_IT_CHAR_TO_STRIP (char_at buf (p + i))" "2 \<le> n" "n < 2 ^ 15"
  shows "strip_all buf (int p) (int n) = None"
proof -
  have b: "first_index (\<lambda>i. \<not> IS_IT_CHAR_TO_STRIP (char_at buf (p + i))) n 0 = None"
  proof (rule ccontr)
    assume "first_index (\<lambda>i. \<not> IS_IT_CHAR_TO_STRIP (char_at buf (p + i))) n 0 \<noteq> None"
    then obtain i where "first_index (\<lambda>i. \<not> IS_IT_CHAR_TO_STRIP (char_at buf (p + i))) n 0 = Some i" by auto
    with first_index_SomeD [OF this] assms(1) show False by blast
  qed
  have "nat (int n - 1) = n - 1" by simp
  moreover have "strip_end buf p (n - 1) = 0" using assms(2) by (intro strip_end_blank [OF assms(1)]) auto
  moreover have "(1 - int n) mod 65536 = 65537 - int n" 
  proof -
    have "(1 - int n) mod 65536 = (1 - int n + 65536) mod 65536" by (rule mod_add_self2 [symmetric])
    also have "\<dots> = 65537 - int n" using assms(2,3) by (subst mod_pos_pos_trivial) auto
    finally show ?thesis .
  qed
  ultimately show ?thesis using b assms(2,3) by (simp add: strip_all_def)
qed

section \<open>Tokens\<close>

definition word_ok :: "string \<Rightarrow> bool" where
  "word_ok w \<longleftrightarrow> tight w \<and> set w \<inter> {COMMENT_CHAR, COMMA, NEWLINE, NUL} = {}"

definition key_ok :: "string \<Rightarrow> bool" where
  "key_ok k \<longleftrightarrow> k \<noteq> [] \<and> word_ok k \<and> KEY_VALUE_DELIMETER \<notin> set k"

abbreviation pair_text :: "string \<Rightarrow> string \<Rightarrow> string" where
  "pair_text k v \<equiv> k @ KEY_VALUE_DELIMETER # v"

lemma tight_pair: "key_ok k \<Longrightarrow> word_ok v \<Longrightarrow> tight (pair_text k v)"
  by (auto simp: key_ok_def word_ok_def tight_def IS_IT_CHAR_TO_STRIP_def)

lemma extract_pair:
  assumes h: "has buf p (pair_text k v)" and k: "key_ok k" and v: "word_ok v" and n: "length (pair_text k v) < 2 ^ 16"
  shows "extract_key_value buf (int p) (int (length (pair_text k v))) = Some (Some (k, v))"
proof -
  have hk: "has buf p k" and hv: "has buf (p + length k + 1) v" using h by simp_all
  have d: "strchr buf p KEY_VALUE_DELIMETER = Some (p + length k)"
    using h k by (intro strchr_has) (auto simp: key_ok_def word_ok_def)
  have sk: "strip_all buf (int p) (int (length k)) = Some (int p, length k)"
    using strip_all_tight [OF hk] k n by (simp add: key_ok_def word_ok_def)
  have sv: "strip_all buf (int (p + length k + 1)) (int (length v)) = Some (int (p + length k + 1), length v)"
    using strip_all_tight [OF hv] v n by (simp add: word_ok_def)
  have e: "int (p + length k) + 1 = int (p + length k + 1)" "int (p + length k) - int p = int (length k)"
    "int (length (pair_text k v)) - int (length k) - 1 = int (length v)" by simp_all
  have le: "\<not> int p + int (length (pair_text k v)) < int (p + length k)" by simp
  show ?thesis
    using le by (simp only: extract_key_value_def nat_int d option.case if_False e sk sv bind.bind_lunit prod.case has_substr [OF hk] has_substr [OF hv])
qed

text \<open>A parameter that no earlier one of the record names is stored and counted.\<close>

definition put :: "KeyList \<Rightarrow> string \<Rightarrow> string \<Rightarrow> internal_parse_data option list \<times> nat \<Rightarrow> internal_parse_data option list \<times> nat" where
  "put kl k v tn =
     (let i = key_find kl k
      in if 0 \<le> i \<and> fst tn ! nat i = None then ((fst tn)[nat i := Some \<lparr>ip_key = k, ip_val = v\<rparr>], snd tn + 1) else tn)"

lemma store_pair:
  assumes h: "has buf p (pair_text k v)" and k: "key_ok k" and v: "word_ok v" and n: "length (pair_text k v) < 2 ^ 16"
    and tn: "put kl k v (temp_keys_parsed ps, parsed_params_count ps) = (t, m)"
  shows "store_token buf kl (int p) (int (length (pair_text k v))) ps = Some (ps\<lparr>temp_keys_parsed := t, parsed_params_count := m\<rparr>)"
  using strip_all_tight [OF h tight_pair [OF k v] n] extract_pair [OF h k v n] tn
  by (auto simp: store_token_def put_def Let_def split: if_splits)

text \<open>A token without a delimiter, such as the header of a section, is passed over.\<close>

lemma store_no_pair:
  assumes h: "has buf p w" and w: "word_ok w" "KEY_VALUE_DELIMETER \<notin> set w" "length w < 2 ^ 16"
    and nx: "char_at buf (p + length w) \<noteq> KEY_VALUE_DELIMETER"
  shows "store_token buf kl (int p) (int (length w)) ps = Some ps"
proof -
  have s: "strip_all buf (int p) (int (length w)) = Some (int p, length w)"
    using strip_all_tight [OF h _ w(3)] w(1) by (simp add: word_ok_def)
  have "p + length w < d" if d: "strchr buf p KEY_VALUE_DELIMETER = Some d" for d
  proof (rule ccontr)
    assume "\<not> p + length w < d"
    moreover note strchr_ge [OF d]
    ultimately have "d < p + length w" using nx by (cases "d = p + length w") auto
    with strchr_ge [OF d] has_nth [OF h, of "d - p"] have "KEY_VALUE_DELIMETER = w ! (d - p)" "d - p < length w" by auto
    then show False using w(2) by (metis nth_mem)
  qed
  then have "extract_key_value buf (int p) (int (length w)) = Some None"
    by (auto simp: extract_key_value_def split: option.split)
  then show ?thesis using s by (simp add: store_token_def)
qed

section \<open>The state machine\<close>

lemma parse_loop_append:
  "parse_loop buf base len kl (xs @ ys) ps = Option.bind (parse_loop buf base len kl xs ps) (parse_loop buf base len kl ys)"
proof (induction xs arbitrary: ps)
  case (Cons x xs)
  then show ?case by (cases "parse_step buf base len kl x ps") simp_all
qed simp

lemma parse_loop_upt:
  "c \<le> d \<Longrightarrow> d \<le> e \<Longrightarrow> parse_loop buf base len kl [c..<e] ps
     = Option.bind (parse_loop buf base len kl [c..<d] ps) (parse_loop buf base len kl [d..<e])"
  by (metis parse_loop_append upt_add_eq_append le_iff_add)

text \<open>The state before a token at \<open>c\<close>; \<open>nxt\<close> is the status that the end of the token restores.\<close>

definition pst :: "ParsingStatus \<Rightarrow> ParsingStatus \<Rightarrow> nat \<Rightarrow> internal_parse_data option list \<Rightarrow> nat \<Rightarrow> ParsedRecord list \<Rightarrow> parse_state" where
  "pst s nxt c t n rs = \<lparr>st = s, st_new = nxt, new_record_flag = False, lex_cursor = int c, lex_length = 0,
     parsed_params_count = n, temp_keys_parsed = t, records = rs\<rparr>"

lemma run_plain:
  assumes "st ps = EStProcessing" "c + n < len" "\<And>i. i < n \<Longrightarrow> char_at buf (base + c + i) \<notin> {COMMENT_CHAR, COMMA, NEWLINE}"
  shows "parse_loop buf base len kl [c..<c + n] ps = Some (ps\<lparr>lex_length := lex_length ps + int n\<rparr>)"
  using assms
proof (induction n)
  case (Suc n)
  then have ih: "parse_loop buf base len kl [c..<c + n] ps = Some (ps\<lparr>lex_length := lex_length ps + int n\<rparr>)" by simp
  have "parse_step buf base len kl (c + n) (ps\<lparr>lex_length := lex_length ps + int n\<rparr>)
      = Some (ps\<lparr>lex_length := lex_length ps + int (Suc n)\<rparr>)"
    using Suc.prems(1,2) Suc.prems(3) [of n] by (simp add: parse_step_def next_status_def add.assoc)
  with ih show ?case by (simp add: parse_loop_append)
qed simp

lemma run_word:
  assumes "has buf (base + c) w" "set w \<inter> {COMMENT_CHAR, COMMA, NEWLINE} = {}" "c + length w < len"
  shows "parse_loop buf base len kl [c..<c + length w] (pst EStProcessing nxt c t n rs)
    = Some ((pst EStProcessing nxt c t n rs)\<lparr>lex_length := int (length w)\<rparr>)"
proof -
  have "char_at buf (base + c + i) \<notin> {COMMENT_CHAR, COMMA, NEWLINE}" if "i < length w" for i
    using has_nth [OF assms(1) that] nth_mem [OF that] assms(2) by auto
  from run_plain [OF _ assms(3) this] show ?thesis by (simp add: pst_def)
qed

lemma word_plain: "word_ok w \<Longrightarrow> set w \<inter> {COMMENT_CHAR, COMMA, NEWLINE} = {}"
  by (auto simp: word_ok_def)

lemma pair_plain: "key_ok k \<Longrightarrow> word_ok v \<Longrightarrow> set (pair_text k v) \<inter> {COMMENT_CHAR, COMMA, NEWLINE} = {}"
  by (auto simp: key_ok_def word_ok_def)

lemma token_comma:
  assumes h: "has buf (base + c) (w @ [COMMA])" and w: "set w \<inter> {COMMENT_CHAR, COMMA, NEWLINE} = {}" "c + length w < len"
    and store: "\<And>q. temp_keys_parsed q = t \<Longrightarrow> parsed_params_count q = n \<Longrightarrow>
       store_token buf kl (int (base + c)) (int (length w)) q = Some (q\<lparr>temp_keys_parsed := t', parsed_params_count := n'\<rparr>)"
  shows "parse_loop buf base len kl [c..<c + length w + 1] (pst EStProcessing nxt c t n rs)
    = Some (pst EStProcessing EStProcessing (c + length w + 1) t' n' rs)"
proof -
  have hw: "has buf (base + c) w" and d: "char_at buf (base + (c + length w)) = COMMA" using h by (simp_all add: add.assoc)
  note run = run_word [OF hw w, of kl nxt t n rs]
  have "parse_step buf base len kl (c + length w) ((pst EStProcessing nxt c t n rs)\<lparr>lex_length := int (length w)\<rparr>)
      = Some (pst EStProcessing EStProcessing (c + length w + 1) t' n' rs)"
    using store [of "(pst EStToken EStProcessing c t n rs)\<lparr>lex_length := int (length w)\<rparr>"] d
    by (simp add: parse_step_def next_status_def pst_def)
  with run show ?thesis by (simp add: parse_loop_append)
qed

lemma token_newline:
  assumes h: "has buf (base + c) (w @ [NEWLINE])" and w: "set w \<inter> {COMMENT_CHAR, COMMA, NEWLINE} = {}" "c + length w < len"
    and store: "\<And>q. temp_keys_parsed q = t \<Longrightarrow> parsed_params_count q = n \<Longrightarrow>
       store_token buf kl (int (base + c)) (int (length w)) q = Some (q\<lparr>temp_keys_parsed := t', parsed_params_count := n'\<rparr>)"
    and r: "handle_parsed_params kl t' n' rs = Some rs'"
  shows "parse_loop buf base len kl [c..<c + length w + 1] (pst EStProcessing nxt c t n rs)
    = Some (pst nxt nxt (c + length w + 1) no_params 0 rs')"
proof -
  have hw: "has buf (base + c) w" and d: "char_at buf (base + (c + length w)) = NEWLINE" using h by (simp_all add: add.assoc)
  note run = run_word [OF hw w, of kl nxt t n rs]
  have "parse_step buf base len kl (c + length w) ((pst EStProcessing nxt c t n rs)\<lparr>lex_length := int (length w)\<rparr>)
      = Some (pst nxt nxt (c + length w + 1) no_params 0 rs')"
    using store [of "(pst EStToken nxt c t n rs)\<lparr>lex_length := int (length w), new_record_flag := True\<rparr>"] r d
    by (simp add: parse_step_def next_status_def pst_def end_record_def)
  with run show ?thesis by (simp add: parse_loop_append)
qed

lemma store_pair_at:
  assumes "has buf p (pair_text k v)" "key_ok k" "word_ok v" "length (pair_text k v) < 2 ^ 16" "put kl k v (t, n) = (t', n')"
    and "temp_keys_parsed q = t" "parsed_params_count q = n"
  shows "store_token buf kl (int p) (int (length (pair_text k v))) q = Some (q\<lparr>temp_keys_parsed := t', parsed_params_count := n'\<rparr>)"
  using store_pair [OF assms(1-4), of kl q t' n'] assms(5-7) by simp

section \<open>A record\<close>

text \<open>One line: the parameters of a record, separated by commas.\<close>

fun line_text :: "(string \<times> string) list \<Rightarrow> string" where
  "line_text [] = [NEWLINE]"
| "line_text [(k, v)] = pair_text k v @ [NEWLINE]"
| "line_text ((k, v) # r) = pair_text k v @ COMMA # line_text r"

definition params_ok :: "(string \<times> string) list \<Rightarrow> bool" where
  "params_ok r \<longleftrightarrow> r \<noteq> [] \<and> (\<forall>(k, v) \<in> set r. key_ok k \<and> word_ok v \<and> length (pair_text k v) < 2 ^ 16)"

fun put_all :: "KeyList \<Rightarrow> (string \<times> string) list \<Rightarrow> internal_parse_data option list \<times> nat \<Rightarrow> internal_parse_data option list \<times> nat" where
  "put_all kl [] tn = tn"
| "put_all kl ((k, v) # r) tn = put_all kl r (put kl k v tn)"

lemma line_parsed:
  assumes "params_ok r" "has buf (base + c) (line_text r)" "c + length (line_text r) \<le> len"
    and "put_all kl r (t, n) = (t', n')" "handle_parsed_params kl t' n' rs = Some rs'"
  shows "parse_loop buf base len kl [c..<c + length (line_text r)] (pst EStProcessing nxt c t n rs)
    = Some (let s = (if length r = 1 then nxt else EStProcessing) in pst s s (c + length (line_text r)) no_params 0 rs')"
  using assms
proof (induction r arbitrary: c t n nxt rule: line_text.induct)
  case (2 k v)
  let ?w = "pair_text k v"
  have w: "key_ok k" "word_ok v" "length ?w < 2 ^ 16" using "2.prems"(1) by (auto simp: params_ok_def)
  have h: "has buf (base + c) (?w @ [NEWLINE])" using "2.prems"(2) by simp
  then have hw: "has buf (base + c) ?w" by simp
  have "put kl k v (t, n) = (t', n')" using "2.prems"(4) by simp
  from token_newline [OF h pair_plain [OF w(1,2)] _ store_pair_at [OF hw w this] "2.prems"(5), where nxt = nxt and len = len] "2.prems"(3)
  show ?case by simp
next
  case (3 k v p r)
  let ?w = "pair_text k v" and ?r = "p # r"
  have w: "key_ok k" "word_ok v" "length ?w < 2 ^ 16" and ok: "params_ok ?r" using "3.prems"(1) by (auto simp: params_ok_def)
  have h: "has buf (base + c) (?w @ [COMMA])" and hw: "has buf (base + c) ?w"
    and hr: "has buf (base + (c + length ?w + 1)) (line_text ?r)"
    using "3.prems"(2) by (simp_all add: add.assoc)
  obtain t1 n1 where tn: "put kl k v (t, n) = (t1, n1)" by fastforce
  have len: "c + length ?w < len" "c + length ?w + 1 + length (line_text ?r) \<le> len" using "3.prems"(3) by simp_all
  note first = token_comma [OF h pair_plain [OF w(1,2)] len(1) store_pair_at [OF hw w tn], where nxt = nxt and rs = rs]
  have "put_all kl ?r (t1, n1) = (t', n')" using "3.prems"(4) tn by simp
  note rest = "3.IH" [OF ok hr len(2) this "3.prems"(5), where nxt = EStProcessing]
  have e: "c + length (line_text ((k, v) # ?r)) = c + length ?w + 1 + length (line_text ?r)" by simp
  show ?case unfolding e
    by (subst parse_loop_upt [where d = "c + length ?w + 1"]) (use first rest in \<open>simp_all add: Let_def\<close>)
qed (simp add: params_ok_def)

section \<open>What a record holds\<close>

definition keys_wf :: "KeyList \<Rightarrow> bool" where
  "keys_wf kl \<longleftrightarrow> distinct (keys kl) \<and> length (optional_default_values kl) = length (keys kl)
     \<and> length (keys kl) \<le> NVRAM_MAX_KEYS_COUNT_IN_RECORD"

lemma strncmp_eq_same: "strncmp_eq a b (length b) \<and> length a = length b \<longleftrightarrow> a = b"
proof -
  have "length a = length b \<Longrightarrow> strncmp_eq a b (length b) \<longleftrightarrow> a = b" by (induction a b rule: list_induct2) auto
  then show ?thesis by auto
qed

lemma key_find_nth: "distinct (keys kl) \<Longrightarrow> j < length (keys kl) \<Longrightarrow> key_find kl (keys kl ! j) = int j"
proof -
  assume d: "distinct (keys kl)" and j: "j < length (keys kl)"
  have "first_index (\<lambda>i. keys kl ! j = keys kl ! i) (length (keys kl)) 0 = Some j"
    using d j by (auto simp: first_index_Some_iff nth_eq_iff_index_eq)
  then show ?thesis by (simp add: key_find_def strncmp_eq_same)
qed

lemma key_find_unknown: "k \<notin> set (keys kl) \<Longrightarrow> key_find kl k = -1"
proof -
  assume k: "k \<notin> set (keys kl)"
  have "first_index (\<lambda>i. k = keys kl ! i) (length (keys kl)) 0 = None"
  proof (rule ccontr)
    assume "first_index (\<lambda>i. k = keys kl ! i) (length (keys kl)) 0 \<noteq> None"
    then obtain i where "first_index (\<lambda>i. k = keys kl ! i) (length (keys kl)) 0 = Some i" by auto
    with first_index_SomeD [OF this] k show False by auto
  qed
  then show ?thesis by (simp add: key_find_def strncmp_eq_same)
qed

text \<open>The parameters of a line as a map, as the parser keeps them, and the record they give.\<close>

definition temp_of :: "KeyList \<Rightarrow> (string \<rightharpoonup> string) \<Rightarrow> internal_parse_data option list" where
  "temp_of kl m = map (\<lambda>i. if i < length (keys kl) then map_option (\<lambda>v. \<lparr>ip_key = keys kl ! i, ip_val = v\<rparr>) (m (keys kl ! i)) else None)
     [0..<NVRAM_MAX_KEYS_COUNT_IN_RECORD]"

definition count_of :: "KeyList \<Rightarrow> (string \<rightharpoonup> string) \<Rightarrow> nat" where
  "count_of kl m = length (filter (\<lambda>i. m (keys kl ! i) \<noteq> None) [0..<length (keys kl)])"

definition value_of :: "KeyList \<Rightarrow> (string \<rightharpoonup> string) \<Rightarrow> nat \<Rightarrow> string" where
  "value_of kl m i = (case m (keys kl ! i) of Some v \<Rightarrow> v | None \<Rightarrow> the (optional_default_values kl ! i))"

definition record_of :: "KeyList \<Rightarrow> (string \<rightharpoonup> string) \<Rightarrow> ParsedRecord" where
  "record_of kl m = map (\<lambda>i. Some \<lparr>key_index = int i, pp_val = value_of kl m i\<rparr>) [0..<length (keys kl)]
     @ replicate (NVRAM_MAX_KEYS_COUNT_IN_RECORD - length (keys kl)) None"

lemma temp_of_empty: "temp_of kl Map.empty = no_params" "count_of kl Map.empty = 0"
  by (auto simp: temp_of_def no_params_def count_of_def intro!: nth_equalityI)

lemma temp_of_upd:
  assumes "keys_wf kl" "j < length (keys kl)" "k = keys kl ! j" "m k = None"
  shows "(temp_of kl m)[j := Some \<lparr>ip_key = k, ip_val = v\<rparr>] = temp_of kl (m(k \<mapsto> v))"
proof (rule nth_equalityI)
  fix i assume "i < length ((temp_of kl m)[j := Some \<lparr>ip_key = k, ip_val = v\<rparr>])"
  then have i: "i < NVRAM_MAX_KEYS_COUNT_IN_RECORD" by (simp add: temp_of_def)
  have "keys kl ! i = k \<longleftrightarrow> i = j" if "i < length (keys kl)"
    using assms(1-3) that by (auto simp: keys_wf_def nth_eq_iff_index_eq)
  then show "(temp_of kl m)[j := Some \<lparr>ip_key = k, ip_val = v\<rparr>] ! i = temp_of kl (m(k \<mapsto> v)) ! i"
    using i assms(2,3) by (cases "i = j") (auto simp: temp_of_def nth_list_update)
qed (simp add: temp_of_def)

lemma count_of_upd:
  assumes "keys_wf kl" "j < length (keys kl)" "k = keys kl ! j" "m k = None"
  shows "count_of kl (m(k \<mapsto> v)) = count_of kl m + 1"
proof -
  let ?n = "length (keys kl)"
  have count: "count_of kl m' = card {i. i < ?n \<and> m' (keys kl ! i) \<noteq> None}" for m'
    by (simp add: count_of_def distinct_length_filter Int_def conj_commute)
  have "{i. i < ?n \<and> (m(k \<mapsto> v)) (keys kl ! i) \<noteq> None} = insert j {i. i < ?n \<and> m (keys kl ! i) \<noteq> None}"
    using assms by (auto simp: keys_wf_def nth_eq_iff_index_eq)
  then show ?thesis using assms(3,4) by (simp add: count)
qed

lemma put_known:
  assumes "keys_wf kl" "k \<in> set (keys kl)" "m k = None"
  shows "put kl k v (temp_of kl m, count_of kl m) = (temp_of kl (m(k \<mapsto> v)), count_of kl (m(k \<mapsto> v)))"
proof -
  obtain j where j: "j < length (keys kl)" "k = keys kl ! j" using assms(2) by (auto simp: in_set_conv_nth)
  have "key_find kl k = int j" using key_find_nth [OF _ j(1)] j(2) assms(1) by (simp add: keys_wf_def)
  moreover have "temp_of kl m ! j = None" using j assms(1,3) by (simp add: temp_of_def keys_wf_def)
  ultimately show ?thesis
    using temp_of_upd [of kl j k m v] count_of_upd [of kl j k m v] assms(1,3) j by (simp add: put_def)
qed

lemma put_all_known:
  assumes "keys_wf kl" "distinct (map fst r)" "fst ` set r \<subseteq> set (keys kl)" "\<And>k. k \<in> fst ` set r \<Longrightarrow> m k = None"
  shows "put_all kl r (temp_of kl m, count_of kl m) = (temp_of kl (m ++ map_of r), count_of kl (m ++ map_of r))"
  using assms
proof (induction r arbitrary: m)
  case (Cons p r)
  obtain k v where p: "p = (k, v)" by fastforce
  have k: "k \<in> set (keys kl)" "m k = None" "k \<notin> fst ` set r" using Cons.prems p by auto
  have e: "m ++ map_of (p # r) = m(k \<mapsto> v) ++ map_of r"
    using k(3) p by (simp add: map_add_upd_left dom_map_of_conv_image_fst)
  have "put_all kl r (temp_of kl (m(k \<mapsto> v)), count_of kl (m(k \<mapsto> v)))
      = (temp_of kl (m(k \<mapsto> v) ++ map_of r), count_of kl (m(k \<mapsto> v) ++ map_of r))"
  proof (rule Cons.IH [OF Cons.prems(1)])
    show "(m(k \<mapsto> v)) k' = None" if "k' \<in> fst ` set r" for k' using that k(3) Cons.prems(4) by (auto simp: p)
  qed (use Cons.prems(2,3) in auto)
  then show ?case unfolding e using put_known [of kl k m v] Cons.prems(1) k(1,2) by (simp add: p)
qed simp

lemma fill_defaults_all:
  assumes "length ds = length ks" "length ks \<le> length ts" "\<And>i. i < length ks \<Longrightarrow> ts ! i \<noteq> None \<or> ds ! i \<noteq> None"
  shows "fill_defaults ks ds ts c =
    (map (\<lambda>i. Some (case ts ! i of Some x \<Rightarrow> x | None \<Rightarrow> \<lparr>ip_key = ks ! i, ip_val = the (ds ! i)\<rparr>)) [0..<length ks] @ drop (length ks) ts,
     c + length (filter (\<lambda>i. ts ! i = None) [0..<length ks]))"
  using assms
proof (induction ks ds ts c rule: fill_defaults.induct)
  case (1 k ks d ds t ts n)
  have ih: "fill_defaults ks ds ts n' = (map (\<lambda>i. Some (case ts ! i of Some x \<Rightarrow> x | None \<Rightarrow> \<lparr>ip_key = ks ! i, ip_val = the (ds ! i)\<rparr>)) [0..<length ks] @ drop (length ks) ts,
     n' + length (filter (\<lambda>i. ts ! i = None) [0..<length ks]))"
    if "n' = (if t = None then n + 1 else n)" for n'
    using "1.IH" [OF refl] "1.prems" that by (cases d; cases t) force+
  have u: "[0..<length (k # ks)] = 0 # map Suc [0..<length ks]" by (simp add: upt_conv_Cons map_Suc_upt del: upt_Suc)
  have "t \<noteq> None \<or> d \<noteq> None" using "1.prems"(3) [of 0] by simp
  then show ?case
    unfolding u using ih by (cases t; cases d) (auto simp: o_def filter_map Let_def split: option.split)
qed auto

lemma get_parsed_record_append:
  "get_parsed_record kl r (ps @ qs) =
     (case get_parsed_record kl r ps of Some (Some r') \<Rightarrow> get_parsed_record kl r' qs | x \<Rightarrow> x)"
  by (induction kl r ps rule: get_parsed_record.induct) (auto simp: Let_def)

lemma get_parsed_record_all:
  assumes "distinct (keys kl)" "m \<le> length (keys kl)" "length (keys kl) \<le> length r"
  shows "get_parsed_record kl r (map (\<lambda>i. Some \<lparr>ip_key = keys kl ! i, ip_val = f i\<rparr>) [0..<m])
    = Some (Some (map (\<lambda>i. Some \<lparr>key_index = int i, pp_val = f i\<rparr>) [0..<m] @ drop m r))"
  using assms(2)
proof (induction m)
  case (Suc m)
  have "key_find kl (keys kl ! m) = int m" using key_find_nth [OF assms(1), of m] Suc.prems by simp
  moreover have "drop m r = r ! m # drop (Suc m) r" using Suc.prems assms(3) by (simp add: Cons_nth_drop_Suc)
  ultimately show ?case using Suc.IH Suc.prems by (simp add: get_parsed_record_append list_update_append)
qed simp

text \<open>Every key has a value: given on the line, or by default.\<close>

definition covers :: "KeyList \<Rightarrow> (string \<rightharpoonup> string) \<Rightarrow> bool" where
  "covers kl m \<longleftrightarrow> (\<forall>i < length (keys kl). m (keys kl ! i) \<noteq> None \<or> optional_default_values kl ! i \<noteq> None)"

lemma handle_covered:
  assumes wf: "keys_wf kl" and cov: "covers kl m" and n: "0 < count_of kl m" and rs: "length rs < NVRAM_MAX_RECORDS_IN_SECTION"
  shows "handle_parsed_params kl (temp_of kl m) (count_of kl m) rs = Some (rs @ [record_of kl m])"
proof -
  let ?n = "length (keys kl)"
  have len: "?n \<le> length (temp_of kl m)" "length (optional_default_values kl) = ?n" using wf by (simp_all add: temp_of_def keys_wf_def)
  have ti: "temp_of kl m ! i = map_option (\<lambda>v. \<lparr>ip_key = keys kl ! i, ip_val = v\<rparr>) (m (keys kl ! i))" if "i < ?n" for i
    using that wf by (simp add: temp_of_def keys_wf_def)
  have none: "length (filter (\<lambda>i. temp_of kl m ! i = None) [0..<?n]) = length (filter (\<lambda>i. m (keys kl ! i) = None) [0..<?n])"
    by (rule arg_cong [where f = length], rule filter_cong) (simp_all add: ti)
  have sum: "count_of kl m + length (filter (\<lambda>i. m (keys kl ! i) = None) [0..<?n]) = ?n"
    using sum_length_filter_compl [of "\<lambda>i. m (keys kl ! i) \<noteq> None" "[0..<?n]"] by (simp add: count_of_def)
  have vals: "map (\<lambda>i. Some (case temp_of kl m ! i of Some x \<Rightarrow> x | None \<Rightarrow> \<lparr>ip_key = keys kl ! i, ip_val = the (optional_default_values kl ! i)\<rparr>)) [0..<?n]
      = map (\<lambda>i. Some \<lparr>ip_key = keys kl ! i, ip_val = value_of kl m i\<rparr>) [0..<?n]"
    by (rule map_cong) (auto simp: ti value_of_def split: option.split)
  have fill: "fill_defaults (keys kl) (optional_default_values kl) (temp_of kl m) (count_of kl m)
      = (map (\<lambda>i. Some \<lparr>ip_key = keys kl ! i, ip_val = value_of kl m i\<rparr>) [0..<?n] @ drop ?n (temp_of kl m), ?n)"
    using fill_defaults_all [OF len(2,1), of "count_of kl m"] cov ti unfolding vals none sum by (auto simp: covers_def)
  have "?n \<le> NVRAM_MAX_KEYS_COUNT_IN_RECORD" using wf by (simp add: keys_wf_def)
  then show ?thesis
    using n rs fill get_parsed_record_all [of kl ?n "replicate NVRAM_MAX_KEYS_COUNT_IN_RECORD None" "value_of kl m"] wf
    by (simp add: handle_parsed_params_def record_of_def keys_wf_def)
qed

section \<open>A section\<close>

text \<open>A section as it stands in the configuration: the line of its header, then one line per record.\<close>

definition section_text :: "string \<Rightarrow> (string \<times> string) list list \<Rightarrow> string" where
  "section_text hdr rs = hdr @ NEWLINE # concat (map line_text rs)"

definition header_ok :: "string \<Rightarrow> bool" where
  "header_ok hdr \<longleftrightarrow> word_ok hdr \<and> KEY_VALUE_DELIMETER \<notin> set hdr \<and> length hdr < 2 ^ 16"

definition record_ok :: "KeyList \<Rightarrow> (string \<times> string) list \<Rightarrow> bool" where
  "record_ok kl r \<longleftrightarrow> params_ok r \<and> distinct (map fst r) \<and> fst ` set r \<subseteq> set (keys kl) \<and> covers kl (map_of r)"

lemma count_of_pos: "k \<in> set (keys kl) \<Longrightarrow> m k \<noteq> None \<Longrightarrow> 0 < count_of kl m"
  by (auto simp: count_of_def in_set_conv_nth filter_empty_conv)

lemma record_parsed_nxt:
  assumes wf: "keys_wf kl" and r: "record_ok kl r" and h: "has buf (base + c) (line_text r)"
    and len: "c + length (line_text r) \<le> len" and rs: "length rs < NVRAM_MAX_RECORDS_IN_SECTION"
  shows "parse_loop buf base len kl [c..<c + length (line_text r)] (pst EStProcessing nxt c no_params 0 rs)
    = Some (let s = (if length r = 1 then nxt else EStProcessing) in pst s s (c + length (line_text r)) no_params 0 (rs @ [record_of kl (map_of r)]))"
proof -
  have put: "put_all kl r (no_params, 0) = (temp_of kl (map_of r), count_of kl (map_of r))"
    using put_all_known [OF wf, of r Map.empty] r by (simp add: record_ok_def temp_of_empty)
  obtain k v where kv: "(k, v) \<in> set r" using r by (cases r) (auto simp: record_ok_def params_ok_def)
  then have "0 < count_of kl (map_of r)"
    using r by (intro count_of_pos [of k]) (force simp: record_ok_def map_of_eq_None_iff)+
  then have "handle_parsed_params kl (temp_of kl (map_of r)) (count_of kl (map_of r)) rs = Some (rs @ [record_of kl (map_of r)])"
    using r by (intro handle_covered wf rs) (simp add: record_ok_def)
  from line_parsed [OF _ h len put this] r show ?thesis by (simp add: record_ok_def)
qed

lemmas record_parsed = record_parsed_nxt [where nxt = EStProcessing, simplified]

lemma lines_parsed:
  assumes "keys_wf kl" "\<And>r. r \<in> set rs \<Longrightarrow> record_ok kl r" "has buf (base + c) (concat (map line_text rs))"
    "c + length (concat (map line_text rs)) \<le> len" "length done + length rs \<le> NVRAM_MAX_RECORDS_IN_SECTION"
  shows "parse_loop buf base len kl [c..<c + length (concat (map line_text rs))] (pst EStProcessing EStProcessing c no_params 0 done)
    = Some (pst EStProcessing EStProcessing (c + length (concat (map line_text rs))) no_params 0
        (done @ map (\<lambda>r. record_of kl (map_of r)) rs))"
  using assms(2-)
proof (induction rs arbitrary: c "done")
  case (Cons r rs)
  let ?d = "c + length (line_text r)"
  have h: "has buf (base + c) (line_text r)" "has buf (base + ?d) (concat (map line_text rs))"
    using Cons.prems(2) by (simp_all add: add.assoc)
  have len: "?d \<le> len" "?d + length (concat (map line_text rs)) \<le> len" using Cons.prems(3) by simp_all
  have n: "length done < NVRAM_MAX_RECORDS_IN_SECTION" "length (done @ [record_of kl (map_of r)]) + length rs \<le> NVRAM_MAX_RECORDS_IN_SECTION"
    using Cons.prems(4) by simp_all
  have ok: "record_ok kl r" "\<And>r'. r' \<in> set rs \<Longrightarrow> record_ok kl r'" using Cons.prems(1) by simp_all
  note first = record_parsed [OF assms(1) ok(1) h(1) len(1) n(1)]
  note rest = Cons.IH [OF ok(2) h(2) len(2) n(2)]
  have e: "c + length (concat (map line_text (r # rs))) = ?d + length (concat (map line_text rs))" by simp
  show ?case unfolding e by (subst parse_loop_upt [where d = ?d]) (use first rest in simp_all)
qed simp

lemma header_parsed:
  assumes hdr: "header_ok hdr" and h: "has buf (base + 0) (hdr @ [NEWLINE])" and len: "0 + length hdr < len"
  shows "parse_loop buf base len kl [0..<length hdr + 1] parse_init = Some (pst EStProcessing EStProcessing (length hdr + 1) no_params 0 [])"
proof -
  have hw: "has buf base hdr" and nl: "char_at buf (base + length hdr) \<noteq> KEY_VALUE_DELIMETER" using h by simp_all
  have store: "store_token buf kl (int (base + 0)) (int (length hdr)) q = Some (q\<lparr>temp_keys_parsed := no_params, parsed_params_count := 0\<rparr>)"
    if "temp_keys_parsed q = no_params" "parsed_params_count q = 0" for q
    using store_no_pair [OF hw _ _ _ nl, of kl q] hdr that by (simp add: header_ok_def)
  have none: "handle_parsed_params kl no_params 0 [] = Some []" by (simp add: handle_parsed_params_def)
  have i: "parse_init = pst EStProcessing EStProcessing 0 no_params 0 []" by (simp add: parse_init_def pst_def)
  show ?thesis
    using token_newline [OF h word_plain len store none, where nxt = EStProcessing] hdr by (simp add: i header_ok_def)
qed

lemma section_parsed:
  assumes wf: "keys_wf kl" and hdr: "header_ok hdr" and rs: "\<And>r. r \<in> set rs \<Longrightarrow> record_ok kl r"
    and h: "has buf base (section_text hdr rs)" and n: "length rs \<le> NVRAM_MAX_RECORDS_IN_SECTION"
  shows "get_parsed_records buf base (length (section_text hdr rs)) kl = Some (map (\<lambda>r. record_of kl (map_of r)) rs)"
proof -
  let ?len = "length (section_text hdr rs)" and ?d = "length hdr + 1"
  have hh: "has buf (base + 0) (hdr @ [NEWLINE])" and hl: "has buf (base + ?d) (concat (map line_text rs))"
    using h by (simp_all add: section_text_def add.assoc)
  have len: "0 + length hdr < ?len" "?d + length (concat (map line_text rs)) \<le> ?len" "?len = ?d + length (concat (map line_text rs))"
    by (simp_all add: section_text_def)
  have "parse_loop buf base ?len kl [?d..<?len] (pst EStProcessing EStProcessing ?d no_params 0 [])
      = Some (pst EStProcessing EStProcessing ?len no_params 0 (map (\<lambda>r. record_of kl (map_of r)) rs))"
    using lines_parsed [OF wf rs hl len(2), of "[]"] n unfolding len(3) [symmetric] by simp
  moreover have "max 1 ?len = ?len" using len(3) by simp
  ultimately show ?thesis
    using parse_loop_upt [of 0 ?d ?len buf base ?len kl parse_init] len(3) header_parsed [OF hdr hh len(1), of kl]
    by (simp add: get_parsed_records_def end_record_def pst_def handle_parsed_params_def)
qed

section \<open>Comments\<close>

definition comment_text :: "string \<Rightarrow> string" where
  "comment_text w = COMMENT_CHAR # w @ [NEWLINE]"

text \<open>In a comment the text up to the end of the line is passed over.\<close>

lemma run_comment:
  assumes "st ps = EStComment" "lex_cursor ps = -1" "lex_length ps = 0" "c + n < len"
    "\<And>i. i < n \<Longrightarrow> char_at buf (base + c + i) \<noteq> NEWLINE"
  shows "parse_loop buf base len kl [c..<c + n] ps = Some ps"
  using assms(4-)
proof (induction n)
  case (Suc n)
  have "parse_step buf base len kl (c + n) ps = Some ps"
    using assms(1-3) Suc.prems(1) Suc.prems(2) [of n]
    by (auto simp: parse_step_def next_status_def add.assoc intro: parse_state.equality)
  with Suc show ?case by (simp add: parse_loop_append)
qed simp

lemma skip_line:
  assumes h: "has buf (base + c) (w @ [NEWLINE])" and w: "NEWLINE \<notin> set w" and len: "c + length w < len"
  shows "parse_loop buf base len kl [c..<c + length w + 1] (pst EStComment nxt c t n rs)
    = Some (pst EStProcessing nxt (c + length w + 1) t n rs)"
proof -
  have at: "char_at buf (base + (c + i)) = (w @ [NEWLINE]) ! i" if "i \<le> length w" for i
    using has_nth [OF h, of i] that by (simp add: add.assoc)
  have nl: "parse_step buf base len kl (c + length w) ((pst EStComment nxt c t n rs)\<lparr>lex_cursor := l\<rparr>)
      = Some (pst EStProcessing nxt (c + length w + 1) t n rs)" for l
    using at [of "length w"] by (simp add: parse_step_def next_status_def pst_def)
  show ?thesis
  proof (cases w)
    case Nil
    then show ?thesis using nl [of "int c"] by (simp add: pst_def)
  next
    case (Cons x u)
    let ?q = "(pst EStComment nxt c t n rs)\<lparr>lex_cursor := -1\<rparr>"
    have "x \<noteq> NEWLINE" using w Cons by auto
    then have first: "parse_step buf base len kl c (pst EStComment nxt c t n rs) = Some ?q"
      using at [of 0] Cons len by (auto simp: parse_step_def next_status_def pst_def)
    have "char_at buf (base + Suc c + i) \<noteq> NEWLINE" if "i < length u" for i
    proof -
      have "u ! i \<noteq> NEWLINE" using w Cons that by (metis list.set_intros(2) nth_mem)
      then show ?thesis using at [of "Suc i"] that Cons by (simp add: nth_append add.assoc)
    qed
    then have mid: "parse_loop buf base len kl [Suc c..<Suc c + length u] ?q = Some ?q"
      using len Cons by (intro run_comment) (auto simp: pst_def)
    have "[c..<c + length w + 1] = c # [Suc c..<Suc c + length u] @ [c + length w]"
      by (subst upt_conv_Cons) (simp_all add: Cons)
    then show ?thesis using first mid nl [of "-1"] by (simp add: parse_loop_append)
  qed
qed

lemma comment_line:
  assumes h: "has buf (base + c) (comment_text w)" and w: "NEWLINE \<notin> set w" and len: "c + length (comment_text w) \<le> len"
  shows "parse_loop buf base len kl [c..<c + length (comment_text w)] (pst EStProcessing nxt c t n rs)
    = Some (pst EStProcessing EStComment (c + length (comment_text w)) t n rs)"
proof -
  have c: "char_at buf (base + c) = COMMENT_CHAR" and r: "has buf (base + (c + 1)) (w @ [NEWLINE])"
    using h by (simp_all add: comment_text_def)
  have "strip_all buf (int base + int c) 0 = Some (int base + int c, 0)"
    by (simp add: strip_all_def first_index_step)
  then have first: "parse_step buf base len kl c (pst EStProcessing nxt c t n rs) = Some (pst EStComment EStComment (c + 1) t n rs)"
    using c by (simp add: parse_step_def next_status_def pst_def store_token_def)
  have "c + 1 + length w < len" using len by (simp add: comment_text_def)
  note rest = skip_line [OF r w this, where nxt = EStComment]
  have "[c..<c + length (comment_text w)] = c # [c + 1..<c + 1 + length w + 1]"
    by (subst upt_conv_Cons) (simp_all add: comment_text_def del: upt_Suc)
  then show ?thesis using first rest by (simp add: comment_text_def)
qed

text \<open>Once a comment has been read, the end of a line of one parameter restores the comment: the line
  after it is passed over.\<close>

fun kept :: "(string \<times> string) list list \<Rightarrow> (string \<times> string) list list" where
  "kept [] = []"
| "kept (r # rs) = r # (if length r = 1 then kept (tl rs) else rs)"

lemma line_text_shape:
  assumes "params_ok r"
  obtains w where "line_text r = w @ [NEWLINE]" "NEWLINE \<notin> set w"
proof -
  have "\<exists>w. line_text r = w @ [NEWLINE] \<and> NEWLINE \<notin> set w" using assms
  proof (induction r rule: line_text.induct)
    case (3 k v p r)
    then have "params_ok (p # r)" by (simp add: params_ok_def)
    with "3.IH" obtain w where "line_text (p # r) = w @ [NEWLINE]" "NEWLINE \<notin> set w" by blast
    then show ?case using "3.prems" by (intro exI [of _ "pair_text k v @ COMMA # w"]) (auto simp: params_ok_def key_ok_def word_ok_def)
  qed (auto simp: params_ok_def key_ok_def word_ok_def intro!: exI [of _ "pair_text k v" for k v])
  then show ?thesis using that by blast
qed

lemma lines_after_comment:
  assumes "keys_wf kl" "\<And>r. r \<in> set rs \<Longrightarrow> record_ok kl r" "has buf (base + c) (concat (map line_text rs))"
    "c + length (concat (map line_text rs)) \<le> len" "length done + length rs \<le> NVRAM_MAX_RECORDS_IN_SECTION"
  shows "\<exists>s nxt. parse_loop buf base len kl [c..<c + length (concat (map line_text rs))] (pst EStProcessing EStComment c no_params 0 done)
    = Some (pst s nxt (c + length (concat (map line_text rs))) no_params 0 (done @ map (\<lambda>r. record_of kl (map_of r)) (kept rs)))"
  using assms(2-)
proof (induction rs arbitrary: c "done" rule: kept.induct)
  case (2 r rs)
  let ?d = "c + length (line_text r)" and ?t = "\<lambda>rs. length (concat (map line_text rs))" and ?r = "record_of kl (map_of r)"
  have h: "has buf (base + c) (line_text r)" "has buf (base + ?d) (concat (map line_text rs))"
    using "2.prems"(2) by (simp_all add: add.assoc)
  have len: "?d \<le> len" "?d + ?t rs \<le> len" and n: "length done < NVRAM_MAX_RECORDS_IN_SECTION" "length (done @ [?r]) + length rs \<le> NVRAM_MAX_RECORDS_IN_SECTION"
    using "2.prems"(3,4) by simp_all
  have ok: "record_ok kl r" "\<And>r'. r' \<in> set rs \<Longrightarrow> record_ok kl r'" using "2.prems"(1) by simp_all
  note first = record_parsed_nxt [OF assms(1) ok(1) h(1) len(1) n(1), where nxt = EStComment]
  have e: "c + ?t (r # rs) = ?d + ?t rs" by simp
  have split: "parse_loop buf base len kl [c..<?d + ?t rs] (pst EStProcessing EStComment c no_params 0 done)
      = Option.bind (parse_loop buf base len kl [c..<?d] (pst EStProcessing EStComment c no_params 0 done)) (parse_loop buf base len kl [?d..<?d + ?t rs])"
    by (rule parse_loop_upt) simp_all
  show ?case
  proof (cases "length r = 1")
    case False
    then show ?thesis
      using first lines_parsed [OF assms(1) ok(2) h(2) len(2) n(2)] unfolding e split
      by (intro exI [of _ EStProcessing]) simp
  next
    case True
    show ?thesis
    proof (cases rs)
      case Nil
      then show ?thesis using first True unfolding e split by (intro exI [of _ EStComment]) simp
    next
      case (Cons r' rs')
      let ?e = "?d + length (line_text r')"
      have p: "params_ok r'" using ok(2) Cons by (simp add: record_ok_def)
      obtain w where w: "line_text r' = w @ [NEWLINE]" "NEWLINE \<notin> set w" by (rule line_text_shape [OF p])
      have "has buf (base + ?d) (w @ [NEWLINE])" "?d + length w < len" using h(2) len(2) Cons w(1) by simp_all
      from skip_line [OF this(1) w(2) this(2), where nxt = EStComment]
      have skip: "parse_loop buf base len kl [?d..<?e] (pst EStComment EStComment ?d no_params 0 (done @ [?r]))
          = Some (pst EStProcessing EStComment ?e no_params 0 (done @ [?r]))" by (simp add: w(1))
      have "has buf (base + ?e) (concat (map line_text rs'))" "?e + ?t rs' \<le> len" "length (done @ [?r]) + length rs' \<le> NVRAM_MAX_RECORDS_IN_SECTION"
        using h(2) len(2) n(2) Cons by (simp_all add: add.assoc)
      moreover have "\<And>r''. r'' \<in> set (tl rs) \<Longrightarrow> record_ok kl r''" using ok(2) Cons by simp
      ultimately obtain s nxt where rest: "parse_loop buf base len kl [?e..<?e + ?t rs'] (pst EStProcessing EStComment ?e no_params 0 (done @ [?r]))
          = Some (pst s nxt (?e + ?t rs') no_params 0 ((done @ [?r]) @ map (\<lambda>r. record_of kl (map_of r)) (kept rs')))"
        using "2.IH" [OF True, of ?e "done @ [?r]"] unfolding Cons list.sel(3) by blast
      have e2: "?d + ?t rs = ?e + ?t rs'" using Cons by simp
      have sp: "parse_loop buf base len kl [?d..<?e + ?t rs'] q = Option.bind (parse_loop buf base len kl [?d..<?e] q) (parse_loop buf base len kl [?e..<?e + ?t rs'])" for q
        by (rule parse_loop_upt) simp_all
      have both: "parse_loop buf base len kl [?d..<?d + ?t rs] (pst EStComment EStComment ?d no_params 0 (done @ [?r]))
          = Some (pst s nxt (?d + ?t rs) no_params 0 (done @ map (\<lambda>r. record_of kl (map_of r)) (kept (r # rs))))"
        unfolding e2 sp skip bind.bind_lunit using rest True Cons by simp
      have "parse_loop buf base len kl [c..<?d] (pst EStProcessing EStComment c no_params 0 done)
          = Some (pst EStComment EStComment ?d no_params 0 (done @ [?r]))" using first True by simp
      then show ?thesis
        by (intro exI [of _ s] exI [of _ nxt]) (simp only: e split bind.bind_lunit both)
    qed
  qed
qed auto

text \<open>A section whose header is followed by a comment.\<close>

lemma section_comment_parsed:
  assumes wf: "keys_wf kl" and hdr: "header_ok hdr" and rs: "\<And>r. r \<in> set rs \<Longrightarrow> record_ok kl r"
    and w: "NEWLINE \<notin> set w" and n: "length rs \<le> NVRAM_MAX_RECORDS_IN_SECTION"
    and h: "has buf base (hdr @ NEWLINE # comment_text w @ concat (map line_text rs))"
    and len: "len = length (hdr @ NEWLINE # comment_text w @ concat (map line_text rs))"
  shows "get_parsed_records buf base len kl = Some (map (\<lambda>r. record_of kl (map_of r)) (kept rs))"
proof -
  let ?d = "length hdr + 1" and ?c = "length (comment_text w)" and ?l = "length (concat (map line_text rs))"
  have hh: "has buf (base + 0) (hdr @ [NEWLINE])" and hc: "has buf (base + ?d) (comment_text w)"
    and hl: "has buf (base + (?d + ?c)) (concat (map line_text rs))"
    using h by (simp_all add: add.assoc)
  have l: "0 + length hdr < len" "?d + ?c \<le> len" "?d + ?c + ?l \<le> len" and e: "len = ?d + ?c + ?l" using len by simp_all
  have "parse_loop buf base len kl [0..<?d] parse_init = Some (pst EStProcessing EStProcessing ?d no_params 0 [])"
    using header_parsed [OF hdr hh l(1)] by simp
  then have "parse_loop buf base len kl [0..<?d + ?c] parse_init = Some (pst EStProcessing EStComment (?d + ?c) no_params 0 [])"
    using comment_line [OF hc w l(2), where nxt = EStProcessing] by (subst parse_loop_upt [where d = ?d]) simp_all
  moreover obtain s nxt where "parse_loop buf base len kl [?d + ?c..<len] (pst EStProcessing EStComment (?d + ?c) no_params 0 [])
      = Some (pst s nxt len no_params 0 (map (\<lambda>r. record_of kl (map_of r)) (kept rs)))"
    using lines_after_comment [OF wf rs hl l(3), of "[]"] n unfolding e [symmetric] by auto
  moreover have "max 1 len = len" using e by simp
  ultimately show ?thesis
    using parse_loop_upt [of 0 "?d + ?c" len buf base len kl parse_init] l(2)
    by (simp add: get_parsed_records_def end_record_def pst_def handle_parsed_params_def)
qed

section \<open>Blank lines\<close>

text \<open>A token of two blanks or more makes \<^const>\<open>strip_all\<close> fail: so does a section with such a line.\<close>

lemma blank_line_fails:
  assumes h: "has buf (base + c) (w @ [NEWLINE])" and w: "set w \<subseteq> {CHR 0x20, CHR 0x09}" "2 \<le> length w" "length w < 2 ^ 15"
    and len: "c + length w < len"
  shows "parse_loop buf base len kl [c..<c + length w + 1] (pst EStProcessing nxt c t n rs) = None"
proof -
  have hw: "has buf (base + c) w" and nl: "char_at buf (base + (c + length w)) = NEWLINE" using h by (simp_all add: add.assoc)
  have "IS_IT_CHAR_TO_STRIP (char_at buf (base + c + i))" if "i < length w" for i
    using has_nth [OF hw that] nth_mem [OF that] w(1) by (auto simp: IS_IT_CHAR_TO_STRIP_def)
  from strip_all_blank [OF this w(2,3)] have strip: "strip_all buf (int base + int c) (int (length w)) = None" by simp
  have "set w \<inter> {COMMENT_CHAR, COMMA, NEWLINE} = {}" using w(1) by auto
  note run = run_word [OF hw this len, of kl nxt t n rs]
  have "parse_step buf base len kl (c + length w) ((pst EStProcessing nxt c t n rs)\<lparr>lex_length := int (length w)\<rparr>) = None"
    using nl strip by (simp add: parse_step_def next_status_def pst_def store_token_def)
  with run show ?thesis by (simp add: parse_loop_append)
qed

lemma section_blank_line_parsed:
  assumes wf: "keys_wf kl" and hdr: "header_ok hdr" and rs: "\<And>r. r \<in> set rs \<Longrightarrow> record_ok kl r"
    and n: "length rs \<le> NVRAM_MAX_RECORDS_IN_SECTION"
    and w: "set w \<subseteq> {CHR 0x20, CHR 0x09}" "2 \<le> length w" "length w < 2 ^ 15"
    and h: "has buf base (section_text hdr rs @ w @ [NEWLINE])" and len: "length (section_text hdr rs) + length w < len"
  shows "get_parsed_records buf base len kl = None"
proof -
  let ?d = "length hdr + 1" and ?l = "length (concat (map line_text rs))"
  have hh: "has buf (base + 0) (hdr @ [NEWLINE])" and hl: "has buf (base + ?d) (concat (map line_text rs))"
    and hb: "has buf (base + (?d + ?l)) (w @ [NEWLINE])"
    using h by (simp_all add: section_text_def add.assoc)
  have l: "0 + length hdr < len" "?d + ?l \<le> len" "?d + ?l + length w < len" using len by (simp_all add: section_text_def)
  have "parse_loop buf base len kl [0..<?d + ?l] parse_init
      = Some (pst EStProcessing EStProcessing (?d + ?l) no_params 0 (map (\<lambda>r. record_of kl (map_of r)) rs))"
    using header_parsed [OF hdr hh l(1), of kl] lines_parsed [OF wf rs hl l(2), of "[]"] n
    by (subst parse_loop_upt [where d = ?d]) simp_all
  then have "parse_loop buf base len kl [0..<?d + ?l + length w + 1] parse_init = None"
    using blank_line_fails [OF hb w l(3), where nxt = EStProcessing] by (subst parse_loop_upt [where d = "?d + ?l"]) simp_all
  moreover have "max 1 len = len" using l(1) by simp
  ultimately show ?thesis
    using parse_loop_upt [of 0 "?d + ?l + length w + 1" len buf base len kl parse_init] l(3)
    by (simp add: get_parsed_records_def)
qed

section \<open>Properties\<close>

text \<open>A section whose header line is followed by a comment: the records are not those of all its
  lines. After a line with a single parameter the next line is passed over as if it were still in the
  comment, until a line with several parameters is read; every line behind that one counts.\<close>

theorem section_after_comment:
  assumes "keys_wf kl" "header_ok hdr" "\<forall>r \<in> set rs. record_ok kl r" "length rs \<le> NVRAM_MAX_RECORDS_IN_SECTION" "NEWLINE \<notin> set w"
    and "txt = hdr @ NEWLINE # comment_text w @ concat (map line_text rs)" "has buf base txt"
  shows "get_parsed_records buf base (length txt) kl = Some (map (\<lambda>r. record_of kl (map_of r)) (kept rs))"
  using assms by (intro section_comment_parsed [of kl hdr rs w]) auto

text \<open>A line of two or more blanks in a section makes an assertion of the parser fail, whatever stands
  behind it.\<close>

theorem section_blank_line:
  assumes "keys_wf kl" "header_ok hdr" "\<forall>r \<in> set rs. record_ok kl r" "length rs \<le> NVRAM_MAX_RECORDS_IN_SECTION"
    and "set w \<subseteq> {CHR 0x20, CHR 0x09}" "2 \<le> length w" "length w < 2 ^ 15"
    and "has buf base (section_text hdr rs @ w @ [NEWLINE])" "length (section_text hdr rs) + length w < len"
  shows "get_parsed_records buf base len kl = None"
  using assms by (intro section_blank_line_parsed [of kl hdr rs w]) auto

end
