(* ===== verification/ConfArgs.thy ===== *)
theory ConfArgs
  imports ConfProps
begin

text \<open>
  Command lines (\<open>parse_args\<close>) and escaped values (\<open>unescape_string_copy_to_dest\<close>): both invert the way
  a command line, respectively a value, is written.
\<close>

section \<open>Escapes\<close>

definition hex_char :: "nat \<Rightarrow> char" where
  "hex_char n = char_of (if n < 10 then 0x30 + n else 0x57 + n)"

definition escape_char :: "char \<Rightarrow> string" where
  "escape_char c = [CHR 0x5C, CHR 0x78, hex_char (of_char c div 16), hex_char (of_char c mod 16)]"

text \<open>The characters \<open>S\<close> of a value are written as \<open>\x\<close> and two digits.\<close>

fun escape :: "char set \<Rightarrow> string \<Rightarrow> string" where
  "escape S [] = []"
| "escape S (c # w) = (if c \<in> S then escape_char c else [c]) @ escape S w"

lemma hex_char_digit: "n < 16 \<Longrightarrow> GET_VALIDATED_HEX_CHAR_TO_INT (hex_char n) = Some n"
proof -
  assume "n < 16"
  then have "of_char (hex_char n) = (if n < 10 then 0x30 + n else 0x57 + n)" by (auto simp: hex_char_def)
  with \<open>n < 16\<close> show ?thesis by (auto simp: GET_VALIDATED_HEX_CHAR_TO_INT_def Let_def)
qed

lemma of_char_less: "(of_char c :: nat) < 256"
  by (metis of_char_mod_256 mod_less_divisor zero_less_numeral)

lemma high_digit: "(of_char c :: nat) div 16 < 16"
  using of_char_less [of c] by (intro less_mult_imp_div_less) simp

lemma hex_pair: "str_hex_to_int_not_using_locale (hex_char (of_char c div 16)) (hex_char (of_char c mod 16)) = Some c"
  using high_digit [of c] by (simp add: str_hex_to_int_not_using_locale_def hex_char_digit)

lemma unescape_escaped:
  assumes "CHR 0x5C \<in> S" "has source i (escape S w)" "n = i + length (escape S w)"
  shows "unescape_loop source n i = Some w"
  using assms(2-)
proof (induction w arbitrary: i)
  case (Cons c w)
  show ?case
  proof (cases "c \<in> S")
    case True
    have e: "escape S (c # w) = escape_char c @ escape S w" "length (escape_char c) = 4" using True by (simp_all add: escape_char_def)
    have h: "has source i (escape_char c)" "has source (i + 4) (escape S w)" and n: "n = i + 4 + length (escape S w)"
      using Cons.prems e by simp_all
    have at: "char_at source i = CHR 0x5C" "char_at source (i + 1) = CHR 0x78"
      "char_at source (i + 2) = hex_char (of_char c div 16)" "char_at source (i + 3) = hex_char (of_char c mod 16)"
      using has_nth [OF h(1), of 0] has_nth [OF h(1), of 1] has_nth [OF h(1), of 2] has_nth [OF h(1), of 3]
      by (simp_all add: escape_char_def)
    show ?thesis
      using at n Cons.IH [OF h(2) n] hex_pair [of c] by (subst unescape_loop.simps) simp
  next
    case False
    then have "c \<noteq> CHR 0x5C" using assms(1) by auto
    then show ?thesis
      using Cons.IH [of "i + 1"] Cons.prems False by (subst unescape_loop.simps) simp
  qed
qed (simp add: unescape_loop.simps)

lemma unescape_escape:
  "CHR 0x5C \<in> S \<Longrightarrow> unescape_string_copy_to_dest (escape S w @ rest) (length (escape S w)) = Some (int (length w), w)"
  using unescape_escaped [of S "escape S w @ rest" 0 w] has_within [of "[]" "escape S w" rest]
  by (simp add: unescape_string_copy_to_dest_def)

text \<open>An escape whose digits are not digits gives an indeterminate character.\<close>

lemma unescape_bad:
  assumes "CHR 0x5C \<notin> set w" "has source i (w @ [CHR 0x5C, CHR 0x78, hi, lo])" "i + length w + 3 < n"
    "GET_VALIDATED_HEX_CHAR_TO_INT hi = None \<or> GET_VALIDATED_HEX_CHAR_TO_INT lo = None"
  shows "unescape_loop source n i = None"
  using assms(1-3)
proof (induction w arbitrary: i)
  case Nil
  then have "char_at source i = CHR 0x5C" "char_at source (i + 1) = CHR 0x78" "char_at source (i + 2) = hi" "char_at source (i + 3) = lo"
    using has_nth [OF Nil.prems(2), of 0] has_nth [OF Nil.prems(2), of 1] has_nth [OF Nil.prems(2), of 2] has_nth [OF Nil.prems(2), of 3]
    by simp_all
  moreover have "str_hex_to_int_not_using_locale hi lo = None"
    using assms(4) by (cases "GET_VALIDATED_HEX_CHAR_TO_INT hi") (auto simp: str_hex_to_int_not_using_locale_def)
  ultimately show ?case using Nil.prems(3) by (subst unescape_loop.simps) simp
next
  case (Cons c w)
  then show ?case using Cons.IH [of "Suc i"] by (subst unescape_loop.simps) auto
qed

section \<open>Command lines\<close>

definition plain_arg :: "string \<Rightarrow> bool" where
  "plain_arg w \<longleftrightarrow> w \<noteq> [] \<and> hd w \<noteq> CHR 0x22 \<and> CHR 0x20 \<notin> set w \<and> CHR 0x09 \<notin> set w"

definition quote_arg :: "string \<Rightarrow> string" where
  "quote_arg w = (if plain_arg w then w else CHR 0x22 # w @ [CHR 0x22])"

definition arg_ok :: "string \<Rightarrow> bool" where
  "arg_ok w \<longleftrightarrow> length w < 2 ^ 16 \<and> (plain_arg w \<or> CHR 0x22 \<notin> set w \<and> NUL \<notin> set w)"

fun args_text :: "string list \<Rightarrow> string" where
  "args_text [] = []"
| "args_text [w] = quote_arg w"
| "args_text (w # ws) = quote_arg w @ CHR 0x20 # args_text ws"

text \<open>Once the array is full nothing is added to it.\<close>

lemma SAVE_full: "\<not> length (arg_args a) < m \<Longrightarrow> SAVE_PARSED_ARG m buf p n a = a"
  by (simp add: SAVE_PARSED_ARG_def)

lemma parse_args_loop_full:
  "\<not> length (arg_args a) < m \<Longrightarrow> arg_args (snd (parse_args_loop m buf n i a)) = arg_args a"
proof (induction m buf n i a rule: parse_args_loop.induct)
  case (1 m buf n i a)
  have s: "\<And>p k. SAVE_PARSED_ARG m buf p k (a\<lparr>arg_val := v\<rparr>) = a\<lparr>arg_val := v\<rparr>" "\<And>p k. SAVE_PARSED_ARG m buf p k a = a" for v
    using "1.prems" by (simp_all add: SAVE_full)
  have c: "(case arg_val a of Some p \<Rightarrow> SAVE_PARSED_ARG m buf p (i - p) a | None \<Rightarrow> a) = a"
    by (simp add: s split: option.split)
  show ?case
    using "1.IH" "1.prems" unfolding c by (subst parse_args_loop.simps) (auto simp: s c Let_def)
qed

lemma loop_plain:
  assumes "arg_val a = Some p" "\<And>j. j < k \<Longrightarrow> char_at buf (i + j) \<notin> {CHR 0x20, CHR 0x09}" "i + k \<le> n"
  shows "parse_args_loop m buf n i a = parse_args_loop m buf n (i + k) a"
  using assms(2-)
proof (induction k)
  case (Suc k)
  then have "parse_args_loop m buf n i a = parse_args_loop m buf n (i + k) a" by simp
  also have "\<dots> = parse_args_loop m buf n (i + Suc k) a"
    using Suc.prems(1) [of k] Suc.prems(2) assms(1) by (subst parse_args_loop.simps) simp
  finally show ?case .
qed simp

text \<open>One argument: the loop stands behind it, and it is in the array or still to be stored.\<close>

lemma loop_arg:
  assumes h: "has buf i (quote_arg w)" and w: "arg_ok w" and n: "i + length (quote_arg w) \<le> n" and a: "arg_val a = None"
    and q: "\<not> plain_arg w \<Longrightarrow> length (arg_args a) < m"
  shows "parse_args_loop m buf n i a = parse_args_loop m buf n (i + length (quote_arg w))
     (if plain_arg w then a\<lparr>arg_val := Some i\<rparr> else \<lparr>arg_val = None, arg_args = arg_args a @ [w]\<rparr>)"
proof (cases "plain_arg w")
  case True
  then obtain c u where c: "w = c # u" "c \<noteq> CHR 0x22" "c \<noteq> CHR 0x20" "c \<noteq> CHR 0x09"
    by (cases w) (auto simp: plain_arg_def)
  have hw: "has buf i w" using h True by (simp add: quote_arg_def)
  have "char_at buf (i + 1 + j) \<notin> {CHR 0x20, CHR 0x09}" if "j < length u" for j
  proof -
    have "char_at buf (i + 1 + j) = u ! j" using has_nth [OF hw, of "Suc j"] that c(1) by simp
    moreover have "u ! j \<in> set w" using that c(1) by simp
    ultimately show ?thesis using True by (auto simp: plain_arg_def)
  qed
  from loop_plain [of "a\<lparr>arg_val := Some i\<rparr>" i "length u", OF _ this, of n m]
  have "parse_args_loop m buf n (i + 1) (a\<lparr>arg_val := Some i\<rparr>) = parse_args_loop m buf n (i + length w) (a\<lparr>arg_val := Some i\<rparr>)"
    using n True c(1) by (simp add: quote_arg_def)
  moreover have "parse_args_loop m buf n i a = parse_args_loop m buf n (i + 1) (a\<lparr>arg_val := Some i\<rparr>)"
    using hw c n True a by (subst parse_args_loop.simps) (simp add: quote_arg_def)
  ultimately show ?thesis using True by (simp add: quote_arg_def)
next
  case False
  have k: "CHR 0x22 \<notin> set w" "NUL \<notin> set w" "length w < 2 ^ 16" using w False by (auto simp: arg_ok_def)
  have hq: "char_at buf i = CHR 0x22" "has buf (i + 1) (w @ [CHR 0x22])" "has buf (i + 1) w"
    using h False by (simp_all add: quote_arg_def)
  have "strchrnul buf (i + 1) (CHR 0x22) = i + 1 + length w"
    using strchr_has [OF hq(2) k(1,2)] by (simp add: strchrnul_def)
  moreover have "SAVE_PARSED_ARG m buf (i + 1) (length w) (a\<lparr>arg_val := Some (i + 1)\<rparr>) = \<lparr>arg_val = None, arg_args = arg_args a @ [w]\<rparr>"
    using q [OF False] k(3) has_substr [OF hq(3) refl] by (simp add: SAVE_PARSED_ARG_def)
  ultimately show ?thesis
    using False hq(1) n a k(3) by (subst parse_args_loop.simps) (simp add: quote_arg_def)
qed

definition finish_args :: "nat \<Rightarrow> string \<Rightarrow> nat \<times> arg_state \<Rightarrow> string list" where
  "finish_args m buf r = arg_args (case arg_val (snd r) of Some p \<Rightarrow> SAVE_PARSED_ARG m buf p (fst r - p) (snd r) | None \<Rightarrow> snd r)"

lemma parse_args_finish: "parse_args m buf n = finish_args m buf (parse_args_loop m buf n 0 \<lparr>arg_val = None, arg_args = []\<rparr>)"
  by (simp add: parse_args_def finish_args_def case_prod_beta)

lemma finish_full: "\<not> length (arg_args a) < m \<Longrightarrow> finish_args m buf (parse_args_loop m buf n i a) = arg_args a"
  using parse_args_loop_full [of a m buf n i] by (simp add: finish_args_def SAVE_full split: option.split)

lemma loop_arg_space:
  assumes h: "has buf i (quote_arg w @ [CHR 0x20])" and w: "arg_ok w" and n: "i + length (quote_arg w) < n"
    and a: "arg_val a = None" "length (arg_args a) < m"
  shows "parse_args_loop m buf n i a
    = parse_args_loop m buf n (i + length (quote_arg w) + 1) \<lparr>arg_val = None, arg_args = arg_args a @ [w]\<rparr>"
proof -
  let ?j = "i + length (quote_arg w)"
  have hw: "has buf i (quote_arg w)" and sp: "char_at buf ?j = CHR 0x20" using h by simp_all
  have "has buf i w" "length w < 2 ^ 16" "length (quote_arg w) = length w" if "plain_arg w" using that hw w by (simp_all add: quote_arg_def arg_ok_def)
  then have "SAVE_PARSED_ARG m buf i (?j - i) (a\<lparr>arg_val := Some i\<rparr>) = \<lparr>arg_val = None, arg_args = arg_args a @ [w]\<rparr>" if "plain_arg w"
    using that a(2) by (simp add: SAVE_PARSED_ARG_def has_substr)
  then have "parse_args_loop m buf n ?j (if plain_arg w then a\<lparr>arg_val := Some i\<rparr> else \<lparr>arg_val = None, arg_args = arg_args a @ [w]\<rparr>)
      = parse_args_loop m buf n (?j + 1) \<lparr>arg_val = None, arg_args = arg_args a @ [w]\<rparr>"
    using sp n by (subst parse_args_loop.simps) simp
  with loop_arg [OF hw w _ a(1), of n m] n a(2) show ?thesis by simp
qed

lemma loop_arg_last:
  assumes h: "has buf i (quote_arg w)" and w: "arg_ok w" and n: "n = i + length (quote_arg w)"
    and a: "arg_val a = None" "length (arg_args a) < m"
  shows "finish_args m buf (parse_args_loop m buf n i a) = arg_args a @ [w]"
proof -
  have "has buf i w" "length w < 2 ^ 16" "length (quote_arg w) = length w" if "plain_arg w" using that h w by (simp_all add: quote_arg_def arg_ok_def)
  then have "SAVE_PARSED_ARG m buf i (n - i) (a\<lparr>arg_val := Some i\<rparr>) = \<lparr>arg_val = None, arg_args = arg_args a @ [w]\<rparr>" if "plain_arg w"
    using that a(2) n by (simp add: SAVE_PARSED_ARG_def has_substr)
  moreover have "parse_args_loop m buf n n b = (n, b)" for b by (simp add: parse_args_loop.simps)
  ultimately show ?thesis
    using loop_arg [OF h w _ a(1), of n m] n a(2) by (simp add: finish_args_def)
qed

lemma args_text_parsed:
  assumes "\<And>w. w \<in> set ws \<Longrightarrow> arg_ok w" "has buf i (args_text ws)" "n = i + length (args_text ws)"
    "arg_val a = None" "length (arg_args a) \<le> m"
  shows "finish_args m buf (parse_args_loop m buf n i a) = take m (arg_args a @ ws)"
  using assms
proof (induction ws arbitrary: i a rule: args_text.induct)
  case 1
  then show ?case by (simp add: parse_args_loop.simps finish_args_def)
next
  case (2 w)
  show ?case
  proof (cases "length (arg_args a) < m")
    case True
    then show ?thesis using loop_arg_last [of buf i w n a m] "2.prems" by simp
  qed (use finish_full "2.prems" in auto)
next
  case (3 w v ws)
  show ?case
  proof (cases "length (arg_args a) < m")
    case True
    let ?j = "i + length (quote_arg w) + 1"
    have h: "has buf i (quote_arg w @ [CHR 0x20])" "has buf ?j (args_text (v # ws))" and n: "n = ?j + length (args_text (v # ws))" "i + length (quote_arg w) < n"
      using "3.prems"(2,3) by simp_all
    have "finish_args m buf (parse_args_loop m buf n ?j \<lparr>arg_val = None, arg_args = arg_args a @ [w]\<rparr>) = take m ((arg_args a @ [w]) @ v # ws)"
      using "3.IH" [OF _ h(2) n(1), of "\<lparr>arg_val = None, arg_args = arg_args a @ [w]\<rparr>"] "3.prems"(1) True by simp
    moreover have "arg_ok w" using "3.prems"(1) by simp
    ultimately show ?thesis using loop_arg_space [OF h(1) _ n(2) "3.prems"(4) True] by simp
  qed (use finish_full "3.prems" in auto)
qed

text \<open>A written command line is read back, up to the size of the array.\<close>

lemma parse_args_text:
  assumes "\<And>w. w \<in> set ws \<Longrightarrow> arg_ok w"
  shows "parse_args m (args_text ws @ rest) (length (args_text ws)) = take m ws"
  using args_text_parsed [of ws "args_text ws @ rest" 0 "length (args_text ws)" "\<lparr>arg_val = None, arg_args = []\<rparr>" m] assms
    has_within [of "[]" "args_text ws" rest] by (simp add: parse_args_finish)

section \<open>Property\<close>

text \<open>An escape \<open>\x\<close> is decoded without its two digits being checked: when one of them is no
  hexadecimal digit, the character it gives is indeterminate, although the source has a macro for the
  check.\<close>

theorem unescape_unchecked_digits:
  assumes "CHR 0x5C \<notin> set w" "GET_VALIDATED_HEX_CHAR_TO_INT hi = None \<or> GET_VALIDATED_HEX_CHAR_TO_INT lo = None"
    and "source = w @ [CHR 0x5C, CHR 0x78, hi, lo] @ rest"
  shows "unescape_string_copy_to_dest source (length source) = None"
proof -
  have "has source 0 (w @ [CHR 0x5C, CHR 0x78, hi, lo])"
    using has_within [of "[]" "w @ [CHR 0x5C, CHR 0x78, hi, lo]" rest] assms(3) by simp
  from unescape_bad [OF assms(1) this _ assms(2), of "length source"] assms(3)
  show ?thesis by (simp add: unescape_string_copy_to_dest_def)
qed

end
