(* ===== verification/NvramLoader.thy ===== *)
theory NvramLoader
  imports ConfArgs
begin

text \<open>
  The loader of the configuration (\<open>lib/nvram/nvram_loader.c\<close>): where the sections are, which observer
  takes each, and the records of the sections. The file is a buffer of \<open>NVRAM_MAX_FILE_SIZE\<close> bytes;
  reading behind it finds the low byte of its size, which is NUL when the buffer is full. A write behind
  an array and a failed assertion are \<open>None\<close>.

  An observer is a static object with a function pointer; \<open>handler\<close> names the function it points to.
  The C library's calls on the file are arguments of \<open>nvram_read\<close>.
\<close>

abbreviation (input) NVRAM_MAX_FILE_SIZE :: nat where "NVRAM_MAX_FILE_SIZE \<equiv> 10240"
abbreviation (input) NVRAM_MAX_SECTIONS_COUNT :: nat where "NVRAM_MAX_SECTIONS_COUNT \<equiv> 7"
abbreviation (input) NVRAM_MAX_OBSERVERS_COUNT :: nat where "NVRAM_MAX_OBSERVERS_COUNT \<equiv> 7"
abbreviation (input) LBRACKET :: char where "LBRACKET \<equiv> CHR 0x5B"
abbreviation (input) RBRACKET :: char where "RBRACKET \<equiv> CHR 0x5D"

section \<open>Data\<close>

datatype handler = HPrecache | HFstab | HSettime | HDebug | HMapping | HEnv | HArg

record MNvramObserver =
  handle_nvram_record :: handler
  observed_section_name :: string
  obs_keys :: KeyList

record ParsedRecords =
  observer :: MNvramObserver
  sec_records :: "ParsedRecord list"

record config_section_t =
  sec_name :: nat \<comment> \<open>where the name starts\<close>
  name_len :: nat
  offset_start :: nat
  offset_end :: nat

record NvramLoader =
  nvram_data :: string
  nvram_data_size :: int
  parsed_sections :: "ParsedRecords list"
  nvram_observers :: "MNvramObserver option list"

section \<open>The sections of a file\<close>

lemma strchr_less:
  assumes "strchr buf p c = Some d" "strchr buf d c' = Some e" "c \<noteq> c'"
  shows "p < e"
  using strchr_ge [OF assms(1)] strchr_ge [OF assms(2)] assms(3) by (cases "d = e") auto

text \<open>The section found, if any, and the position of the cursor.\<close>

function get_nearest_section_start :: "string \<Rightarrow> nat \<Rightarrow> nat \<Rightarrow> (config_section_t option \<times> nat) option" where
  "get_nearest_section_start whole_data whole_size cursor_pos =
     (case strchr whole_data cursor_pos LBRACKET of
        None \<Rightarrow> Some (None, cursor_pos)
      | Some bound_start \<Rightarrow>
          if bound_start < whole_size then
            (case strchr whole_data bound_start RBRACKET of
               None \<Rightarrow> Some (None, whole_size)
             | Some bound_end \<Rightarrow>
                 if cursor_pos < whole_size \<and> bound_end < whole_size
                    \<and> (case strchr whole_data bound_start NEWLINE of None \<Rightarrow> True | Some end_line \<Rightarrow> bound_end < end_line)
                 then
                   if bound_start = cursor_pos \<or> 0 < bound_start \<and> char_at whole_data (bound_start - 1) = NEWLINE
                   then do {
                     (s, striped_len) \<leftarrow> strip_all whole_data (int bound_start + 1) (int bound_end - int bound_start - 1);
                     Some (Some \<lparr>sec_name = nat s, name_len = striped_len, offset_start = bound_start, offset_end = 0\<rparr>, bound_start) }
                   else get_nearest_section_start whole_data whole_size bound_end
                 else Some (None, whole_size))
          else Some (None, cursor_pos))"
  by pat_completeness auto
termination
  by (relation "measure (\<lambda>(data, n, pos). n - pos)") (auto dest: strchr_less)

declare get_nearest_section_start.simps [simp del]

text \<open>The loop of \<open>get_config_structure\<close> with the room left in the array: a section found when there is none is
  written behind it.\<close>

fun config_sections :: "string \<Rightarrow> nat \<Rightarrow> nat \<Rightarrow> nat \<Rightarrow> config_section_t list option" where
  "config_sections data whole_size cursor room =
     (case get_nearest_section_start data whole_size cursor of
        None \<Rightarrow> None
      | Some (None, _) \<Rightarrow> Some []
      | Some (Some section, cursor') \<Rightarrow>
          (case room of
             0 \<Rightarrow> None
           | Suc n \<Rightarrow> map_option (Cons section) (config_sections data whole_size (cursor' + name_len section) n)))"

declare config_sections.simps [simp del]

text \<open>The loop that sets the ends, from the last section to the first.\<close>

fun set_ends :: "nat \<Rightarrow> config_section_t list \<Rightarrow> config_section_t list" where
  "set_ends whole_size [] = []"
| "set_ends whole_size [s] = [s\<lparr>offset_end := whole_size\<rparr>]"
| "set_ends whole_size (s # t # ss) = s\<lparr>offset_end := offset_start t\<rparr> # set_ends whole_size (t # ss)"

definition get_config_structure :: "NvramLoader \<Rightarrow> config_section_t list option" where
  "get_config_structure nvram =
     map_option (set_ends (nat (nvram_data_size nvram)))
       (config_sections (nvram_data nvram) (nat (nvram_data_size nvram)) 0 NVRAM_MAX_SECTIONS_COUNT)"

section \<open>Observers and records\<close>

fun section_observer :: "MNvramObserver option list \<Rightarrow> string \<Rightarrow> MNvramObserver option" where
  "section_observer [] section_name = None"
| "section_observer (None # os) section_name = section_observer os section_name"
| "section_observer (Some obs # os) section_name =
     (if strncmp_eq (observed_section_name obs) section_name (length section_name) then Some obs
      else section_observer os section_name)"

text \<open>\<open>Some None\<close> is the NULL returned when there are no records.\<close>

definition parse_section :: "NvramLoader \<Rightarrow> nat \<Rightarrow> nat \<Rightarrow> MNvramObserver \<Rightarrow> ParsedRecords option option" where
  "parse_section nvram section_data count obs = do {
     rs \<leftarrow> get_parsed_records (nvram_data nvram) section_data count (obs_keys obs);
     Some (if rs = [] then None else Some \<lparr>observer = obs, sec_records = rs\<rparr>) }"

fun add_to_free :: "MNvramObserver option list \<Rightarrow> MNvramObserver \<Rightarrow> MNvramObserver option list option" where
  "add_to_free [] obs = None"
| "add_to_free (None # os) obs = Some (Some obs # os)"
| "add_to_free (Some x # os) obs = map_option (Cons (Some x)) (add_to_free os obs)"

definition nvram_add_observer :: "NvramLoader \<Rightarrow> MNvramObserver \<Rightarrow> NvramLoader option" where
  "nvram_add_observer nvram obs = map_option (\<lambda>os. nvram\<lparr>nvram_observers := os\<rparr>) (add_to_free (nvram_observers nvram) obs)"

record 's file_calls =
  fc_open :: "'s \<Rightarrow> string \<Rightarrow> int \<times> 's"
  fc_lseek :: "'s \<Rightarrow> int \<Rightarrow> int \<Rightarrow> 's"
  fc_read :: "'s \<Rightarrow> int \<Rightarrow> nat \<Rightarrow> int \<times> string \<times> 's"
  fc_close :: "'s \<Rightarrow> int \<Rightarrow> 's"

text \<open>\<open>read\<close> puts what it read at the start of the buffer.\<close>

definition nvram_read :: "'s file_calls \<Rightarrow> NvramLoader \<Rightarrow> string \<Rightarrow> 's \<Rightarrow> int \<times> NvramLoader \<times> 's" where
  "nvram_read c nvram nvram_file_name w =
     (let (fd, w1) = fc_open c w nvram_file_name
      in if 0 < fd then
           (let w2 = fc_lseek c w1 fd 0;
                (n, bytes, w3) = fc_read c w2 fd NVRAM_MAX_FILE_SIZE;
                w4 = fc_close c w3 fd;
                data = (if 0 < n then take (nat n) bytes @ drop (nat n) (nvram_data nvram) else nvram_data nvram);
                data' = (if 0 < n \<and> n < int NVRAM_MAX_FILE_SIZE then data[nat n := NUL] else data)
            in (n, nvram\<lparr>nvram_data := data', nvram_data_size := n\<rparr>, w4))
         else (nvram_data_size nvram, nvram, w1))"

fun parse_sections :: "NvramLoader \<Rightarrow> config_section_t list \<Rightarrow> ParsedRecords list option" where
  "parse_sections nvram [] = Some []"
| "parse_sections nvram (s # ss) =
     (case section_observer (nvram_observers nvram) (substr (nvram_data nvram) (sec_name s) (name_len s)) of
        None \<Rightarrow> parse_sections nvram ss
      | Some obs \<Rightarrow> do {
          r \<leftarrow> parse_section nvram (offset_start s) (offset_end s - offset_start s) obs;
          rs \<leftarrow> parse_sections nvram ss;
          Some (case r of None \<Rightarrow> rs | Some x \<Rightarrow> x # rs) })"

definition nvram_parse :: "NvramLoader \<Rightarrow> NvramLoader option" where
  "nvram_parse nvram = do {
     sections \<leftarrow> get_config_structure nvram;
     ps \<leftarrow> parse_sections nvram sections;
     Some (nvram\<lparr>parsed_sections := ps\<rparr>) }"

text \<open>\<open>h\<close> is what the observer's function does with a record.\<close>

fun handle_records :: "(ParsedRecord \<Rightarrow> 'o \<Rightarrow> 'o option) \<Rightarrow> ParsedRecord list \<Rightarrow> 'o \<Rightarrow> 'o option" where
  "handle_records h [] x = Some x"
| "handle_records h (r # rs) x = Option.bind (h r x) (handle_records h rs)"

fun handle_sections :: "(ParsedRecord \<Rightarrow> 'o \<Rightarrow> 'o option) \<Rightarrow> MNvramObserver \<Rightarrow> ParsedRecords list \<Rightarrow> 'o \<Rightarrow> 'o option" where
  "handle_sections h obs [] x = Some x"
| "handle_sections h obs (s # ss) x =
     (if obs = observer s then Option.bind (handle_records h (sec_records s) x) (handle_sections h obs ss)
      else handle_sections h obs ss x)"

definition nvram_handle :: "NvramLoader \<Rightarrow> (ParsedRecord \<Rightarrow> 'o \<Rightarrow> 'o option) \<Rightarrow> MNvramObserver \<Rightarrow> 'o \<Rightarrow> 'o option" where
  "nvram_handle nvram h obs x = handle_sections h obs (parsed_sections nvram) x"

definition nvram_section_by_name :: "NvramLoader \<Rightarrow> string \<Rightarrow> ParsedRecords option" where
  "nvram_section_by_name nvram section_name =
     find (\<lambda>s. observed_section_name (observer s) = section_name) (parsed_sections nvram)"

section \<open>The observers of the loader\<close>

text \<open>\<open>add_key\<close> for each of the keys of an observer.\<close>

fun add_keys :: "KeyList \<Rightarrow> (string \<times> string option) list \<Rightarrow> KeyList option" where
  "add_keys kl [] = Some kl"
| "add_keys kl ((k, d) # ks) = Option.bind (add_key_to_list kl k d) (\<lambda>(_, kl'). add_keys kl' ks)"

definition make_observer :: "handler \<Rightarrow> string \<Rightarrow> (string \<times> string option) list \<Rightarrow> MNvramObserver option" where
  "make_observer h name ks =
     map_option (\<lambda>kl. \<lparr>handle_nvram_record = h, observed_section_name = name, obs_keys = kl\<rparr>) (add_keys keys_construct ks)"

definition get_precache_observer :: "MNvramObserver option" where
  "get_precache_observer = make_observer HPrecache ''precache'' [(''precache'', None)]"

definition get_fstab_observer :: "MNvramObserver option" where
  "get_fstab_observer = make_observer HFstab ''fstab''
     [(''channel'', None), (''mountpoint'', None), (''access'', None), (''removable'', Some ''no''), (''fsname'', Some ''tar'')]"

definition get_settime_observer :: "MNvramObserver option" where
  "get_settime_observer = make_observer HSettime ''time'' [(''seconds'', None)]"

definition get_debug_observer :: "MNvramObserver option" where
  "get_debug_observer = make_observer HDebug ''debug'' [(''verbosity'', None)]"

definition get_mapping_observer :: "MNvramObserver option" where
  "get_mapping_observer = make_observer HMapping ''mapping'' [(''channel'', None), (''mode'', None)]"

definition get_env_observer :: "MNvramObserver option" where
  "get_env_observer = make_observer HEnv ''env'' [(''name'', None), (''value'', None)]"

definition get_arg_observer :: "MNvramObserver option" where
  "get_arg_observer = make_observer HArg ''args'' [(''args'', None)]"

definition nvram_init :: NvramLoader where
  "nvram_init = \<lparr>nvram_data = replicate NVRAM_MAX_FILE_SIZE NUL, nvram_data_size = 0, parsed_sections = [],
     nvram_observers = replicate NVRAM_MAX_OBSERVERS_COUNT None\<rparr>"

text \<open>The first call of \<open>nvram_loader\<close>, on the zero-initialised object.\<close>

definition nvram_loader :: "NvramLoader option" where
  "nvram_loader = do {
     o1 \<leftarrow> get_precache_observer; n1 \<leftarrow> nvram_add_observer nvram_init o1;
     o2 \<leftarrow> get_fstab_observer; n2 \<leftarrow> nvram_add_observer n1 o2;
     o3 \<leftarrow> get_settime_observer; n3 \<leftarrow> nvram_add_observer n2 o3;
     o4 \<leftarrow> get_debug_observer; n4 \<leftarrow> nvram_add_observer n3 o4;
     o5 \<leftarrow> get_mapping_observer; n5 \<leftarrow> nvram_add_observer n4 o5;
     o6 \<leftarrow> get_env_observer; n6 \<leftarrow> nvram_add_observer n5 o6;
     o7 \<leftarrow> get_arg_observer; nvram_add_observer n6 o7 }"

end
