(* ===== verification/NvramProps.thy ===== *)
theory NvramProps
  imports NvramLoader
begin

text \<open>
  A configuration that is written section by section is read back: the sections are found where they
  stand, each is given to its observer, and its records are those of the lines.
\<close>

section \<open>Configurations\<close>

type_synonym config = "(string \<times> (string \<times> string) list list) list"

abbreviation header_text :: "string \<Rightarrow> string" where
  "header_text name \<equiv> LBRACKET # name @ [RBRACKET]"

definition config_text :: "config \<Rightarrow> string" where
  "config_text cfg = concat (map (\<lambda>(name, rs). section_text (header_text name) rs) cfg)"

definition name_ok :: "string \<Rightarrow> bool" where
  "name_ok name \<longleftrightarrow> name \<noteq> [] \<and> word_ok name \<and> set name \<inter> {LBRACKET, RBRACKET, KEY_VALUE_DELIMETER} = {} \<and> length name < 2 ^ 15"

text \<open>The lines hold neither an opening bracket nor a NUL.\<close>

definition lines_ok :: "(string \<times> string) list list \<Rightarrow> bool" where
  "lines_ok rs \<longleftrightarrow> (\<forall>r \<in> set rs. \<forall>(k, v) \<in> set r. LBRACKET \<notin> set k \<union> set v \<and> NUL \<notin> set k \<union> set v)"

text \<open>A section with an observer holds records of its keys.\<close>

definition section_ok :: "MNvramObserver option list \<Rightarrow> string \<times> (string \<times> string) list list \<Rightarrow> bool" where
  "section_ok os s \<longleftrightarrow> name_ok (fst s) \<and> lines_ok (snd s) \<and>
     (case section_observer os (fst s) of
        None \<Rightarrow> True
      | Some obs \<Rightarrow> keys_wf (obs_keys obs) \<and> (\<forall>r \<in> set (snd s). record_ok (obs_keys obs) r)
                     \<and> length (snd s) \<le> NVRAM_MAX_RECORDS_IN_SECTION)"

text \<open>What the loader keeps of a section.\<close>

definition parsed_of :: "MNvramObserver option list \<Rightarrow> config \<Rightarrow> ParsedRecords list" where
  "parsed_of os cfg = concat (map (\<lambda>(name, rs).
     case section_observer os name of
       None \<Rightarrow> []
     | Some obs \<Rightarrow> if rs = [] then [] else [\<lparr>observer = obs, sec_records = map (\<lambda>r. record_of (obs_keys obs) (map_of r)) rs\<rparr>]) cfg)"

section \<open>Where the sections are\<close>

lemma header_ok_name: "name_ok name \<Longrightarrow> header_ok (header_text name)"
  by (auto simp: name_ok_def header_ok_def word_ok_def tight_def IS_IT_CHAR_TO_STRIP_def)

lemma line_text_chars:
  "set (line_text r) \<subseteq> {NEWLINE, COMMA, KEY_VALUE_DELIMETER} \<union> \<Union> ((\<lambda>(k, v). set k \<union> set v) ` set r)"
  by (induction r rule: line_text.induct) auto

lemma lines_chars:
  assumes "lines_ok rs" "c \<in> {LBRACKET, NUL}"
  shows "c \<notin> set (concat (map line_text rs))"
proof
  assume "c \<in> set (concat (map line_text rs))"
  then obtain r where r: "r \<in> set rs" "c \<in> set (line_text r)" by auto
  then have "c \<in> {NEWLINE, COMMA, KEY_VALUE_DELIMETER} \<union> \<Union> ((\<lambda>(k, v). set k \<union> set v) ` set r)" using line_text_chars by blast
  then show False using assms r(1) unfolding lines_ok_def by fastforce
qed

lemma last_line: "last (line_text r) = NEWLINE" "line_text r \<noteq> []"
  by (induction r rule: line_text.induct) auto

lemma last_lines: "last (NEWLINE # concat (map line_text rs)) = NEWLINE"
  by (induction rs rule: rev_induct) (auto simp: last_line)

lemma nearest_found:
  assumes h: "has data c (w @ header_text name @ [NEWLINE])" and w: "LBRACKET \<notin> set w" "NUL \<notin> set w" "w = [] \<or> last w = NEWLINE"
    and name: "name_ok name" and size: "c + length w + length name + 1 < n"
  shows "get_nearest_section_start data n c
    = Some (Some \<lparr>sec_name = c + length w + 1, name_len = length name, offset_start = c + length w, offset_end = 0\<rparr>, c + length w)"
proof -
  let ?p = "c + length w"
  have open_b: "strchr data c LBRACKET = Some ?p" using h w by (intro strchr_has) simp_all
  have hn: "has data ?p (header_text name @ [NEWLINE])" and hname: "has data (?p + 1) name" using h by simp_all
  have close_b: "strchr data ?p RBRACKET = Some (?p + length name + 1)"
    using strchr_has [of data ?p "LBRACKET # name" RBRACKET] hn name by (auto simp: name_ok_def word_ok_def)
  have line: "strchr data ?p NEWLINE = Some (?p + length name + 2)"
    using strchr_has [of data ?p "header_text name" NEWLINE] hn name by (auto simp: name_ok_def word_ok_def)
  have start: "?p = c \<or> 0 < ?p \<and> char_at data (?p - 1) = NEWLINE"
  proof (cases "w = []")
    case False
    then have "char_at data (c + (length w - 1)) = last w"
      using has_nth [of data c w "length w - 1"] h by (simp add: last_conv_nth)
    moreover have "c + (length w - 1) = ?p - 1" using False by (cases w) simp_all
    ultimately show ?thesis using w(3) False by simp
  qed simp
  have strip: "strip_all data (int ?p + 1) (int (length name)) = Some (int (?p + 1), length name)"
    using strip_all_tight [OF hname] name by (simp add: name_ok_def word_ok_def ac_simps)
  show ?thesis
    using open_b close_b line start strip size by (subst get_nearest_section_start.simps) (simp add: nat_add_distrib)
qed

lemma nearest_none:
  assumes "has data c w" "LBRACKET \<notin> set w" "char_at data (c + length w) = NUL"
  shows "get_nearest_section_start data n c = Some (None, c)"
proof -
  have "strchr data c LBRACKET = None"
    using assms by (induction w arbitrary: c) (auto simp: strchr.simps [of data])
  then show ?thesis by (subst get_nearest_section_start.simps) simp
qed

text \<open>The sections of a configuration at \<open>p\<close>, before and after their ends are set.\<close>

fun sections_at :: "nat \<Rightarrow> config \<Rightarrow> config_section_t list" where
  "sections_at p [] = []"
| "sections_at p ((name, rs) # cfg) =
     \<lparr>sec_name = p + 1, name_len = length name, offset_start = p, offset_end = 0\<rparr>
       # sections_at (p + length (section_text (header_text name) rs)) cfg"

fun bounds_at :: "nat \<Rightarrow> config \<Rightarrow> config_section_t list" where
  "bounds_at p [] = []"
| "bounds_at p ((name, rs) # cfg) =
     (let e = p + length (section_text (header_text name) rs)
      in \<lparr>sec_name = p + 1, name_len = length name, offset_start = p, offset_end = e\<rparr> # bounds_at e cfg)"

lemma set_ends_sections: "set_ends (p + length (config_text cfg)) (sections_at p cfg) = bounds_at p cfg"
proof (induction p cfg rule: sections_at.induct)
  case (2 p name rs cfg)
  let ?e = "p + length (section_text (header_text name) rs)"
  have e: "p + length (config_text ((name, rs) # cfg)) = ?e + length (config_text cfg)" by (simp add: config_text_def)
  show ?case
  proof (cases cfg)
    case Nil
    then show ?thesis by (simp add: config_text_def)
  next
    case (Cons s cfg')
    then obtain t ts where t: "sections_at ?e cfg = t # ts" "offset_start t = ?e" by (cases s) auto
    then show ?thesis using "2.IH" unfolding e by (simp add: Let_def)
  qed
qed simp

lemma config_sections_text:
  assumes "\<And>s. s \<in> set cfg \<Longrightarrow> name_ok (fst s) \<and> lines_ok (snd s)" "has data c (w @ config_text cfg)"
    "LBRACKET \<notin> set w" "NUL \<notin> set w" "w = [] \<or> last w = NEWLINE"
    "n = c + length w + length (config_text cfg)" "char_at data n = NUL" "length cfg \<le> room"
  shows "config_sections data n c room = Some (sections_at (c + length w) cfg)"
  using assms
proof (induction cfg arbitrary: c w room)
  case Nil
  then have "get_nearest_section_start data n c = Some (None, c)" by (intro nearest_none [of _ _ w]) (simp_all add: config_text_def)
  then show ?case by (simp add: config_sections.simps)
next
  case (Cons s cfg)
  obtain name rs where s: "s = (name, rs)" by fastforce
  have ok: "name_ok name" "lines_ok rs" using Cons.prems(1) [of s] s by simp_all
  let ?lines = "concat (map line_text rs)" and ?p = "c + length w"
  obtain u x where nm: "name = u @ [x]" using ok(1) by (cases name rule: rev_cases) (auto simp: name_ok_def)
  let ?w = "x # RBRACKET # NEWLINE # ?lines"
  have t: "config_text (s # cfg) = header_text name @ NEWLINE # ?lines @ config_text cfg"
    by (simp add: s config_text_def section_text_def)
  have hw: "has data (?p + length name) (?w @ config_text cfg)" and h: "has data c (w @ header_text name @ [NEWLINE])"
    using Cons.prems(2) t by (simp_all add: nm add.assoc)
  have size: "?p + length name + 1 < n" "n = ?p + length name + length ?w + length (config_text cfg)" using Cons.prems(6) t by simp_all
  note found = nearest_found [OF h Cons.prems(3-5) ok(1) size(1)]
  have chars: "LBRACKET \<notin> set ?w" "NUL \<notin> set ?w"
    using ok(1) nm lines_chars [OF ok(2)] by (auto simp: name_ok_def word_ok_def)
  obtain m where m: "room = Suc m" "length cfg \<le> m" using Cons.prems(8) by (cases room) auto
  have last: "?w = [] \<or> last ?w = NEWLINE" using last_lines by simp
  have e: "?p + length name + length ?w = ?p + length (section_text (header_text name) rs)" by (simp add: section_text_def)
  have "config_sections data n (?p + length name) m = Some (sections_at (?p + length name + length ?w) cfg)"
    using Cons.prems(1,7) by (intro Cons.IH [OF _ hw chars last size(2) _ m(2)]) simp_all
  then show ?case using found unfolding e by (subst config_sections.simps) (simp add: m s)
qed

section \<open>What is parsed\<close>

lemma parse_sections_text:
  assumes "\<And>s. s \<in> set cfg \<Longrightarrow> section_ok (nvram_observers nvram) s" "has (nvram_data nvram) p (config_text cfg)"
  shows "parse_sections nvram (bounds_at p cfg) = Some (parsed_of (nvram_observers nvram) cfg)"
  using assms
proof (induction p cfg rule: bounds_at.induct)
  case (2 p name rs cfg)
  let ?os = "nvram_observers nvram" and ?t = "section_text (header_text name) rs"
  have h: "has (nvram_data nvram) p ?t" "has (nvram_data nvram) (p + length ?t) (config_text cfg)"
    using "2.prems"(2) by (simp_all add: config_text_def)
  have "has (nvram_data nvram) (p + 1) name" using h(1) by (simp add: section_text_def)
  then have nm: "substr (nvram_data nvram) (p + 1) (length name) = name" by (simp add: has_substr)
  have ok: "section_ok ?os (name, rs)" using "2.prems"(1) by simp
  have ih: "parse_sections nvram (bounds_at (p + length ?t) cfg) = Some (parsed_of ?os cfg)"
    using "2.IH" [OF refl _ h(2)] "2.prems"(1) by simp
  show ?case
  proof (cases "section_observer ?os name")
    case None
    then show ?thesis using nm ih by (simp add: Let_def parsed_of_def)
  next
    case (Some obs)
    have "get_parsed_records (nvram_data nvram) p (length ?t) (obs_keys obs) = Some (map (\<lambda>r. record_of (obs_keys obs) (map_of r)) rs)"
      using ok Some header_ok_name [of name] by (intro section_parsed h(1)) (auto simp: section_ok_def)
    then show ?thesis using nm ih Some by (simp add: Let_def parsed_of_def parse_section_def)
  qed
qed (simp add: parsed_of_def)

definition holds :: "NvramLoader \<Rightarrow> config \<Rightarrow> bool" where
  "holds nvram cfg \<longleftrightarrow> has (nvram_data nvram) 0 (config_text cfg) \<and> nvram_data_size nvram = int (length (config_text cfg))
     \<and> char_at (nvram_data nvram) (length (config_text cfg)) = NUL"

lemma nvram_parse_text:
  assumes "holds nvram cfg" "\<And>s. s \<in> set cfg \<Longrightarrow> section_ok (nvram_observers nvram) s" "length cfg \<le> NVRAM_MAX_SECTIONS_COUNT"
  shows "nvram_parse nvram = Some (nvram\<lparr>parsed_sections := parsed_of (nvram_observers nvram) cfg\<rparr>)"
proof -
  have "config_sections (nvram_data nvram) (length (config_text cfg)) 0 NVRAM_MAX_SECTIONS_COUNT = Some (sections_at 0 cfg)"
    using config_sections_text [of cfg "nvram_data nvram" 0 "[]"] assms by (simp add: holds_def section_ok_def)
  moreover have "parse_sections nvram (bounds_at 0 cfg) = Some (parsed_of (nvram_observers nvram) cfg)"
    using assms(1) by (intro parse_sections_text assms(2)) (simp_all add: holds_def)
  ultimately show ?thesis
    using assms(1) set_ends_sections [of 0 cfg] by (simp add: nvram_parse_def get_config_structure_def holds_def)
qed

text \<open>Reading a file that is shorter than the buffer leaves it in the buffer with a NUL behind it.\<close>

lemma nvram_read_holds:
  assumes "length (nvram_data nvram) = NVRAM_MAX_FILE_SIZE" "length (config_text cfg) < NVRAM_MAX_FILE_SIZE" "cfg \<noteq> []"
    and "fc_open c w name = (fd, w1)" "0 < fd"
    and "fc_read c (fc_lseek c w1 fd 0) fd NVRAM_MAX_FILE_SIZE = (int (length (config_text cfg)), config_text cfg, w2)"
  shows "\<exists>nvram'. nvram_read c nvram name w = (int (length (config_text cfg)), nvram', fc_close c w2 fd)
    \<and> holds nvram' cfg \<and> nvram_observers nvram' = nvram_observers nvram \<and> length (nvram_data nvram') = NVRAM_MAX_FILE_SIZE"
proof -
  let ?t = "config_text cfg" and ?d = "(config_text cfg @ drop (length (config_text cfg)) (nvram_data nvram))[length (config_text cfg) := NUL]"
  have "0 < length ?t" using assms(3) by (cases cfg) (auto simp: config_text_def section_text_def)
  then have r: "nvram_read c nvram name w = (int (length ?t), nvram\<lparr>nvram_data := ?d, nvram_data_size := int (length ?t)\<rparr>, fc_close c w2 fd)"
    using assms by (simp add: nvram_read_def)
  have "?d = ?t @ NUL # drop (Suc (length ?t)) (nvram_data nvram)"
    using assms(1,2) by (simp add: list_update_append Cons_nth_drop_Suc [symmetric])
  moreover have "has (?t @ NUL # drop (Suc (length ?t)) (nvram_data nvram)) 0 ?t" using has_within [of "[]"] by simp
  ultimately show ?thesis using r assms(1,2) by (auto simp: holds_def char_at_def nth_append)
qed

section \<open>Sections that are not found, names that are taken for others\<close>

lemma nearest_unclosed:
  assumes h: "has data c (w @ LBRACKET # u @ [NEWLINE])" and w: "LBRACKET \<notin> set w" "NUL \<notin> set w"
    and u: "RBRACKET \<notin> set u" "NEWLINE \<notin> set u" "NUL \<notin> set u" and n: "c + length w < n"
  shows "get_nearest_section_start data n c = Some (None, n)"
proof -
  let ?p = "c + length w"
  have open_b: "strchr data c LBRACKET = Some ?p" using h w by (intro strchr_has) simp_all
  have hu: "has data ?p ((LBRACKET # u) @ [NEWLINE])" using h by simp
  then have hb: "has data ?p (LBRACKET # u)" by simp
  have line: "strchr data ?p NEWLINE = Some (?p + length (LBRACKET # u))" using u by (intro strchr_has [OF hu]) auto
  have "\<not> e < ?p + length (LBRACKET # u)" if e: "strchr data ?p RBRACKET = Some e" for e
  proof
    assume l: "e < ?p + length (LBRACKET # u)"
    have "e - ?p < length (LBRACKET # u)" "e = ?p + (e - ?p)" using l strchr_ge [OF e] by simp_all
    then have "char_at data e = (LBRACKET # u) ! (e - ?p)" "(LBRACKET # u) ! (e - ?p) \<in> set (LBRACKET # u)"
      using has_nth [OF hb, of "e - ?p"] by (metis, metis nth_mem)
    then show False using strchr_ge [OF e] u(1) by auto
  qed
  then show ?thesis
    using open_b line n by (subst get_nearest_section_start.simps) (auto split: option.split)
qed

lemma empty_name_fails:
  assumes h: "has data c [LBRACKET, RBRACKET]" and n: "c + 1 < n"
    and l: "\<And>e. strchr data c NEWLINE = Some e \<Longrightarrow> c + 1 < e"
  shows "config_sections data n c room = None"
proof -
  have "strchr data c LBRACKET = Some c" "strchr data c RBRACKET = Some (c + 1)"
    using h by (auto simp: strchr.simps [of data])
  moreover have "strip_all data (int c + 1) 0 = Some (int c + 1, 0)" by (simp add: strip_all_def first_index_step)
  ultimately have at: "get_nearest_section_start data n c
      = Some (Some \<lparr>sec_name = nat (int c + 1), name_len = 0, offset_start = c, offset_end = 0\<rparr>, c)"
    using n l by (subst get_nearest_section_start.simps) (auto split: option.split)
  then show ?thesis by (induction room) (simp_all add: config_sections.simps)
qed

lemma strncmp_eq_sym: "strncmp_eq a b n = strncmp_eq b a n"
  by (induction a b n rule: strncmp_eq.induct) auto

lemma section_observer_prefix:
  "section_observer os name = find (\<lambda>obs. prefix name (observed_section_name obs)) (map the (filter (\<lambda>x. x \<noteq> None) os))"
  by (induction os name rule: section_observer.induct)
    (auto simp: strncmp_eq_prefix [symmetric] strncmp_eq_sym)

section \<open>Properties\<close>

text \<open>(C22) A configuration of at most seven sections, written as a file shorter than the buffer of the
  loader, is read back: reading and parsing it gives, for every section that has an observer and a record,
  that observer with the records of its lines, absent optional keys filled in, and nothing else.\<close>

theorem configuration_read_back:
  assumes "length (nvram_data nv) = NVRAM_MAX_FILE_SIZE" "length (config_text cfg) < NVRAM_MAX_FILE_SIZE" "cfg \<noteq> []"
    and "length cfg \<le> NVRAM_MAX_SECTIONS_COUNT" "\<forall>s \<in> set cfg. section_ok (nvram_observers nv) s"
    and "fc_open c w name = (fd, w1)" "0 < fd"
    and "fc_read c (fc_lseek c w1 fd 0) fd NVRAM_MAX_FILE_SIZE = (int (length (config_text cfg)), config_text cfg, w2)"
  shows "\<exists>n nv1 nv2 w3. nvram_read c nv name w = (n, nv1, w3) \<and> 0 < n \<and> nvram_parse nv1 = Some nv2
    \<and> parsed_sections nv2 = parsed_of (nvram_observers nv) cfg"
proof -
  obtain nv1 where r: "nvram_read c nv name w = (int (length (config_text cfg)), nv1, fc_close c w2 fd)" "holds nv1 cfg"
    "nvram_observers nv1 = nvram_observers nv"
    using nvram_read_holds [OF assms(1-3,6-8)] by blast
  have "0 < length (config_text cfg)" using assms(3) by (cases cfg) (auto simp: config_text_def section_text_def)
  moreover have "nvram_parse nv1 = Some (nv1\<lparr>parsed_sections := parsed_of (nvram_observers nv) cfg\<rparr>)"
    using nvram_parse_text [OF r(2)] assms(4,5) r(3) by simp
  ultimately show ?thesis using r(1) by auto
qed

text \<open>An opening bracket that is not closed on its line, say in a value, ends the search for sections:
  the sections behind it are not found.\<close>

theorem unclosed_bracket_hides_sections:
  assumes "LBRACKET \<notin> set w" "NUL \<notin> set w" "RBRACKET \<notin> set u" "NEWLINE \<notin> set u" "NUL \<notin> set u"
    and "has data c (w @ LBRACKET # u @ [NEWLINE])" "c + length w < whole_size"
  shows "config_sections data whole_size c left = Some []"
  using nearest_unclosed [OF assms(6) assms(1-5,7)] by (simp add: config_sections.simps)

end
