(* ===== verification/Observers.thy ===== *)
theory Observers
  imports NvramProps ChannelsMount
begin

text \<open>
  The observers of the configuration (\<open>lib/nvram/observers\<close>) for \<open>args\<close>, \<open>env\<close>, \<open>debug\<close>, \<open>mapping\<close>,
  \<open>precache\<close> and \<open>time\<close>: what each does with a record of its section, and how the command line and the
  environment of the user program come out of the buffers they fill.

  A buffer is the text written to it so far, its length is the index; a write behind its end is \<open>None\<close>, and
  so is reading a cell of a record that was never stored to.
\<close>

section \<open>Values of a record\<close>

text \<open>\<open>ALLOCA_PARAM_VALUE\<close>: the copy ends with a NUL, so as a C string it ends at the first NUL.\<close>

definition ALLOCA_PARAM_VALUE :: "ParsedRecord \<Rightarrow> nat \<Rightarrow> string option" where
  "ALLOCA_PARAM_VALUE record i = map_option pp_val (record ! i)"

definition c_str :: "string \<Rightarrow> string" where
  "c_str s = takeWhile (\<lambda>c. c \<noteq> NUL) s"

section \<open>Command line\<close>

text \<open>The parser of \<open>args_observer.c\<close> has the text of \<open>parse_args\<close>.\<close>

definition parse_config_args :: "nat \<Rightarrow> string \<Rightarrow> nat \<Rightarrow> string list" where
  "parse_config_args args_array_len args_buf bufsize = parse_args args_array_len args_buf bufsize"

fun place_args :: "nat \<Rightarrow> string list \<Rightarrow> string \<Rightarrow> string option" where
  "place_args bufsize [] dest_buf = Some dest_buf"
| "place_args bufsize (a # args) dest_buf = do {
     (_, s) \<leftarrow> unescape_string_copy_to_dest a (length a);
     if length dest_buf + length s + 1 \<le> bufsize then place_args bufsize args (dest_buf @ s @ [NUL]) else None }"

definition parse_transform_and_place_into_buf :: "nat \<Rightarrow> string \<Rightarrow> string \<Rightarrow> string option" where
  "parse_transform_and_place_into_buf bufsize dest_buf source_buf =
     (if length dest_buf + length source_buf < bufsize
      then place_args bufsize (parse_config_args NVRAM_MAX_RECORDS_IN_SECTION source_buf (length source_buf)) dest_buf
      else Some dest_buf)"

definition handle_arg_record :: "nat \<Rightarrow> ParsedRecord \<Rightarrow> string \<Rightarrow> string option" where
  "handle_arg_record bufsize record buffer = do {
     argval \<leftarrow> ALLOCA_PARAM_VALUE record 0;
     parse_transform_and_place_into_buf bufsize buffer argval }"

text \<open>The loop of \<open>get_arg_array\<close> and of \<open>get_env_array\<close>: the pointers before the final NULL, as the strings they
  point to. \<open>start\<close> is \<open>handled_buf_idx\<close>.\<close>

function array_loop :: "string \<Rightarrow> nat \<Rightarrow> nat \<Rightarrow> nat \<Rightarrow> nat \<Rightarrow> string list" where
  "array_loop buf bufsize idx start i =
     (if i < bufsize \<and> idx < NVRAM_MAX_RECORDS_IN_SECTION then
        (if char_at buf i = NUL then substr buf start (i - start) # array_loop buf bufsize (idx + 1) (i + 1) (i + 1)
         else array_loop buf bufsize idx start (i + 1))
      else [])"
  by pat_completeness auto
termination
  by (relation "measure (\<lambda>(buf, bufsize, idx, start, i). bufsize - i)") auto

declare array_loop.simps [simp del]

definition get_arg_array :: "string \<Rightarrow> nat \<Rightarrow> string list" where
  "get_arg_array buf bufsize = array_loop buf bufsize 0 0 0"

section \<open>Environment\<close>

definition add_pair_to_temp_buffer :: "nat \<Rightarrow> string \<Rightarrow> string \<Rightarrow> string \<Rightarrow> string option" where
  "add_pair_to_temp_buffer bufsize buf name val =
     (if length buf + length name + length val < bufsize then
        (let buf' = buf @ name @ KEY_VALUE_DELIMETER # val @ [NUL]
         in if length buf' \<le> bufsize then Some buf' else None)
      else Some buf)"

definition get_env_array :: "string \<Rightarrow> nat \<Rightarrow> string list" where
  "get_env_array buf bufsize = array_loop buf bufsize 0 0 0"

text \<open>The name and the unescaped value of a record; the room for the value is that of the C string.\<close>

definition env_params :: "ParsedRecord \<Rightarrow> (string \<times> string) option" where
  "env_params record = do {
     envname \<leftarrow> ALLOCA_PARAM_VALUE record 0;
     envval \<leftarrow> ALLOCA_PARAM_VALUE record 1;
     (_, v) \<leftarrow> unescape_string_copy_to_dest envval (length envval);
     if length v \<le> length (c_str envval) then Some (envname, v) else None }"

definition handle_env_record :: "nat \<Rightarrow> ParsedRecord \<Rightarrow> string \<Rightarrow> string option" where
  "handle_env_record bufsize record buffer = do {
     (envname, v) \<leftarrow> env_params record;
     add_pair_to_temp_buffer bufsize buffer envname v }"

text \<open>In a forked session the objects are NULL and the variable goes to \<open>setenv\<close> of the C library.\<close>

definition handle_env_record_fork :: "(string \<Rightarrow> string \<Rightarrow> 'e \<Rightarrow> 'e) \<Rightarrow> ParsedRecord \<Rightarrow> 'e \<Rightarrow> 'e option" where
  "handle_env_record_fork setenv record e = do {
     (envname, v) \<leftarrow> env_params record;
     Some (setenv (c_str envname) (c_str v) e) }"

section \<open>Verbosity, channel modes, precaching\<close>

definition handle_debug_record :: "ParsedRecord \<Rightarrow> int \<Rightarrow> int option" where
  "handle_debug_record record verbosity_level = do {
     verbosity \<leftarrow> ALLOCA_PARAM_VALUE record 0;
     (let v = of_char (char_at verbosity 0) :: int
      in Some (if 0x30 \<le> v \<and> v \<le> 0x39 then v - 0x30 else verbosity_level)) }"

definition handle_mapping_record :: "ParsedRecord \<Rightarrow> ('w, 'a) chan_scheme \<Rightarrow> ('w, 'a) chan_scheme option" where
  "handle_mapping_record record s = do {
     channel \<leftarrow> ALLOCA_PARAM_VALUE record 0;
     mode \<leftarrow> ALLOCA_PARAM_VALUE record 1;
     (let channel_mode = (if c_str mode = ''pipe'' then Some S_IFIFO
                          else if c_str mode = ''char'' then Some S_IFCHR
                          else if c_str mode = ''file'' then Some S_IFREG else None)
      in Some (case channel_mode of None \<Rightarrow> s | Some m \<Rightarrow> mode_updater_set_channel_mode s (c_str channel) m)) }"

definition handle_precache_record :: "ParsedRecord \<Rightarrow> bool \<Rightarrow> bool option" where
  "handle_precache_record record dofork = map_option (\<lambda>precache. c_str precache = ''yes'') (ALLOCA_PARAM_VALUE record 0)"

section \<open>Time\<close>

type_synonym uint = "32 word"

text \<open>The loop of \<open>strtouint_nolocale\<close> from the last character to the first; the second component is \<open>*err\<close>.\<close>

fun strtouint_loop :: "string \<Rightarrow> uint \<Rightarrow> uint \<Rightarrow> uint \<Rightarrow> uint \<times> bool" where
  "strtouint_loop [] base app res = (res, False)"
| "strtouint_loop (c # cs) base app res =
     (let v = of_char c :: nat
      in if 0x30 \<le> v \<and> v \<le> 0x39 then
           (let delta = app * of_nat (v - 0x30)
            in if \<not> - 1 - res < delta then strtouint_loop cs base (app * base) (res + delta) else (0, True))
         else strtouint_loop cs base app res)"

definition strtouint_nolocale :: "string \<Rightarrow> uint \<Rightarrow> uint \<times> bool" where
  "strtouint_nolocale str base = strtouint_loop (rev (c_str str)) base 1 0"

record timeval =
  tv_sec :: int
  tv_usec :: int

definition handle_time_record :: "ParsedRecord \<Rightarrow> timeval \<Rightarrow> timeval option" where
  "handle_time_record record time_cache = do {
     seconds \<leftarrow> ALLOCA_PARAM_VALUE record 0;
     Some (time_cache\<lparr>tv_usec := 0, tv_sec := uint (fst (strtouint_nolocale seconds 10))\<rparr>) }"

end
