(* ===== verification/ObserversProps.thy ===== *)
theory ObserversProps
  imports Observers
begin

text \<open>
  The command line and the environment of the user program: the buffers they are put into never
  overflow, and what comes out of them is what the configuration says.
\<close>

section \<open>Strings in a buffer\<close>

lemma c_str_id: "NUL \<notin> set s \<Longrightarrow> c_str s = s"
  by (auto simp: c_str_def takeWhile_eq_all_conv)

definition packed :: "string list \<Rightarrow> string" where
  "packed ws = concat (map (\<lambda>w. w @ [NUL]) ws)"

lemma packed_simps [simp]: "packed [] = []" "packed (w # ws) = w @ NUL # packed ws" "packed (us @ ws) = packed us @ packed ws"
  by (simp_all add: packed_def)

lemma array_loop_skip:
  assumes "\<And>j. j < k \<Longrightarrow> char_at buf (i + j) \<noteq> NUL" "i + k \<le> n" "idx < NVRAM_MAX_RECORDS_IN_SECTION"
  shows "array_loop buf n idx start i = array_loop buf n idx start (i + k)"
  using assms(1,2)
proof (induction k)
  case (Suc k)
  then have "array_loop buf n idx start i = array_loop buf n idx start (i + k)" by simp
  also have "\<dots> = array_loop buf n idx start (i + Suc k)"
    using Suc.prems(1) [of k] Suc.prems(2) assms(3) by (subst array_loop.simps) simp
  finally show ?case .
qed simp

lemma array_loop_packed:
  assumes "\<And>w. w \<in> set ws \<Longrightarrow> NUL \<notin> set w" "has buf i (packed ws)" "n = i + length (packed ws)" "idx \<le> NVRAM_MAX_RECORDS_IN_SECTION"
  shows "array_loop buf n idx i i = take (NVRAM_MAX_RECORDS_IN_SECTION - idx) ws"
  using assms
proof (induction ws arbitrary: i idx)
  case Nil
  then show ?case by (simp add: array_loop.simps)
next
  case (Cons w ws)
  show ?case
  proof (cases "idx < NVRAM_MAX_RECORDS_IN_SECTION")
    case True
    let ?j = "i + length w"
    have h: "has buf i w" "char_at buf ?j = NUL" "has buf (?j + 1) (packed ws)" using Cons.prems(2) by simp_all
    have "char_at buf (i + j) \<noteq> NUL" if "j < length w" for j
      using has_nth [OF h(1) that] nth_mem [OF that] Cons.prems(1) [of w] by auto
    then have "array_loop buf n idx i i = array_loop buf n idx i ?j"
      using Cons.prems(3) True by (intro array_loop_skip) simp_all
    also have "\<dots> = w # array_loop buf n (idx + 1) (?j + 1) (?j + 1)"
      using h(2) True Cons.prems(3) has_substr [OF h(1) refl] by (subst array_loop.simps) simp
    also have "array_loop buf n (idx + 1) (?j + 1) (?j + 1) = take (NVRAM_MAX_RECORDS_IN_SECTION - (idx + 1)) ws"
      using Cons.prems(1,3) True by (intro Cons.IH h(3)) simp_all
    finally show ?thesis using True by (simp add: take_Cons' Suc_diff_Suc)
  qed (use Cons.prems in \<open>simp add: array_loop.simps\<close>)
qed

lemma get_array_packed:
  assumes "\<And>w. w \<in> set ws \<Longrightarrow> NUL \<notin> set w"
  shows "get_arg_array (packed ws) (length (packed ws)) = take NVRAM_MAX_RECORDS_IN_SECTION ws"
    "get_env_array (packed ws) (length (packed ws)) = take NVRAM_MAX_RECORDS_IN_SECTION ws"
  using array_loop_packed [of ws "packed ws" 0 "length (packed ws)" 0] assms has_within [of "[]" "packed ws" "[]"]
  by (simp_all add: get_arg_array_def get_env_array_def)

section \<open>Arguments fit\<close>

text \<open>The room the arguments need.\<close>

definition room :: "string list \<Rightarrow> nat" where
  "room ws = sum_list (map (\<lambda>w. length w + 1) ws)"

lemma room_simps [simp]: "room [] = 0" "room (w # ws) = length w + 1 + room ws" "room (us @ ws) = room us + room ws"
  by (simp_all add: room_def)

lemma length_packed: "length (packed ws) = room ws"
  by (induction ws) simp_all

lemma strchrnul_bounds: "i \<le> length buf \<Longrightarrow> i \<le> strchrnul buf i c \<and> strchrnul buf i c \<le> length buf" if "c \<noteq> NUL"
proof (cases "strchr buf i c")
  case None
  assume "i \<le> length buf"
  moreover have "length (takeWhile (\<lambda>x. x \<noteq> NUL) (drop i buf)) \<le> length (drop i buf)" by (rule length_takeWhile_le)
  ultimately show ?thesis using None by (simp add: strchrnul_def)
next
  case (Some d)
  have "d < length buf" using strchr_ge [OF Some] that by (auto simp: char_at_def split: if_splits)
  then show ?thesis using strchr_ge [OF Some] Some by (simp add: strchrnul_def)
qed

definition args_inv :: "nat \<Rightarrow> nat \<Rightarrow> nat \<Rightarrow> arg_state \<Rightarrow> bool" where
  "args_inv m n i a \<longleftrightarrow> room (arg_args a) \<le> n + 1 \<and> (length (arg_args a) < m \<longrightarrow>
     (case arg_val a of None \<Rightarrow> room (arg_args a) \<le> i \<and> i \<le> n + 1 | Some p \<Rightarrow> room (arg_args a) \<le> p \<and> p < i \<and> i \<le> n))"

lemma save_room:
  assumes "room (arg_args a) \<le> p" "p + k \<le> n"
  shows "room (arg_args (SAVE_PARSED_ARG m buf p k a)) \<le> p + k + 1"
  using assms by (auto simp: SAVE_PARSED_ARG_def intro: order.trans [OF mod_less_eq_dividend])

lemma parse_args_room_loop:
  "n = length buf \<Longrightarrow> args_inv m n i a \<Longrightarrow> room (finish_args m buf (parse_args_loop m buf n i a)) \<le> n + 1"
proof (induction m buf n i a rule: parse_args_loop.induct)
  case (1 m buf n i a)
  note prems = "1.prems"
  show ?case
  proof (cases "length (arg_args a) < m")
    case False
    then show ?thesis using finish_full [OF False, of buf n i] prems(2) by (simp add: args_inv_def)
  next
    case room: True
    show ?thesis
    proof (cases "i < n")
      case False
      then show ?thesis
        using prems room save_room [of a "the (arg_val a)" "i - the (arg_val a)" n m buf]
        by (auto simp: parse_args_loop.simps finish_args_def args_inv_def split: option.splits)
    next
      case i: True
      let ?c = "char_at buf i" and ?step = "parse_args_loop m buf n i a"
      note inv = prems(2) [unfolded args_inv_def]
      consider (blank) "?c = CHR 0x20 \<or> ?c = CHR 0x09"
        | (quote) "\<not> (?c = CHR 0x20 \<or> ?c = CHR 0x09)" "?c = CHR 0x22 \<and> arg_val a = None" "i + 1 < n"
        | (last) "\<not> (?c = CHR 0x20 \<or> ?c = CHR 0x09)" "?c = CHR 0x22 \<and> arg_val a = None" "\<not> i + 1 < n"
        | (start) "\<not> (?c = CHR 0x20 \<or> ?c = CHR 0x09)" "\<not> (?c = CHR 0x22 \<and> arg_val a = None)" "arg_val a = None"
        | (inside) "\<not> (?c = CHR 0x20 \<or> ?c = CHR 0x09)" "\<not> (?c = CHR 0x22 \<and> arg_val a = None)" "arg_val a \<noteq> None"
        by blast
      then show ?thesis
      proof cases
        case blank
        have "args_inv m n (i + 1) (case arg_val a of Some p \<Rightarrow> SAVE_PARSED_ARG m buf p (i - p) a | None \<Rightarrow> a)"
          using inv room i save_room [of a "the (arg_val a)" "i - the (arg_val a)" n m buf]
          by (auto simp: args_inv_def SAVE_PARSED_ARG_def split: option.splits)
        with "1.IH"(1) [OF i refl blank prems(1)] show ?thesis using i blank by (subst parse_args_loop.simps) simp
      next
        case quote
        let ?q = "strchrnul buf (i + 1) (CHR 0x22)"
        let ?k = "(?q - (i + 1)) mod 2 ^ 16"
        have q: "?k \<le> ?q - (i + 1)" "i + 1 \<le> ?q" "?q \<le> n"
          using strchrnul_bounds [of "CHR 0x22" "i + 1" buf] i prems(1) by simp_all
        have "args_inv m n (i + (?k + 1) + 1) (SAVE_PARSED_ARG m buf (i + 1) ?k (a\<lparr>arg_val := Some (i + 1)\<rparr>))"
          using inv room q quote(2) by (auto simp: args_inv_def SAVE_PARSED_ARG_def simp del: One_nat_def)
        with "1.IH"(2) [OF i refl quote refl refl prems(1)] show ?thesis
          using i quote by (subst parse_args_loop.simps) (simp del: One_nat_def add: Let_def)
      next
        case last
        have "args_inv m n (i + 1) (a\<lparr>arg_val := Some i\<rparr>)" using inv room i last by (auto simp: args_inv_def)
        with "1.IH"(3) [OF i refl last prems(1)] show ?thesis using i last by (subst parse_args_loop.simps) simp
      next
        case start
        have "args_inv m n (i + 1) (a\<lparr>arg_val := Some i\<rparr>)" using inv room i start by (auto simp: args_inv_def)
        with "1.IH"(4) [OF i refl start prems(1)] show ?thesis using i start by (subst parse_args_loop.simps) auto
      next
        case inside
        have "args_inv m n (i + 1) a" using inv room i inside by (auto simp: args_inv_def)
        with "1.IH"(5) [OF i refl inside prems(1)] show ?thesis using i inside by (subst parse_args_loop.simps) auto
      qed
    qed
  qed
qed

lemma parse_args_room: "room (parse_args m buf (length buf)) \<le> length buf + 1"
  using parse_args_room_loop [of "length buf" buf m 0] by (simp add: parse_args_finish args_inv_def)

lemma unescape_shrinks: "unescape_loop source n i = Some w \<Longrightarrow> length w \<le> n - i"
proof (induction source n i arbitrary: w rule: unescape_loop.induct)
  case (1 source n i)
  show ?case
  proof (cases "i < n")
    case True
    then show ?thesis
      using "1.prems" "1.IH"(1) [OF True] "1.IH"(2) [OF True]
      by (subst (asm) unescape_loop.simps) (fastforce simp: bind_eq_Some_conv split: if_splits)
  qed (use "1.prems" in \<open>simp add: unescape_loop.simps\<close>)
qed

lemma place_args_fits:
  assumes "\<And>a. a \<in> set args \<Longrightarrow> unescape_string_copy_to_dest a (length a) \<noteq> None" "length dest + room args \<le> n"
  shows "\<exists>ws. place_args n args dest = Some (dest @ packed ws) \<and> room ws \<le> room args \<and> length ws = length args"
  using assms
proof (induction args arbitrary: dest)
  case (Cons a args)
  obtain w where w: "unescape_string_copy_to_dest a (length a) = Some (int (length w), w)" "length w \<le> length a"
    using Cons.prems(1) [of a] unescape_shrinks [of a "length a" 0] by (auto simp: unescape_string_copy_to_dest_def)
  have "length (dest @ w @ [NUL]) + room args \<le> n" using Cons.prems(2) w(2) by simp
  with Cons.IH [of "dest @ w @ [NUL]"] Cons.prems(1) obtain ws where
    "place_args n args (dest @ w @ [NUL]) = Some ((dest @ w @ [NUL]) @ packed ws)" "room ws \<le> room args" "length ws = length args" by auto
  then show ?case using w Cons.prems(2) by (intro exI [of _ "w # ws"]) simp
qed (auto intro!: exI [of _ "[]"])

section \<open>Decimal numbers\<close>

fun decimal :: "nat \<Rightarrow> string" where
  "decimal n = (if n < 10 then [char_of (0x30 + n)] else decimal (n div 10) @ [char_of (0x30 + n mod 10)])"

declare decimal.simps [simp del]

lemma of_char_digit: "d < 10 \<Longrightarrow> (of_char (char_of (0x30 + d)) :: nat) = 0x30 + d"
  by simp

text \<open>One digit: no overflow as long as the sum stays below \<open>2 ^ 32\<close>.\<close>

lemma strtouint_digit:
  assumes "d < 10" "unat app * d + unat res < 2 ^ 32"
  shows "strtouint_loop (char_of (0x30 + d) # cs) base app res = strtouint_loop cs base (app * base) (res + app * of_nat d)"
proof -
  have d: "unat (of_nat d :: uint) = d" using assms(1) by (simp add: unat_of_nat)
  then have p: "unat (app * of_nat d) = unat app * d" using assms(2) unat_mult_lem [of app "of_nat d"] by simp
  have "unat (- 1 - res) = 2 ^ 32 - 1 - unat res" by (simp add: unat_sub unsigned_minus_1_eq_mask mask_eq_exp_minus_1)
  then have "\<not> - 1 - res < app * of_nat d" using p assms(2) by (simp add: word_less_nat_alt)
  then show ?thesis using of_char_digit [OF assms(1)] assms(1) by (simp add: Let_def)
qed

lemma strtouint_number:
  "unat app * n + unat res < 2 ^ 32 \<Longrightarrow> strtouint_loop (rev (decimal n)) 10 app res = (res + app * of_nat n, False)"
proof (induction n arbitrary: app res rule: less_induct)
  case (less n)
  show ?case
  proof (cases "n < 10")
    case True
    then show ?thesis using strtouint_digit [OF True, of app res "[]" 10] less.prems(1) by (simp add: decimal.simps [of n])
  next
    case False
    let ?d = "n mod 10" and ?q = "n div 10"
    have n: "n = ?q * 10 + ?d" "1 \<le> ?q" "?d < 10" using False by simp_all
    have "unat app * ?d + unat res \<le> unat app * n + unat res" by simp
    then have lt: "unat app * ?d + unat res < 2 ^ 32" using less.prems(1) by linarith
    have "unat app * 10 \<le> unat app * (10 * ?q)" using n(2) by simp
    also have "\<dots> \<le> unat app * n" by (intro mult_le_mono2) simp
    finally have "unat app * 10 < 2 ^ 32" using less.prems(1) by linarith
    then have app: "unat (app * 10) = unat app * 10" using unat_mult_lem [of app 10] by simp
    have dig: "unat (of_nat ?d :: uint) = ?d" using n(3) by (simp add: unat_of_nat)
    have m: "unat (app * of_nat ?d) = unat app * ?d" using lt unat_mult_lem [of app "of_nat ?d"] dig by simp
    have r: "unat (res + app * of_nat ?d) = unat res + unat app * ?d"
      using lt unat_add_lem [of res "app * of_nat ?d"] m by simp
    have sum: "unat app * n = unat app * 10 * ?q + unat app * ?d" using add_mult_distrib2 [of "unat app" "10 * ?q" ?d] by (simp add: mult.assoc)
    have "strtouint_loop (rev (decimal n)) 10 app res = strtouint_loop (rev (decimal ?q)) 10 (app * 10) (res + app * of_nat ?d)"
      using strtouint_digit [OF n(3), of app res "rev (decimal ?q)" 10] lt False by (simp add: decimal.simps [of n])
    also have "\<dots> = (res + app * of_nat ?d + app * 10 * of_nat ?q, False)"
      using less.prems(1) False by (intro less.IH) (simp_all add: app r sum)
    also have "res + app * of_nat ?d + app * 10 * of_nat ?q = res + app * of_nat n"
    proof -
      have "(of_nat n :: uint) = of_nat (?q * 10 + ?d)" using n(1) by simp
      then have "(of_nat n :: uint) = of_nat ?q * 10 + of_nat ?d" by (simp only: of_nat_add of_nat_mult of_nat_numeral)
      then show ?thesis by (simp add: algebra_simps)
    qed
    finally show ?thesis .
  qed
qed

lemma decimal_no_nul: "NUL \<notin> set (decimal n)"
proof (induction n rule: decimal.induct)
  case (1 n)
  have "char_of (0x30 + n mod 10) \<noteq> NUL"
    using of_char_digit [of "n mod 10"] by (auto dest: arg_cong [of _ _ "of_char :: char \<Rightarrow> nat"])
  moreover have "n < 10 \<Longrightarrow> n mod 10 = n" by simp
  ultimately show ?case using 1 by (subst decimal.simps) auto
qed

section \<open>Properties\<close>

text \<open>(C23) The arguments of a record never run over the end of the buffer: whatever the text, as long as
  the digits of its escapes are digits, the record is either placed, with all of it inside the buffer, or
  left out.\<close>

theorem arguments_fit:
  assumes "length dest \<le> bufsize"
    and "\<forall>a \<in> set (parse_config_args NVRAM_MAX_RECORDS_IN_SECTION src (length src)). unescape_string_copy_to_dest a (length a) \<noteq> None"
  shows "\<exists>ws. parse_transform_and_place_into_buf bufsize dest src = Some (dest @ packed ws)
    \<and> length (dest @ packed ws) \<le> bufsize"
proof (cases "length dest + length src < bufsize")
  case True
  let ?args = "parse_config_args NVRAM_MAX_RECORDS_IN_SECTION src (length src)"
  have "room ?args \<le> length src + 1" unfolding parse_config_args_def by (rule parse_args_room)
  then have fit: "length dest + room ?args \<le> bufsize" using True by simp
  obtain ws where ws: "place_args bufsize ?args dest = Some (dest @ packed ws)" "room ws \<le> room ?args"
    using place_args_fits [OF _ fit] assms(2) by blast
  show ?thesis
    by (rule exI [of _ ws]) (use True ws fit in \<open>simp add: parse_transform_and_place_into_buf_def length_packed\<close>)
qed (use assms(1) in \<open>auto simp: parse_transform_and_place_into_buf_def intro!: exI [of _ "[]"]\<close>)

text \<open>The conversion of the seconds of the configuration inverts the decimal notation of every number of
  32 bits, without an error.\<close>

theorem strtouint_decimal: "n < 2 ^ 32 \<Longrightarrow> strtouint_nolocale (decimal n) 10 = (of_nat n, False)"
  using strtouint_number [where n = n and app = 1 and res = 0] decimal_no_nul [of n]
  by (simp add: strtouint_nolocale_def c_str_id)

end
