(* ===== verification/Zcalls.thy ===== *)
theory Zcalls
  imports Syscalls MemoryManager ObserversProps
begin

text \<open>
  The system calls of the user program (\<open>lib/zcalls/zcalls_zrt.c\<close>, \<open>lib/zcalls/zcalls_prolog.c\<close>). Until
  \<open>zrt_setup\<close> only channels can be read, through the host; from then on a call goes to the dispatching
  mount or to the memory manager. The clock is a value of the configuration that every reading of it
  advances.

  The state \<open>proc\<close> adds to that of the mounts the static variables of both files, the memory manager and
  the loader of the configuration. A call returns its result, what it stores through its pointer arguments
  (\<open>None\<close> when it stores nothing) and the state. Whether a pointer that the source checks is NULL is a
  boolean argument. \<open>size_t\<close> is 32 bits wide.
\<close>

section \<open>State\<close>

record 'w proc = "'w zrt" +
  s_prolog_doing_now :: bool
  s_zrt_constructed :: bool
  s_tls_addr :: int
  sbrk_default :: int
  s_cached_timeval :: timeval
  s_verbosity_level :: int
  s_log_enabled :: int
  s_is_user_main_executing :: bool
  memif :: MemoryManager
  nvram :: NvramLoader
  s_zrt_ready :: bool

text \<open>A call that the prolog does not have.\<close>

definition prolog_enosys :: "('w, 'a) proc_scheme \<Rightarrow> int \<times> ('w, 'a) proc_scheme" where
  "prolog_enosys s = (-1, SET_ERRNO ENOSYS s)"

definition size_t :: "int \<Rightarrow> nat" where
  "size_t n = nat (n mod 2 ^ 32)"

type_synonym ('w, 'a, 'r) penv = "(('w, 'a) proc_scheme, 'r) tm_env"

section \<open>The calls on the file system after the prolog\<close>

definition zrt_zcall_enhanced_close :: "('w, 'a, 'r) penv \<Rightarrow> ('w, 'a) proc_scheme \<Rightarrow> int \<Rightarrow> ('w, 'a) proc_scheme res" where
  "zrt_zcall_enhanced_close env s handle = transparent_close env (SET_ERRNO 0 s) handle"

definition zrt_zcall_enhanced_dup :: "('w, 'a) proc_scheme \<Rightarrow> int \<Rightarrow> ('w, 'a) proc_scheme res" where
  "zrt_zcall_enhanced_dup s handle = transparent_dup (SET_ERRNO 0 s) handle"

definition zrt_zcall_enhanced_dup2 :: "('w, 'a, 'r) penv \<Rightarrow> ('w, 'a) proc_scheme \<Rightarrow> int \<Rightarrow> int \<Rightarrow> ('w, 'a) proc_scheme res" where
  "zrt_zcall_enhanced_dup2 env s handle new_handle = transparent_dup2 env (SET_ERRNO 0 s) handle new_handle"

text \<open>What a call that counts bytes returns and stores: 0 and the count, or -1 and nothing.\<close>

definition counted :: "int \<Rightarrow> int \<times> nat option" where
  "counted bytes = (if 0 \<le> bytes then (0, Some (size_t bytes)) else (-1, None))"

definition zrt_zcall_enhanced_read :: "('w, 'a, 'r) penv \<Rightarrow> ('w, 'a) proc_scheme \<Rightarrow> int \<Rightarrow> bool \<Rightarrow> nat
    \<Rightarrow> ((int \<times> nat option) \<times> byte list \<times> ('w, 'a) proc_scheme) option" where
  "zrt_zcall_enhanced_read env s handle buf_null count =
     (let s1 = SET_ERRNO 0 s
      in if buf_null then Some ((-1, None), [], SET_ERRNO EFAULT s1)
         else do {
           (bytes_read, buf, s2) \<leftarrow> transparent_read env s1 handle count;
           Some (counted bytes_read, buf, s2) })"

definition zrt_zcall_enhanced_pread :: "('w, 'a, 'r) penv \<Rightarrow> ('w, 'a) proc_scheme \<Rightarrow> int \<Rightarrow> bool \<Rightarrow> nat \<Rightarrow> off_t
    \<Rightarrow> ((int \<times> nat option) \<times> byte list \<times> ('w, 'a) proc_scheme) option" where
  "zrt_zcall_enhanced_pread env s handle buf_null count offset =
     (let s1 = SET_ERRNO 0 s
      in if buf_null then Some ((-1, None), [], SET_ERRNO EFAULT s1)
         else do {
           (bytes_read, buf, s2) \<leftarrow> transparent_pread env s1 handle count offset;
           Some (counted bytes_read, buf, s2) })"

text \<open>The log is switched off during a write to the standard descriptors.\<close>

definition log_off :: "int \<Rightarrow> ('w, 'a) proc_scheme \<Rightarrow> ('w, 'a) proc_scheme" where
  "log_off handle s = (if handle \<le> 2 \<and> s_log_enabled s \<noteq> 0 then s\<lparr>s_log_enabled := 0\<rparr> else s)"

definition log_restore :: "int \<Rightarrow> ('w, 'a) proc_scheme \<Rightarrow> ('w, 'a) proc_scheme" where
  "log_restore log_state s = (if log_state \<noteq> 0 then s\<lparr>s_log_enabled := log_state\<rparr> else s)"

definition zrt_zcall_enhanced_write :: "('w, 'a, 'r) penv \<Rightarrow> ('w, 'a) proc_scheme \<Rightarrow> int \<Rightarrow> byte list option
    \<Rightarrow> ((int \<times> nat option) \<times> ('w, 'a) proc_scheme) option" where
  "zrt_zcall_enhanced_write env s handle buf =
     (let log_state = s_log_enabled s; s1 = log_off handle s
      in case buf of
           None \<Rightarrow> Some ((-1, None), SET_ERRNO EFAULT s1)
         | Some b \<Rightarrow> do {
             (bytes_wrote, s2) \<leftarrow> transparent_write env s1 handle b;
             Some (counted bytes_wrote, log_restore log_state s2) })"

definition zrt_zcall_enhanced_pwrite :: "('w, 'a, 'r) penv \<Rightarrow> ('w, 'a) proc_scheme \<Rightarrow> int \<Rightarrow> byte list option \<Rightarrow> off_t
    \<Rightarrow> ((int \<times> nat option) \<times> ('w, 'a) proc_scheme) option" where
  "zrt_zcall_enhanced_pwrite env s handle buf offset =
     (let log_state = s_log_enabled s; s1 = log_off handle s
      in case buf of
           None \<Rightarrow> Some ((-1, None), SET_ERRNO EFAULT s1)
         | Some b \<Rightarrow> do {
             (bytes_wrote, s2) \<leftarrow> transparent_pwrite env s1 handle b offset;
             Some (counted bytes_wrote, log_restore log_state s2) })"

text \<open>A failed seek returns \<open>errno\<close> itself.\<close>

definition zrt_zcall_enhanced_seek :: "('w, 'a, 'r) penv \<Rightarrow> ('w, 'a) proc_scheme \<Rightarrow> int \<Rightarrow> off_t \<Rightarrow> int
    \<Rightarrow> ((int \<times> off_t option) \<times> ('w, 'a) proc_scheme) option" where
  "zrt_zcall_enhanced_seek env s handle offset whence =
     (let s1 = SET_ERRNO 0 s
      in if whence = SEEK_SET \<and> offset < 0 then Some ((-1, None), SET_ERRNO EINVAL s1)
         else do {
           (offset', s2) \<leftarrow> transparent_lseek env s1 handle offset whence;
           Some (if offset' \<noteq> -1 then ((0, Some offset'), s2) else ((errno s2, None), s2)) })"

text \<open>The macro checks \<open>stat\<close>, the C library function, instead of the pointer \<open>st\<close>.\<close>

definition zrt_zcall_enhanced_fstat :: "('w, 'a, 'r) penv \<Rightarrow> ('w, 'a) proc_scheme \<Rightarrow> int
    \<Rightarrow> (int \<times> stat option \<times> ('w, 'a) proc_scheme) option" where
  "zrt_zcall_enhanced_fstat env s handle = transparent_fstat env (SET_ERRNO 0 s) handle"

definition zrt_zcall_enhanced_getdents :: "('w, 'a, 'r) penv \<Rightarrow> ('w, 'a) proc_scheme \<Rightarrow> int \<Rightarrow> bool \<Rightarrow> bool \<Rightarrow> dirent_buf \<Rightarrow> nat
    \<Rightarrow> ((int \<times> nat option) \<times> dirent_buf \<times> ('w, 'a) proc_scheme) option" where
  "zrt_zcall_enhanced_getdents env s fd buf_null aligned buf count =
     (let s1 = SET_ERRNO 0 s
      in if buf_null then Some ((-1, None), buf, SET_ERRNO EFAULT s1)
         else do {
           (bytes_readed, buf', s2) \<leftarrow> transparent_getdents env s1 fd aligned buf count;
           Some (counted bytes_readed, buf', s2) })"

text \<open>\<open>umask\<close> is the value of the environment variable, \<open>None\<close> when it is not set.\<close>

definition APPLY_UMASK :: "mode_t option \<Rightarrow> mode_t \<Rightarrow> mode_t" where
  "APPLY_UMASK umask mode = (case umask of None \<Rightarrow> mode | Some m \<Rightarrow> NOT m AND mode)"

definition zrt_zcall_enhanced_open :: "('w, 'a, 'r) penv \<Rightarrow> mode_t option \<Rightarrow> ('w, 'a) proc_scheme \<Rightarrow> string option \<Rightarrow> flags_t \<Rightarrow> mode_t
    \<Rightarrow> ((int \<times> int option) \<times> ('w, 'a) proc_scheme) option" where
  "zrt_zcall_enhanced_open env umask s name flags mode =
     (let s1 = SET_ERRNO 0 s
      in case name of
           None \<Rightarrow> Some ((-1, None), SET_ERRNO EFAULT s1)
         | Some n \<Rightarrow> do {
             (ret, s2) \<leftarrow> transparent_open env s1 n flags (APPLY_UMASK umask (mode AND 0x1FF));
             Some (if 0 \<le> ret then (0, Some ret) else (ret, None), s2) })"

definition zrt_zcall_enhanced_stat :: "('w, 'a, 'r) penv \<Rightarrow> ('w, 'a) proc_scheme \<Rightarrow> string option \<Rightarrow> bool
    \<Rightarrow> (int \<times> stat option \<times> ('w, 'a) proc_scheme) option" where
  "zrt_zcall_enhanced_stat env s pathname stat_null =
     (let s1 = SET_ERRNO 0 s
      in case pathname of
           None \<Rightarrow> Some (-1, None, SET_ERRNO EFAULT s1)
         | Some p \<Rightarrow> if stat_null then Some (-1, None, SET_ERRNO EFAULT s1) else transparent_stat env s1 p)"

section \<open>The calls on the memory\<close>

text \<open>The manager sets the process's \<open>errno\<close>.\<close>

definition with_memif :: "(MemoryManager \<Rightarrow> (int \<times> MemoryManager) option) \<Rightarrow> ('w, 'a) proc_scheme \<Rightarrow> (int \<times> ('w, 'a) proc_scheme) option" where
  "with_memif f s = do {
     (r, m) \<leftarrow> f ((memif s)\<lparr>mm_errno := errno s\<rparr>);
     Some (r, s\<lparr>memif := m, errno := mm_errno m\<rparr>) }"

definition zrt_zcall_enhanced_sysbrk :: "('w, 'a) proc_scheme \<Rightarrow> int \<Rightarrow> ((int \<times> int) \<times> ('w, 'a) proc_scheme) option" where
  "zrt_zcall_enhanced_sysbrk s newbrk = do {
     (retaddr, s1) \<leftarrow> with_memif (\<lambda>m. Some (memory_sysbrk m newbrk)) s;
     Some (if retaddr \<noteq> -1 then (0, retaddr) else (-1, newbrk), s1) }"

definition zrt_zcall_enhanced_mmap :: "(('w, 'a) proc_scheme) file_env \<Rightarrow> ('w, 'a) proc_scheme \<Rightarrow> int \<Rightarrow> nat \<Rightarrow> flags_t \<Rightarrow> flags_t \<Rightarrow> int \<Rightarrow> off_t
    \<Rightarrow> ((int \<times> int) \<times> ('w, 'a) proc_scheme) option" where
  "zrt_zcall_enhanced_mmap fe s addr len prot flags fd off = do {
     (retaddr, m, s1) \<leftarrow> memory_mmap fe ((memif s)\<lparr>mm_errno := errno s\<rparr>) s addr len prot flags fd off;
     Some (if retaddr \<noteq> MAP_FAILED then (0, retaddr) else (-1, addr), s1\<lparr>memif := m, errno := mm_errno m\<rparr>) }"

definition zrt_zcall_enhanced_munmap :: "('w, 'a) proc_scheme \<Rightarrow> int \<Rightarrow> nat \<Rightarrow> (int \<times> ('w, 'a) proc_scheme) option" where
  "zrt_zcall_enhanced_munmap s addr len = with_memif (\<lambda>m. memory_munmap m addr len) s"

definition zrt_zcall_utime :: "('w, 'a, 'r) penv \<Rightarrow> ('w, 'a) proc_scheme \<Rightarrow> string \<Rightarrow> int \<Rightarrow> ('w, 'a) proc_scheme res" where
  "zrt_zcall_utime env s filename tms = transparent_utime env (SET_ERRNO 0 s) filename tms"

definition zrt_zcall_utimes :: "('w, 'a) proc_scheme \<Rightarrow> int \<times> ('w, 'a) proc_scheme" where
  "zrt_zcall_utimes s = (-1, SET_ERRNO ENOSYS s)"

definition zrt_zcall_utimensat :: "('w, 'a) proc_scheme \<Rightarrow> int \<times> ('w, 'a) proc_scheme" where
  "zrt_zcall_utimensat s = (-1, SET_ERRNO ENOSYS s)"

section \<open>The clock\<close>

text \<open>\<open>timeradd\<close> of the C library.\<close>

definition timeradd :: "timeval \<Rightarrow> timeval \<Rightarrow> timeval" where
  "timeradd a b =
     (let sec = tv_sec a + tv_sec b; usec = tv_usec a + tv_usec b
      in if 1000000 \<le> usec then \<lparr>tv_sec = s64 (sec + 1), tv_usec = usec - 1000000\<rparr> else \<lparr>tv_sec = s64 sec, tv_usec = usec\<rparr>)"

definition increment_cached_time :: "int \<Rightarrow> int \<Rightarrow> ('w, 'a) proc_scheme \<Rightarrow> ('w, 'a) proc_scheme" where
  "increment_cached_time seconds microseconds s =
     (let delta = (if seconds \<noteq> 0 \<or> microseconds \<noteq> 0 then \<lparr>tv_sec = seconds, tv_usec = microseconds\<rparr> else \<lparr>tv_sec = 0, tv_usec = 1\<rparr>)
      in s\<lparr>s_cached_timeval := timeradd (s_cached_timeval s) delta\<rparr>)"

definition zrt_zcall_prolog_gettod :: "('w, 'a) proc_scheme \<Rightarrow> bool \<Rightarrow> (int \<times> timeval option) \<times> ('w, 'a) proc_scheme" where
  "zrt_zcall_prolog_gettod s tvl_null =
     (let s1 = SET_ERRNO 0 s
      in if tvl_null then ((-1, None), SET_ERRNO EFAULT s1)
         else ((0, Some (s_cached_timeval s1)), increment_cached_time 0 1 s1))"

text \<open>\<open>CLOCKS_PER_SEC\<close> is 1000000; \<open>clock_t\<close> is the C library's type, of the width of the conversion.\<close>

definition zrt_zcall_prolog_clock :: "(int \<Rightarrow> int) \<Rightarrow> ('w, 'a) proc_scheme \<Rightarrow> (int \<times> int) \<times> ('w, 'a) proc_scheme" where
  "zrt_zcall_prolog_clock clock_t s =
     (let t1 = clock_t (tv_sec (s_cached_timeval s) * 1000000);
          t2 = clock_t (t1 + tv_usec (s_cached_timeval s) * (1000000 div 1000))
      in ((0, t2), increment_cached_time 0 1 s))"

definition zrt_zcall_prolog_nanosleep :: "('w, 'a) proc_scheme \<Rightarrow> int \<Rightarrow> int \<Rightarrow> (int \<times> int \<times> int) \<times> ('w, 'a) proc_scheme" where
  "zrt_zcall_prolog_nanosleep s req_sec req_nsec =
     ((0, 0, 0), increment_cached_time req_sec (cdiv req_nsec 1000) s)"

definition zrt_zcall_prolog_getres :: "('w, 'a) proc_scheme \<Rightarrow> int \<times> ('w, 'a) proc_scheme" where
  "zrt_zcall_prolog_getres s = prolog_enosys s"

definition zrt_zcall_prolog_gettime :: "('w, 'a) proc_scheme \<Rightarrow> (int \<times> int \<times> int) \<times> ('w, 'a) proc_scheme" where
  "zrt_zcall_prolog_gettime s =
     ((0, tv_sec (s_cached_timeval s), tv_usec (s_cached_timeval s) * 1000), increment_cached_time 0 1 s)"

text \<open>\<open>syscall_nanosleep\<close> is a macro of the C library; its arguments here are the seconds and nanoseconds.\<close>

definition zrt_zcall_select :: "(int \<Rightarrow> int \<Rightarrow> ('w, 'a) proc_scheme \<Rightarrow> int \<times> ('w, 'a) proc_scheme) \<Rightarrow> ('w, 'a) proc_scheme \<Rightarrow> timeval option
    \<Rightarrow> int \<times> ('w, 'a) proc_scheme" where
  "zrt_zcall_select syscall_nanosleep s timeout =
     (let s1 = SET_ERRNO 0 s
      in case timeout of
           None \<Rightarrow> (-1, s1)
         | Some t \<Rightarrow> (case syscall_nanosleep (tv_sec t) (tv_usec t * 1000) s1 of (ret, s2) \<Rightarrow> (if ret = 0 then 0 else -1, s2)))"

section \<open>The prolog\<close>

definition zrt_zcall_prolog_preinit :: "int option \<Rightarrow> ('w, 'a) proc_scheme \<Rightarrow> ('w, 'a) proc_scheme" where
  "zrt_zcall_prolog_preinit manifest_heap_ptr s =
     (case manifest_heap_ptr of None \<Rightarrow> s | Some p \<Rightarrow> s\<lparr>sbrk_default := p\<rparr>)"

text \<open>\<open>*nread\<close> is of an unsigned type: the test of a negative result never fails.\<close>

definition zrt_zcall_prolog_read :: "'w zvm_env \<Rightarrow> ('w, 'a, 'r) penv \<Rightarrow> ('w, 'a) proc_scheme \<Rightarrow> int \<Rightarrow> bool \<Rightarrow> nat
    \<Rightarrow> ((int \<times> nat option) \<times> byte list \<times> ('w, 'a) proc_scheme) option" where
  "zrt_zcall_prolog_read zvm env s handle buf_null count =
     (if s_prolog_doing_now s then
        (case zvm_pread zvm handle count 0 (world s) of
           ((n, bytes), w) \<Rightarrow> Some ((0, Some (size_t n)), bytes, s\<lparr>world := w\<rparr>))
      else zrt_zcall_enhanced_read env s handle buf_null count)"

definition zrt_zcall_prolog_pread :: "'w zvm_env \<Rightarrow> ('w, 'a, 'r) penv \<Rightarrow> ('w, 'a) proc_scheme \<Rightarrow> int \<Rightarrow> bool \<Rightarrow> nat \<Rightarrow> off_t
    \<Rightarrow> ((int \<times> nat option) \<times> byte list \<times> ('w, 'a) proc_scheme) option" where
  "zrt_zcall_prolog_pread zvm env s fd buf_null count offset =
     (if s_prolog_doing_now s then
        (case zvm_pread zvm fd count offset (world s) of
           ((n, bytes), w) \<Rightarrow> Some ((0, Some (size_t n)), bytes, s\<lparr>world := w\<rparr>))
      else zrt_zcall_enhanced_pread env s fd buf_null count offset)"

definition zrt_zcall_prolog_write :: "('w, 'a, 'r) penv \<Rightarrow> ('w, 'a) proc_scheme \<Rightarrow> int \<Rightarrow> byte list option
    \<Rightarrow> ((int \<times> nat option) \<times> ('w, 'a) proc_scheme) option" where
  "zrt_zcall_prolog_write env s handle buf =
     (if s_prolog_doing_now s then Some ((-1, None), SET_ERRNO ENOSYS s) else zrt_zcall_enhanced_write env s handle buf)"

definition zrt_zcall_prolog_pwrite :: "'w zvm_env \<Rightarrow> ('w, 'a, 'r) penv \<Rightarrow> ('w, 'a) proc_scheme \<Rightarrow> int \<Rightarrow> byte list option \<Rightarrow> off_t
    \<Rightarrow> ((int \<times> nat option) \<times> ('w, 'a) proc_scheme) option" where
  "zrt_zcall_prolog_pwrite zvm env s fd buf offset =
     (if s_prolog_doing_now s then
        do {
          b \<leftarrow> buf;
          (case zvm_pwrite zvm fd b offset (world s) of (n, w) \<Rightarrow> Some ((0, Some (size_t n)), s\<lparr>world := w\<rparr>)) }
      else zrt_zcall_enhanced_pwrite env s fd buf offset)"

text \<open>In the prolog a descriptor is the number of a channel of the manifest.\<close>

definition zrt_zcall_prolog_open :: "ZVMChannel list \<Rightarrow> ('w, 'a, 'r) penv \<Rightarrow> mode_t option \<Rightarrow> ('w, 'a) proc_scheme \<Rightarrow> string option \<Rightarrow> flags_t \<Rightarrow> mode_t
    \<Rightarrow> ((int \<times> int option) \<times> ('w, 'a) proc_scheme) option" where
  "zrt_zcall_prolog_open manifest env umask s name flags mode =
     (if s_prolog_doing_now s then do {
        n \<leftarrow> name;
        Some (case first_index (\<lambda>fd. n = ch_name (manifest ! fd)) (length manifest) 0 of
                Some fd \<Rightarrow> ((0, Some (int fd)), s\<lparr>errno := 0\<rparr>)
              | None \<Rightarrow> ((-1, None), SET_ERRNO ENOENT s)) }
      else zrt_zcall_enhanced_open env umask s name flags mode)"

definition zrt_zcall_prolog_close :: "('w, 'a, 'r) penv \<Rightarrow> ('w, 'a) proc_scheme \<Rightarrow> int \<Rightarrow> ('w, 'a) proc_scheme res" where
  "zrt_zcall_prolog_close env s handle = (if s_prolog_doing_now s then Some (prolog_enosys s) else zrt_zcall_enhanced_close env s handle)"

definition zrt_zcall_prolog_dup :: "('w, 'a) proc_scheme \<Rightarrow> int \<Rightarrow> ('w, 'a) proc_scheme res" where
  "zrt_zcall_prolog_dup s fd = (if s_prolog_doing_now s then Some (prolog_enosys s) else zrt_zcall_enhanced_dup s fd)"

definition zrt_zcall_prolog_dup2 :: "('w, 'a, 'r) penv \<Rightarrow> ('w, 'a) proc_scheme \<Rightarrow> int \<Rightarrow> int \<Rightarrow> ('w, 'a) proc_scheme res" where
  "zrt_zcall_prolog_dup2 env s fd newfd =
     (if s_prolog_doing_now s then Some (prolog_enosys s) else zrt_zcall_enhanced_dup2 env s fd newfd)"

definition zrt_zcall_prolog_seek :: "('w, 'a, 'r) penv \<Rightarrow> ('w, 'a) proc_scheme \<Rightarrow> int \<Rightarrow> off_t \<Rightarrow> int
    \<Rightarrow> ((int \<times> off_t option) \<times> ('w, 'a) proc_scheme) option" where
  "zrt_zcall_prolog_seek env s handle offset whence =
     (if s_prolog_doing_now s then Some ((-1, None), SET_ERRNO ENOSYS s) else zrt_zcall_enhanced_seek env s handle offset whence)"

definition zrt_zcall_prolog_fstat :: "('w, 'a, 'r) penv \<Rightarrow> ('w, 'a) proc_scheme \<Rightarrow> int \<Rightarrow> (int \<times> stat option \<times> ('w, 'a) proc_scheme) option" where
  "zrt_zcall_prolog_fstat env s handle =
     (if s_prolog_doing_now s then Some (-1, None, SET_ERRNO ENOSYS s) else zrt_zcall_enhanced_fstat env s handle)"

definition zrt_zcall_prolog_getdents :: "('w, 'a, 'r) penv \<Rightarrow> ('w, 'a) proc_scheme \<Rightarrow> int \<Rightarrow> bool \<Rightarrow> bool \<Rightarrow> dirent_buf \<Rightarrow> nat
    \<Rightarrow> ((int \<times> nat option) \<times> dirent_buf \<times> ('w, 'a) proc_scheme) option" where
  "zrt_zcall_prolog_getdents env s fd buf_null aligned buf count =
     (if s_prolog_doing_now s then Some ((-1, None), buf, SET_ERRNO ENOSYS s)
      else zrt_zcall_enhanced_getdents env s fd buf_null aligned buf count)"

definition zrt_zcall_prolog_stat :: "('w, 'a, 'r) penv \<Rightarrow> ('w, 'a) proc_scheme \<Rightarrow> string option \<Rightarrow> bool
    \<Rightarrow> (int \<times> stat option \<times> ('w, 'a) proc_scheme) option" where
  "zrt_zcall_prolog_stat env s pathname stat_null =
     (if s_prolog_doing_now s then Some (-1, None, SET_ERRNO ENOSYS s) else zrt_zcall_enhanced_stat env s pathname stat_null)"

text \<open>A NULL break is address 0; what the call stores is the new value of \<open>*newbrk\<close>.\<close>

definition zrt_zcall_prolog_sysbrk :: "('w, 'a) proc_scheme \<Rightarrow> int \<Rightarrow> ((int \<times> int) \<times> ('w, 'a) proc_scheme) option" where
  "zrt_zcall_prolog_sysbrk s newbrk =
     (let (newbrk', s1) = (if newbrk = 0 then (sbrk_default s, s) else (newbrk, s\<lparr>sbrk_default := newbrk\<rparr>))
      in if s_prolog_doing_now s then Some ((0, newbrk'), s1) else zrt_zcall_enhanced_sysbrk s1 newbrk')"

definition zrt_zcall_prolog_mmap :: "(('w, 'a) proc_scheme) file_env \<Rightarrow> ('w, 'a) proc_scheme \<Rightarrow> int \<Rightarrow> nat \<Rightarrow> flags_t \<Rightarrow> flags_t \<Rightarrow> int \<Rightarrow> off_t
    \<Rightarrow> ((int \<times> int) \<times> ('w, 'a) proc_scheme) option" where
  "zrt_zcall_prolog_mmap fe s addr len prot flags fd off =
     (if s_prolog_doing_now s then Some ((-1, addr), SET_ERRNO ENOSYS s) else zrt_zcall_enhanced_mmap fe s addr len prot flags fd off)"

definition zrt_zcall_prolog_munmap :: "('w, 'a) proc_scheme \<Rightarrow> int \<Rightarrow> nat \<Rightarrow> (int \<times> ('w, 'a) proc_scheme) option" where
  "zrt_zcall_prolog_munmap s addr len = (if s_prolog_doing_now s then Some (prolog_enosys s) else zrt_zcall_enhanced_munmap s addr len)"

definition zrt_zcall_prolog_tls_init :: "('w, 'a) proc_scheme \<Rightarrow> int \<Rightarrow> int \<times> ('w, 'a) proc_scheme" where
  "zrt_zcall_prolog_tls_init s thread_ptr = (0, s\<lparr>s_tls_addr := thread_ptr\<rparr>)"

definition zrt_zcall_prolog_tls_get :: "('w, 'a) proc_scheme \<Rightarrow> int" where
  "zrt_zcall_prolog_tls_get s = s_tls_addr s"

definition zrt_zcall_prolog_postmain :: "('w, 'a) proc_scheme \<Rightarrow> ('w, 'a) proc_scheme" where
  "zrt_zcall_prolog_postmain s = s\<lparr>s_is_user_main_executing := False\<rparr>"

end
