(* ===== verification/Prolog.thy ===== *)
theory Prolog
  imports Zcalls
begin

text \<open>
  The start of a session: the configuration is read and parsed in the prolog (\<open>zrt_zcall_prolog_init\<close>),
  the command line and the environment are taken from it, then the run-time is set up
  (\<open>zrt_internal_init\<close>).
\<close>

section \<open>The configuration\<close>

text \<open>\<open>nvram_loader()\<close>: the object is set up by the first call; before it there are no observers.\<close>

definition nvram_instance :: "NvramLoader \<Rightarrow> NvramLoader option" where
  "nvram_instance nv =
     (if nvram_observers nv = replicate NVRAM_MAX_OBSERVERS_COUNT None then nvram_loader else Some nv)"

text \<open>A section is handled when it is there; \<open>get_obs\<close> is the observer of \<open>HANDLE_ONLY_..._SECTION\<close>.\<close>

definition handle_section :: "NvramLoader \<Rightarrow> string \<Rightarrow> MNvramObserver option \<Rightarrow> (ParsedRecord \<Rightarrow> 'o \<Rightarrow> 'o option) \<Rightarrow> 'o \<Rightarrow> 'o option" where
  "handle_section nv name get_obs h x =
     (if nvram_section_by_name nv name = None then Some x
      else do { obs \<leftarrow> get_obs; nvram_handle nv h obs x })"

text \<open>\<open>c\<close> is the C library; the log and the working directory are not part of the state.\<close>

definition zrt_zcall_prolog_init :: "(('w, 'a) proc_scheme) file_calls \<Rightarrow> ('w, 'a) proc_scheme \<Rightarrow> ('w, 'a) proc_scheme option" where
  "zrt_zcall_prolog_init c s = do {
     nv0 \<leftarrow> nvram_instance (nvram s);
     (case nvram_read c nv0 ''/dev/nvram'' s of
        (n, nv1, s1) \<Rightarrow>
          if 0 < n then do {
            nv2 \<leftarrow> nvram_parse nv1;
            v \<leftarrow> handle_section nv2 ''debug'' get_debug_observer handle_debug_record (s_verbosity_level s1);
            t \<leftarrow> handle_section nv2 ''time'' get_settime_observer handle_time_record (s_cached_timeval s1);
            Some (s1\<lparr>nvram := nv2, s_verbosity_level := v, s_cached_timeval := t\<rparr>) }
          else Some (s1\<lparr>nvram := nv1\<rparr>)) }"

section \<open>Command line and environment\<close>

text \<open>The room of one record: the values of the first \<open>n\<close> keys, each with a NUL, and one more.\<close>

fun params_size :: "ParsedRecord \<Rightarrow> nat \<Rightarrow> nat option" where
  "params_size record 0 = Some 0"
| "params_size record (Suc k) = do { n \<leftarrow> params_size record k; p \<leftarrow> record ! k; Some (n + length (pp_val p) + 1) }"

fun records_size :: "nat \<Rightarrow> ParsedRecord list \<Rightarrow> nat option" where
  "records_size k [] = Some 0"
| "records_size k (r # rs) = do { n \<leftarrow> params_size r k; m \<leftarrow> records_size k rs; Some (n + 1 + m) }"

text \<open>The number of records and \<open>*buf_size\<close>.\<close>

definition get_records_count_for_section_and_buffer_size_to_copy_contents :: "NvramLoader \<Rightarrow> string \<Rightarrow> (nat \<times> nat) option" where
  "get_records_count_for_section_and_buffer_size_to_copy_contents nv section_name =
     (case nvram_section_by_name nv section_name of
        None \<Rightarrow> Some (0, 0)
      | Some section \<Rightarrow> do {
          n \<leftarrow> records_size (length (keys (obs_keys (observer section)))) (sec_records section);
          Some (length (sec_records section), n) })"

abbreviation (input) STUB_ARG0 :: string where "STUB_ARG0 \<equiv> ''stub''"

text \<open>\<open>*args_buf_size\<close>, \<open>*envs_buf_size\<close> and \<open>*env_count\<close>.\<close>

definition zrt_zcall_prolog_nvram_read_get_args_envs :: "NvramLoader \<Rightarrow> (nat \<times> nat \<times> nat) option" where
  "zrt_zcall_prolog_nvram_read_get_args_envs nv = do {
     (env_count, envs_buf_size) \<leftarrow> get_records_count_for_section_and_buffer_size_to_copy_contents nv ''env'';
     (_, args_buf_size) \<leftarrow> get_records_count_for_section_and_buffer_size_to_copy_contents nv ''args'';
     Some (args_buf_size + length STUB_ARG0 + NVRAM_MAX_RECORDS_IN_SECTION, envs_buf_size, env_count) }"

text \<open>\<open>args\<close> and \<open>envs\<close> up to their NULL. When the section of the arguments is there but holds none, only
  \<open>args[0]\<close> is set to NULL; the stub takes its place and the cell behind it is not set: \<open>None\<close>.\<close>

definition zrt_zcall_prolog_nvram_get_args_envs :: "NvramLoader \<Rightarrow> nat \<Rightarrow> nat \<Rightarrow> (string list \<times> string list) option" where
  "zrt_zcall_prolog_nvram_get_args_envs nv args_buf_size envs_buf_size = do {
     envs_buf \<leftarrow> handle_section nv ''env'' get_env_observer (handle_env_record envs_buf_size) [];
     args_buf \<leftarrow> handle_section nv ''args'' get_arg_observer (handle_arg_record args_buf_size) [];
     (let envs = get_env_array envs_buf (length envs_buf);
          args = get_arg_array args_buf (length args_buf)
      in if args = [] \<and> length STUB_ARG0 < args_buf_size
         then (if nvram_section_by_name nv ''args'' = None then Some ([STUB_ARG0], envs) else None)
         else Some (args, envs)) }"

section \<open>The run-time\<close>

definition emu_channel :: "string \<Rightarrow> ZVMChannel" where
  "emu_channel name = \<lparr>ch_limits = (\<lambda>_. 999999999), ch_size = 0, ch_type = SGetSPut, ch_name = name\<rparr>"

definition s_emu_channels :: "ZVMChannel list" where
  "s_emu_channels = map emu_channel [''/dev/null'', ''/dev/full'', ''/dev/zero'', ''/dev/random'', ''/dev/urandom'']"

record UserManifest =
  heap_ptr :: int
  man_heap_size :: int
  channels :: "ZVMChannel list"

text \<open>
  The build without the memory file system. \<open>mem\<close> says which requests of memory succeed, \<open>fresh\<close> and
  \<open>chunks\<close> are what uninitialised memory holds, \<open>ref\<close> is the address of the channel file system.
\<close>

definition zrt_internal_init :: "(nat \<Rightarrow> bool) \<Rightarrow> (nat \<Rightarrow> ZrtChannelRt) \<Rightarrow> byte list \<Rightarrow> mount_ref \<Rightarrow> UserManifest
    \<Rightarrow> ('w, 'a) proc_scheme \<Rightarrow> ('w, 'a) proc_scheme option" where
  "zrt_internal_init mem fresh chunks ref manifest s = do {
     m \<leftarrow> memory_init (memif s) chunks (heap_ptr manifest) (man_heap_size manifest) (sbrk_default s);
     (let s1 = s\<lparr>memif := m, mount_items := alloc_mounts_manager mem (mount_items s)\<rparr>
      in do {
        s2 \<leftarrow> channels_filesystem_construct mem fresh s1 ref (channels manifest) s_emu_channels;
        (_, s3) \<leftarrow> channels_open (s2\<lparr>s_zrt_ready := True\<rparr>) ''/dev/stdin'' O_RDONLY 0;
        (_, s4) \<leftarrow> channels_open s3 ''/dev/stdout'' O_WRONLY 0;
        (_, s5) \<leftarrow> channels_open s4 ''/dev/stderr'' O_WRONLY 0;
        (_, mounts, s6) \<leftarrow> mm_mount_add mem (mount_items s5) s5 ''/dev'' ref True;
        Some (s6\<lparr>mount_items := mounts\<rparr>) }) }"

end
