(* ===== verification/PrologProps.thy ===== *)
theory PrologProps
  imports Prolog
begin

text \<open>
  From the configuration to \<open>main\<close>: any command line and any environment without NULs can be written
  into a configuration, and the start of the session hands exactly these to the user program.
\<close>

section \<open>Escaped text\<close>

definition special :: "char set" where
  "special = {CHR 0x5C, CHR 0x22, COMMENT_CHAR, COMMA, NEWLINE, CHR 0x20, CHR 0x09, LBRACKET}"

abbreviation esc :: "string \<Rightarrow> string" where "esc \<equiv> escape special"

lemma hex_char_plain: "n < 16 \<Longrightarrow> hex_char n \<notin> insert NUL special"
proof -
  assume n: "n < 16"
  have "of_char (hex_char n) = (if n < 10 then 0x30 + n else 0x57 + n)" using n by (auto simp: hex_char_def)
  then show ?thesis using n by (auto simp: special_def dest: arg_cong [of _ _ "of_char :: char \<Rightarrow> nat"] split: if_splits)
qed

lemma esc_chars: "NUL \<notin> set w \<Longrightarrow> c \<in> set (esc w) \<Longrightarrow> c \<notin> insert NUL special \<or> c = CHR 0x5C"
proof (induction w)
  case (Cons x w)
  have "hex_char (of_char x div 16) \<notin> insert NUL special" "hex_char (of_char x mod 16) \<notin> insert NUL special"
    by (rule hex_char_plain [OF high_digit], rule hex_char_plain, simp)
  moreover have "CHR 0x78 \<notin> insert NUL special" by (simp add: special_def)
  ultimately show ?case using Cons by (cases "x \<in> special") (auto simp: escape_char_def)
qed simp

lemma length_esc: "length w \<le> length (esc w)"
  by (induction w) (auto simp: escape_char_def)

lemma esc_Nil [simp]: "esc w = [] \<longleftrightarrow> w = []"
  by (cases w) (auto simp: escape_char_def)

lemma esc_clean:
  assumes "NUL \<notin> set w"
  shows "CHR 0x22 \<notin> set (esc w)" "COMMENT_CHAR \<notin> set (esc w)" "COMMA \<notin> set (esc w)" "NEWLINE \<notin> set (esc w)"
    "CHR 0x20 \<notin> set (esc w)" "CHR 0x09 \<notin> set (esc w)" "LBRACKET \<notin> set (esc w)" "NUL \<notin> set (esc w)"
  by (rule notI, drule esc_chars [OF assms], simp add: special_def)+

lemma tight_clean:
  assumes "\<And>c. c \<in> set w \<Longrightarrow> \<not> IS_IT_CHAR_TO_STRIP c"
  shows "tight w"
  using assms by (auto simp: tight_def)

lemma word_ok_esc: "NUL \<notin> set w \<Longrightarrow> word_ok (esc w)"
  unfolding word_ok_def by (intro conjI tight_clean) (auto simp: IS_IT_CHAR_TO_STRIP_def esc_clean)

lemma esc_arg: "NUL \<notin> set w \<Longrightarrow> length (esc w) < 2 ^ 16 \<Longrightarrow> arg_ok (esc w)"
  by (simp add: arg_ok_def esc_clean)

lemma quote_esc: "NUL \<notin> set w \<Longrightarrow> quote_arg (esc w) = (if w = [] then [CHR 0x22, CHR 0x22] else esc w)"
proof -
  assume w: "NUL \<notin> set w"
  have "w \<noteq> [] \<Longrightarrow> hd (esc w) \<noteq> CHR 0x22" using esc_clean(1) [OF w] by (metis esc_Nil hd_in_set)
  then show ?thesis using w by (auto simp: quote_arg_def plain_arg_def esc_clean)
qed

abbreviation command_line :: "string list \<Rightarrow> string" where
  "command_line ws \<equiv> args_text (map esc ws)"

lemma command_line_chars:
  assumes "\<And>w. w \<in> set ws \<Longrightarrow> NUL \<notin> set w" "c \<in> set (command_line ws)"
  shows "c \<notin> {COMMENT_CHAR, COMMA, NEWLINE, NUL, LBRACKET}"
  using assms
proof (induction "map esc ws" arbitrary: ws rule: args_text.induct)
  case (2 e)
  then obtain w where "ws = [w]" "e = esc w" by auto
  then show ?case using "2.prems" by (auto simp: quote_esc esc_clean split: if_splits)
next
  case (3 e f es)
  then obtain w v us where ws: "ws = w # v # us" "e = esc w" "f # es = map esc (v # us)" by auto
  have "c \<in> set (quote_arg (esc w)) \<or> c = CHR 0x20 \<or> c \<in> set (command_line (v # us))" using "3.prems"(2) ws by auto
  then show ?case
    using "3.prems"(1) ws(1) "3.hyps"(1) [OF ws(3)] by (auto simp: quote_esc esc_clean split: if_splits)
qed auto

lemma command_line_tight:
  assumes "\<And>w. w \<in> set ws \<Longrightarrow> NUL \<notin> set w"
  shows "tight (command_line ws) \<and> (ws \<noteq> [] \<longrightarrow> command_line ws \<noteq> [])"
  using assms
proof (induction "map esc ws" arbitrary: ws rule: args_text.induct)
  case (2 e)
  then obtain w where w: "ws = [w]" "NUL \<notin> set w" by auto
  then show ?case using quote_esc [OF w(2)] word_ok_esc [OF w(2)] by (auto simp: tight_def IS_IT_CHAR_TO_STRIP_def word_ok_def)
next
  case (3 e f es)
  then obtain w v us where ws: "ws = w # v # us" "f # es = map esc (v # us)" by auto
  have w: "NUL \<notin> set w" using "3.prems" ws(1) by simp
  have "tight (command_line (v # us)) \<and> command_line (v # us) \<noteq> []" using "3.hyps"(1) [OF ws(2)] "3.prems" ws(1) by auto
  then show ?case using quote_esc [OF w] word_ok_esc [OF w] ws(1)
    by (auto simp: tight_def IS_IT_CHAR_TO_STRIP_def word_ok_def hd_append)
qed (auto simp: tight_def)

lemma command_line_word: "(\<And>w. w \<in> set ws \<Longrightarrow> NUL \<notin> set w) \<Longrightarrow> word_ok (command_line ws)"
  using command_line_chars [of ws] command_line_tight [of ws] unfolding word_ok_def by blast

lemma length_command_line: "w \<in> set ws \<Longrightarrow> length (esc w) \<le> length (command_line ws)"
proof (induction "map esc ws" arbitrary: ws rule: args_text.induct)
  case (3 e f es)
  then obtain w' v us where ws: "ws = w' # v # us" "f # es = map esc (v # us)" by auto
  then show ?case using "3.prems" "3.hyps"(1) [OF ws(2)] by (auto simp: quote_arg_def)
qed (auto simp: quote_arg_def)

section \<open>The observers of the loader\<close>

abbreviation obs :: "handler \<Rightarrow> string \<Rightarrow> (string \<times> string option) list \<Rightarrow> MNvramObserver" where
  "obs h name ks \<equiv> \<lparr>handle_nvram_record = h, observed_section_name = name,
     obs_keys = \<lparr>keys = map fst ks, optional_default_values = map snd ks\<rparr>\<rparr>"

abbreviation "env_obs \<equiv> obs HEnv ''env'' [(''name'', None), (''value'', None)]"
abbreviation "arg_obs \<equiv> obs HArg ''args'' [(''args'', None)]"

lemmas observer_defs = make_observer_def add_key_to_list_def keys_construct_def

lemma get_observers: "get_env_observer = Some env_obs" "get_arg_observer = Some arg_obs"
  by (simp_all add: get_env_observer_def get_arg_observer_def observer_defs)

definition loader_observers :: "MNvramObserver option list" where
  "loader_observers = map Some
     [obs HPrecache ''precache'' [(''precache'', None)],
      obs HFstab ''fstab'' [(''channel'', None), (''mountpoint'', None), (''access'', None), (''removable'', Some ''no''), (''fsname'', Some ''tar'')],
      obs HSettime ''time'' [(''seconds'', None)], obs HDebug ''debug'' [(''verbosity'', None)],
      obs HMapping ''mapping'' [(''channel'', None), (''mode'', None)], env_obs, arg_obs]"

lemma no_observers: "nvram_observers nvram_init = [None, None, None, None, None, None, None]"
proof -
  have "replicate NVRAM_MAX_OBSERVERS_COUNT None = [None, None, None, None, None, None, None]" by (simp add: numeral_eq_Suc)
  then show ?thesis by (simp add: nvram_init_def)
qed

lemma nvram_loader_observers: "nvram_loader = Some (nvram_init\<lparr>nvram_observers := loader_observers\<rparr>)"
  by (simp add: nvram_loader_def get_precache_observer_def get_fstab_observer_def get_settime_observer_def get_debug_observer_def
      get_mapping_observer_def get_env_observer_def get_arg_observer_def observer_defs nvram_add_observer_def no_observers
      loader_observers_def)

lemma loader_sections:
  "section_observer loader_observers ''env'' = Some env_obs" "section_observer loader_observers ''args'' = Some arg_obs"
  by (simp_all add: loader_observers_def numeral_eq_Suc)

section \<open>A configuration of arguments and variables\<close>

definition env_line :: "string \<times> string \<Rightarrow> (string \<times> string) list" where
  "env_line e = [(''name'', fst e), (''value'', esc (snd e))]"

definition session_config :: "(string \<times> string) list \<Rightarrow> string list \<Rightarrow> config" where
  "session_config es ws = [(''env'', map env_line es), (''args'', [[(''args'', command_line ws)]])]"

definition env_ok :: "string \<times> string \<Rightarrow> bool" where
  "env_ok e \<longleftrightarrow> word_ok (fst e) \<and> LBRACKET \<notin> set (fst e) \<and> NUL \<notin> set (snd e)"

abbreviation env_text :: "string \<times> string \<Rightarrow> string" where
  "env_text e \<equiv> fst e @ KEY_VALUE_DELIMETER # snd e"

lemma length_concat_mem: "x \<in> set xs \<Longrightarrow> length x \<le> length (concat xs)"
  by (induction xs) auto

lemma line_bounds:
  assumes "e \<in> set es"
  shows "length (fst e) + length (esc (snd e)) + 20 \<le> length (config_text (session_config es ws))"
proof -
  have "line_text (env_line e) \<in> set (map line_text (map env_line es))" using assms by simp
  from length_concat_mem [OF this] show ?thesis
    by (simp add: session_config_def config_text_def section_text_def env_line_def)
qed

lemma session_sections_ok:
  assumes es: "\<And>e. e \<in> set es \<Longrightarrow> env_ok e" and ws: "\<And>w. w \<in> set ws \<Longrightarrow> NUL \<notin> set w"
    and n: "length (config_text (session_config es ws)) < NVRAM_MAX_FILE_SIZE" "length es \<le> NVRAM_MAX_RECORDS_IN_SECTION"
    and s: "s \<in> set (session_config es ws)"
  shows "section_ok loader_observers s"
proof -
  have kl: "keys_wf (obs_keys env_obs)" "keys_wf (obs_keys arg_obs)" by (simp_all add: keys_wf_def)
  have lit: "name_ok ''env''" "name_ok ''args''" "key_ok ''name''" "key_ok ''value''" "key_ok ''args''"
    by (simp_all add: name_ok_def key_ok_def word_ok_def tight_def IS_IT_CHAR_TO_STRIP_def)
  have "record_ok (obs_keys env_obs) (env_line e)" if e: "e \<in> set es" for e
    using es [OF e] line_bounds [OF e, of ws] n(1) lit word_ok_esc [of "snd e"]
    by (auto simp: record_ok_def params_ok_def env_line_def env_ok_def covers_def less_Suc_eq)
  moreover have "length (command_line ws) + 15 \<le> length (config_text (session_config es ws))"
    by (simp add: session_config_def config_text_def section_text_def)
  then have "record_ok (obs_keys arg_obs) [(''args'', command_line ws)]"
    using n(1) lit command_line_word [OF ws] by (auto simp: record_ok_def params_ok_def covers_def)
  moreover have "lines_ok (map env_line es)" using es by (auto simp: lines_ok_def env_line_def env_ok_def esc_clean word_ok_def)
  moreover have "lines_ok [[(''args'', command_line ws)]]" using command_line_chars [OF ws] by (auto simp: lines_ok_def)
  ultimately show ?thesis
    using s lit kl n(2) loader_sections by (auto simp: section_ok_def session_config_def)
qed

section \<open>What the buffers hold\<close>

lemma place_escaped:
  assumes "length dest + room (map esc ws) \<le> n"
  shows "place_args n (map esc ws) dest = Some (dest @ packed ws)"
  using assms
proof (induction ws arbitrary: dest)
  case (Cons w ws)
  have "unescape_string_copy_to_dest (esc w) (length (esc w)) = Some (int (length w), w)"
    using unescape_escape [of special w "[]"] by (simp add: special_def)
  then show ?case using Cons length_esc [of w] by simp
qed simp

lemma env_record_handled:
  assumes "env_ok e" "length buf + length (env_text e) + 1 \<le> n"
  shows "handle_env_record n (record_of (obs_keys env_obs) (map_of (env_line e))) buf = Some (buf @ env_text e @ [NUL])"
proof -
  have "c_str (esc (snd e)) = esc (snd e)"
    using assms(1) by (simp add: c_str_id env_ok_def esc_clean)
  moreover have "unescape_string_copy_to_dest (esc (snd e)) (length (esc (snd e))) = Some (int (length (snd e)), snd e)"
    using unescape_escape [of special "snd e" "[]"] by (simp add: special_def)
  ultimately show ?thesis using assms(2) length_esc [of "snd e"]
    by (simp add: handle_env_record_def env_params_def ALLOCA_PARAM_VALUE_def record_of_def value_of_def env_line_def
        add_pair_to_temp_buffer_def case_prod_beta Let_def)
qed

lemma env_records_handled:
  assumes "\<And>e. e \<in> set es \<Longrightarrow> env_ok e" "length buf + room (map env_text es) \<le> n"
  shows "handle_records (handle_env_record n) (map (\<lambda>e. record_of (obs_keys env_obs) (map_of (env_line e))) es) buf
    = Some (buf @ packed (map env_text es))"
  using assms
proof (induction es arbitrary: buf)
  case (Cons e es)
  then show ?case using env_record_handled [of e buf n] by simp
qed simp

lemma session_parsed:
  assumes es: "\<And>e. e \<in> set es \<Longrightarrow> env_ok e" "es \<noteq> []" and ws: "\<And>w. w \<in> set ws \<Longrightarrow> NUL \<notin> set w"
    and n: "length (config_text (session_config es ws)) < NVRAM_MAX_FILE_SIZE" "length es \<le> NVRAM_MAX_RECORDS_IN_SECTION"
    and nv: "holds nv (session_config es ws)" "nvram_observers nv = loader_observers"
  shows "nvram_parse nv = Some (nv\<lparr>parsed_sections :=
    [\<lparr>observer = env_obs, sec_records = map (\<lambda>e. record_of (obs_keys env_obs) (map_of (env_line e))) es\<rparr>,
     \<lparr>observer = arg_obs, sec_records = [record_of (obs_keys arg_obs) (map_of [(''args'', command_line ws)])]\<rparr>]\<rparr>)"
proof -
  have "section_ok (nvram_observers nv) s" if "s \<in> set (session_config es ws)" for s
    using session_sections_ok [OF es(1) ws n that] nv(2) by simp
  from nvram_parse_text [OF nv(1) this] show ?thesis
    using es(2) by (simp add: session_config_def parsed_of_def nv(2) loader_sections o_def)
qed

lemma env_records_size:
  "records_size 2 (map (\<lambda>e. record_of (obs_keys env_obs) (map_of (env_line e))) es)
     = Some (sum_list (map (\<lambda>e. length (fst e) + length (esc (snd e)) + 3) es))"
  by (induction es) (simp_all add: record_of_def value_of_def env_line_def numeral_2_eq_2)

lemma env_room: "room (map env_text es) \<le> sum_list (map (\<lambda>e. length (fst e) + length (esc (snd e)) + 3) es)"
proof (induction es)
  case (Cons e es)
  then show ?case using length_esc [of "snd e"] by simp
qed simp

lemma arg_handled:
  assumes ws: "\<And>w. w \<in> set ws \<Longrightarrow> NUL \<notin> set w" and n: "length (command_line ws) < 2 ^ 16" "length (command_line ws) + 1 \<le> m"
  shows "handle_arg_record m (record_of (obs_keys arg_obs) (map_of [(''args'', command_line ws)])) []
    = Some (packed (take NVRAM_MAX_RECORDS_IN_SECTION ws))"
proof -
  have "arg_ok w" if w: "w \<in> set (map esc ws)" for w
    using w n(1) length_command_line [of _ ws] ws by (force intro!: esc_arg)
  from parse_args_text [where ws = "map esc ws" and m = NVRAM_MAX_RECORDS_IN_SECTION and rest = "[]", OF this]
  have p: "parse_args NVRAM_MAX_RECORDS_IN_SECTION (command_line ws) (length (command_line ws)) = map esc (take NVRAM_MAX_RECORDS_IN_SECTION ws)"
    by (simp add: take_map)
  then have "room (map esc (take NVRAM_MAX_RECORDS_IN_SECTION ws)) \<le> m"
    using parse_args_room [of NVRAM_MAX_RECORDS_IN_SECTION "command_line ws"] n(2) by simp
  then have "place_args m (map esc (take NVRAM_MAX_RECORDS_IN_SECTION ws)) [] = Some (packed (take NVRAM_MAX_RECORDS_IN_SECTION ws))"
    using place_escaped [of "[]"] by simp
  then show ?thesis using p n(2)
    by (simp add: handle_arg_record_def ALLOCA_PARAM_VALUE_def record_of_def value_of_def parse_transform_and_place_into_buf_def
        parse_config_args_def)
qed

text \<open>The whole way: sizes of the buffers, then their contents.\<close>

lemma session_args_envs:
  assumes es: "\<And>e. e \<in> set es \<Longrightarrow> env_ok e" "es \<noteq> []" and ws: "\<And>w. w \<in> set ws \<Longrightarrow> NUL \<notin> set w" "ws \<noteq> []"
    and n: "length (config_text (session_config es ws)) < NVRAM_MAX_FILE_SIZE" "length es \<le> NVRAM_MAX_RECORDS_IN_SECTION"
      "length ws \<le> NVRAM_MAX_RECORDS_IN_SECTION"
    and nv: "holds nv (session_config es ws)" "nvram_observers nv = loader_observers"
  shows "\<exists>nv' a e. nvram_parse nv = Some nv' \<and> zrt_zcall_prolog_nvram_read_get_args_envs nv' = Some (a, e, length es)
    \<and> zrt_zcall_prolog_nvram_get_args_envs nv' a e = Some (ws, map env_text es)"
proof -
  let ?e = "sum_list (map (\<lambda>e. length (fst e) + length (esc (snd e)) + 3) es)" and ?a = "length (command_line ws) + 106"
  let ?nv = "nv\<lparr>parsed_sections :=
    [\<lparr>observer = env_obs, sec_records = map (\<lambda>e. record_of (obs_keys env_obs) (map_of (env_line e))) es\<rparr>,
     \<lparr>observer = arg_obs, sec_records = [record_of (obs_keys arg_obs) (map_of [(''args'', command_line ws)])]\<rparr>]\<rparr>"
  have p: "nvram_parse nv = Some ?nv" by (rule session_parsed [OF es ws(1) n(1,2) nv])
  have sz: "zrt_zcall_prolog_nvram_read_get_args_envs ?nv = Some (?a, ?e, length es)"
    using env_records_size [of es]
    by (simp add: zrt_zcall_prolog_nvram_read_get_args_envs_def get_records_count_for_section_and_buffer_size_to_copy_contents_def
        nvram_section_by_name_def record_of_def value_of_def numeral_2_eq_2)
  have "length (command_line ws) < 2 ^ 16"
  proof -
    have "length (command_line ws) \<le> length (config_text (session_config es ws))"
      by (simp add: session_config_def config_text_def section_text_def)
    then show ?thesis using n(1) by simp
  qed
  then have args: "handle_arg_record ?a (record_of (obs_keys arg_obs) (map_of [(''args'', command_line ws)])) [] = Some (packed ws)"
    using arg_handled [OF ws(1), where m = ?a] n(3) by simp
  have envs: "handle_records (handle_env_record ?e) (map (\<lambda>e. record_of (obs_keys env_obs) (map_of (env_line e))) es) []
      = Some (packed (map env_text es))"
    using env_records_handled [where es = es and buf = "[]" and n = ?e, OF es(1)] env_room [of es] by simp
  have "NUL \<notin> set t" if "t \<in> set (map env_text es)" for t using that es(1) by (auto simp: env_ok_def word_ok_def)
  then have "zrt_zcall_prolog_nvram_get_args_envs ?nv ?a ?e = Some (ws, map env_text es)"
    using args envs ws n(2,3) get_array_packed [of ws] get_array_packed [of "map env_text es"]
    by (simp add: zrt_zcall_prolog_nvram_get_args_envs_def handle_section_def nvram_section_by_name_def nvram_handle_def get_observers)
  with p sz show ?thesis by blast
qed

section \<open>The clock\<close>

definition now :: "('w, 'a) proc_scheme \<Rightarrow> int" where
  "now s = tv_sec (s_cached_timeval s) * 1000000 + tv_usec (s_cached_timeval s)"

definition clock_ok :: "('w, 'a) proc_scheme \<Rightarrow> bool" where
  "clock_ok s \<longleftrightarrow> 0 \<le> tv_usec (s_cached_timeval s) \<and> tv_usec (s_cached_timeval s) < 1000000 \<and> 0 \<le> tv_sec (s_cached_timeval s)"

text \<open>The calls that read or move the clock, up to the last second of 64 bits. The requests of a sleep are
  well-formed: \<open>nanosleep\<close> tests neither the sign nor the range of its request, so that \<open>2 * 10 ^ 9\<close> nanoseconds
  leave more than a second in \<open>tv_usec\<close> and a negative request moves the clock back. \<open>select\<close> sleeps by the
  \<open>nanosleep\<close> of the prolog, which \<open>syscall_nanosleep\<close> reaches through the table of system calls.\<close>

definition prolog_sleep :: "int \<Rightarrow> int \<Rightarrow> ('w, 'a) proc_scheme \<Rightarrow> int \<times> ('w, 'a) proc_scheme" where
  "prolog_sleep sec nsec s = (case zrt_zcall_prolog_nanosleep s sec nsec of ((ret, _), s') \<Rightarrow> (ret, s'))"

inductive clock_step :: "('w, 'a) proc_scheme \<Rightarrow> ('w, 'a) proc_scheme \<Rightarrow> bool" where
  gettod: "tv_sec (s_cached_timeval s) + 1 < 2 ^ 63 \<Longrightarrow> clock_step s (snd (zrt_zcall_prolog_gettod s False))"
| gettime: "tv_sec (s_cached_timeval s) + 1 < 2 ^ 63 \<Longrightarrow> clock_step s (snd (zrt_zcall_prolog_gettime s))"
| clock: "tv_sec (s_cached_timeval s) + 1 < 2 ^ 63 \<Longrightarrow> clock_step s (snd (zrt_zcall_prolog_clock clock_t s))"
| nanosleep: "0 \<le> sec \<Longrightarrow> 0 \<le> nsec \<Longrightarrow> nsec < 1000000000 \<Longrightarrow> tv_sec (s_cached_timeval s) + sec + 1 < 2 ^ 63
    \<Longrightarrow> clock_step s (snd (zrt_zcall_prolog_nanosleep s sec nsec))"
| select: "0 \<le> tv_sec t \<Longrightarrow> 0 \<le> tv_usec t \<Longrightarrow> tv_usec t < 1000000 \<Longrightarrow> tv_sec (s_cached_timeval s) + tv_sec t + 1 < 2 ^ 63
    \<Longrightarrow> clock_step s (snd (zrt_zcall_select prolog_sleep s (Some t)))"

inductive_cases clock_stepE: "clock_step s s'"

lemma increment_ok:
  assumes "clock_ok s" "0 \<le> sec" "0 \<le> usec" "usec < 1000000" "tv_sec (s_cached_timeval s) + sec + 1 < 2 ^ 63"
  shows "clock_ok (increment_cached_time sec usec s)"
    "now (increment_cached_time sec usec s) = now s + (if sec = 0 \<and> usec = 0 then 1 else sec * 1000000 + usec)"
proof -
  have fit: "s64 (tv_sec (s_cached_timeval s) + k) = tv_sec (s_cached_timeval s) + k" if "0 \<le> k" "k \<le> sec + 1" for k
    using assms that by (intro s64_id) (auto simp: clock_ok_def)
  show "clock_ok (increment_cached_time sec usec s)"
    "now (increment_cached_time sec usec s) = now s + (if sec = 0 \<and> usec = 0 then 1 else sec * 1000000 + usec)"
    using assms fit [of 0] fit [of 1] fit [of sec] fit [of "sec + 1"]
    by (auto simp: clock_ok_def now_def increment_cached_time_def timeradd_def Let_def add.assoc)
qed

lemma now_errno: "now (SET_ERRNO e s) = now s" "clock_ok (SET_ERRNO e s) = clock_ok s" "s_cached_timeval (SET_ERRNO e s) = s_cached_timeval s"
  by (simp_all add: now_def clock_ok_def SET_ERRNO_def)

lemma clock_step_advances:
  assumes "clock_step s s'" "clock_ok s"
  shows "clock_ok s' \<and> now s < now s'"
  using assms
proof cases
  case (nanosleep sec nsec)
  have "0 \<le> cdiv nsec 1000" "cdiv nsec 1000 < 1000000" using nanosleep by (simp_all add: cdiv_def)
  then show ?thesis
    using increment_ok [OF assms(2), of sec "cdiv nsec 1000"] nanosleep by (auto simp: zrt_zcall_prolog_nanosleep_def)
next
  case (select t)
  have "cdiv (tv_usec t * 1000) 1000 = tv_usec t" using select by (simp add: cdiv_def)
  then show ?thesis
    using increment_ok [of "SET_ERRNO 0 s" "tv_sec t" "tv_usec t"] select assms(2)
    by (auto simp: zrt_zcall_select_def prolog_sleep_def zrt_zcall_prolog_nanosleep_def Let_def now_errno)
qed (use increment_ok [OF assms(2), of 0 1] increment_ok [of "SET_ERRNO 0 s" 0 1] assms(2) in
    \<open>auto simp: zrt_zcall_prolog_gettod_def zrt_zcall_prolog_gettime_def zrt_zcall_prolog_clock_def Let_def now_errno\<close>)

section \<open>Properties\<close>

text \<open>(C21) A command line of 1 to 100 words without NULs and an environment of 1 to 100 variables can be written
  into a configuration that is shorter than the largest file. The names of the variables have no comma, \<open>#\<close>, line
  break, NUL or \<open>[\<close> and no blank at either end; their values have no NUL. Parsing the configuration and
  starting the session, with buffers of the sizes the prolog computes, gives exactly these words and variables
  to the user program.\<close>

theorem command_line_and_environment:
  assumes "\<forall>e \<in> set es. env_ok e" "es \<noteq> []" "\<forall>w \<in> set ws. NUL \<notin> set w" "ws \<noteq> []"
    and "length es \<le> NVRAM_MAX_RECORDS_IN_SECTION" "length ws \<le> NVRAM_MAX_RECORDS_IN_SECTION"
    and "length (config_text (session_config es ws)) < NVRAM_MAX_FILE_SIZE"
    and "nvram_loader = Some nv0" "nvram_observers nv = nvram_observers nv0" "holds nv (session_config es ws)"
  shows "\<exists>nv' a e. nvram_parse nv = Some nv' \<and> zrt_zcall_prolog_nvram_read_get_args_envs nv' = Some (a, e, length es)
    \<and> zrt_zcall_prolog_nvram_get_args_envs nv' a e = Some (ws, map env_text es)"
proof -
  have "nv0 = nvram_init\<lparr>nvram_observers := loader_observers\<rparr>" using assms(8) nvram_loader_observers by (metis option.inject)
  then have "nvram_observers nv = loader_observers" using assms(9) by simp
  then show ?thesis using assms by (intro session_args_envs) auto
qed

text \<open>(C24) Time never stands still: after any sequence of \<open>gettimeofday\<close>, \<open>clock_gettime\<close>, \<open>clock\<close>, and of
  \<open>nanosleep\<close> and \<open>select\<close> with well-formed requests (no negative seconds, \<open>0 \<le> nsec < 10 ^ 9\<close>, \<open>0 \<le> usec < 10 ^ 6\<close>),
  while the seconds fit into 64 bits, the clock is well-formed and later than before, so two readings always
  differ.\<close>

theorem clock_advances:
  assumes "clock_step\<^sup>+\<^sup>+ s s'" "clock_ok s"
  shows "clock_ok s' \<and> now s < now s'"
  using assms
proof (induction rule: tranclp_induct)
  case (base y)
  then show ?case by (rule clock_step_advances)
next
  case (step y z)
  then show ?case using clock_step_advances [of y z] by auto
qed

end
