(* ===== verification/BufferedIO.thy ===== *)
theory BufferedIO
  imports ZrtPrelude
begin

text \<open>
  Buffered input and output on a descriptor (\<open>lib/helpers/buffered_io.c\<close>). The functions that really read
  and write (\<open>read_override\<close>, \<open>write_override\<close>) are arguments with the world they act on. The buffer of a
  writer is what was put into it, its length is the cursor; the buffer of a reader is its memory.
\<close>

section \<open>Writing\<close>

record BufferedIOWrite =
  wr_buf :: "byte list"
  wr_bufmax :: nat

type_synonym 'w writer = "int \<Rightarrow> byte list \<Rightarrow> 'w \<Rightarrow> int \<times> 'w"

definition AllocBufferedIOWrite :: "nat \<Rightarrow> BufferedIOWrite" where
  "AllocBufferedIOWrite bufsize = \<lparr>wr_buf = [], wr_bufmax = bufsize\<rparr>"

definition buf_flush_write :: "'w writer \<Rightarrow> BufferedIOWrite \<Rightarrow> int \<Rightarrow> 'w \<Rightarrow> BufferedIOWrite \<times> 'w" where
  "buf_flush_write write_override self handle w =
     (if wr_buf self \<noteq> [] then (self\<lparr>wr_buf := []\<rparr>, snd (write_override handle (wr_buf self) w)) else (self, w))"

text \<open>The macro: \<open>None\<close> when the buffer has not enough room.\<close>

definition WRITE_IF_BUFFER_ENOUGH :: "BufferedIOWrite \<Rightarrow> byte list \<Rightarrow> BufferedIOWrite option" where
  "WRITE_IF_BUFFER_ENOUGH self data =
     (if length data \<le> wr_bufmax self - length (wr_buf self) then Some (self\<lparr>wr_buf := wr_buf self @ data\<rparr>) else None)"

definition buf_write :: "'w writer \<Rightarrow> BufferedIOWrite \<Rightarrow> int \<Rightarrow> byte list \<Rightarrow> 'w \<Rightarrow> int \<times> BufferedIOWrite \<times> 'w" where
  "buf_write write_override self handle data w =
     (case WRITE_IF_BUFFER_ENOUGH self data of
        Some self' \<Rightarrow> (s32 (int (length data)), self', w)
      | None \<Rightarrow>
          (let (self1, w1) = buf_flush_write write_override self handle w
           in case WRITE_IF_BUFFER_ENOUGH self1 data of
                Some self' \<Rightarrow> (s32 (int (length data)), self', w1)
              | None \<Rightarrow> (let (b, w2) = write_override handle data w1 in (b, self1, w2))))"

section \<open>Reading\<close>

record BufferedIORead =
  rd_buf :: "byte list" \<comment> \<open>of length \<open>bufmax\<close>\<close>
  rd_cursor :: nat
  rd_datasize :: nat

type_synonym 'w reader = "int \<Rightarrow> nat \<Rightarrow> 'w \<Rightarrow> (int \<times> byte list) \<times> 'w"

definition AllocBufferedIORead :: "byte list \<Rightarrow> BufferedIORead" where
  "AllocBufferedIORead buf = \<lparr>rd_buf = buf, rd_cursor = 0, rd_datasize = 0\<rparr>"

definition buf_buffered :: "BufferedIORead \<Rightarrow> nat" where
  "buf_buffered self = rd_datasize self - rd_cursor self"

definition READ_IF_BUFFER_ENOUGH :: "BufferedIORead \<Rightarrow> nat \<Rightarrow> (byte list \<times> BufferedIORead) option" where
  "READ_IF_BUFFER_ENOUGH self n =
     (if n \<le> buf_buffered self
      then Some (take n (drop (rd_cursor self) (rd_buf self)), self\<lparr>rd_cursor := rd_cursor self + n\<rparr>) else None)"

text \<open>Bytes stored into the buffer from position \<open>p\<close> on.\<close>

definition store_at :: "byte list \<Rightarrow> nat \<Rightarrow> byte list \<Rightarrow> byte list" where
  "store_at buf p bs = take p buf @ bs @ drop (p + length bs) buf"

text \<open>The branch of \<open>buf_read\<close> after bytes were read into the buffer: the result and what is in \<open>data\<close>.\<close>

definition read_filled :: "'w reader \<Rightarrow> BufferedIORead \<Rightarrow> int \<Rightarrow> nat \<Rightarrow> 'w \<Rightarrow> (int \<times> byte list) \<times> BufferedIORead \<times> 'w" where
  "read_filled read_override self handle n w =
     (case READ_IF_BUFFER_ENOUGH self n of
        Some (data, self') \<Rightarrow> ((s32 (int n), data), self', w)
      | None \<Rightarrow>
          (let cached = buf_buffered self;
               data1 = take cached (drop (rd_cursor self) (rd_buf self));
               ((_, bs), w') = read_override handle (n - cached) w
           in ((s32 (int n), data1 @ bs), self\<lparr>rd_cursor := rd_cursor self + cached\<rparr>, w')))"

definition buf_read :: "'w reader \<Rightarrow> BufferedIORead \<Rightarrow> int \<Rightarrow> nat \<Rightarrow> 'w \<Rightarrow> (int \<times> byte list) \<times> BufferedIORead \<times> 'w" where
  "buf_read read_override self handle n w =
     (case READ_IF_BUFFER_ENOUGH self n of
        Some (data, self') \<Rightarrow> ((s32 (int n), data), self', w)
      | None \<Rightarrow>
          (let sizeinuse = buf_buffered self;
               buf1 = (if 0 < sizeinuse then store_at (rd_buf self) 0 (take sizeinuse (drop (rd_cursor self) (rd_buf self))) else rd_buf self);
               ((bytes, bs), w1) = read_override handle (length (rd_buf self) - sizeinuse) w;
               self1 = self\<lparr>rd_buf := store_at buf1 sizeinuse bs, rd_cursor := 0\<rparr>
           in if 0 < bytes then
                read_filled read_override (self1\<lparr>rd_datasize := sizeinuse + nat bytes\<rparr>) handle n w1
              else ((-1, []), self1, w1)))"

section \<open>What was written\<close>

text \<open>\<open>out w\<close> is what reached the descriptor \<open>h\<close>; the function that writes takes all it is given.\<close>

definition takes_all :: "'w writer \<Rightarrow> int \<Rightarrow> ('w \<Rightarrow> byte list) \<Rightarrow> bool" where
  "takes_all f h out \<longleftrightarrow> (\<forall>bs w. fst (f h bs w) = int (length bs) \<and> out (snd (f h bs w)) = out w @ bs)"

definition written :: "('w \<Rightarrow> byte list) \<Rightarrow> BufferedIOWrite \<times> 'w \<Rightarrow> byte list" where
  "written out s = out (snd s) @ wr_buf (fst s)"

fun buf_writes :: "'w writer \<Rightarrow> int \<Rightarrow> byte list list \<Rightarrow> BufferedIOWrite \<times> 'w \<Rightarrow> BufferedIOWrite \<times> 'w" where
  "buf_writes f h [] s = s"
| "buf_writes f h (d # ds) s = buf_writes f h ds (snd (buf_write f (fst s) h d (snd s)))"

lemma flush_written:
  assumes "takes_all f h out"
  shows "written out (buf_flush_write f self h w) = written out (self, w) \<and> wr_buf (fst (buf_flush_write f self h w)) = []
    \<and> wr_bufmax (fst (buf_flush_write f self h w)) = wr_bufmax self"
  using assms by (simp add: buf_flush_write_def written_def takes_all_def)

lemma buf_write_written:
  assumes f: "takes_all f h out" and wf: "length (wr_buf self) \<le> wr_bufmax self"
  shows "written out (snd (buf_write f self h d w)) = written out (self, w) @ d
    \<and> length (wr_buf (fst (snd (buf_write f self h d w)))) \<le> wr_bufmax (fst (snd (buf_write f self h d w)))
    \<and> wr_bufmax (fst (snd (buf_write f self h d w))) = wr_bufmax self"
proof -
  obtain self1 w1 where fl: "buf_flush_write f self h w = (self1, w1)" by fastforce
  have fl': "written out (self1, w1) = written out (self, w)" "wr_buf self1 = []" "wr_bufmax self1 = wr_bufmax self"
    using flush_written [OF f, of self w] fl by simp_all
  have all: "out (snd (f h d w1)) = out w1 @ d" using f by (simp add: takes_all_def)
  show ?thesis
    using wf fl' all by (auto simp: buf_write_def WRITE_IF_BUFFER_ENOUGH_def fl written_def split: prod.split)
qed

section \<open>What is read\<close>

text \<open>\<open>rest w\<close> is what the descriptor \<open>h\<close> still holds; the function that reads gives as much of it as asked for.\<close>

definition gives_all :: "'w reader \<Rightarrow> int \<Rightarrow> ('w \<Rightarrow> byte list) \<Rightarrow> bool" where
  "gives_all f h rest \<longleftrightarrow> (\<forall>n w. fst (f h n w) = (int (length (take n (rest w))), take n (rest w)) \<and> rest (snd (f h n w)) = drop n (rest w))"

text \<open>The same on the worlds in which the descriptor is usable.\<close>

definition gives_all_on :: "('w \<Rightarrow> bool) \<Rightarrow> 'w reader \<Rightarrow> int \<Rightarrow> ('w \<Rightarrow> byte list) \<Rightarrow> bool" where
  "gives_all_on good f h rest \<longleftrightarrow> (\<forall>n w. good w \<longrightarrow> fst (f h n w) = (int (length (take n (rest w))), take n (rest w))
     \<and> rest (snd (f h n w)) = drop n (rest w) \<and> good (snd (f h n w)))"

definition rd_wf :: "BufferedIORead \<Rightarrow> bool" where
  "rd_wf self \<longleftrightarrow> rd_cursor self \<le> rd_datasize self \<and> rd_datasize self \<le> length (rd_buf self)
     \<and> buf_buffered self < length (rd_buf self)"

definition pending :: "BufferedIORead \<Rightarrow> byte list" where
  "pending self = take (buf_buffered self) (drop (rd_cursor self) (rd_buf self))"

lemma length_pending: "rd_wf self \<Longrightarrow> length (pending self) = buf_buffered self"
  by (auto simp: pending_def rd_wf_def buf_buffered_def)

text \<open>The buffer holds the data that is asked for.\<close>

lemma read_enough:
  assumes "rd_cursor self \<le> rd_datasize self" "rd_datasize self \<le> length (rd_buf self)" "n \<le> buf_buffered self" "0 < n \<or> rd_wf self"
  shows "READ_IF_BUFFER_ENOUGH self n = Some (take n (pending self), self\<lparr>rd_cursor := rd_cursor self + n\<rparr>)"
    "rd_wf (self\<lparr>rd_cursor := rd_cursor self + n\<rparr>)" "pending (self\<lparr>rd_cursor := rd_cursor self + n\<rparr>) = drop n (pending self)"
proof -
  show "READ_IF_BUFFER_ENOUGH self n = Some (take n (pending self), self\<lparr>rd_cursor := rd_cursor self + n\<rparr>)"
    using assms(3) by (simp add: READ_IF_BUFFER_ENOUGH_def pending_def min_absorb1)
  show "rd_wf (self\<lparr>rd_cursor := rd_cursor self + n\<rparr>)"
    using assms by (auto simp: rd_wf_def buf_buffered_def)
  show "pending (self\<lparr>rd_cursor := rd_cursor self + n\<rparr>) = drop n (pending self)"
    by (simp add: pending_def buf_buffered_def drop_take add.commute)
qed

lemma store_at:
  assumes "p + length bs \<le> length buf"
  shows "length (store_at buf p bs) = length buf" "take (p + length bs) (store_at buf p bs) = take p buf @ bs"
  using assms by (auto simp: store_at_def)

text \<open>The buffer after it was filled up.\<close>

lemma refilled:
  assumes wf: "rd_wf self" and n: "length bs \<le> length (rd_buf self) - buf_buffered self"
    and s2: "self2 = self\<lparr>rd_buf := store_at (if 0 < buf_buffered self then store_at (rd_buf self) 0 (pending self) else rd_buf self) (buf_buffered self) bs,
      rd_cursor := 0, rd_datasize := buf_buffered self + length bs\<rparr>"
  shows "pending self2 = pending self @ bs" "rd_cursor self2 = 0" "rd_datasize self2 = buf_buffered self + length bs"
    "length (rd_buf self2) = length (rd_buf self)" "take (buf_buffered self2) (rd_buf self2) = pending self @ bs"
proof -
  let ?b = "buf_buffered self"
  have p: "length (pending self) = ?b" by (rule length_pending [OF wf])
  let ?b1 = "if 0 < ?b then store_at (rd_buf self) 0 (pending self) else rd_buf self"
  have t: "take ?b ?b1 = pending self" using p by (auto simp: store_at_def)
  have "length ?b1 = length (rd_buf self)" using p wf store_at(1) [of 0 "pending self" "rd_buf self"] by (auto simp: rd_wf_def)
  moreover have "?b + length bs \<le> length (rd_buf self)" using n wf unfolding rd_wf_def by linarith
  ultimately have b: "length (rd_buf self2) = length (rd_buf self)" "take (?b + length bs) (rd_buf self2) = pending self @ bs"
    using store_at [of ?b bs ?b1] t by (simp_all add: s2)
  then show "pending self2 = pending self @ bs" "rd_cursor self2 = 0" "rd_datasize self2 = ?b + length bs"
    "length (rd_buf self2) = length (rd_buf self)" "take (buf_buffered self2) (rd_buf self2) = pending self @ bs"
    by (simp_all add: pending_def buf_buffered_def s2)
qed

lemma buf_read_stream_on:
  assumes f: "gives_all_on good f h rest" "good w" and wf: "rd_wf self" and n: "n \<le> length (pending self @ rest w)"
  shows "\<exists>self' w'. buf_read f self h n w = ((s32 (int n), take n (pending self @ rest w)), self', w') \<and> rd_wf self'
    \<and> pending self' @ rest w' = drop n (pending self @ rest w) \<and> good w'"
proof (cases "n \<le> buf_buffered self")
  case True
  have c: "rd_cursor self \<le> rd_datasize self" "rd_datasize self \<le> length (rd_buf self)" using wf by (simp_all add: rd_wf_def)
  show ?thesis
    using read_enough [OF c True disjI2 [OF wf]] True length_pending [OF wf] f(2) by (simp add: buf_read_def)
next
  case False
  let ?b = "buf_buffered self" and ?room = "length (rd_buf self) - buf_buffered self"
  have none: "READ_IF_BUFFER_ENOUGH self n = None" using False by (simp add: READ_IF_BUFFER_ENOUGH_def)
  have lp: "length (pending self) = ?b" by (rule length_pending [OF wf])
  define bs where "bs = take ?room (rest w)"
  define w1 where "w1 = snd (f h ?room w)"
  have f1: "f h ?room w = ((int (length bs), bs), w1)" and r1: "rest w1 = drop ?room (rest w)" and g1: "good w1"
    using f by (auto simp: gives_all_on_def bs_def w1_def prod_eq_iff)
  define self2 where "self2 = self\<lparr>rd_buf := store_at (if 0 < ?b then store_at (rd_buf self) 0 (pending self) else rd_buf self) ?b bs,
      rd_cursor := 0, rd_datasize := ?b + length bs\<rparr>"
  have lb: "length bs \<le> ?room" by (simp add: bs_def)
  note s2 = refilled [OF wf lb self2_def]
  have pos: "0 < length bs" using False n lp wf by (auto simp: bs_def rd_wf_def)
  have split: "pending self @ rest w = pending self2 @ rest w1" by (simp add: s2(1) r1 bs_def)
  have len2: "length (pending self2) = buf_buffered self2" "rd_datasize self2 \<le> length (rd_buf self2)"
  proof -
    have "buf_buffered self2 = ?b + length bs" unfolding buf_buffered_def [of self2] s2(2,3) by simp
    moreover have "?b + length bs \<le> length (rd_buf self)" using lb wf unfolding rd_wf_def by linarith
    ultimately show "length (pending self2) = buf_buffered self2" "rd_datasize self2 \<le> length (rd_buf self2)" by (simp_all add: s2 lp)
  qed
  have unfold: "buf_read f self h n w = read_filled f self2 h n w1"
    using none f1 pos by (simp add: buf_read_def Let_def pending_def self2_def split del: if_split cong: if_cong)
  show ?thesis
  proof (cases "n \<le> buf_buffered self2")
    case True
    have "0 < n" using False by simp
    from read_enough [OF _ len2(2) True disjI1 [OF this]] s2(2) True len2(1) split g1 show ?thesis
      by (auto simp: unfold read_filled_def)
  next
    case over: False
    let ?c = "buf_buffered self2"
    define w2 where "w2 = snd (f h (n - ?c) w1)"
    have f2: "f h (n - ?c) w1 = ((int (length (take (n - ?c) (rest w1))), take (n - ?c) (rest w1)), w2)" and r2: "rest w2 = drop (n - ?c) (rest w1)" "good w2"
      using f(1) g1 by (auto simp: gives_all_on_def w2_def prod_eq_iff)
    have "READ_IF_BUFFER_ENOUGH self2 n = None" using over by (simp add: READ_IF_BUFFER_ENOUGH_def)
    then have "buf_read f self h n w = ((s32 (int n), pending self2 @ take (n - ?c) (rest w1)), self2\<lparr>rd_cursor := ?c\<rparr>, w2)"
      using f2 s2(1,2,5) by (simp add: unfold read_filled_def Let_def)
    moreover have "rd_wf (self2\<lparr>rd_cursor := ?c\<rparr>)" "pending (self2\<lparr>rd_cursor := ?c\<rparr>) = []"
      using s2(2) len2(2) wf s2(4) by (auto simp: rd_wf_def buf_buffered_def pending_def)
    ultimately show ?thesis using over len2(1) r2 by (auto simp: split)
  qed
qed

lemma buf_read_stream:
  assumes "gives_all f h rest" "rd_wf self" "n \<le> length (pending self @ rest w)"
  shows "\<exists>self' w'. buf_read f self h n w = ((s32 (int n), take n (pending self @ rest w)), self', w') \<and> rd_wf self'
    \<and> pending self' @ rest w' = drop n (pending self @ rest w)"
  using buf_read_stream_on [of "\<lambda>_. True" f h rest w self n] assms by (simp add: gives_all_def gives_all_on_def)

section \<open>Properties\<close>

text \<open>(C25) Buffered writing refines writing: for a descriptor that takes all it is given, what has reached it
  after any sequence of writes and a flush is what was there, what was buffered, and the data of the writes
  in their order; the buffer never overflows on the way.\<close>

theorem buffered_writes_refine:
  assumes "takes_all f h out" "length (wr_buf self) \<le> wr_bufmax self"
  shows "let s = buf_writes f h ds (self, w) in
    length (wr_buf (fst s)) \<le> wr_bufmax self \<and> out (snd (buf_flush_write f (fst s) h (snd s))) = out w @ wr_buf self @ concat ds"
  using assms(2)
proof (induction ds arbitrary: self w)
  case Nil
  then show ?case using flush_written [OF assms(1), of self w] by (auto simp: written_def)
next
  case (Cons d ds)
  obtain r self' w' where b: "buf_write f self h d w = (r, self', w')" by (cases "buf_write f self h d w") auto
  have "out w' @ wr_buf self' = (out w @ wr_buf self) @ d" "length (wr_buf self') \<le> wr_bufmax self'" "wr_bufmax self' = wr_bufmax self"
    using buf_write_written [OF assms(1) Cons.prems, of d w] by (simp_all add: b written_def)
  then show ?case using Cons.IH [of self' w'] by (simp add: b Let_def)
qed

fun buf_reads :: "'w reader \<Rightarrow> int \<Rightarrow> nat list \<Rightarrow> BufferedIORead \<times> 'w \<Rightarrow> byte list list" where
  "buf_reads f h [] s = []"
| "buf_reads f h (n # ns) s = (case buf_read f (fst s) h n (snd s) of ((_, data), s') \<Rightarrow> data # buf_reads f h ns s')"

text \<open>(C26) Buffered reading refines reading: on a descriptor that gives what it holds, consecutive reads of
  any sizes that the data suffices for return consecutive pieces of it, each of the size asked for.\<close>

theorem buffered_reads_refine:
  assumes "gives_all f h rest" "rd_wf self" "sum_list ns \<le> length (pending self @ rest w)"
  shows "concat (buf_reads f h ns (self, w)) = take (sum_list ns) (pending self @ rest w)
    \<and> map length (buf_reads f h ns (self, w)) = ns"
  using assms(2,3)
proof (induction ns arbitrary: self w)
  case (Cons n ns)
  define S where "S = pending self @ rest w"
  have n: "n + sum_list ns \<le> length S" using Cons.prems(2) by (simp add: S_def)
  then have "n \<le> length (pending self @ rest w)" by (simp add: S_def)
  from buf_read_stream [OF assms(1) Cons.prems(1) this]
  obtain self' w' where b: "buf_read f self h n w = ((s32 (int n), take n S), self', w')" "rd_wf self'"
    and p: "pending self' @ rest w' = drop n S" unfolding S_def [symmetric] by blast
  have "sum_list ns \<le> length (pending self' @ rest w')" unfolding p using n by simp
  from Cons.IH [OF b(2) this] show ?case using n b(1) unfolding p S_def [symmetric] by (simp add: take_add)
qed simp

end
