(* ===== verification/DemoConfig.thy ===== *)
theory DemoConfig
  imports Demo PrologProps BufferedIO
begin

text \<open>
  Concrete configurations, command lines and a process on which the properties of the configuration
  and of the start of a session are evaluated.
\<close>

section \<open>Sections\<close>

definition demo_keys :: KeyList where
  "demo_keys = \<lparr>keys = [''args''], optional_default_values = [None]\<rparr>"

definition demo_line :: "string \<Rightarrow> (string \<times> string) list" where
  "demo_line v = [(''args'', v)]"

lemmas text_ok_defs = header_ok_def name_ok_def record_ok_def params_ok_def key_ok_def word_ok_def tight_def IS_IT_CHAR_TO_STRIP_def covers_def

lemma demo_record_ok: "keys_wf demo_keys" "header_ok ''[args]''" "record_ok demo_keys (demo_line ''a'')" "record_ok demo_keys (demo_line ''b'')"
  by (simp_all add: keys_wf_def demo_keys_def demo_line_def text_ok_defs)

theorem section_after_comment_witness:
  "\<exists>buf. get_parsed_records buf 0 (length buf) demo_keys = Some [record_of demo_keys (map_of (demo_line ''a''))]
     \<and> buf = ''[args]'' @ NEWLINE # comment_text '' c'' @ concat (map line_text [demo_line ''a'', demo_line ''b''])"
proof -
  let ?t = "''[args]'' @ NEWLINE # comment_text '' c'' @ concat (map line_text [demo_line ''a'', demo_line ''b''])"
  have "has ?t 0 ?t" using has_within [of "[]" ?t "[]"] by simp
  with section_after_comment [of demo_keys "''[args]''" "[demo_line ''a'', demo_line ''b'']" "'' c''" ?t ?t 0] demo_record_ok
  show ?thesis by (simp add: demo_line_def)
qed

theorem section_blank_line_witness:
  "\<exists>buf. get_parsed_records buf 0 (length buf) demo_keys = None \<and> buf = section_text ''[args]'' [] @ ''  '' @ [NEWLINE]"
proof -
  let ?t = "section_text ''[args]'' [] @ ''  '' @ [NEWLINE]"
  have "has ?t 0 ?t" using has_within [of "[]" ?t "[]"] by simp
  with section_blank_line [of demo_keys "''[args]''" "[]" "''  ''" ?t 0 "length ?t"] demo_record_ok
  show ?thesis by simp
qed

theorem unescape_unchecked_digits_witness: "unescape_string_copy_to_dest [CHR 0x5C, CHR 0x78, CHR ''z'', CHR ''z''] 4 = None"
  using unescape_unchecked_digits [of "[]" "CHR ''z''" "CHR ''z''" "[CHR 0x5C, CHR 0x78, CHR ''z'', CHR ''z'']" "[]"]
  by (simp add: GET_VALIDATED_HEX_CHAR_TO_INT_def numeral_eq_Suc)

section \<open>A configuration file\<close>

definition demo_loader :: NvramLoader where
  "demo_loader = nvram_init\<lparr>nvram_observers := loader_observers\<rparr>"

definition demo_config :: config where
  "demo_config = [(''time'', [[(''seconds'', ''5'')]])]"

definition demo_calls :: "unit file_calls" where
  "demo_calls = \<lparr>fc_open = \<lambda>w _. (3, w), fc_lseek = \<lambda>w _ _. w,
     fc_read = \<lambda>w _ _. (int (length (config_text demo_config)), config_text demo_config, w), fc_close = \<lambda>w _. w\<rparr>"

lemma demo_config_length: "length (config_text demo_config) = 17"
  by (simp add: demo_config_def config_text_def section_text_def)

theorem configuration_read_back_witness:
  "\<exists>n nv1 nv2 w. nvram_read demo_calls demo_loader ''/dev/nvram'' () = (n, nv1, w) \<and> 0 < n \<and> nvram_parse nv1 = Some nv2
     \<and> length (parsed_sections nv2) = 1"
proof -
  have obs: "section_observer loader_observers ''time'' = Some (obs HSettime ''time'' [(''seconds'', None)])"
    by (simp add: loader_observers_def)
  have len: "length (nvram_data demo_loader) = NVRAM_MAX_FILE_SIZE" by (simp add: demo_loader_def nvram_init_def)
  have "section_ok loader_observers (''time'', [[(''seconds'', ''5'')]])"
    by (simp add: section_ok_def obs lines_ok_def keys_wf_def text_ok_defs)
  then have ok: "\<forall>s \<in> set demo_config. section_ok (nvram_observers demo_loader) s" by (simp add: demo_config_def demo_loader_def)
  have "length (parsed_of loader_observers demo_config) = 1" by (simp add: parsed_of_def demo_config_def obs)
  with configuration_read_back [OF len, of demo_config demo_calls "()" "''/dev/nvram''" 3 "()" "()"] ok demo_config_length
  show ?thesis by (auto simp: demo_calls_def demo_config_def demo_loader_def)
qed

theorem unclosed_bracket_hides_sections_witness: "config_sections (''v=[x'' @ [NEWLINE] @ ''[env]'') 10 0 7 = Some []"
proof -
  have "has (''v=[x'' @ [NEWLINE] @ ''[env]'') 0 (''v='' @ LBRACKET # ''x'' @ [NEWLINE])"
    using has_within [of "[]" "''v=[x'' @ [NEWLINE]" "''[env]''"] by simp
  with unclosed_bracket_hides_sections [of "''v=''" "''x''" "''v=[x'' @ [NEWLINE] @ ''[env]''" 0 10 7] show ?thesis by simp
qed

section \<open>Buffers\<close>

theorem arguments_fit_witness: "\<exists>ws. parse_transform_and_place_into_buf 20 [] ''x'' = Some (packed ws) \<and> length (packed ws) \<le> 20"
proof -
  have "parse_config_args NVRAM_MAX_RECORDS_IN_SECTION ''x'' 1 = [''x'']"
    using parse_args_text [of "[''x'']" NVRAM_MAX_RECORDS_IN_SECTION "[]"]
    by (simp add: parse_config_args_def quote_arg_def plain_arg_def arg_ok_def)
  moreover have "unescape_string_copy_to_dest ''x'' 1 = Some (1, ''x'')"
    using unescape_escape [of "{CHR 0x5C}" "''x''" "[]"] by simp
  ultimately show ?thesis using arguments_fit [of "[]" 20 "''x''"] by auto
qed

theorem strtouint_decimal_witness: "strtouint_nolocale (decimal 4294967295) 10 = (4294967295, False)"
  using strtouint_decimal [of 4294967295] by simp

theorem command_line_and_environment_witness:
  "\<exists>nv nv' a e. nvram_parse nv = Some nv' \<and> zrt_zcall_prolog_nvram_read_get_args_envs nv' = Some (a, e, 1)
     \<and> zrt_zcall_prolog_nvram_get_args_envs nv' a e = Some ([''x y'', ''''], [''A=b c''])"
proof -
  let ?es = "[(''A'', ''b c'')]" and ?ws = "[''x y'', '''']"
  let ?t = "config_text (session_config ?es ?ws)"
  let ?nv = "demo_loader\<lparr>nvram_data := ?t, nvram_data_size := int (length ?t)\<rparr>"
  have "holds ?nv (session_config ?es ?ws)"
    using has_within [of "[]" ?t "[]"] by (simp add: holds_def char_at_def)
  moreover have "length ?t < NVRAM_MAX_FILE_SIZE"
    by (simp add: session_config_def config_text_def section_text_def env_line_def escape_char_def special_def quote_arg_def plain_arg_def)
  moreover have "env_ok (''A'', ''b c'')" by (simp add: env_ok_def text_ok_defs)
  ultimately show ?thesis
    using command_line_and_environment [of ?es ?ws _ ?nv] nvram_loader_observers by (force simp: demo_loader_def)
qed

section \<open>A process\<close>

definition demo_proc :: "unit proc" where
  "demo_proc = zrt.extend demo (proc.fields True False 0 0 \<lparr>tv_sec = 1, tv_usec = 999999\<rparr> 1 1 False demo_mm nvram_init True)"

theorem clock_advances_witness: "now demo_proc < now (snd (zrt_zcall_prolog_gettod demo_proc False))"
proof -
  have t: "s_cached_timeval demo_proc = \<lparr>tv_sec = 1, tv_usec = 999999\<rparr>" by (simp add: demo_proc_def proc.defs zrt.defs)
  have "clock_step demo_proc (snd (zrt_zcall_prolog_gettod demo_proc False))" by (rule clock_step.gettod) (simp add: t)
  then have "clock_step\<^sup>+\<^sup>+ demo_proc (snd (zrt_zcall_prolog_gettod demo_proc False))" by (rule tranclp.r_into_trancl)
  with clock_advances [of demo_proc "snd (zrt_zcall_prolog_gettod demo_proc False)"] show ?thesis by (simp add: clock_ok_def t)
qed

section \<open>Buffered channels\<close>

text \<open>A descriptor whose world is the bytes written to it, or those not yet read from it.\<close>

definition demo_writer :: "byte list writer" where
  "demo_writer h bs w = (int (length bs), w @ bs)"

definition demo_reader :: "byte list reader" where
  "demo_reader h n w = ((int (length (take n w)), take n w), drop n w)"

theorem buffered_writes_refine_witness:
  "let s = buf_writes demo_writer 1 [[1, 2], [3, 4], [5, 6, 7, 8]] (AllocBufferedIOWrite 3, []) in
    snd (buf_flush_write demo_writer (fst s) 1 (snd s)) = [1, 2, 3, 4, 5, 6, 7, 8]"
  using buffered_writes_refine [of demo_writer 1 "\<lambda>w. w" "AllocBufferedIOWrite 3" "[[1, 2], [3, 4], [5, 6, 7, 8]]" "[]"]
  by (simp add: takes_all_def demo_writer_def AllocBufferedIOWrite_def Let_def)

theorem buffered_reads_refine_witness:
  "concat (buf_reads demo_reader 0 [1, 3, 1] (AllocBufferedIORead [0, 0], [1, 2, 3, 4, 5, 6])) = [1, 2, 3, 4, 5]"
  using buffered_reads_refine [of demo_reader 0 "\<lambda>w. w" "AllocBufferedIORead [0, 0]" "[1, 3, 1]" "[1, 2, 3, 4, 5, 6]"]
  by (simp add: gives_all_def demo_reader_def rd_wf_def AllocBufferedIORead_def buf_buffered_def pending_def)

end
