(* ===== verification/MrBuffers.thy ===== *)
theory MrBuffers
  imports DynArrays "HOL-Library.Multiset"
begin

text \<open>
  The array of the MapReduce library (\<open>lib/mapreduce/buffer.c\<close>, \<open>buffer.inl\<close>), its items
  (\<open>elastic_mr_item.h\<close>) and the interface with the program that uses the library (\<open>map_reduce_lib.h\<close>).

  An array is the list of its slots; a slot is \<open>None\<close> as long as no item was stored there, and an access
  outside the slots or to such a slot ends the program. \<open>size_t\<close> is 32 bits wide; whether an allocation
  of a number of bytes succeeds is the argument \<open>mem\<close>. An item holds the bytes its pointers refer to.
\<close>

section \<open>Arrays\<close>

record 'a Buffer =
  b_buf_size :: nat
  b_item_size :: nat
  b_count :: nat
  b_data :: "'a option list"

text \<open>All bytes zero.\<close>

definition zero_buffer :: "'a Buffer" where
  "zero_buffer = \<lparr>b_buf_size = 0, b_item_size = 0, b_count = 0, b_data = []\<rparr>"

definition FreeBufferData :: "'a Buffer \<Rightarrow> 'a Buffer" where
  "FreeBufferData buf = buf\<lparr>b_count := 0, b_buf_size := 0, b_data := []\<rparr>"

definition AllocBuffer :: "(nat \<Rightarrow> bool) \<Rightarrow> nat \<Rightarrow> nat \<Rightarrow> (int \<times> 'a Buffer) option" where
  "AllocBuffer mem itemsize gran =
     (let granularity = (if gran = 0 then 1 else gran);
          bytes = granularity * itemsize;
          ok = (bytes < SIZE_T_MOD \<and> mem bytes)
      in if 0 < itemsize
         then Some (if ok then 0 else s32 (int (bytes mod SIZE_T_MOD)),
                    \<lparr>b_buf_size = bytes mod SIZE_T_MOD, b_item_size = itemsize, b_count = 0,
                     b_data = (if ok then replicate granularity None else [])\<rparr>)
         else None)"

text \<open>With the macro \<open>IF_ALLOC_ERROR\<close> on the result.\<close>

definition IF_ALLOC_ERROR :: "(int \<times> 'a) option \<Rightarrow> 'a option" where
  "IF_ALLOC_ERROR r = (case r of Some (res, a) \<Rightarrow> (if res \<noteq> 0 then None else Some a) | None \<Rightarrow> None)"

definition ReallocBuffer :: "(nat \<Rightarrow> bool) \<Rightarrow> 'a Buffer \<Rightarrow> (int \<times> 'a Buffer) option" where
  "ReallocBuffer mem buf =
     (if 0 < b_item_size buf then
        (if (b_count buf * b_item_size buf) mod SIZE_T_MOD = b_buf_size buf then
           (let bytes = (b_buf_size buf * 2) mod SIZE_T_MOD;
                slots = bytes div b_item_size buf
            in if 0 < bytes \<and> mem bytes
               then Some (0, buf\<lparr>b_buf_size := bytes, b_data := take slots (b_data buf) @ replicate (slots - length (b_data buf)) None\<rparr>)
               else Some (s32 (int bytes), buf\<lparr>b_buf_size := bytes, b_data := []\<rparr>))
         else Some (0, buf))
      else None)"

definition BufferCountMax :: "'a Buffer \<Rightarrow> nat" where
  "BufferCountMax buf = (if 0 < b_item_size buf then b_buf_size buf div b_item_size buf else 0)"

text \<open>What \<open>BufferItemPointer\<close> points to.\<close>

definition BufferItem :: "'a Buffer \<Rightarrow> nat \<Rightarrow> 'a option" where
  "BufferItem buf index = (if index < length (b_data buf) then b_data buf ! index else None)"

definition SetBufferItem :: "'a Buffer \<Rightarrow> nat \<Rightarrow> 'a \<Rightarrow> 'a Buffer option" where
  "SetBufferItem buf index item =
     (if index < length (b_data buf) then Some (buf\<lparr>b_data := (b_data buf)[index := Some item]\<rparr>) else None)"

definition AddBufferItemVirtually :: "(nat \<Rightarrow> bool) \<Rightarrow> 'a Buffer \<Rightarrow> (nat \<times> 'a Buffer) option" where
  "AddBufferItemVirtually mem buf = do {
     buf1 \<leftarrow> (if b_count buf = BufferCountMax buf then IF_ALLOC_ERROR (ReallocBuffer mem buf) else Some buf);
     Some (b_count buf1, buf1\<lparr>b_count := (b_count buf1 + 1) mod SIZE_T_MOD\<rparr>) }"

definition AddBufferItem :: "(nat \<Rightarrow> bool) \<Rightarrow> 'a Buffer \<Rightarrow> 'a \<Rightarrow> 'a Buffer option" where
  "AddBufferItem mem buf item = do {
     buf1 \<leftarrow> (if b_count buf = BufferCountMax buf then IF_ALLOC_ERROR (ReallocBuffer mem buf) else Some buf);
     SetBufferItem (buf1\<lparr>b_count := (b_count buf1 + 1) mod SIZE_T_MOD\<rparr>) (b_count buf1) item }"

subsection \<open>The items of an array\<close>

definition readable :: "'a Buffer \<Rightarrow> bool" where
  "readable buf \<longleftrightarrow> b_count buf \<le> length (b_data buf) \<and> (\<forall>i < b_count buf. b_data buf ! i \<noteq> None)"

definition buffer_wf :: "'a Buffer \<Rightarrow> bool" where
  "buffer_wf buf \<longleftrightarrow> readable buf \<and> 0 < b_item_size buf \<and> 0 < length (b_data buf)
     \<and> b_buf_size buf = b_item_size buf * length (b_data buf) \<and> b_buf_size buf < SIZE_T_MOD"

definition items :: "'a Buffer \<Rightarrow> 'a list" where
  "items buf = map the (take (b_count buf) (b_data buf))"

lemma length_buffer_items [simp]: "readable buf \<Longrightarrow> length (items buf) = b_count buf"
  by (simp add: items_def readable_def)

lemma BufferItem_items: "readable buf \<Longrightarrow> i < b_count buf \<Longrightarrow> BufferItem buf i = Some (items buf ! i)"
  by (auto simp: BufferItem_def items_def readable_def)

lemma zero_buffer [simp]: "readable zero_buffer" "items zero_buffer = []" "b_count zero_buffer = 0"
  by (simp_all add: zero_buffer_def readable_def items_def)

lemma AllocBuffer_ok:
  assumes "0 < itemsize" "max 1 n * itemsize < SIZE_T_MOD" "mem (max 1 n * itemsize)"
  shows "\<exists>buf. IF_ALLOC_ERROR (AllocBuffer mem itemsize n) = Some buf \<and> buffer_wf buf \<and> items buf = []
    \<and> length (b_data buf) = max 1 n \<and> b_item_size buf = itemsize \<and> b_count buf = 0"
proof -
  have "(if n = 0 then 1 else n) = max 1 n" by auto
  with assms show ?thesis
    by (simp add: AllocBuffer_def IF_ALLOC_ERROR_def buffer_wf_def readable_def items_def Let_def)
qed

lemma AllocBuffer_small:
  assumes "0 < itemsize" "max 1 n * itemsize < 2 ^ 31" "\<forall>n < 2 ^ 31. mem n"
  shows "\<exists>buf. IF_ALLOC_ERROR (AllocBuffer mem itemsize n) = Some buf \<and> buffer_wf buf \<and> items buf = []
    \<and> length (b_data buf) = max 1 n \<and> b_item_size buf = itemsize \<and> b_count buf = 0"
proof (rule AllocBuffer_ok [OF assms(1)])
  show "max 1 n * itemsize < SIZE_T_MOD" by (rule less_trans [OF assms(2)]) simp
  show "mem (max 1 n * itemsize)" using assms(2,3) by blast
qed

lemma store_next:
  assumes "readable buf" "b_count buf < length (b_data buf)"
  shows "readable (buf\<lparr>b_count := Suc (b_count buf), b_data := (b_data buf)[b_count buf := Some x]\<rparr>)"
    "items (buf\<lparr>b_count := Suc (b_count buf), b_data := (b_data buf)[b_count buf := Some x]\<rparr>) = items buf @ [x]"
  using assms by (auto simp: readable_def items_def nth_list_update take_Suc_conv_app_nth)

lemma wf_count:
  assumes "buffer_wf buf"
  shows "BufferCountMax buf = length (b_data buf)" "length (b_data buf) < SIZE_T_MOD"
proof -
  have w: "0 < b_item_size buf" "b_buf_size buf = b_item_size buf * length (b_data buf)" "b_buf_size buf < SIZE_T_MOD"
    using assms by (simp_all add: buffer_wf_def)
  then show "BufferCountMax buf = length (b_data buf)" by (simp add: BufferCountMax_def)
  have "1 * length (b_data buf) \<le> b_item_size buf * length (b_data buf)" using w(1) by (intro mult_right_mono) auto
  with w show "length (b_data buf) < SIZE_T_MOD" by linarith
qed

lemma AddBufferItem_room:
  assumes wf: "buffer_wf buf" and room: "b_count buf < length (b_data buf)"
  shows "\<exists>buf'. AddBufferItem mem buf x = Some buf' \<and> buffer_wf buf' \<and> items buf' = items buf @ [x]
    \<and> length (b_data buf') = length (b_data buf) \<and> b_item_size buf' = b_item_size buf \<and> b_count buf' = Suc (b_count buf)"
proof -
  have "(b_count buf + 1) mod SIZE_T_MOD = Suc (b_count buf)" using wf_count(2) [OF wf] room by simp
  then have "AddBufferItem mem buf x = Some (buf\<lparr>b_count := Suc (b_count buf), b_data := (b_data buf)[b_count buf := Some x]\<rparr>)"
    using room by (simp add: AddBufferItem_def SetBufferItem_def wf_count(1) [OF wf])
  then show ?thesis using wf store_next [OF _ room, of x] by (simp add: buffer_wf_def)
qed

text \<open>A full array is doubled.\<close>

lemma AddBufferItem_grow:
  assumes wf: "buffer_wf buf" and full: "b_count buf = length (b_data buf)" and fits: "2 * b_buf_size buf < SIZE_T_MOD" and mem: "mem (2 * b_buf_size buf)"
  shows "\<exists>buf'. AddBufferItem mem buf x = Some buf' \<and> buffer_wf buf' \<and> items buf' = items buf @ [x]
    \<and> length (b_data buf') = 2 * length (b_data buf) \<and> b_item_size buf' = b_item_size buf \<and> b_count buf' = Suc (b_count buf)"
proof -
  let ?n = "length (b_data buf)"
  have w: "0 < b_item_size buf" "b_buf_size buf = b_item_size buf * ?n" "b_buf_size buf < SIZE_T_MOD" "0 < ?n" "readable buf"
    using wf by (simp_all add: buffer_wf_def)
  define buf1 where "buf1 = buf\<lparr>b_buf_size := 2 * b_buf_size buf, b_data := b_data buf @ replicate ?n None\<rparr>"
  have "ReallocBuffer mem buf = Some (0, buf1)"
    using w fits mem by (simp add: ReallocBuffer_def full buf1_def Let_def mult.commute)
  then have add: "AddBufferItem mem buf x = SetBufferItem (buf1\<lparr>b_count := (b_count buf1 + 1) mod SIZE_T_MOD\<rparr>) (b_count buf1) x"
    by (simp add: AddBufferItem_def wf_count(1) [OF wf] full IF_ALLOC_ERROR_def)
  have wf1: "buffer_wf buf1" and i1: "items buf1 = items buf" and c1: "b_count buf1 = ?n" "length (b_data buf1) = 2 * ?n" "b_item_size buf1 = b_item_size buf"
    using w fits full by (auto simp: buf1_def buffer_wf_def readable_def items_def nth_append)
  have "b_count buf1 < length (b_data buf1)" using w(4) c1 by simp
  from AddBufferItem_room [OF wf1 this, of mem x] obtain buf' where b: "AddBufferItem mem buf1 x = Some buf'" "buffer_wf buf'"
    "items buf' = items buf1 @ [x]" "length (b_data buf') = length (b_data buf1)" "b_item_size buf' = b_item_size buf1" "b_count buf' = Suc (b_count buf1)"
    by blast
  have "AddBufferItem mem buf1 x = AddBufferItem mem buf x"
    unfolding add using wf_count(1) [OF wf1] c1 w(4) by (simp add: AddBufferItem_def [of mem buf1])
  with b i1 c1 full show ?thesis by simp
qed

lemma AddBufferItem_ok:
  assumes wf: "buffer_wf buf" and fits: "2 * (b_count buf * b_item_size buf) < 2 ^ 31" and mem: "\<forall>n < 2 ^ 31. mem n"
  shows "\<exists>buf'. AddBufferItem mem buf x = Some buf' \<and> buffer_wf buf' \<and> items buf' = items buf @ [x]
    \<and> b_item_size buf' = b_item_size buf \<and> b_count buf' = Suc (b_count buf) \<and> length (b_data buf) \<le> length (b_data buf')"
proof (cases "b_count buf < length (b_data buf)")
  case True
  then show ?thesis using AddBufferItem_room [OF wf True, of mem x] by auto
next
  case False
  then have full: "b_count buf = length (b_data buf)" using wf by (simp add: buffer_wf_def readable_def)
  then have b: "b_buf_size buf = b_count buf * b_item_size buf" using wf by (simp add: buffer_wf_def)
  have "2 * b_buf_size buf < 2 ^ 31" using fits b by simp
  moreover from this have "2 * b_buf_size buf < SIZE_T_MOD" by simp
  ultimately obtain buf' where "AddBufferItem mem buf x = Some buf'" "buffer_wf buf'" "items buf' = items buf @ [x]"
    "length (b_data buf') = 2 * length (b_data buf)" "b_item_size buf' = b_item_size buf" "b_count buf' = Suc (b_count buf)"
    using AddBufferItem_grow [OF wf full, of mem x] mem by blast
  then show ?thesis by auto
qed

end
