(* ===== verification/MrMerge.thy ===== *)
theory MrMerge
  imports MrBuffers
begin

text \<open>
  The items of the MapReduce library and the merge of sorted arrays (\<open>MergeBuffersToNew\<close> of
  \<open>lib/mapreduce/map_reduce_lib.c\<close>), which the reduce nodes use; the search for the least current hash
  is shared with the choice of the dividers in the map nodes.
\<close>

section \<open>Items and hashes\<close>

type_synonym hash = "byte list"
type_synonym comparator = "hash \<Rightarrow> hash \<Rightarrow> int"

text \<open>A value is what its address points to, or the address itself.\<close>

datatype BinaryData = Pointed "byte list" | Plain "byte list"

record ElasticBufItemData =
  key_data :: "byte list"
  item_value :: BinaryData
  own_key :: bool
  own_value :: bool
  key_hash :: hash

definition hash_order :: "comparator \<Rightarrow> bool" where
  "hash_order cmp \<longleftrightarrow> (\<forall>x y. cmp x y \<le> 0 \<or> cmp y x \<le> 0) \<and> (\<forall>x y z. cmp x y \<le> 0 \<longrightarrow> cmp y z \<le> 0 \<longrightarrow> cmp x z \<le> 0)"

lemma hash_orderD:
  assumes "hash_order cmp"
  shows "cmp x x \<le> 0" "\<not> cmp x y \<le> 0 \<Longrightarrow> cmp y x \<le> 0" "cmp x y \<le> 0 \<Longrightarrow> cmp y z \<le> 0 \<Longrightarrow> cmp x z \<le> 0"
  using assms unfolding hash_order_def by blast+

section \<open>The least current hash\<close>

text \<open>The loop over the arrays; \<open>best\<close> is the index and the hash found so far.\<close>

fun minimum_loop :: "('a \<Rightarrow> hash) \<Rightarrow> comparator \<Rightarrow> nat \<Rightarrow> 'a Buffer list \<Rightarrow> nat list \<Rightarrow> (nat \<times> hash) option \<Rightarrow> (nat \<times> hash) option option" where
  "minimum_loop h cmp i (b # bs) (p # ps) best =
     (if p < b_count b then
        (case BufferItem b p of
           None \<Rightarrow> None
         | Some x \<Rightarrow> minimum_loop h cmp (Suc i) bs ps
             (case best of None \<Rightarrow> Some (i, h x) | Some (_, m) \<Rightarrow> if cmp (h x) m \<le> 0 then Some (i, h x) else best))
      else minimum_loop h cmp (Suc i) bs ps best)"
| "minimum_loop h cmp i _ _ best = Some best"

text \<open>The result -1 is \<open>None\<close> in the inner option.\<close>

definition SearchMinimumHashAmongCurrentItemsOfAllMergeBuffers :: "comparator \<Rightarrow> ElasticBufItemData Buffer list \<Rightarrow> nat list \<Rightarrow> nat option option" where
  "SearchMinimumHashAmongCurrentItemsOfAllMergeBuffers cmp merge_buffers current_indexes_array =
     map_option (map_option fst) (minimum_loop key_hash cmp 0 merge_buffers current_indexes_array None)"

partial_function (option) merge_loop ::
  "(nat \<Rightarrow> bool) \<Rightarrow> comparator \<Rightarrow> ElasticBufItemData Buffer list \<Rightarrow> nat list \<Rightarrow> ElasticBufItemData Buffer \<Rightarrow> ElasticBufItemData Buffer option" where
  "merge_loop mem cmp source_arrays merge_pos dest =
     Option.bind (SearchMinimumHashAmongCurrentItemsOfAllMergeBuffers cmp source_arrays merge_pos)
       (\<lambda>min_key_array. case min_key_array of
          None \<Rightarrow> Some dest
        | Some k \<Rightarrow>
            Option.bind (BufferItem (source_arrays ! k) (merge_pos ! k)) (\<lambda>current.
            Option.bind (AddBufferItem mem dest current) (\<lambda>dest'.
            merge_loop mem cmp source_arrays (merge_pos[k := merge_pos ! k + 1]) dest')))"

definition MergeBuffersToNew :: "(nat \<Rightarrow> bool) \<Rightarrow> nat \<Rightarrow> comparator \<Rightarrow> ElasticBufItemData Buffer list \<Rightarrow> ElasticBufItemData Buffer option" where
  "MergeBuffersToNew mem mr_item_size cmp source_arrays = do {
     dest \<leftarrow> IF_ALLOC_ERROR (AllocBuffer mem mr_item_size (sum_list (map b_count source_arrays) mod SIZE_T_MOD));
     merge_loop mem cmp source_arrays (replicate (length source_arrays) 0) dest }"

subsection \<open>What is left of the arrays\<close>

definition rests :: "'a Buffer list \<Rightarrow> nat list \<Rightarrow> 'a list list" where
  "rests bs ps = map2 (\<lambda>b p. drop p (items b)) bs ps"

fun min_head :: "('a \<Rightarrow> hash) \<Rightarrow> comparator \<Rightarrow> nat \<Rightarrow> 'a list list \<Rightarrow> (nat \<times> hash) option \<Rightarrow> (nat \<times> hash) option" where
  "min_head h cmp i [] best = best"
| "min_head h cmp i ([] # rs) best = min_head h cmp (Suc i) rs best"
| "min_head h cmp i ((x # _) # rs) best = min_head h cmp (Suc i) rs
     (case best of None \<Rightarrow> Some (i, h x) | Some (_, m) \<Rightarrow> if cmp (h x) m \<le> 0 then Some (i, h x) else best)"

lemma minimum_loop_rests:
  "\<forall>b \<in> set bs. readable b \<Longrightarrow> minimum_loop h cmp i bs ps best = Some (min_head h cmp i (rests bs ps) best)"
proof (induction h cmp i bs ps best rule: minimum_loop.induct)
  case (1 h cmp i b bs p ps best)
  show ?case
  proof (cases "p < b_count b")
    case True
    then have "BufferItem b p = Some (items b ! p)" "drop p (items b) = items b ! p # drop (Suc p) (items b)"
      using "1.prems" by (simp_all add: BufferItem_items Cons_nth_drop_Suc)
    with 1 True show ?thesis by (simp add: rests_def)
  next
    case False
    then have "drop p (items b) = []" using "1.prems" by simp
    with 1 False show ?thesis by (simp add: rests_def)
  qed
qed (simp_all add: rests_def)

lemma min_head_None: "min_head h cmp i rs best = None \<longleftrightarrow> best = None \<and> (\<forall>r \<in> set rs. r = [])"
proof (induction h cmp i rs best rule: min_head.induct)
  case (3 h cmp i x r rs best)
  then show ?case by (cases best) (auto split: if_splits)
qed auto

lemma min_head_Some:
  assumes ord: "hash_order cmp" and m: "min_head h cmp i rs best = Some (k, m)"
  shows "(best = Some (k, m) \<or> (\<exists>j x r. j < length rs \<and> k = i + j \<and> rs ! j = x # r \<and> h x = m))
    \<and> (\<forall>x r. x # r \<in> set rs \<longrightarrow> cmp m (h x) \<le> 0) \<and> (\<forall>k' m'. best = Some (k', m') \<longrightarrow> cmp m m' \<le> 0)"
  using m
proof (induction rs arbitrary: i best)
  case Nil
  then show ?case using hash_orderD(1) [OF ord] by auto
next
  case (Cons r rs)
  show ?case
  proof (cases r)
    case Nil
    with Cons.prems have "min_head h cmp (Suc i) rs best = Some (k, m)" by simp
    from Cons.IH [OF this] Nil show ?thesis by (auto simp: less_Suc_eq_0_disj)
  next
    case (Cons x xs)
    define best' where "best' = (case best of None \<Rightarrow> Some (i, h x) | Some (_, m) \<Rightarrow> if cmp (h x) m \<le> 0 then Some (i, h x) else best)"
    have "min_head h cmp (Suc i) rs best' = Some (k, m)" using Cons.prems Cons by (simp add: best'_def)
    from Cons.IH [OF this] have ih: "best' = Some (k, m) \<or> (\<exists>j x r. j < length rs \<and> k = Suc i + j \<and> rs ! j = x # r \<and> h x = m)"
      "\<forall>x r. x # r \<in> set rs \<longrightarrow> cmp m (h x) \<le> 0" "\<forall>k' m'. best' = Some (k', m') \<longrightarrow> cmp m m' \<le> 0"
      by auto
    have xb: "cmp m (h x) \<le> 0 \<and> (\<forall>k' m'. best = Some (k', m') \<longrightarrow> cmp m m' \<le> 0)"
    proof (cases best)
      case None
      then show ?thesis using ih(3) by (simp add: best'_def)
    next
      case (Some km)
      obtain k0 m0 where km: "km = (k0, m0)" by (cases km)
      show ?thesis
      proof (cases "cmp (h x) m0 \<le> 0")
        case True
        then have "cmp m (h x) \<le> 0" using ih(3) by (simp add: best'_def Some km)
        with True hash_orderD(3) [OF ord] show ?thesis by (auto simp: Some km)
      next
        case False
        then have "cmp m m0 \<le> 0" using ih(3) by (simp add: best'_def Some km)
        with hash_orderD(3) [OF ord this] hash_orderD(2) [OF ord False] show ?thesis by (simp add: Some km)
      qed
    qed
    have "best' = Some (k, m) \<Longrightarrow> best = Some (k, m) \<or> (k = i \<and> h x = m)"
      by (auto simp: best'_def split: option.splits if_splits)
    with ih(1) consider "best = Some (k, m)" | "k = i + 0" "h x = m" | j y ys where "j < length rs" "k = i + Suc j" "rs ! j = y # ys" "h y = m"
      by auto
    then have "best = Some (k, m) \<or> (\<exists>j x' r'. j < length (r # rs) \<and> k = i + j \<and> (r # rs) ! j = x' # r' \<and> h x' = m)"
    proof cases
      case 2
      then show ?thesis using Cons by (intro disjI2 exI [of _ 0]) simp
    next
      case (3 j y ys)
      then show ?thesis by (intro disjI2 exI [of _ "Suc j"]) simp
    qed simp
    with ih(2) xb show ?thesis unfolding Cons by auto
  qed
qed

section \<open>The merge\<close>

definition by_hash :: "comparator \<Rightarrow> ElasticBufItemData list \<Rightarrow> bool" where
  "by_hash cmp = sorted_wrt (\<lambda>x y. cmp (key_hash x) (key_hash y) \<le> 0)"

lemma rests_step:
  "k < length bs \<Longrightarrow> length ps = length bs \<Longrightarrow> rests bs (ps[k := ps ! k + 1]) = (rests bs ps)[k := tl (rests bs ps ! k)]"
  by (rule nth_equalityI) (auto simp: rests_def nth_list_update tl_drop drop_Suc)

lemma concat_step:
  assumes "k < length rs" "rs ! k = x # r"
  shows "mset (concat rs) = add_mset x (mset (concat (rs[k := r])))"
proof -
  have "rs = take k rs @ (x # r) # drop (Suc k) rs" using id_take_nth_drop [OF assms(1)] assms(2) by simp
  then have "mset (concat rs) = mset (concat (take k rs @ (x # r) # drop (Suc k) rs))" by simp
  also have "\<dots> = add_mset x (mset (concat (take k rs @ r # drop (Suc k) rs)))" by simp
  finally show ?thesis using assms(1) by (simp add: upd_conv_take_nth_drop)
qed

text \<open>Either nothing is left, or the search finds an array whose current element is least of all that is left.\<close>

lemma minimum_cases:
  assumes ord: "hash_order cmp" and src: "\<forall>b \<in> set bs. readable b" and sorted: "\<forall>r \<in> set (rests bs ps). sorted_wrt (\<lambda>x y. cmp (h x) (h y) \<le> 0) r"
    and len: "length ps = length bs"
  obtains "map_option (map_option fst) (minimum_loop h cmp 0 bs ps None) = Some None" "concat (rests bs ps) = []"
  | k x r where "map_option (map_option fst) (minimum_loop h cmp 0 bs ps None) = Some (Some k)" "k < length bs" "rests bs ps ! k = x # r"
      "BufferItem (bs ! k) (ps ! k) = Some x" "\<forall>y \<in> set (concat (rests bs ps)). cmp (h x) (h y) \<le> 0"
proof (cases "min_head h cmp 0 (rests bs ps) None")
  case None
  then have "concat (rests bs ps) = []" by (simp add: min_head_None)
  with None show ?thesis by (intro that(1)) (simp_all add: minimum_loop_rests [OF src])
next
  case (Some km)
  obtain k m where km: "km = (k, m)" by (cases km)
  from min_head_Some [OF ord Some [unfolded km]] obtain x r where k: "k < length (rests bs ps)" "rests bs ps ! k = x # r" "h x = m"
    and min: "\<forall>x r. x # r \<in> set (rests bs ps) \<longrightarrow> cmp m (h x) \<le> 0" by auto
  have kb: "k < length bs" using k(1) by (simp add: rests_def)
  then have d: "drop (ps ! k) (items (bs ! k)) = x # r" using k(2) len by (simp add: rests_def)
  then have i: "ps ! k < length (items (bs ! k))" by (metis drop_all list.discI not_le)
  then have "items (bs ! k) ! (ps ! k) = x" using d by (metis Cons_nth_drop_Suc list.inject)
  moreover have "readable (bs ! k)" using src kb by simp
  ultimately have item: "BufferItem (bs ! k) (ps ! k) = Some x" using i by (simp add: BufferItem_items)
  have "cmp (h x) (h y) \<le> 0" if y: "y \<in> set q" and q: "q \<in> set (rests bs ps)" for y q
  proof -
    obtain z zs where zs: "q = z # zs" using y by (cases q) auto
    then have "cmp m (h z) \<le> 0" using min q by auto
    moreover have "y = z \<or> cmp (h z) (h y) \<le> 0" using sorted q y zs by auto
    ultimately show ?thesis using k(3) hash_orderD(3) [OF ord] by metis
  qed
  with Some km kb k item show ?thesis by (intro that(2)) (auto simp: minimum_loop_rests [OF src])
qed

lemma search_minimum:
  assumes ord: "hash_order cmp" and src: "\<forall>b \<in> set bs. readable b" and sorted: "\<forall>r \<in> set (rests bs ps). by_hash cmp r" and len: "length ps = length bs"
  obtains "SearchMinimumHashAmongCurrentItemsOfAllMergeBuffers cmp bs ps = Some None" "concat (rests bs ps) = []"
  | k x r where "SearchMinimumHashAmongCurrentItemsOfAllMergeBuffers cmp bs ps = Some (Some k)" "k < length bs" "rests bs ps ! k = x # r"
      "BufferItem (bs ! k) (ps ! k) = Some x" "\<forall>y \<in> set (concat (rests bs ps)). cmp (key_hash x) (key_hash y) \<le> 0"
  using minimum_cases [OF ord src sorted [unfolded by_hash_def] len] that
  unfolding SearchMinimumHashAmongCurrentItemsOfAllMergeBuffers_def by metis

text \<open>One element taken.\<close>

lemma take_minimum:
  assumes k: "k < length bs" "length ps = length bs" "rests bs ps ! k = x # r"
  shows "mset (concat (rests bs ps)) = add_mset x (mset (concat (rests bs (ps[k := ps ! k + 1]))))"
    "length (concat (rests bs ps)) = Suc (length (concat (rests bs (ps[k := ps ! k + 1]))))"
    "set (concat (rests bs ps)) = insert x (set (concat (rests bs (ps[k := ps ! k + 1]))))"
    "set (rests bs (ps[k := ps ! k + 1])) \<subseteq> insert r (set (rests bs ps))" "x # r \<in> set (rests bs ps)"
proof -
  have kr: "k < length (rests bs ps)" using k(1,2) by (simp add: rests_def)
  have rs: "rests bs (ps[k := ps ! k + 1]) = (rests bs ps)[k := r]" using rests_step [OF k(1,2)] k(3) by simp
  show ms: "mset (concat (rests bs ps)) = add_mset x (mset (concat (rests bs (ps[k := ps ! k + 1]))))"
    unfolding rs by (rule concat_step [OF kr k(3)])
  then show "length (concat (rests bs ps)) = Suc (length (concat (rests bs (ps[k := ps ! k + 1]))))" by (metis size_mset size_add_mset)
  from ms show "set (concat (rests bs ps)) = insert x (set (concat (rests bs (ps[k := ps ! k + 1]))))"
    by (metis set_mset_mset set_mset_add_mset_insert)
  show "set (rests bs (ps[k := ps ! k + 1])) \<subseteq> insert r (set (rests bs ps))" unfolding rs by (rule set_update_subset_insert)
  show "x # r \<in> set (rests bs ps)" using kr k(3) by (metis nth_mem)
qed

lemma merge_loop_ok:
  assumes ord: "hash_order cmp" and src: "\<forall>b \<in> set bs. readable b"
  shows "length ps = length bs \<Longrightarrow> \<forall>r \<in> set (rests bs ps). by_hash cmp r \<Longrightarrow> buffer_wf dest
    \<Longrightarrow> b_count dest + length (concat (rests bs ps)) \<le> length (b_data dest) \<Longrightarrow> by_hash cmp (items dest)
    \<Longrightarrow> \<forall>x \<in> set (items dest). \<forall>y \<in> set (concat (rests bs ps)). cmp (key_hash x) (key_hash y) \<le> 0
    \<Longrightarrow> \<exists>dest'. merge_loop mem cmp bs ps dest = Some dest' \<and> buffer_wf dest' \<and> by_hash cmp (items dest')
      \<and> mset (items dest') = mset (items dest) + mset (concat (rests bs ps))"
proof (induction "length (concat (rests bs ps))" arbitrary: ps dest)
  case 0
  from search_minimum [OF ord src 0(3,2)] show ?case
  proof cases
    case 1
    then show ?thesis using 0 by (subst merge_loop.simps) simp
  next
    case (2 k x r)
    moreover have "k < length (rests bs ps)" using 2(2) 0(2) by (simp add: rests_def)
    ultimately have "x # r \<in> set (rests bs ps)" by (metis nth_mem)
    with 0(1) show ?thesis by (auto dest: arg_cong [of _ _ length])
  qed
next
  case (Suc n)
  from search_minimum [OF ord src Suc.prems(2,1)] show ?case
  proof cases
    case 1
    then have "length (concat (rests bs ps)) = 0" by (metis list.size(3))
    then show ?thesis using Suc.hyps(2) by linarith
  next
    case (2 k x r)
    let ?ps = "ps[k := ps ! k + 1]"
    note tk = take_minimum [OF 2(2) Suc.prems(1) 2(3)]
    note ms = tk(1) and len = tk(2)
    have room: "b_count dest < length (b_data dest)" using Suc.prems(4) len by simp
    from AddBufferItem_room [OF Suc.prems(3) room, of mem x] obtain dest1 where d: "AddBufferItem mem dest x = Some dest1" "buffer_wf dest1"
      "items dest1 = items dest @ [x]" "length (b_data dest1) = length (b_data dest)" "b_count dest1 = Suc (b_count dest)" by blast
    have "by_hash cmp r" using Suc.prems(2) tk(5) by (auto simp: by_hash_def)
    then have sorted: "\<forall>q \<in> set (rests bs ?ps). by_hash cmp q" using Suc.prems(2) tk(4) by blast
    have xin: "x \<in> set (concat (rests bs ps))" unfolding tk(3) by simp
    have "by_hash cmp (items dest1)" using Suc.prems(5) bspec [OF bspec [OF Suc.prems(6)] xin] by (simp add: by_hash_def d(3) sorted_wrt_append)
    moreover have "\<forall>z \<in> set (items dest1). \<forall>y \<in> set (concat (rests bs ?ps)). cmp (key_hash z) (key_hash y) \<le> 0"
      using Suc.prems(6) 2(5) unfolding d(3) tk(3) by auto
    moreover have "n = length (concat (rests bs ?ps))" "length ?ps = length bs" using Suc.hyps(2) Suc.prems(1) len by simp_all
    moreover have "b_count dest1 + length (concat (rests bs ?ps)) \<le> length (b_data dest1)" using Suc.prems(4) len d(4,5) by simp
    ultimately obtain dest' where "merge_loop mem cmp bs ?ps dest1 = Some dest'" "buffer_wf dest'" "by_hash cmp (items dest')"
      "mset (items dest') = mset (items dest1) + mset (concat (rests bs ?ps))"
      using Suc.hyps(1) [of ?ps dest1] sorted d(2) by blast
    moreover have "merge_loop mem cmp bs ps dest = merge_loop mem cmp bs ?ps dest1"
      using 2(1,4) d(1) by (subst merge_loop.simps) simp
    ultimately show ?thesis using ms d(3) by simp
  qed
qed

lemma rests_start: "rests bs (replicate (length bs) 0) = map items bs"
  by (rule nth_equalityI) (simp_all add: rests_def)

lemma merge_ok:
  assumes ord: "hash_order cmp" and src: "\<forall>b \<in> set bs. readable b \<and> by_hash cmp (items b)"
    and size: "0 < mr_item_size" "max 1 n * mr_item_size < SIZE_T_MOD" "mem (max 1 n * mr_item_size)" and n: "n = sum_list (map b_count bs)"
  shows "\<exists>dest. MergeBuffersToNew mem mr_item_size cmp bs = Some dest \<and> buffer_wf dest \<and> by_hash cmp (items dest)
    \<and> mset (items dest) = mset (concat (map items bs))"
proof -
  have rd: "\<forall>b \<in> set bs. readable b" using src by blast
  have "n * 1 \<le> max 1 n * mr_item_size" using size(1) by (intro mult_mono) auto
  then have "n < SIZE_T_MOD" using size(2) by linarith
  then have nm: "sum_list (map b_count bs) mod SIZE_T_MOD = n" using n by simp
  obtain dest :: "ElasticBufItemData Buffer" where d: "IF_ALLOC_ERROR (AllocBuffer mem mr_item_size n) = Some dest" "buffer_wf dest" "items dest = []" "length (b_data dest) = max 1 n" "b_count dest = 0"
    using AllocBuffer_ok [of mr_item_size n mem] size by blast
  have "length (concat (map items bs)) = n" using rd n by (simp add: length_concat o_def cong: map_cong)
  with merge_loop_ok [OF ord rd, of "replicate (length bs) 0" dest mem] src d
  obtain dest' where "merge_loop mem cmp bs (replicate (length bs) 0) dest = Some dest'" "buffer_wf dest'" "by_hash cmp (items dest')"
    "mset (items dest') = mset (concat (map items bs))"
    by (auto simp: rests_start by_hash_def)
  with d(1) nm show ?thesis by (simp add: MergeBuffersToNew_def)
qed

end
