(* ===== verification/MrTransfer.thy ===== *)
theory MrTransfer
  imports MrMerge BufferedIO
begin

text \<open>
  What a map node sends to a reduce node and how the reduce node takes it apart
  (\<open>WriteDataToReduce\<close> and \<open>RecvDataFromSingleMap\<close> of \<open>lib/mapreduce/map_reduce_lib.c\<close>), through the
  buffered input and output of theory \<open>BufferedIO\<close>. Integers go over the channel as four bytes, the
  lowest first. \<open>None\<close> is a failed assertion or an access to memory that holds nothing.
\<close>

section \<open>Integers in memory\<close>

definition int_bytes :: "int \<Rightarrow> byte list" where
  "int_bytes x = map (\<lambda>i. word_of_int (x div 256 ^ i)) [0..<4]"

definition bytes_int :: "byte list \<Rightarrow> int" where
  "bytes_int bs = s32 (foldr (\<lambda>b a. uint b + 256 * a) bs 0)"

lemma length_int_bytes [simp]: "length (int_bytes x) = 4"
  by (simp add: int_bytes_def)

lemma int_bytes: "int_bytes x = [word_of_int x, word_of_int (x div 256), word_of_int (x div 65536), word_of_int (x div 16777216)]"
  by (simp add: int_bytes_def upt_conv_Cons)

lemma bytes_int_bytes: "bytes_int (int_bytes x) = s32 x"
proof -
  have step: "y mod (256 * c) = y mod 256 + 256 * (y div 256 mod c)" if "0 < c" for y c :: int
    using zmod_zmult2_eq [of c y 256] that by simp
  have s1: "x mod 4294967296 = x mod 256 + 256 * (x div 256 mod 16777216)" using step [of 16777216 x] by simp
  have s2: "x div 256 mod 16777216 = x div 256 mod 256 + 256 * (x div 65536 mod 65536)"
    using step [of 65536 "x div 256"] zdiv_zmult2_eq [of 256 x 256] by simp
  have s3: "x div 65536 mod 65536 = x div 65536 mod 256 + 256 * (x div 16777216 mod 256)"
    using step [of 256 "x div 65536"] zdiv_zmult2_eq [of 256 x 65536] by simp
  have "foldr (\<lambda>b a. uint b + 256 * a) (int_bytes x) 0 = x mod 4294967296"
    unfolding int_bytes s1 s2 s3 by (simp add: uint_word_of_int)
  then show ?thesis by (simp add: bytes_int_def s32_def mod_add_left_eq)
qed

section \<open>Sending\<close>

text \<open>\<open>bytes += bio->write(bio, fdw, d, size)\<close> on the count of bytes, the buffer and the world.\<close>

definition put :: "'w writer \<Rightarrow> int \<Rightarrow> byte list \<Rightarrow> int \<times> BufferedIOWrite \<times> 'w \<Rightarrow> int \<times> BufferedIOWrite \<times> 'w" where
  "put f fdw d s = (case s of (bytes, bio, w) \<Rightarrow> (case buf_write f bio fdw d w of (b, bio', w') \<Rightarrow> (s32 (bytes + b), bio', w')))"

definition BufferedWriteSingleMrItem ::
  "'w writer \<Rightarrow> int \<Rightarrow> nat \<Rightarrow> bool \<Rightarrow> ElasticBufItemData \<Rightarrow> int \<times> BufferedIOWrite \<times> 'w \<Rightarrow> (int \<times> BufferedIOWrite \<times> 'w) option" where
  "BufferedWriteSingleMrItem f fdw hashsize value_addr_is_data item s = do {
     let s1 = put f fdw (key_data item) (put f fdw (int_bytes (int (length (key_data item)))) s);
     s2 \<leftarrow> (case item_value item of
        Plain addr \<Rightarrow> (if value_addr_is_data \<and> length addr = 4 then Some (put f fdw addr s1) else None)
      | Pointed v \<Rightarrow> (if value_addr_is_data then None else Some (put f fdw v (put f fdw (int_bytes (int (length v))) s1))));
     if hashsize \<le> length (key_hash item) then Some (put f fdw (take hashsize (key_hash item)) s2) else None }"

text \<open>The size of a value, which the loop below reads; of a plain value it is not set.\<close>

definition value_size :: "ElasticBufItemData \<Rightarrow> nat option" where
  "value_size item = (case item_value item of Pointed v \<Rightarrow> Some (length v) | Plain _ \<Rightarrow> None)"

fun sending_loop :: "ElasticBufItemData Buffer \<Rightarrow> bool \<Rightarrow> nat \<Rightarrow> nat \<Rightarrow> nat \<Rightarrow> nat option" where
  "sending_loop mapb value_addr_is_data i 0 senddatasize = Some senddatasize"
| "sending_loop mapb value_addr_is_data i (Suc n) senddatasize = do {
     item \<leftarrow> BufferItem mapb i;
     v \<leftarrow> (if value_addr_is_data then Some 0 else value_size item);
     sending_loop mapb value_addr_is_data (Suc i) n ((senddatasize + length (key_data item) + v) mod SIZE_T_MOD) }"

definition CalculateSendingDataSize :: "ElasticBufItemData Buffer \<Rightarrow> nat \<Rightarrow> nat \<Rightarrow> nat \<Rightarrow> bool \<Rightarrow> nat option" where
  "CalculateSendingDataSize mapb data_start_index items_count hashsize value_addr_is_data = do {
     n \<leftarrow> sending_loop mapb value_addr_is_data data_start_index items_count (4 + 4);
     Some ((n + items_count * 4 + items_count * hashsize + items_count * 4) mod SIZE_T_MOD) }"

fun write_items :: "'w writer \<Rightarrow> int \<Rightarrow> nat \<Rightarrow> bool \<Rightarrow> ElasticBufItemData Buffer \<Rightarrow> nat \<Rightarrow> nat
    \<Rightarrow> int \<times> BufferedIOWrite \<times> 'w \<Rightarrow> (int \<times> BufferedIOWrite \<times> 'w) option" where
  "write_items f fdw hashsize vad mapb i 0 s = Some s"
| "write_items f fdw hashsize vad mapb i (Suc n) s = do {
     current \<leftarrow> BufferItem mapb i;
     s' \<leftarrow> BufferedWriteSingleMrItem f fdw hashsize vad current s;
     write_items f fdw hashsize vad mapb (Suc i) n s' }"

definition WriteDataToReduce ::
  "'w writer \<Rightarrow> nat \<Rightarrow> bool \<Rightarrow> BufferedIOWrite \<Rightarrow> int \<Rightarrow> ElasticBufItemData Buffer \<Rightarrow> nat \<Rightarrow> nat \<Rightarrow> int \<Rightarrow> 'w \<Rightarrow> (BufferedIOWrite \<times> 'w) option" where
  "WriteDataToReduce f hashsize vad bio fdw mapb data_start_index items_count last_data_flag w =
     (if data_start_index + items_count \<le> b_count mapb then do {
        size \<leftarrow> CalculateSendingDataSize mapb data_start_index items_count hashsize vad;
        let senddatasize = s32 (int size);
        let s0 = snd (put f fdw (int_bytes senddatasize) (0, bio, w));
        let s1 = put f fdw (int_bytes (int items_count)) (put f fdw (int_bytes last_data_flag) (0, s0));
        (bytes, bio', w') \<leftarrow> write_items f fdw hashsize vad mapb data_start_index items_count s1;
        if bytes = senddatasize then Some (buf_flush_write f bio' fdw w') else None }
      else None)"

section \<open>Receiving\<close>

text \<open>The macro \<open>BUFFERED_READ_ASSERT\<close>; the counts of the bytes read are only logged.\<close>

definition BUFFERED_READ_ASSERT :: "'w reader \<Rightarrow> int \<Rightarrow> nat \<Rightarrow> BufferedIORead \<times> 'w \<Rightarrow> (byte list \<times> BufferedIORead \<times> 'w) option" where
  "BUFFERED_READ_ASSERT f fdr n s = (case buf_read f (fst s) fdr n (snd s) of ((cur_read, bs), s') \<Rightarrow>
     (if 0 < cur_read \<and> length bs = n then Some (bs, s') else None))"

text \<open>A size, memory of that size, and the bytes that fill it.\<close>

definition read_sized :: "(nat \<Rightarrow> bool) \<Rightarrow> 'w reader \<Rightarrow> int \<Rightarrow> BufferedIORead \<times> 'w \<Rightarrow> (byte list \<times> BufferedIORead \<times> 'w) option" where
  "read_sized mem f fdr s = do {
     (n, s1) \<leftarrow> BUFFERED_READ_ASSERT f fdr 4 s;
     if 0 \<le> bytes_int n \<and> mem (nat (bytes_int n)) then BUFFERED_READ_ASSERT f fdr (nat (bytes_int n)) s1 else None }"

definition BufferedReadSingleMrItem ::
  "(nat \<Rightarrow> bool) \<Rightarrow> 'w reader \<Rightarrow> int \<Rightarrow> nat \<Rightarrow> bool \<Rightarrow> BufferedIORead \<times> 'w \<Rightarrow> (ElasticBufItemData \<times> BufferedIORead \<times> 'w) option" where
  "BufferedReadSingleMrItem mem f fdr hashsize value_addr_is_data s = do {
     (key, s1) \<leftarrow> read_sized mem f fdr s;
     (v, s2) \<leftarrow> (if value_addr_is_data then do { (a, s') \<leftarrow> BUFFERED_READ_ASSERT f fdr 4 s1; Some (Plain a, s') }
                 else do { (b, s') \<leftarrow> read_sized mem f fdr s1; Some (Pointed b, s') });
     (h, s3) \<leftarrow> BUFFERED_READ_ASSERT f fdr hashsize s2;
     Some (\<lparr>key_data = key, item_value = v, own_key = True, own_value = \<not> value_addr_is_data, key_hash = h\<rparr>, s3) }"

fun recv_items :: "(nat \<Rightarrow> bool) \<Rightarrow> 'w reader \<Rightarrow> int \<Rightarrow> nat \<Rightarrow> bool \<Rightarrow> nat \<Rightarrow> nat \<Rightarrow> ElasticBufItemData Buffer \<Rightarrow> BufferedIORead \<times> 'w
    \<Rightarrow> (ElasticBufItemData Buffer \<times> BufferedIORead \<times> 'w) option" where
  "recv_items mem f fdr hashsize vad i 0 mapb s = Some (mapb, s)"
| "recv_items mem f fdr hashsize vad i (Suc n) mapb s = do {
     (_, map1) \<leftarrow> AddBufferItemVirtually mem mapb;
     (item, s1) \<leftarrow> BufferedReadSingleMrItem mem f fdr hashsize vad s;
     map2 \<leftarrow> SetBufferItem map1 i item;
     recv_items mem f fdr hashsize vad (Suc i) n map2 s1 }"

text \<open>The flag, and the array unless the size of the packet was not positive: then it stays as it was.\<close>

definition RecvDataFromSingleMap ::
  "(nat \<Rightarrow> bool) \<Rightarrow> 'w reader \<Rightarrow> nat \<Rightarrow> nat \<Rightarrow> bool \<Rightarrow> int \<Rightarrow> 'w \<Rightarrow> (int \<times> ElasticBufItemData Buffer option \<times> 'w) option" where
  "RecvDataFromSingleMap mem f mr_item_size hashsize vad fdr w =
     (case f fdr 4 w of ((r, bs), w1) \<Rightarrow>
        if 0 < r \<and> length bs = 4 then
          (let bytes = bytes_int bs
           in if 0 < bytes then
                (if mem (nat bytes) then do {
                   (flag, s1) \<leftarrow> BUFFERED_READ_ASSERT f fdr 4 (AllocBufferedIORead (replicate (nat bytes) 0), w1);
                   (n, s2) \<leftarrow> BUFFERED_READ_ASSERT f fdr 4 s1;
                   mapb \<leftarrow> IF_ALLOC_ERROR (AllocBuffer mem mr_item_size (nat (bytes_int n mod 2 ^ 32)));
                   (map', _, w') \<leftarrow> recv_items mem f fdr hashsize vad 0 (nat (bytes_int n)) mapb s2;
                   Some (bytes_int flag, Some map', w') }
                 else None)
              else Some (0, None, w1))
        else None)"

section \<open>The bytes of a packet\<close>

fun value_bytes :: "BinaryData \<Rightarrow> byte list" where
  "value_bytes (Plain a) = a"
| "value_bytes (Pointed v) = int_bytes (int (length v)) @ v"

definition item_bytes :: "ElasticBufItemData \<Rightarrow> byte list" where
  "item_bytes item = int_bytes (int (length (key_data item))) @ key_data item @ value_bytes (item_value item) @ key_hash item"

definition packet :: "int \<Rightarrow> ElasticBufItemData list \<Rightarrow> byte list" where
  "packet flag xs = int_bytes flag @ int_bytes (int (length xs)) @ concat (map item_bytes xs)"

definition framed :: "int \<Rightarrow> ElasticBufItemData list \<Rightarrow> byte list" where
  "framed flag xs = int_bytes (int (length (packet flag xs))) @ packet flag xs"

text \<open>Items as the settings of the library ask for them. The reader does not accept empty keys and values.\<close>

definition item_ok :: "nat \<Rightarrow> bool \<Rightarrow> ElasticBufItemData \<Rightarrow> bool" where
  "item_ok hashsize vad item \<longleftrightarrow> key_data item \<noteq> [] \<and> length (key_hash item) = hashsize \<and> 0 < hashsize
     \<and> (case item_value item of Plain a \<Rightarrow> vad \<and> length a = 4 | Pointed v \<Rightarrow> \<not> vad \<and> v \<noteq> [])"

subsection \<open>Sending\<close>

definition sends :: "('w \<Rightarrow> byte list) \<Rightarrow> int \<times> BufferedIOWrite \<times> 'w \<Rightarrow> byte list \<Rightarrow> int \<times> BufferedIOWrite \<times> 'w \<Rightarrow> bool" where
  "sends out s d s' \<longleftrightarrow>
     (length (wr_buf (fst (snd s))) \<le> wr_bufmax (fst (snd s)) \<and> 0 \<le> fst s \<and> fst s + int (length d) < 2 ^ 31 \<longrightarrow>
      length (wr_buf (fst (snd s'))) \<le> wr_bufmax (fst (snd s')) \<and> wr_bufmax (fst (snd s')) = wr_bufmax (fst (snd s))
      \<and> written out (snd s') = written out (snd s) @ d \<and> fst s' = fst s + int (length d))"

lemma sends_trans: "sends out s d s' \<Longrightarrow> sends out s' e s'' \<Longrightarrow> sends out s (d @ e) s''"
  unfolding sends_def by auto

lemma buf_write_result:
  assumes "takes_all f h out" "int (length d) < 2 ^ 31"
  shows "fst (buf_write f self h d w) = int (length d)"
proof -
  have "s32 (int (length d)) = int (length d)" using assms(2) by (simp add: s32_id)
  then show ?thesis using assms(1) by (auto simp: buf_write_def takes_all_def split: prod.split option.split) (metis fst_conv)
qed

lemma put_sends:
  assumes f: "takes_all f h out"
  shows "sends out s d (put f h d s)"
proof -
  obtain bytes bio w where s: "s = (bytes, bio, w)" by (cases s)
  obtain b bio' w' where b: "buf_write f bio h d w = (b, bio', w')" by (cases "buf_write f bio h d w")
  have "sends out (bytes, bio, w) d (s32 (bytes + b), bio', w')"
    unfolding sends_def
  proof (intro impI, elim conjE)
    assume a: "length (wr_buf (fst (snd (bytes, bio, w)))) \<le> wr_bufmax (fst (snd (bytes, bio, w)))" "0 \<le> fst (bytes, bio, w)"
      "fst (bytes, bio, w) + int (length d) < 2 ^ 31"
    then have "b = int (length d)" using buf_write_result [OF f, of d bio w] b by simp
    moreover from this have "s32 (bytes + b) = bytes + int (length d)" using a by (simp add: s32_id)
    moreover have "length (wr_buf bio) \<le> wr_bufmax bio" using a(1) by simp
    ultimately show "length (wr_buf (fst (snd (s32 (bytes + b), bio', w')))) \<le> wr_bufmax (fst (snd (s32 (bytes + b), bio', w')))
      \<and> wr_bufmax (fst (snd (s32 (bytes + b), bio', w'))) = wr_bufmax (fst (snd (bytes, bio, w)))
      \<and> written out (snd (s32 (bytes + b), bio', w')) = written out (snd (bytes, bio, w)) @ d
      \<and> fst (s32 (bytes + b), bio', w') = fst (bytes, bio, w) + int (length d)"
      using buf_write_written [OF f, of bio d w] b by simp
  qed
  then show ?thesis by (simp add: s put_def b)
qed

lemma write_item_sends:
  assumes f: "takes_all f h out" and ok: "item_ok hashsize vad item"
  shows "\<exists>s'. BufferedWriteSingleMrItem f h hashsize vad item s = Some s' \<and> sends out s (item_bytes item) s'"
proof -
  define s1 where "s1 = put f h (key_data item) (put f h (int_bytes (int (length (key_data item)))) s)"
  have 1: "sends out s (int_bytes (int (length (key_data item))) @ key_data item) s1"
    unfolding s1_def by (rule sends_trans [OF put_sends [OF f] put_sends [OF f]])
  obtain s2 where v: "(case item_value item of Plain addr \<Rightarrow> (if vad \<and> length addr = 4 then Some (put f h addr s1) else None)
      | Pointed v \<Rightarrow> (if vad then None else Some (put f h v (put f h (int_bytes (int (length v))) s1)))) = Some s2"
    and 2: "sends out s1 (value_bytes (item_value item)) s2"
  proof (cases "item_value item")
    case (Pointed v)
    with ok sends_trans [OF put_sends [OF f, of s1 "int_bytes (int (length v))"] put_sends [OF f, of _ v]] show ?thesis
      by (intro that) (auto simp: item_ok_def)
  next
    case (Plain a)
    with ok put_sends [OF f, of s1 a] show ?thesis by (intro that) (auto simp: item_ok_def)
  qed
  have "BufferedWriteSingleMrItem f h hashsize vad item s = Some (put f h (key_hash item) s2)"
    using v ok by (simp add: BufferedWriteSingleMrItem_def item_ok_def flip: s1_def)
  moreover have "sends out s (item_bytes item) (put f h (key_hash item) s2)"
    using sends_trans [OF sends_trans [OF 1 2] put_sends [OF f]] by (simp add: item_bytes_def)
  ultimately show ?thesis by blast
qed

text \<open>The items from an index on.\<close>

lemma items_from:
  assumes "readable b" "i + Suc n \<le> b_count b"
  shows "BufferItem b i = Some (items b ! i)" "take (Suc n) (drop i (items b)) = items b ! i # take n (drop (Suc i) (items b))"
    "items b ! i \<in> set (items b)"
  using assms by (simp_all add: BufferItem_items Cons_nth_drop_Suc [symmetric])

lemma write_items_sends:
  assumes f: "takes_all f h out" and b: "readable b" and ok: "\<forall>x \<in> set (items b). item_ok hashsize vad x"
  shows "i + n \<le> b_count b \<Longrightarrow> \<exists>s'. write_items f h hashsize vad b i n s = Some s'
    \<and> sends out s (concat (map item_bytes (take n (drop i (items b))))) s'"
proof (induction n arbitrary: i s)
  case 0
  then show ?case by (simp add: sends_def)
next
  case (Suc n)
  note fr = items_from [OF b Suc.prems]
  obtain s1 where s1: "BufferedWriteSingleMrItem f h hashsize vad (items b ! i) s = Some s1" "sends out s (item_bytes (items b ! i)) s1"
    using write_item_sends [OF f, of hashsize vad "items b ! i" s] ok fr(3) by blast
  have "Suc i + n \<le> b_count b" using Suc.prems by simp
  from Suc.IH [OF this, of s1] obtain s2 where "write_items f h hashsize vad b (Suc i) n s1 = Some s2"
    "sends out s1 (concat (map item_bytes (take n (drop (Suc i) (items b))))) s2" by blast
  with s1 sends_trans [OF s1(2)] show ?case by (simp add: fr(1,2))
qed

lemma item_bytes_length:
  assumes "item_ok hashsize vad x"
  shows "length (item_bytes x) = 4 + length (key_data x) + (if vad then 0 else the (value_size x)) + 4 + hashsize"
  using assms by (cases "item_value x") (auto simp: item_ok_def item_bytes_def value_size_def)

lemma sending_loop_size:
  assumes b: "readable b" and ok: "\<forall>x \<in> set (items b). item_ok hashsize vad x"
  shows "i + n \<le> b_count b \<Longrightarrow> acc + length (concat (map item_bytes (take n (drop i (items b))))) < SIZE_T_MOD
    \<Longrightarrow> \<exists>k. sending_loop b vad i n acc = Some k \<and> k + n * 4 + n * hashsize + n * 4 = acc + length (concat (map item_bytes (take n (drop i (items b)))))"
proof (induction n arbitrary: i acc)
  case (Suc n)
  let ?x = "items b ! i"
  note fr = items_from [OF b Suc.prems(1)]
  define v where "v = (if vad then 0 else the (value_size ?x))"
  have okx: "item_ok hashsize vad ?x" using ok fr(3) by blast
  then have vs: "(if vad then Some 0 else value_size ?x) = Some v"
    by (auto simp: v_def item_ok_def value_size_def split: BinaryData.splits)
  have len: "length (item_bytes ?x) = 4 + length (key_data ?x) + v + 4 + hashsize" unfolding v_def by (rule item_bytes_length [OF okx])
  let ?rest = "length (concat (map item_bytes (take n (drop (Suc i) (items b)))))"
  have tot: "acc + length (item_bytes ?x) + ?rest < SIZE_T_MOD" using Suc.prems(2) by (simp add: fr(2))
  let ?acc = "acc + length (key_data ?x) + v"
  have acc: "?acc mod SIZE_T_MOD = ?acc" "?acc + ?rest < SIZE_T_MOD" using tot len by simp_all
  have "Suc i + n \<le> b_count b" using Suc.prems(1) by simp
  from Suc.IH [OF this acc(2)] obtain k where "sending_loop b vad (Suc i) n ?acc = Some k" "k + n * 4 + n * hashsize + n * 4 = ?acc + ?rest" by blast
  then show ?case using acc(1) vs len by (simp add: fr(1,2))
qed simp

lemma WriteDataToReduce_ok:
  assumes f: "takes_all f h out" and b: "readable b" "\<forall>x \<in> set (items b). item_ok hashsize vad x" "i + n \<le> b_count b"
    and bio: "length (wr_buf bio) \<le> wr_bufmax bio" and size: "length (packet flag (take n (drop i (items b)))) < 2 ^ 31"
  shows "\<exists>bio' w'. WriteDataToReduce f hashsize vad bio h b i n flag w = Some (bio', w') \<and> wr_buf bio' = [] \<and> wr_bufmax bio' = wr_bufmax bio
    \<and> out w' = out w @ wr_buf bio @ framed flag (take n (drop i (items b)))"
proof -
  let ?xs = "take n (drop i (items b))"
  let ?N = "length (packet flag ?xs)"
  have nx: "length ?xs = n" using b(1,3) by simp
  have N: "?N = 8 + length (concat (map item_bytes ?xs))" by (simp add: packet_def)
  obtain k where k: "sending_loop b vad i n 8 = Some k" "k + n * 4 + n * hashsize + n * 4 = ?N"
    using sending_loop_size [OF b, of 8] size N by auto
  then have size': "CalculateSendingDataSize b i n hashsize vad = Some ?N" using size by (simp add: CalculateSendingDataSize_def)
  have s32N: "s32 (int ?N) = int ?N" using size by (simp add: s32_id)
  define s0 where "s0 = put f h (int_bytes (int ?N)) (0, bio, w)"
  have 0: "sends out (0, bio, w) (int_bytes (int ?N)) s0" unfolding s0_def by (rule put_sends [OF f])
  then have 0: "length (wr_buf (fst (snd s0))) \<le> wr_bufmax (fst (snd s0))" "wr_bufmax (fst (snd s0)) = wr_bufmax bio"
    "written out (snd s0) = written out (bio, w) @ int_bytes (int ?N)" using bio by (simp_all add: sends_def)
  define s1 where "s1 = put f h (int_bytes (int n)) (put f h (int_bytes flag) (0, snd s0))"
  have "sends out (0, snd s0) (int_bytes flag @ int_bytes (int n)) s1"
    unfolding s1_def by (rule sends_trans [OF put_sends [OF f] put_sends [OF f]])
  note 1 = this
  obtain s2 where s2: "write_items f h hashsize vad b i n s1 = Some s2" "sends out s1 (concat (map item_bytes ?xs)) s2"
    using write_items_sends [OF f b] by blast
  have "sends out (0, snd s0) (packet flag ?xs) s2" using sends_trans [OF 1 s2(2)] nx by (simp add: packet_def)
  then have 2: "length (wr_buf (fst (snd s2))) \<le> wr_bufmax (fst (snd s2))" "wr_bufmax (fst (snd s2)) = wr_bufmax bio"
    "written out (snd s2) = written out (snd s0) @ packet flag ?xs" "fst s2 = int ?N" using 0 size by (simp_all add: sends_def)
  obtain bytes bio2 w2 where s2': "s2 = (bytes, bio2, w2)" by (cases s2)
  have "WriteDataToReduce f hashsize vad bio h b i n flag w = Some (buf_flush_write f bio2 h w2)"
    using b(3) size' s2 2(4) by (simp add: WriteDataToReduce_def s32N s2' flip: s0_def s1_def)
  moreover have "written out (buf_flush_write f bio2 h w2) = written out (bio, w) @ framed flag ?xs"
    using flush_written [OF f, of bio2 w2] 2(3) 0(3) by (simp add: s2' framed_def)
  moreover have "wr_buf (fst (buf_flush_write f bio2 h w2)) = []" "wr_bufmax (fst (buf_flush_write f bio2 h w2)) = wr_bufmax bio"
    using flush_written [OF f, of bio2 w2] 2(2) by (simp_all add: s2')
  ultimately show ?thesis by (cases "buf_flush_write f bio2 h w2") (simp add: written_def)
qed

text \<open>Nothing else changes than what writing to the descriptor changes.\<close>

definition keeps :: "('w \<Rightarrow> 'p) \<Rightarrow> 'w writer \<Rightarrow> int \<Rightarrow> bool" where
  "keeps P f h \<longleftrightarrow> (\<forall>bs w. P (snd (f h bs w)) = P w)"

lemma flush_keeps: "keeps P f h \<Longrightarrow> P (snd (buf_flush_write f bio h w)) = P w"
  by (simp add: buf_flush_write_def keeps_def)

lemma put_keeps:
  assumes k: "keeps P f h"
  shows "P (snd (snd (put f h d s))) = P (snd (snd s))"
proof -
  obtain bytes bio w where s: "s = (bytes, bio, w)" by (cases s)
  obtain bio1 w1 where fl: "buf_flush_write f bio h w = (bio1, w1)" by fastforce
  then have "P w1 = P w" using flush_keeps [OF k, of bio w] by simp
  moreover have "P (snd (f h d w1)) = P w1" using k by (simp add: keeps_def)
  ultimately have "P (snd (snd (buf_write f bio h d w))) = P w" by (cases "f h d w1") (simp add: buf_write_def fl split: option.split)
  then show ?thesis by (cases "buf_write f bio h d w") (simp add: put_def s)
qed

lemma write_items_keeps:
  assumes k: "keeps P f h"
  shows "write_items f h hashsize vad b i n s = Some s' \<Longrightarrow> P (snd (snd s')) = P (snd (snd s))"
proof (induction n arbitrary: i s)
  case (Suc n)
  then obtain x s1 where x: "BufferedWriteSingleMrItem f h hashsize vad x s = Some s1" "write_items f h hashsize vad b (Suc i) n s1 = Some s'"
    by (auto simp: bind_eq_Some_conv)
  have "P (snd (snd s1)) = P (snd (snd s))"
    using x(1) by (auto simp: BufferedWriteSingleMrItem_def Let_def bind_eq_Some_conv put_keeps [OF k] split: BinaryData.splits if_splits)
      (metis put_keeps [OF k] snd_conv)+
  with Suc.IH [OF x(2)] show ?case by simp
qed simp

lemma WriteDataToReduce_keeps:
  assumes k: "keeps P f h" and w: "WriteDataToReduce f hashsize vad bio h b i n flag w = Some s"
  shows "P (snd s) = P w"
proof -
  let ?s = "\<lambda>size. put f h (int_bytes (int n)) (put f h (int_bytes flag) (0, snd (put f h (int_bytes (s32 (int size))) (0, bio, w))))"
  obtain size bytes bio' w' where wi: "write_items f h hashsize vad b i n (?s size) = Some (bytes, bio', w')" and s: "s = buf_flush_write f bio' h w'"
    using w by (auto simp: WriteDataToReduce_def Let_def bind_eq_Some_conv split: if_splits)
  have "P w' = P (snd (snd (?s size)))" using write_items_keeps [OF k wi] by simp
  also have "\<dots> = P w" by (simp add: put_keeps [OF k])
  finally show ?thesis by (simp add: s flush_keeps [OF k])
qed

subsection \<open>Receiving\<close>

text \<open>The item with the ownership of its data as it is after it was received.\<close>

definition received :: "bool \<Rightarrow> ElasticBufItemData \<Rightarrow> ElasticBufItemData" where
  "received vad x = x\<lparr>own_key := True, own_value := \<not> vad\<rparr>"

lemma read_buffered:
  assumes wf: "rd_wf bio" and p: "pending bio = d @ e" and d: "d \<noteq> []" "length d < 2 ^ 31"
  shows "\<exists>bio'. BUFFERED_READ_ASSERT f h (length d) (bio, w) = Some (d, bio', w) \<and> rd_wf bio' \<and> pending bio' = e"
proof -
  have c: "rd_cursor bio \<le> rd_datasize bio" "rd_datasize bio \<le> length (rd_buf bio)" using wf by (simp_all add: rd_wf_def)
  have n: "length d \<le> buf_buffered bio" using length_pending [OF wf] p by simp
  have "s32 (int (length d)) = int (length d)" using d(2) by (simp add: s32_id)
  with read_enough [OF c n disjI2 [OF wf]] p d(1) show ?thesis by (simp add: BUFFERED_READ_ASSERT_def buf_read_def)
qed

lemma read_first:
  assumes f: "gives_all f h rest" and r: "rest w = d @ e @ tail" and d: "d \<noteq> []" "length d < 2 ^ 31" and N: "N = length (d @ e)"
  shows "\<exists>bio'. BUFFERED_READ_ASSERT f h (length d) (AllocBufferedIORead (replicate N 0), w) = Some (d, bio', snd (f h N w)) \<and> rd_wf bio' \<and> pending bio' = e"
proof -
  have "fst (f h N w) = (int N, d @ e)" using f r N by (simp add: gives_all_def)
  then obtain w1 where f1: "f h N w = ((int N, d @ e), w1)" by (metis prod.collapse)
  have s: "s32 (int (length d)) = int (length d)" using d(2) by (simp add: s32_id)
  have n: "0 < length d" "length d \<le> N" using d(1) N by simp_all
  then have N0: "0 < N" by linarith
  have st: "store_at (replicate N 0) 0 (d @ e) = d @ e" using N by (simp add: store_at_def)
  define bio where "bio = \<lparr>rd_buf = d @ e, rd_cursor = length d, rd_datasize = N\<rparr>"
  have "buf_read f (AllocBufferedIORead (replicate N 0)) h (length d) w = ((int (length d), d), bio, w1)"
    using n N0 by (simp add: buf_read_def Let_def AllocBufferedIORead_def READ_IF_BUFFER_ENOUGH_def buf_buffered_def f1 st read_filled_def s bio_def)
  moreover have "rd_wf bio" "pending bio = e" using n N by (simp_all add: rd_wf_def buf_buffered_def pending_def bio_def)
  ultimately show ?thesis using n(1) by (simp add: BUFFERED_READ_ASSERT_def f1)
qed

lemma read_sized_ok:
  assumes wf: "rd_wf bio" and p: "pending bio = int_bytes (int (length d)) @ d @ e" and d: "d \<noteq> []" "length d < 2 ^ 31" and mem: "mem (length d)"
  shows "\<exists>bio'. read_sized mem f h (bio, w) = Some (d, bio', w) \<and> rd_wf bio' \<and> pending bio' = e"
proof -
  have n: "int_bytes (int (length d)) \<noteq> []" "length (int_bytes (int (length d))) < 2 ^ 31" using length_int_bytes by (auto simp: int_bytes)
  obtain bio1 where 1: "BUFFERED_READ_ASSERT f h 4 (bio, w) = Some (int_bytes (int (length d)), bio1, w)" "rd_wf bio1" "pending bio1 = d @ e"
    using read_buffered [OF wf p n, of f h w] by auto
  have "bytes_int (int_bytes (int (length d))) = int (length d)" using d(2) by (simp add: bytes_int_bytes s32_id)
  with 1 read_buffered [OF 1(2,3) d, of f h w] mem show ?thesis by (simp add: read_sized_def)
qed

lemma read_item_ok:
  assumes wf: "rd_wf bio" and p: "pending bio = item_bytes x @ e" and ok: "item_ok hashsize vad x"
    and size: "length (item_bytes x) < 2 ^ 31" and mem: "\<forall>n < 2 ^ 31. mem n"
  shows "\<exists>bio'. BufferedReadSingleMrItem mem f h hashsize vad (bio, w) = Some (received vad x, bio', w) \<and> rd_wf bio' \<and> pending bio' = e"
proof -
  have k: "key_data x \<noteq> []" "length (key_data x) < 2 ^ 31" using ok size by (simp_all add: item_ok_def item_bytes_def)
  have p1: "pending bio = int_bytes (int (length (key_data x))) @ key_data x @ (value_bytes (item_value x) @ key_hash x @ e)"
    using p by (simp add: item_bytes_def)
  obtain bio1 where 1: "read_sized mem f h (bio, w) = Some (key_data x, bio1, w)" "rd_wf bio1" "pending bio1 = value_bytes (item_value x) @ key_hash x @ e"
    using read_sized_ok [OF wf p1 k, of mem f h w] mem k(2) by blast
  obtain bio2 where 2: "(if vad then do { (a, s') \<leftarrow> BUFFERED_READ_ASSERT f h 4 (bio1, w); Some (Plain a, s') }
                 else do { (b, s') \<leftarrow> read_sized mem f h (bio1, w); Some (Pointed b, s') }) = Some (item_value x, bio2, w)"
    "rd_wf bio2" "pending bio2 = key_hash x @ e"
  proof (cases "item_value x")
    case (Plain a)
    then have a: "vad" "length a = 4" "a \<noteq> []" using ok by (auto simp: item_ok_def)
    with read_buffered [OF 1(2), of a "key_hash x @ e" f h w] 1(3) Plain that show ?thesis by auto
  next
    case (Pointed v)
    then have v: "\<not> vad" "v \<noteq> []" "length v < 2 ^ 31" using ok size by (auto simp: item_ok_def item_bytes_def)
    moreover have "mem (length v)" using mem v(3) by blast
    ultimately show ?thesis using read_sized_ok [OF 1(2), of v "key_hash x @ e" mem f h w] 1(3) Pointed that by auto
  qed
  have "key_hash x \<noteq> []" "length (key_hash x) < 2 ^ 31" "length (key_hash x) = hashsize" using ok size by (auto simp: item_ok_def item_bytes_def)
  with read_buffered [OF 2(2,3), of f h w] obtain bio3 where 3: "BUFFERED_READ_ASSERT f h hashsize (bio2, w) = Some (key_hash x, bio3, w)" "rd_wf bio3" "pending bio3 = e"
    by auto
  have "received vad x = \<lparr>key_data = key_data x, item_value = item_value x, own_key = True, own_value = \<not> vad, key_hash = key_hash x\<rparr>"
    by (simp add: received_def)
  with 1(1) 2(1) 3 show ?thesis by (simp add: BufferedReadSingleMrItem_def)
qed

lemma add_virtually:
  assumes wf: "buffer_wf buf" and room: "b_count buf < length (b_data buf)"
  shows "\<exists>buf1 buf'. AddBufferItemVirtually mem buf = Some (b_count buf, buf1) \<and> SetBufferItem buf1 (b_count buf) x = Some buf'
    \<and> buffer_wf buf' \<and> items buf' = items buf @ [x] \<and> length (b_data buf') = length (b_data buf) \<and> b_count buf' = Suc (b_count buf)"
  using AddBufferItem_room [OF wf room, of mem x] room
  by (auto simp: AddBufferItem_def AddBufferItemVirtually_def wf_count(1) [OF wf])

lemma recv_items_ok:
  assumes mem: "\<forall>n < 2 ^ 31. mem n"
  shows "\<forall>x \<in> set xs. item_ok hashsize vad x \<and> length (item_bytes x) < 2 ^ 31 \<Longrightarrow> rd_wf bio \<Longrightarrow> pending bio = concat (map item_bytes xs) @ e
    \<Longrightarrow> buffer_wf b \<Longrightarrow> b_count b + length xs \<le> length (b_data b)
    \<Longrightarrow> \<exists>b' bio'. recv_items mem f h hashsize vad (b_count b) (length xs) b (bio, w) = Some (b', bio', w) \<and> buffer_wf b'
      \<and> items b' = items b @ map (received vad) xs"
proof (induction xs arbitrary: b bio)
  case (Cons x xs)
  have p: "pending bio = item_bytes x @ concat (map item_bytes xs) @ e" using Cons.prems(3) by simp
  obtain bio1 where 1: "BufferedReadSingleMrItem mem f h hashsize vad (bio, w) = Some (received vad x, bio1, w)" "rd_wf bio1" "pending bio1 = concat (map item_bytes xs) @ e"
    using read_item_ok [OF Cons.prems(2) p, of hashsize vad mem f h w] Cons.prems(1) mem by auto
  have "b_count b < length (b_data b)" using Cons.prems(5) by simp
  from add_virtually [OF Cons.prems(4) this, of mem "received vad x"] obtain b1 b2 where b: "AddBufferItemVirtually mem b = Some (b_count b, b1)"
    "SetBufferItem b1 (b_count b) (received vad x) = Some b2" "buffer_wf b2" "items b2 = items b @ [received vad x]" "length (b_data b2) = length (b_data b)"
    "b_count b2 = Suc (b_count b)" by blast
  have "\<forall>x \<in> set xs. item_ok hashsize vad x \<and> length (item_bytes x) < 2 ^ 31" "b_count b2 + length xs \<le> length (b_data b2)"
    using Cons.prems(1,5) b(5,6) by simp_all
  from Cons.IH [OF this(1) 1(2,3) b(3) this(2)] 1(1) b show ?case by (auto simp: b(6))
qed simp

lemma item_fits: "x \<in> set xs \<Longrightarrow> length (item_bytes x) \<le> length (concat (map item_bytes xs))"
  by (induction xs) auto

lemma RecvDataFromSingleMap_ok:
  assumes f: "gives_all f h rest" and r: "rest w = framed flag xs @ tail" and ok: "\<forall>x \<in> set xs. item_ok hashsize vad x"
    and size: "length (packet flag xs) < 2 ^ 31" "0 < mr_item_size" "max 1 (length xs) * mr_item_size < 2 ^ 31" and mem: "\<forall>n < 2 ^ 31. mem n"
    and flag: "flag = 0 \<or> flag = 1"
  shows "\<exists>b. RecvDataFromSingleMap mem f mr_item_size hashsize vad h w
      = Some (flag, Some b, snd (f h (length (packet flag xs)) (snd (f h 4 w)))) \<and> buffer_wf b \<and> items b = map (received vad) xs"
proof -
  let ?N = "length (packet flag xs)" and ?n = "length xs"
  let ?body = "concat (map item_bytes xs)"
  have N: "?N = length (int_bytes flag @ int_bytes (int ?n) @ ?body)" by (simp add: packet_def)
  have "fst (f h 4 w) = (4, int_bytes (int ?N))" "rest (snd (f h 4 w)) = packet flag xs @ tail" using f r by (simp_all add: gives_all_def framed_def)
  then obtain w1 where 1: "f h 4 w = ((4, int_bytes (int ?N)), w1)" "rest w1 = int_bytes flag @ (int_bytes (int ?n) @ ?body) @ tail"
    by (metis packet_def append_assoc prod.collapse)
  have NB: "bytes_int (int_bytes (int ?N)) = int ?N" using size(1) by (simp add: bytes_int_bytes s32_id)
  have fl: "int_bytes flag \<noteq> []" "length (int_bytes flag) < 2 ^ 31" by (simp_all add: int_bytes)
  obtain bio1 where 2: "BUFFERED_READ_ASSERT f h 4 (AllocBufferedIORead (replicate ?N 0), w1) = Some (int_bytes flag, bio1, snd (f h ?N w1))"
    "rd_wf bio1" "pending bio1 = int_bytes (int ?n) @ ?body"
    using read_first [OF f 1(2) fl N] by auto
  have nb: "int_bytes (int ?n) \<noteq> []" "length (int_bytes (int ?n)) < 2 ^ 31" by (simp_all add: int_bytes)
  obtain bio2 where 3: "BUFFERED_READ_ASSERT f h 4 (bio1, snd (f h ?N w1)) = Some (int_bytes (int ?n), bio2, snd (f h ?N w1))" "rd_wf bio2" "pending bio2 = ?body @ []"
    using read_buffered [OF 2(2,3) nb, of f h "snd (f h ?N w1)"] by auto
  have "?n * 1 \<le> max 1 ?n * mr_item_size" using size(2) by (intro mult_mono) auto
  then have "?n < 2 ^ 31" using size(3) by linarith
  then have n: "int ?n < 2 ^ 31" by simp
  then have nn: "bytes_int (int_bytes (int ?n)) = int ?n" "nat (int ?n mod 2 ^ 32) = ?n" by (simp_all add: bytes_int_bytes s32_id)
  have fb: "bytes_int (int_bytes flag) = flag" using flag by (auto simp: bytes_int_bytes s32_def)
  have "max 1 ?n * mr_item_size < SIZE_T_MOD" by (rule less_trans [OF size(3)]) simp
  moreover have "mem (max 1 ?n * mr_item_size)" using size(3) mem by blast
  ultimately obtain b :: "ElasticBufItemData Buffer" where b: "IF_ALLOC_ERROR (AllocBuffer mem mr_item_size ?n) = Some b" "buffer_wf b"
    "items b = []" "length (b_data b) = max 1 ?n" "b_count b = 0" using AllocBuffer_ok [of mr_item_size ?n mem] size(2) by blast
  have "\<forall>x \<in> set xs. item_ok hashsize vad x \<and> length (item_bytes x) < 2 ^ 31"
    using ok item_fits [of _ xs] size(1) by (fastforce simp: packet_def)
  from recv_items_ok [OF mem this 3(2,3) b(2), of f h "snd (f h ?N w1)"] b obtain b' bio' where
    4: "recv_items mem f h hashsize vad 0 ?n b (bio2, snd (f h ?N w1)) = Some (b', bio', snd (f h ?N w1))" "buffer_wf b'" "items b' = map (received vad) xs"
    by auto
  have "0 < ?N" "mem ?N" using mem size(1) by (auto simp: N)
  with 1 2 3 4 NB nn fb b show ?thesis by (simp add: RecvDataFromSingleMap_def)
qed

end
