(* ===== verification/MrConf.thy ===== *)
theory MrConf
  imports DynArrays "HOL-Library.Multiset"
begin

text \<open>
  The channels of a node of a MapReduce job (\<open>lib/mapreduce/channels_conf.c\<close>, of which
  \<open>lib/networking/channels_conf.c\<close> is a copy) in the growable array of theory \<open>DynArrays\<close>, and the
  exchange between all nodes of a type (\<open>lib/mapreduce/eachtoother_comm.c\<close>).
\<close>

datatype ChannelMode = EChannelModeRead | EChannelModeWrite

record UserChannel =
  nodetype :: nat
  nodeid :: nat
  uc_fd :: nat
  uc_mode :: ChannelMode

record ChannelsConfigInterface =
  ownnodeid :: int
  ownnodetype :: int
  channels :: "UserChannel DynArray option"

abbreviation (input) EMapNode :: nat where "EMapNode \<equiv> 1"
abbreviation (input) EReduceNode :: nat where "EReduceNode \<equiv> 2"
abbreviation (input) EInputOutputNode :: nat where "EInputOutputNode \<equiv> 3"

text \<open>\<open>qsort\<close> of the C library, as a sort in which equal elements keep their order; C does not promise
  that, so that for items that compare as equal the order is that of one possible library.\<close>

fun insert_by :: "('a \<Rightarrow> 'a \<Rightarrow> int) \<Rightarrow> 'a \<Rightarrow> 'a list \<Rightarrow> 'a list" where
  "insert_by cmp x [] = [x]"
| "insert_by cmp x (y # ys) = (if cmp x y \<le> 0 then x # y # ys else y # insert_by cmp x ys)"

definition qsort :: "('a \<Rightarrow> 'a \<Rightarrow> int) \<Rightarrow> 'a list \<Rightarrow> 'a list" where
  "qsort cmp xs = foldr (insert_by cmp) xs []"

definition cmp_by_node_type_and_id :: "UserChannel \<Rightarrow> UserChannel \<Rightarrow> int" where
  "cmp_by_node_type_and_id c1 c2 =
     (if nodetype c1 < nodetype c2 then -1 else if nodetype c2 < nodetype c1 then 1
      else if nodeid c1 < nodeid c2 then -1 else if nodeid c2 < nodeid c1 then 1 else 0)"

definition SetupChannelsConfigInterface :: "int \<Rightarrow> int \<Rightarrow> ChannelsConfigInterface" where
  "SetupChannelsConfigInterface ownid owntype = \<lparr>ownnodeid = ownid, ownnodetype = owntype, channels = None\<rparr>"

text \<open>An array before its constructor, from \<open>calloc\<close>.\<close>

definition zero_array :: "'a DynArray" where
  "zero_array = \<lparr>num_entries = 0, ptr_array = [], ptr_array_space = 0, available = [], avail_ix = 0\<rparr>"

text \<open>The types of the fields are 8 and 16 bits wide; the objects have 20 and 12 bytes.\<close>

definition AddChannel :: "(nat \<Rightarrow> bool) \<Rightarrow> ChannelsConfigInterface \<Rightarrow> int \<Rightarrow> int \<Rightarrow> int \<Rightarrow> ChannelMode \<Rightarrow> (UserChannel \<times> ChannelsConfigInterface) option" where
  "AddChannel mem ch_if ntype nid channelfd mode = do {
     arr \<leftarrow> (case channels ch_if of
        Some arr \<Rightarrow> Some arr
      | None \<Rightarrow> (if mem 20 then (case DynArrayCtor mem zero_array 10 of (res, arr) \<Rightarrow> if res \<noteq> 0 then Some arr else None) else None));
     let channel = \<lparr>nodetype = nat (ntype mod 2 ^ 8), nodeid = nat (nid mod 2 ^ 16), uc_fd = nat (channelfd mod 2 ^ 16), uc_mode = mode\<rparr>;
     if mem 12 then do {
       (res, arr') \<leftarrow> DynArraySet mem arr (num_entries arr) (Some channel);
       if res \<noteq> 0 then Some (channel, ch_if\<lparr>channels := Some arr'\<rparr>) else None }
     else None }"

text \<open>The channels that the array points to; the callers dereference every entry.\<close>

definition entries :: "UserChannel DynArray \<Rightarrow> UserChannel list option" where
  "entries arr = (let es = map (DynArrayGet arr) [0..<num_entries arr]
     in if None \<in> set es then None else Some (map the es))"

definition Free :: "ChannelsConfigInterface \<Rightarrow> ChannelsConfigInterface option" where
  "Free ch_if = do { arr \<leftarrow> channels ch_if; _ \<leftarrow> entries arr; Some (ch_if\<lparr>channels := Some (DynArrayDtor arr)\<rparr>) }"

text \<open>The node ids, and the interface with its array sorted.\<close>

definition GetNodesListByType :: "ChannelsConfigInterface \<Rightarrow> nat \<Rightarrow> (nat list \<times> ChannelsConfigInterface) option" where
  "GetNodesListByType ch_if ntype = do {
     arr \<leftarrow> channels ch_if;
     cs \<leftarrow> entries arr;
     let count_rchan = length (filter (\<lambda>c. nodetype c = ntype \<and> uc_mode c = EChannelModeRead) cs);
     let count_wchan = length (filter (\<lambda>c. nodetype c = ntype \<and> uc_mode c = EChannelModeWrite) cs);
     let mode = (if count_wchan < count_rchan then EChannelModeRead else EChannelModeWrite);
     let cs' = qsort cmp_by_node_type_and_id cs;
     Some (map nodeid (filter (\<lambda>c. nodetype c = ntype \<and> uc_mode c = mode) cs'),
           ch_if\<lparr>channels := Some (arr\<lparr>ptr_array := map Some cs' @ drop (num_entries arr) (ptr_array arr)\<rparr>)\<rparr>) }"

definition Channel :: "ChannelsConfigInterface \<Rightarrow> nat \<Rightarrow> nat \<Rightarrow> ChannelMode \<Rightarrow> UserChannel option option" where
  "Channel ch_if ntype nid mode = do {
     arr \<leftarrow> channels ch_if;
     Some (find (\<lambda>c. nodetype c = ntype \<and> nodeid c = nid \<and> uc_mode c = mode)
       (List.map_filter (DynArrayGet arr) [0..<num_entries arr])) }"

section \<open>Sorting\<close>

lemma set_insert_by [simp]: "set (insert_by cmp x xs) = insert x (set xs)"
  by (induction xs) auto

text \<open>What \<open>qsort\<close> asks of the function that compares, and what it gives for it.\<close>

locale comparison =
  fixes cmp :: "'a \<Rightarrow> 'a \<Rightarrow> int"
  assumes cmp_total: "cmp x y \<le> 0 \<or> cmp y x \<le> 0" and cmp_trans: "cmp x y \<le> 0 \<Longrightarrow> cmp y z \<le> 0 \<Longrightarrow> cmp x z \<le> 0"
begin

lemma sorted_insert_by: "sorted_wrt (\<lambda>x y. cmp x y \<le> 0) xs \<Longrightarrow> sorted_wrt (\<lambda>x y. cmp x y \<le> 0) (insert_by cmp x xs)"
proof (induction xs)
  case (Cons y ys)
  show ?case
  proof (cases "cmp x y \<le> 0")
    case True
    then show ?thesis using Cons.prems cmp_trans by auto
  next
    case False
    then have "cmp y x \<le> 0" using cmp_total by blast
    then show ?thesis using False Cons by simp
  qed
qed simp

lemma sorted_qsort: "sorted_wrt (\<lambda>x y. cmp x y \<le> 0) (qsort cmp xs)"
  unfolding qsort_def by (induction xs) (simp_all add: sorted_insert_by)

end

interpretation node_order: comparison cmp_by_node_type_and_id
  by unfold_locales (auto simp: cmp_by_node_type_and_id_def split: if_splits)

lemma mset_qsort: "mset (qsort cmp xs) = mset xs"
proof -
  have "mset (insert_by cmp x xs) = add_mset x (mset xs)" for x xs by (induction xs) auto
  then show ?thesis unfolding qsort_def by (induction xs) simp_all
qed

lemma qsort_sorted: "sorted_wrt (\<lambda>x y. cmp x y \<le> 0) xs \<Longrightarrow> qsort cmp xs = xs"
proof (induction xs)
  case (Cons x xs)
  then have "qsort cmp (x # xs) = insert_by cmp x xs" by (simp add: qsort_def)
  also have "\<dots> = x # xs" using Cons.prems by (cases xs) simp_all
  finally show ?case .
qed (simp add: qsort_def)

section \<open>The list of nodes\<close>

lemma entries_length: "entries arr = Some cs \<Longrightarrow> length cs = num_entries arr"
  by (auto simp: entries_def Let_def split: if_splits)

lemma entries_sorted:
  assumes "length cs = num_entries arr"
  shows "entries (arr\<lparr>ptr_array := map Some cs @ X\<rparr>) = Some cs"
proof -
  have "map (DynArrayGet (arr\<lparr>ptr_array := map Some cs @ X\<rparr>)) [0..<num_entries arr] = map Some cs"
    using assms by (intro nth_equalityI) (simp_all add: DynArrayGet_def nth_append)
  then show ?thesis by (auto simp: entries_def Let_def o_def)
qed

text \<open>The first call sorts the channels; later calls change nothing and return the same nodes.\<close>

lemma GetNodesListByType_again:
  assumes "GetNodesListByType c nt = Some (ns, c1)"
  shows "GetNodesListByType c1 nt = Some (ns, c1)" "\<exists>ns'. GetNodesListByType c1 nt' = Some (ns', c1)" "ownnodeid c1 = ownnodeid c"
proof -
  obtain arr cs where a: "channels c = Some arr" "entries arr = Some cs" using assms by (auto simp: GetNodesListByType_def bind_eq_Some_conv)
  let ?cs = "qsort cmp_by_node_type_and_id cs"
  let ?arr = "arr\<lparr>ptr_array := map Some ?cs @ drop (num_entries arr) (ptr_array arr)\<rparr>"
  have c1: "c1 = c\<lparr>channels := Some ?arr\<rparr>" using assms a by (simp add: GetNodesListByType_def Let_def)
  then show "ownnodeid c1 = ownnodeid c" by simp
  have len: "length ?cs = num_entries arr" using entries_length [OF a(2)] mset_eq_length [OF mset_qsort] by metis
  have e: "entries ?arr = Some ?cs" by (rule entries_sorted [OF len])
  have q: "qsort cmp_by_node_type_and_id ?cs = ?cs" by (rule qsort_sorted [OF node_order.sorted_qsort])
  have flt: "length (filter P ?cs) = length (filter P cs)" for P using mset_qsort [of cmp_by_node_type_and_id cs] by (metis mset_filter size_mset)
  have "?arr\<lparr>ptr_array := map Some ?cs @ drop (num_entries arr) (ptr_array ?arr)\<rparr> = ?arr" using len by simp
  then have g: "GetNodesListByType c1 t = Some (map nodeid (filter (\<lambda>x. nodetype x = t \<and> uc_mode x =
      (if length (filter (\<lambda>x. nodetype x = t \<and> uc_mode x = EChannelModeWrite) cs) < length (filter (\<lambda>x. nodetype x = t \<and> uc_mode x = EChannelModeRead) cs)
       then EChannelModeRead else EChannelModeWrite)) ?cs), c1)" for t
    using e q by (simp add: GetNodesListByType_def c1 flt Let_def)
  then show "\<exists>ns'. GetNodesListByType c1 nt' = Some (ns', c1)" by blast
  show "GetNodesListByType c1 nt = Some (ns, c1)" using g [of nt] assms a by (simp add: GetNodesListByType_def Let_def)
qed

end
