(* ===== verification/MrReduce.thy ===== *)
theory MrReduce
  imports MrTransfer MrConf
begin

text \<open>
  The reduce node (\<open>ReduceNodeMain\<close> of \<open>lib/mapreduce/map_reduce_lib.c\<close>): it receives a packet from every
  map node that still sends, until each has sent its last one, merges what it received and hands the
  result to the program. The settings and the functions of the program are a record.
\<close>

abbreviation (input) MAP_NODE_EXCLUDE :: int where "MAP_NODE_EXCLUDE \<equiv> 1"
abbreviation (input) MAP_NODE_NO_EXCLUDE :: int where "MAP_NODE_NO_EXCLUDE \<equiv> 0"

type_synonym item_buffer = "ElasticBufItemData Buffer"

record 'w MapReduceUserIf =
  Map :: "byte list \<Rightarrow> bool \<Rightarrow> item_buffer \<Rightarrow> nat \<times> item_buffer"
  Combine :: "(item_buffer \<Rightarrow> item_buffer \<Rightarrow> item_buffer) option"
  Reduce :: "item_buffer \<Rightarrow> 'w \<Rightarrow> 'w"
  ComparatorMrItem :: "ElasticBufItemData \<Rightarrow> ElasticBufItemData \<Rightarrow> int"
  ComparatorHash :: comparator
  mr_item_size :: nat
  hash_size :: nat
  value_addr_is_data :: bool

section \<open>The reduce node\<close>

text \<open>
  One pass over the map nodes: their flags, whether one of them goes on, the arrays received so far and
  the world. An entry of the arrays is \<open>None\<close> when it was left uninitialised; an array has 16 bytes.
\<close>

fun recv_round ::
  "(nat \<Rightarrow> bool) \<Rightarrow> 'w reader \<Rightarrow> 'w MapReduceUserIf \<Rightarrow> ChannelsConfigInterface \<Rightarrow> nat list \<Rightarrow> int list \<Rightarrow> item_buffer option list \<Rightarrow> 'w
    \<Rightarrow> (int list \<times> bool \<times> item_buffer option list \<times> 'w) option" where
  "recv_round mem f mif chif (n # ns) (e # es) bufs w =
     (if e \<noteq> MAP_NODE_EXCLUDE then do {
        found \<leftarrow> Channel chif EMapNode n EChannelModeRead;
        channel \<leftarrow> found;
        if mem (Suc (length bufs) * 16) then do {
          (e', b, w1) \<leftarrow> RecvDataFromSingleMap mem f (mr_item_size mif) (hash_size mif) (value_addr_is_data mif) (int (uc_fd channel)) w;
          (es', leave, bufs', w') \<leftarrow> recv_round mem f mif chif ns es (bufs @ [b]) w1;
          Some (e' # es', e' \<noteq> MAP_NODE_EXCLUDE \<or> leave, bufs', w') }
        else None }
      else do {
        (es', leave, bufs', w') \<leftarrow> recv_round mem f mif chif ns es bufs w;
        Some (e # es', leave, bufs', w') })"
| "recv_round mem f mif chif _ es bufs w = Some (es, False, bufs, w)"

text \<open>\<open>MERGE_PREVIOUS_AND_NEW\<close>: the merge of the received arrays and the previous result.\<close>

definition MERGE_PREVIOUS_AND_NEW :: "(nat \<Rightarrow> bool) \<Rightarrow> 'w MapReduceUserIf \<Rightarrow> item_buffer option list \<Rightarrow> item_buffer \<Rightarrow> item_buffer option" where
  "MERGE_PREVIOUS_AND_NEW mem mif bufs prevbuf =
     (if mem (Suc (length bufs) * 16) \<and> None \<notin> set bufs
      then MergeBuffersToNew mem (mr_item_size mif) (ComparatorHash mif) (map the bufs @ [prevbuf]) else None)"

text \<open>What follows a pass when the program has a function to combine items: the previous result was cleared by then.\<close>

definition combine_pass ::
  "(nat \<Rightarrow> bool) \<Rightarrow> 'w MapReduceUserIf \<Rightarrow> item_buffer option list \<Rightarrow> item_buffer \<Rightarrow> (item_buffer option list \<times> item_buffer) option" where
  "combine_pass mem mif bufs prev = (case Combine mif of
     None \<Rightarrow> Some (bufs, prev)
   | Some combine \<Rightarrow> do {
       merged \<leftarrow> MERGE_PREVIOUS_AND_NEW mem mif bufs prev;
       target \<leftarrow> IF_ALLOC_ERROR (AllocBuffer mem (mr_item_size mif) 1000);
       Some ([], combine merged target) })"

partial_function (option) reduce_loop ::
  "(nat \<Rightarrow> bool) \<Rightarrow> 'w reader \<Rightarrow> 'w MapReduceUserIf \<Rightarrow> ChannelsConfigInterface \<Rightarrow> nat list \<Rightarrow> int list \<Rightarrow> item_buffer option list \<Rightarrow> item_buffer \<Rightarrow> 'w
    \<Rightarrow> (item_buffer option list \<times> item_buffer \<times> 'w) option" where
  "reduce_loop mem f mif chif ns es bufs prev w =
     Option.bind (recv_round mem f mif chif ns es bufs w) (\<lambda>r.
     Option.bind (combine_pass mem mif (fst (snd (snd r))) prev) (\<lambda>c.
     if fst (snd r) then reduce_loop mem f mif chif ns (fst r) (fst c) (snd c) (snd (snd (snd r)))
     else Some (fst c, snd c, snd (snd (snd r)))))"

definition ReduceNodeMain :: "(nat \<Rightarrow> bool) \<Rightarrow> 'w reader \<Rightarrow> 'w MapReduceUserIf \<Rightarrow> ChannelsConfigInterface \<Rightarrow> 'w \<Rightarrow> 'w option" where
  "ReduceNodeMain mem f mif chif w = do {
     (ns, chif') \<leftarrow> GetNodesListByType chif EMapNode;
     (bufs, prev, w') \<leftarrow> reduce_loop mem f mif chif' ns (replicate (length ns) 0) [] zero_buffer w;
     result \<leftarrow> (if Combine mif = None then MERGE_PREVIOUS_AND_NEW mem mif bufs prev else Some prev);
     Some (Reduce mif result w') }"

section \<open>Streams of packets\<close>

definition streams :: "'w reader \<Rightarrow> ('w \<Rightarrow> int \<Rightarrow> byte list) \<Rightarrow> bool" where
  "streams f rest \<longleftrightarrow> (\<forall>h. gives_all f h (\<lambda>w. rest w h)) \<and> (\<forall>h h' n w. h \<noteq> h' \<longrightarrow> rest (snd (f h n w)) h' = rest w h')"

text \<open>What a map node sends to one reduce node: packets of items, the last one marked.\<close>

fun stream :: "ElasticBufItemData list list \<Rightarrow> byte list" where
  "stream [] = []"
| "stream [xs] = framed 1 xs"
| "stream (xs # ys # yss) = framed 0 xs @ stream (ys # yss)"

definition packets_ok :: "'w MapReduceUserIf \<Rightarrow> ElasticBufItemData list list \<Rightarrow> bool" where
  "packets_ok mif q \<longleftrightarrow> (\<forall>xs \<in> set q. (\<forall>x \<in> set xs. item_ok (hash_size mif) (value_addr_is_data mif) x)
     \<and> by_hash (ComparatorHash mif) xs \<and> length (packet 0 xs) < 2 ^ 31 \<and> max 1 (length xs) * mr_item_size mif < 2 ^ 31)"

lemma packet_length: "length (packet flag xs) = length (packet 0 xs)"
  by (simp add: packet_def)

lemma by_hash_received: "by_hash cmp (map (received vad) xs) = by_hash cmp xs"
  by (simp add: by_hash_def sorted_wrt_map received_def)

section \<open>Receiving from all map nodes\<close>

definition serves :: "nat \<Rightarrow> ChannelMode \<Rightarrow> ChannelsConfigInterface \<Rightarrow> nat list \<Rightarrow> int list \<Rightarrow> bool" where
  "serves ntype mode chif ns hs = list_all2 (\<lambda>n h. \<exists>c. Channel chif ntype n mode = Some (Some c) \<and> int (uc_fd c) = h) ns hs"

definition flag_of :: "'a list \<Rightarrow> int" where
  "flag_of q = (if q = [] then MAP_NODE_EXCLUDE else MAP_NODE_NO_EXCLUDE)"

definition heads :: "'a list list \<Rightarrow> 'a list" where
  "heads qs = concat (map (take 1) qs)"

lemma stream_Cons: "stream (xs # q) = framed (flag_of q) xs @ stream q"
  by (cases q) (simp_all add: flag_of_def)

lemma recv_packet:
  assumes st: "streams f rest" and r: "rest w h = stream (xs # q)" and ok: "packets_ok mif (xs # q)"
    and mem: "\<forall>n < 2 ^ 31. mem n" and size: "0 < mr_item_size mif"
  shows "\<exists>b w'. RecvDataFromSingleMap mem f (mr_item_size mif) (hash_size mif) (value_addr_is_data mif) h w = Some (flag_of q, Some b, w')
    \<and> buffer_wf b \<and> items b = map (received (value_addr_is_data mif)) xs \<and> rest w' h = stream q \<and> (\<forall>h'. h' \<noteq> h \<longrightarrow> rest w' h' = rest w h')"
proof -
  let ?N = "length (packet (flag_of q) xs)"
  have g: "gives_all f h (\<lambda>w. rest w h)" using st by (simp add: streams_def)
  have fl: "flag_of q = 0 \<or> flag_of q = 1" by (simp add: flag_of_def)
  have N: "?N < 2 ^ 31" using ok packet_length [of "flag_of q" xs] by (simp add: packets_ok_def)
  have ok': "\<forall>x \<in> set xs. item_ok (hash_size mif) (value_addr_is_data mif) x" "max 1 (length xs) * mr_item_size mif < 2 ^ 31"
    using ok by (simp_all add: packets_ok_def)
  have r': "rest w h = framed (flag_of q) xs @ stream q" using r by (simp add: stream_Cons)
  obtain b where b: "RecvDataFromSingleMap mem f (mr_item_size mif) (hash_size mif) (value_addr_is_data mif) h w
      = Some (flag_of q, Some b, snd (f h ?N (snd (f h 4 w))))" "buffer_wf b" "items b = map (received (value_addr_is_data mif)) xs"
    using RecvDataFromSingleMap_ok [OF g r' ok'(1) N size ok'(2) mem fl] by blast
  have "rest (snd (f h ?N (snd (f h 4 w)))) h = drop ?N (drop 4 (rest w h))" using g by (simp add: gives_all_def)
  then have "rest (snd (f h ?N (snd (f h 4 w)))) h = stream q" by (simp add: r' framed_def)
  moreover have "rest (snd (f h ?N (snd (f h 4 w)))) h' = rest w h'" if "h' \<noteq> h" for h' using st that by (metis streams_def)
  ultimately show ?thesis using b by blast
qed

lemma recv_round_ok:
  assumes st: "streams f rest" and mem: "\<forall>n < 2 ^ 31. mem n" and size: "0 < mr_item_size mif"
  shows "serves EMapNode EChannelModeRead chif ns hs \<Longrightarrow> list_all2 (\<lambda>h q. rest w h = stream q) hs qs \<Longrightarrow> distinct hs \<Longrightarrow> \<forall>q \<in> set qs. packets_ok mif q
    \<Longrightarrow> (length bufs + sum_list (map length qs)) * 16 < 2 ^ 31
    \<Longrightarrow> \<exists>news w'. recv_round mem f mif chif ns (map flag_of qs) bufs w
        = Some (map (\<lambda>q. flag_of (tl q)) qs, (\<exists>q \<in> set qs. tl q \<noteq> []), bufs @ map Some news, w')
      \<and> list_all2 (\<lambda>h q. rest w' h = stream q) hs (map tl qs) \<and> (\<forall>h. h \<notin> set hs \<longrightarrow> rest w' h = rest w h)
      \<and> (\<forall>b \<in> set news. buffer_wf b) \<and> map items news = map (map (received (value_addr_is_data mif))) (heads qs)"
proof (induction ns arbitrary: hs qs bufs w)
  case Nil
  then have "hs = []" "qs = []" by (simp_all add: serves_def)
  then show ?case by (simp add: heads_def)
next
  case (Cons n ns)
  obtain h hs' c where hs: "hs = h # hs'" and c: "Channel chif EMapNode n EChannelModeRead = Some (Some c)" "int (uc_fd c) = h"
    and sv: "serves EMapNode EChannelModeRead chif ns hs'" using Cons.prems(1) by (auto simp: serves_def list_all2_Cons1)
  obtain q qs' where qs: "qs = q # qs'" and r: "rest w h = stream q" and rs: "list_all2 (\<lambda>h q. rest w h = stream q) hs' qs'"
    using Cons.prems(2) by (auto simp: hs list_all2_Cons1)
  have d: "distinct hs'" "h \<notin> set hs'" using Cons.prems(3) by (simp_all add: hs)
  have ok: "\<forall>q \<in> set qs'. packets_ok mif q" "packets_ok mif q" using Cons.prems(4) by (simp_all add: qs)
  show ?case
  proof (cases q)
    case Nil
    have "(length bufs + sum_list (map length qs')) * 16 < 2 ^ 31" using Cons.prems(5) by (simp add: qs Nil)
    from Cons.IH [OF sv rs d(1) ok(1) this] obtain news w' where ih: "recv_round mem f mif chif ns (map flag_of qs') bufs w
        = Some (map (\<lambda>q. flag_of (tl q)) qs', (\<exists>q \<in> set qs'. tl q \<noteq> []), bufs @ map Some news, w')"
      "list_all2 (\<lambda>h q. rest w' h = stream q) hs' (map tl qs')" "\<forall>h. h \<notin> set hs' \<longrightarrow> rest w' h = rest w h"
      "\<forall>b \<in> set news. buffer_wf b" "map items news = map (map (received (value_addr_is_data mif))) (heads qs')" by blast
    have "rest w' h = stream []" using ih(3) d(2) r Nil by simp
    moreover have "recv_round mem f mif chif (n # ns) (map flag_of qs) bufs w
      = Some (map (\<lambda>q. flag_of (tl q)) qs, (\<exists>q \<in> set qs. tl q \<noteq> []), bufs @ map Some news, w')"
      using ih(1) by (simp add: qs Nil) (simp add: flag_of_def)
    ultimately show ?thesis using ih(2-5) by (intro exI [of _ news] exI [of _ w']) (simp add: qs hs Nil heads_def)
  next
    case (Cons xs q')
    from recv_packet [OF st r [unfolded Cons] ok(2) [unfolded Cons] mem size] obtain b w1 where
      b: "RecvDataFromSingleMap mem f (mr_item_size mif) (hash_size mif) (value_addr_is_data mif) h w = Some (flag_of q', Some b, w1)"
      "buffer_wf b" "items b = map (received (value_addr_is_data mif)) xs" "rest w1 h = stream q'" "\<forall>h'. h' \<noteq> h \<longrightarrow> rest w1 h' = rest w h'" by blast
    have rs1: "list_all2 (\<lambda>h q. rest w1 h = stream q) hs' qs'"
      using rs d(2) b(5) by (auto simp: list_all2_conv_all_nth) (metis nth_mem)
    have room: "(length (bufs @ [Some b]) + sum_list (map length qs')) * 16 < 2 ^ 31" "Suc (length bufs) * 16 < 2 ^ 31"
      using Cons.prems(5) by (simp_all add: qs Cons)
    from Cons.IH [OF sv rs1 d(1) ok(1) room(1)] obtain news w' where ih: "recv_round mem f mif chif ns (map flag_of qs') (bufs @ [Some b]) w1
        = Some (map (\<lambda>q. flag_of (tl q)) qs', (\<exists>q \<in> set qs'. tl q \<noteq> []), (bufs @ [Some b]) @ map Some news, w')"
      "list_all2 (\<lambda>h q. rest w' h = stream q) hs' (map tl qs')" "\<forall>h. h \<notin> set hs' \<longrightarrow> rest w' h = rest w1 h"
      "\<forall>b \<in> set news. buffer_wf b" "map items news = map (map (received (value_addr_is_data mif))) (heads qs')" by blast
    have w': "rest w' h = stream q'" "\<forall>h'. h' \<notin> set hs \<longrightarrow> rest w' h' = rest w h'" using ih(3) d(2) b(4,5) by (auto simp: hs)
    have mm: "mem (Suc (length bufs) * 16)" using mem room(2) by blast
    have fl: "flag_of (xs # q') \<noteq> MAP_NODE_EXCLUDE" "(flag_of q' \<noteq> MAP_NODE_EXCLUDE) = (q' \<noteq> [])" by (simp_all add: flag_of_def)
    have "recv_round mem f mif chif (n # ns) (map flag_of qs) bufs w
      = Some (map (\<lambda>q. flag_of (tl q)) qs, (\<exists>q \<in> set qs. tl q \<noteq> []), bufs @ map Some (b # news), w')"
      using c b(1) mm ih(1) fl by (simp add: qs Cons)
    with ih w' b(2,3) show ?thesis by (intro exI [of _ "b # news"] exI [of _ w']) (auto simp: qs hs Cons heads_def)
  qed
qed

lemma concat_heads_tails: "mset (concat (concat qs)) = mset (concat (heads qs)) + mset (concat (concat (map tl qs)))"
proof (induction qs)
  case (Cons q qs)
  then show ?case by (cases q) (simp_all add: heads_def)
qed (simp add: heads_def)

lemma sum_length_tl:
  assumes "q \<in> set qs" "tl q \<noteq> []"
  shows "sum_list (map length (map tl qs)) + length (heads qs) = sum_list (map length qs)" "0 < length (heads qs)"
proof -
  show "sum_list (map length (map tl qs)) + length (heads qs) = sum_list (map length qs)"
  proof (induction qs)
    case (Cons q qs)
    then show ?case by (cases q) (simp_all add: heads_def)
  qed (simp add: heads_def)
  have "q \<noteq> []" using assms(2) by auto
  then show "0 < length (heads qs)" using assms(1) by (induction qs) (auto simp: heads_def)
qed

lemma packets_ok_tl: "packets_ok mif q \<Longrightarrow> packets_ok mif (tl q)"
  by (cases q) (simp_all add: packets_ok_def)

lemma heads_in: "xs \<in> set (heads qs) \<Longrightarrow> \<exists>q \<in> set qs. xs \<in> set q"
  by (auto simp: heads_def dest: in_set_takeD)

lemma reduce_loop_ok:
  assumes st: "streams f rest" and mem: "\<forall>n < 2 ^ 31. mem n" and size: "0 < mr_item_size mif" and sv: "serves EMapNode EChannelModeRead chif ns hs" and d: "distinct hs"
    and nc: "Combine mif = None"
  shows "list_all2 (\<lambda>h q. rest w h = stream q) hs qs \<Longrightarrow> \<forall>q \<in> set qs. packets_ok mif q
    \<Longrightarrow> (length bufs + sum_list (map length qs)) * 16 < 2 ^ 31
    \<Longrightarrow> \<exists>news w'. reduce_loop mem f mif chif ns (map flag_of qs) bufs prev w = Some (bufs @ map Some news, prev, w')
      \<and> (\<forall>b \<in> set news. buffer_wf b \<and> by_hash (ComparatorHash mif) (items b)) \<and> length news \<le> sum_list (map length qs)
      \<and> mset (concat (map items news)) = mset (map (received (value_addr_is_data mif)) (concat (concat qs)))"
proof (induction "sum_list (map length qs)" arbitrary: qs bufs w rule: less_induct)
  case less
  let ?rcv = "received (value_addr_is_data mif)"
  from recv_round_ok [OF st mem size sv less.prems(1) d less.prems(2,3)] obtain news w1 where
    rd: "recv_round mem f mif chif ns (map flag_of qs) bufs w
        = Some (map (\<lambda>q. flag_of (tl q)) qs, (\<exists>q \<in> set qs. tl q \<noteq> []), bufs @ map Some news, w1)"
    and w1: "list_all2 (\<lambda>h q. rest w1 h = stream q) hs (map tl qs)"
    and news: "\<forall>b \<in> set news. buffer_wf b" "map items news = map (map ?rcv) (heads qs)" by blast
  have srt: "by_hash (ComparatorHash mif) (items b)" if "b \<in> set news" for b
  proof -
    have "items b \<in> map ?rcv ` set (heads qs)" using that news(2) by (metis image_eqI list.set_map)
    then obtain xs where xs: "items b = map ?rcv xs" "xs \<in> set (heads qs)" by blast
    from heads_in [OF xs(2)] obtain q where "q \<in> set qs" "xs \<in> set q" by blast
    then have "by_hash (ComparatorHash mif) xs" using less.prems(2) by (auto simp: packets_ok_def)
    then show ?thesis by (simp add: xs by_hash_received)
  qed
  have len: "length news = length (heads qs)" using arg_cong [OF news(2), of length] by simp
  have ms: "mset (concat (map items news)) = mset (map ?rcv (concat (heads qs)))" by (simp add: news(2) map_concat)
  have un: "reduce_loop mem f mif chif ns (map flag_of qs) bufs prev w = (if \<exists>q \<in> set qs. tl q \<noteq> []
      then reduce_loop mem f mif chif ns (map flag_of (map tl qs)) (bufs @ map Some news) prev w1 else Some (bufs @ map Some news, prev, w1))"
    using rd nc by (subst reduce_loop.simps) (simp add: combine_pass_def o_def)
  show ?case
  proof (cases "\<exists>q \<in> set qs. tl q \<noteq> []")
    case False
    then have tl: "concat (concat (map tl qs)) = []" by simp
    have "length (heads qs) \<le> sum_list (map length qs)" by (induction qs) (simp_all add: heads_def)
    moreover have "mset (concat (map items news)) = mset (map ?rcv (concat (concat qs)))"
      using concat_heads_tails [of qs] tl ms by (metis append_Nil2 mset_append mset_map)
    moreover have "reduce_loop mem f mif chif ns (map flag_of qs) bufs prev w = Some (bufs @ map Some news, prev, w1)"
      unfolding un using False by (simp only: if_False)
    ultimately show ?thesis using news(1) srt len by (intro exI [of _ news] exI [of _ w1]) simp
  next
    case True
    then obtain q where q: "q \<in> set qs" "tl q \<noteq> []" by blast
    note sum = sum_length_tl [OF q]
    have ok: "\<forall>q \<in> set (map tl qs). packets_ok mif q" using less.prems(2) packets_ok_tl by auto
    have room: "(length (bufs @ map Some news) + sum_list (map length (map tl qs))) * 16 < 2 ^ 31"
      using less.prems(3) sum(1) len by simp
    have "sum_list (map length (map tl qs)) < sum_list (map length qs)" using sum by linarith
    from less.hyps [OF this w1 ok room] obtain news' w' where ih: "reduce_loop mem f mif chif ns (map flag_of (map tl qs)) (bufs @ map Some news) prev w1
        = Some ((bufs @ map Some news) @ map Some news', prev, w')"
      "\<forall>b \<in> set news'. buffer_wf b \<and> by_hash (ComparatorHash mif) (items b)" "length news' \<le> sum_list (map length (map tl qs))"
      "mset (concat (map items news')) = mset (map ?rcv (concat (concat (map tl qs))))" by blast
    have "mset (concat (map items (news @ news'))) = mset (map ?rcv (concat (concat qs)))"
      using ms ih(4) concat_heads_tails [of qs] by simp
    moreover have "length (news @ news') \<le> sum_list (map length qs)" using ih(3) sum(1) len by simp
    moreover have "reduce_loop mem f mif chif ns (map flag_of qs) bufs prev w = Some (bufs @ map Some (news @ news'), prev, w')"
      unfolding un using True ih(1) by (simp only: if_True map_append append_assoc)
    ultimately show ?thesis using ih(2) news(1) srt
      by (intro exI [of _ "news @ news'"] exI [of _ w'] conjI) (simp_all add: ball_Un)
  qed
qed

text \<open>(C27) A reduce node without a function to combine returns: when every map node sends any number of
  packets, the last one marked, it receives every item of every packet exactly once and hands all of
  them to the program in the order of their hashes.\<close>

theorem reduce_node_returns:
  assumes st: "streams f rest" and mem: "\<forall>n < 2 ^ 31. mem n" and size: "0 < mr_item_size mif"
    and nodes: "GetNodesListByType chif EMapNode = Some (ns, chif')" "serves EMapNode EChannelModeRead chif' ns hs" "distinct hs"
    and nc: "Combine mif = None" and ord: "hash_order (ComparatorHash mif)"
    and sent: "list_all2 (\<lambda>h q. rest w h = stream q) hs qs" "\<forall>q \<in> set qs. q \<noteq> [] \<and> packets_ok mif q"
    and fits: "(sum_list (map length qs) + 1) * 16 < 2 ^ 31" "max 1 (length (concat (concat qs))) * mr_item_size mif < 2 ^ 31"
  shows "\<exists>result w'. ReduceNodeMain mem f mif chif w = Some (Reduce mif result w') \<and> by_hash (ComparatorHash mif) (items result)
    \<and> mset (items result) = mset (map (received (value_addr_is_data mif)) (concat (concat qs)))"
proof -
  let ?rcv = "received (value_addr_is_data mif)"
  have lens: "length ns = length qs" 
    using list_all2_lengthD [OF nodes(2) [unfolded serves_def]] list_all2_lengthD [OF sent(1)] by simp
  have fl: "map flag_of qs = replicate (length ns) 0" unfolding lens using sent(2) by (induction qs) (auto simp: flag_of_def)
  have room: "(length ([] :: item_buffer option list) + sum_list (map length qs)) * 16 < 2 ^ 31" using fits(1) by simp
  have "\<forall>q \<in> set qs. packets_ok mif q" using sent(2) by blast
  from reduce_loop_ok [OF st mem size nodes(2,3) nc sent(1) this room, of zero_buffer, unfolded fl append_Nil] obtain news w' where
    lp: "reduce_loop mem f mif chif' ns (replicate (length ns) 0) [] zero_buffer w = Some (map Some news, zero_buffer, w')"
    and news: "\<forall>b \<in> set news. buffer_wf b \<and> by_hash (ComparatorHash mif) (items b)" "length news \<le> sum_list (map length qs)"
    and ms: "mset (concat (map items news)) = mset (map ?rcv (concat (concat qs)))" by blast
  let ?bs = "news @ [zero_buffer]"
  have src: "\<forall>b \<in> set ?bs. readable b \<and> by_hash (ComparatorHash mif) (items b)"
    using news(1) by (auto simp: buffer_wf_def by_hash_def)
  then have "map b_count ?bs = map (\<lambda>b. length (items b)) ?bs" by (intro map_cong) auto
  then have "sum_list (map b_count ?bs) = length (concat (map items ?bs))" by (simp only: length_concat map_map o_def)
  also have "\<dots> = length (concat (map items news))" by simp
  also have "\<dots> = length (concat (concat qs))" using mset_eq_length [OF ms] by (simp only: length_map)
  finally have n: "length (concat (concat qs)) = sum_list (map b_count ?bs)" by simp
  have "max 1 (length (concat (concat qs))) * mr_item_size mif < SIZE_T_MOD" by (rule less_trans [OF fits(2)]) simp
  moreover have "mem (max 1 (length (concat (concat qs))) * mr_item_size mif)" using mem fits(2) by blast
  ultimately obtain dest where dest: "MergeBuffersToNew mem (mr_item_size mif) (ComparatorHash mif) ?bs = Some dest"
    "by_hash (ComparatorHash mif) (items dest)" "mset (items dest) = mset (concat (map items ?bs))"
    using merge_ok [OF ord src size, where mem = mem and n = "length (concat (concat qs))"] n by blast
  have "Suc (length news) * 16 \<le> (sum_list (map length qs) + 1) * 16" using news(2) by simp
  then have "Suc (length news) * 16 < 2 ^ 31" using fits(1) by (rule le_less_trans)
  then have "mem (Suc (length news) * 16)" using mem by blast
  then have "MERGE_PREVIOUS_AND_NEW mem mif (map Some news) zero_buffer = Some dest"
    using dest(1) by (auto simp: MERGE_PREVIOUS_AND_NEW_def o_def)
  then have "ReduceNodeMain mem f mif chif w = Some (Reduce mif dest w')"
    using lp nodes(1) nc by (simp add: ReduceNodeMain_def)
  moreover have "mset (items dest) = mset (map ?rcv (concat (concat qs)))" unfolding dest(3) ms [symmetric] by simp
  ultimately show ?thesis using dest(2) by blast
qed

end
