(* ===== verification/MrMap.thy ===== *)
theory MrMap
  imports MrReduce
begin

text \<open>
  The parts of the map node (\<open>lib/mapreduce/map_reduce_lib.c\<close>): the histogram of the hashes of its items, the
  dividers computed from the histograms of all map nodes, the distribution of the items over baskets, one for
  each reduce node, and their sending.
\<close>

section \<open>Histograms\<close>

record Histogram =
  src_nodeid :: int
  step_hist_common :: nat
  step_hist_last :: nat
  h_buffer :: "hash Buffer"

text \<open>The bytes copied from the address of the hash of an item.\<close>

definition hash_at :: "hash Buffer \<Rightarrow> ElasticBufItemData \<Rightarrow> hash option" where
  "hash_at buf item = (if b_item_size buf \<le> length (key_hash item) then Some (take (b_item_size buf) (key_hash item)) else None)"

definition AddHash :: "(nat \<Rightarrow> bool) \<Rightarrow> hash Buffer \<Rightarrow> item_buffer \<Rightarrow> nat \<Rightarrow> hash Buffer option" where
  "AddHash mem buf mapb i = do { mritem \<leftarrow> BufferItem mapb i; h \<leftarrow> hash_at buf mritem; AddBufferItem mem buf h }"

text \<open>
  The loop of \<open>GetHistogram\<close> after \<open>n = i + 1\<close> items: the last step, kept in 16 bits, and the array. A last
  step of 0 before any item reads the item with index -1.
\<close>

partial_function (option) histogram_loop :: "(nat \<Rightarrow> bool) \<Rightarrow> item_buffer \<Rightarrow> nat \<Rightarrow> nat \<Rightarrow> hash Buffer \<Rightarrow> (nat \<times> hash Buffer) option" where
  "histogram_loop mem mapb step n buf =
     (let last = min step (b_count mapb - n) mod 2 ^ 16
      in if n + last = 0 then None
         else Option.bind (AddHash mem buf mapb (n + last - 1)) (\<lambda>buf'.
           if n + last < b_count mapb then histogram_loop mem mapb step (n + last) buf' else Some (last, buf')))"

definition GetHistogram :: "(nat \<Rightarrow> bool) \<Rightarrow> item_buffer \<Rightarrow> nat \<Rightarrow> Histogram \<Rightarrow> (nat \<times> Histogram) option" where
  "GetHistogram mem mapb step histogram =
     (if b_count mapb = 0 then Some (0, histogram)
      else if step = 0 then do {
        buf \<leftarrow> AddHash mem (h_buffer histogram) mapb (b_count mapb - 1);
        let c = b_count mapb mod 2 ^ 16;
        Some (b_count buf, histogram\<lparr>h_buffer := buf, step_hist_common := c, step_hist_last := c\<rparr>) }
      else do {
        (last, buf) \<leftarrow> histogram_loop mem mapb step 0 (h_buffer histogram);
        Some (b_count buf, histogram\<lparr>h_buffer := buf, step_hist_common := min step (b_count mapb) mod 2 ^ 16, step_hist_last := last\<rparr>) })"

fun count_loop :: "Histogram list \<Rightarrow> nat \<Rightarrow> nat option" where
  "count_loop [] ret = Some ret"
| "count_loop (h # hs) ret =
     (let n = b_count (h_buffer h)
      in if 1 < n then count_loop hs ((ret + step_hist_common h * (n - 1) + step_hist_last h) mod SIZE_T_MOD)
         else if n = 1 then (if step_hist_last h = step_hist_common h then count_loop hs ((ret + step_hist_last h) mod SIZE_T_MOD) else None)
         else count_loop hs ret)"

definition CalculateItemsCountBasedOnHistograms :: "Histogram list \<Rightarrow> nat option" where
  "CalculateItemsCountBasedOnHistograms histograms = count_loop histograms 0"

section \<open>Dividers\<close>

definition SelectNextHistogramWithMinimalHash :: "comparator \<Rightarrow> Histogram list \<Rightarrow> nat list \<Rightarrow> nat option option" where
  "SelectNextHistogramWithMinimalHash cmp histograms current_indexes_array =
     map_option (map_option fst) (minimum_loop (\<lambda>h. h) cmp 0 (map h_buffer histograms) current_indexes_array None)"

text \<open>The size of the block that ends at an entry of a histogram.\<close>

definition block_size :: "Histogram \<Rightarrow> nat \<Rightarrow> nat" where
  "block_size h i = (if i < b_count (h_buffer h) - 1 then step_hist_common h else step_hist_last h)"

text \<open>
  The source takes the histogram of the least hash from the list in the interface, and the least hash from
  its argument; the only caller passes that list.
\<close>

partial_function (option) divider_loop ::
  "(nat \<Rightarrow> bool) \<Rightarrow> comparator \<Rightarrow> Histogram list \<Rightarrow> nat \<Rightarrow> nat \<Rightarrow> nat list \<Rightarrow> nat \<Rightarrow> hash Buffer \<Rightarrow> hash Buffer option" where
  "divider_loop mem cmp histograms dividers_count_max generic minimal_indexes current divider_array =
     (if b_count divider_array + 1 < dividers_count_max then
        Option.bind (SelectNextHistogramWithMinimalHash cmp histograms minimal_indexes) (\<lambda>m. case m of
          None \<Rightarrow> Some divider_array
        | Some k \<Rightarrow>
            (let i = minimal_indexes ! k;
                 size = (current + block_size (histograms ! k) i) mod SIZE_T_MOD
             in Option.bind (BufferItem (h_buffer (histograms ! k)) i) (\<lambda>hash.
                if generic \<le> size
                then Option.bind (AddBufferItem mem divider_array hash) (\<lambda>divider_array'.
                  divider_loop mem cmp histograms dividers_count_max generic (minimal_indexes[k := i + 1]) 0 divider_array')
                else divider_loop mem cmp histograms dividers_count_max generic (minimal_indexes[k := i + 1]) size divider_array)))
      else Some divider_array)"

text \<open>The rest of the dividers are the greatest hash.\<close>

fun fill_dividers :: "(nat \<Rightarrow> bool) \<Rightarrow> hash \<Rightarrow> nat \<Rightarrow> hash Buffer \<Rightarrow> hash Buffer option" where
  "fill_dividers mem h 0 buf = Some buf"
| "fill_dividers mem h (Suc n) buf = do { buf' \<leftarrow> AddBufferItem mem buf h; fill_dividers mem h n buf' }"

definition GetReducersDividerArrayBasedOnSummarizedHistograms ::
  "(nat \<Rightarrow> bool) \<Rightarrow> comparator \<Rightarrow> nat \<Rightarrow> Histogram list \<Rightarrow> hash Buffer \<Rightarrow> hash Buffer option" where
  "GetReducersDividerArrayBasedOnSummarizedHistograms mem cmp hashsize histograms divider_array =
     (if b_item_size divider_array = 0 then None
      else let dividers_count_max = b_buf_size divider_array div b_item_size divider_array
           in if dividers_count_max = 0 then None
              else do {
                total \<leftarrow> CalculateItemsCountBasedOnHistograms histograms;
                buf \<leftarrow> divider_loop mem cmp histograms dividers_count_max (total div dividers_count_max)
                  (replicate (length histograms) 0) 0 divider_array;
                fill_dividers mem (replicate hashsize 0xFF) (dividers_count_max - b_count buf) buf })"

section \<open>Baskets\<close>

text \<open>
  The loop of \<open>DistributeDataIntoBaskets\<close> over the items from \<open>j\<close> on: the index of the divider, which is also
  the index of the basket, the hash of the divider, the start and the count of the basket, and the baskets
  written. Writing behind the array of baskets is \<open>None\<close>.
\<close>

function basket_loop :: "comparator \<Rightarrow> hash Buffer \<Rightarrow> item_buffer \<Rightarrow> nat \<Rightarrow> nat \<Rightarrow> hash \<Rightarrow> nat \<Rightarrow> nat \<Rightarrow> nat \<Rightarrow> (nat \<times> nat) list \<Rightarrow> (nat \<times> nat) list option" where
  "basket_loop cmp dividers mapb basket_count current_divider_index divider start cnt j baskets =
     (if j < b_count mapb + 1 then do {
        switchbasket \<leftarrow> (if j < b_count mapb then do { current \<leftarrow> BufferItem mapb j; Some (0 < cmp (key_hash current) divider) } else Some True);
        if switchbasket then
          (if length baskets < basket_count then do {
             divider' \<leftarrow> (if current_divider_index + 1 < b_count dividers then BufferItem dividers (current_divider_index + 1) else Some divider);
             basket_loop cmp dividers mapb basket_count (current_divider_index + 1) divider' j 1 (j + 1) (baskets @ [(start, cnt)]) }
           else None)
        else basket_loop cmp dividers mapb basket_count current_divider_index divider start (cnt + 1) (j + 1) baskets }
      else Some baskets)"
  by pat_completeness auto
termination
  by (relation "measure (\<lambda>(cmp, dividers, mapb, basket_count, i, divider, start, cnt, j, baskets). b_count mapb + 1 - j)") auto

declare basket_loop.simps [simp del]

definition DistributeDataIntoBaskets :: "comparator \<Rightarrow> hash Buffer \<Rightarrow> item_buffer \<Rightarrow> nat \<Rightarrow> (nat \<times> nat) list option" where
  "DistributeDataIntoBaskets cmp dividers mapb basket_count = do {
     divider \<leftarrow> BufferItem dividers 0;
     baskets \<leftarrow> basket_loop cmp dividers mapb basket_count 0 divider 0 0 0 [];
     Some (baskets @ replicate (basket_count - length baskets) (0, 0)) }"

section \<open>Sending\<close>

fun send_loop ::
  "'w writer \<Rightarrow> 'w MapReduceUserIf \<Rightarrow> ChannelsConfigInterface \<Rightarrow> item_buffer \<Rightarrow> int \<Rightarrow> nat list \<Rightarrow> (nat \<times> nat) list \<Rightarrow> BufferedIOWrite \<times> 'w
    \<Rightarrow> (BufferedIOWrite \<times> 'w) option" where
  "send_loop g mif chif mapb last_data (n # ns) (b # bs) s = do {
     found \<leftarrow> Channel chif EReduceNode n EChannelModeWrite;
     channel \<leftarrow> found;
     s' \<leftarrow> WriteDataToReduce g (hash_size mif) (value_addr_is_data mif) (fst s) (int (uc_fd channel)) mapb (fst b) (snd b) last_data (snd s);
     send_loop g mif chif mapb last_data ns bs s' }"
| "send_loop g mif chif mapb last_data _ _ s = Some s"

abbreviation (input) SEND_BUFFER_SIZE :: nat where "SEND_BUFFER_SIZE \<equiv> 0x200000"

definition MapSendToAllReducers ::
  "(nat \<Rightarrow> bool) \<Rightarrow> 'w writer \<Rightarrow> 'w MapReduceUserIf \<Rightarrow> hash Buffer \<Rightarrow> ChannelsConfigInterface \<Rightarrow> bool \<Rightarrow> item_buffer \<Rightarrow> 'w \<Rightarrow> (ChannelsConfigInterface \<times> 'w) option" where
  "MapSendToAllReducers mem g mif dividers chif last_data mapb w = do {
     let basket_count = b_count dividers;
     baskets \<leftarrow> DistributeDataIntoBaskets (ComparatorHash mif) dividers mapb basket_count;
     (ns, chif') \<leftarrow> GetNodesListByType chif EReduceNode;
     if length ns = basket_count \<and> mem SEND_BUFFER_SIZE then do {
       s \<leftarrow> send_loop g mif chif' mapb (if last_data then MAP_NODE_EXCLUDE else MAP_NODE_NO_EXCLUDE) ns baskets (AllocBufferedIOWrite SEND_BUFFER_SIZE, w);
       Some (chif', snd s) }
     else None }"

end
