(* ===== verification/MrExchange.thy ===== *)
theory MrExchange
  imports MrMap
begin

text \<open>
  The exchange of the histograms between the map nodes: \<open>StartEachToOtherCommunication\<close>
  (\<open>lib/mapreduce/eachtoother_comm.c\<close>) with the callbacks \<open>ReadHistogramFromNode\<close> and
  \<open>WriteHistogramToNode\<close> (\<open>lib/mapreduce/map_reduce_lib.c\<close>).
\<close>

section \<open>Each to other\<close>

text \<open>\<open>rd\<close> and \<open>wr\<close> are the callbacks on the index of the other node, the descriptor and a state.\<close>

fun write_to_others :: "(nat \<Rightarrow> int \<Rightarrow> 's \<Rightarrow> 's option) \<Rightarrow> ChannelsConfigInterface \<Rightarrow> nat \<Rightarrow> nat \<Rightarrow> nat list \<Rightarrow> 's \<Rightarrow> 's option" where
  "write_to_others wr chif ntype j [] s = Some s"
| "write_to_others wr chif ntype j (n # ns) s = do {
     found \<leftarrow> Channel chif ntype n EChannelModeWrite;
     s' \<leftarrow> (if int n \<noteq> ownnodeid chif then do { channel \<leftarrow> found; wr j (int (uc_fd channel)) s } else Some s);
     write_to_others wr chif ntype (Suc j) ns s' }"

fun each_loop ::
  "(nat \<Rightarrow> int \<Rightarrow> 's \<Rightarrow> 's option) \<Rightarrow> (nat \<Rightarrow> int \<Rightarrow> 's \<Rightarrow> 's option) \<Rightarrow> ChannelsConfigInterface \<Rightarrow> nat \<Rightarrow> nat list \<Rightarrow> nat \<Rightarrow> nat list \<Rightarrow> 's \<Rightarrow> 's option" where
  "each_loop rd wr chif ntype all i [] s = Some s"
| "each_loop rd wr chif ntype all i (n # ns) s = do {
     s' \<leftarrow> (if int n = ownnodeid chif then write_to_others wr chif ntype 0 all s
            else do { found \<leftarrow> Channel chif ntype n EChannelModeRead; channel \<leftarrow> found; rd i (int (uc_fd channel)) s });
     each_loop rd wr chif ntype all (Suc i) ns s' }"

definition StartEachToOtherCommunication ::
  "(nat \<Rightarrow> int \<Rightarrow> 's \<Rightarrow> 's option) \<Rightarrow> (nat \<Rightarrow> int \<Rightarrow> 's \<Rightarrow> 's option) \<Rightarrow> ChannelsConfigInterface \<Rightarrow> nat \<Rightarrow> 's \<Rightarrow> ('s \<times> ChannelsConfigInterface) option" where
  "StartEachToOtherCommunication rd wr conf ntype s = do {
     (nodes, conf') \<leftarrow> GetNodesListByType conf ntype;
     if nodes \<noteq> [] then do { s' \<leftarrow> each_loop rd wr conf' ntype nodes 0 nodes s; Some (s', conf') } else None }"

section \<open>A histogram on a channel\<close>

definition short_bytes :: "nat \<Rightarrow> byte list" where
  "short_bytes x = [word_of_nat x, word_of_nat (x div 256)]"

definition bytes_short :: "byte list \<Rightarrow> nat" where
  "bytes_short bs = unat (bs ! 0) + 256 * unat (bs ! 1)"

definition bytes_nat :: "byte list \<Rightarrow> nat" where
  "bytes_nat bs = nat (bytes_int bs mod 2 ^ 32)"

text \<open>The 24 bytes of the structure, with the address of the data, which the receiver ignores.\<close>

definition histogram_bytes :: "byte list \<Rightarrow> Histogram \<Rightarrow> byte list" where
  "histogram_bytes ptr h = int_bytes (src_nodeid h) @ short_bytes (step_hist_common h) @ short_bytes (step_hist_last h)
     @ int_bytes (int (b_buf_size (h_buffer h))) @ int_bytes (int (b_item_size (h_buffer h))) @ int_bytes (int (b_count (h_buffer h))) @ ptr"

text \<open>The slots of the array; one without an item counts as zeros.\<close>

definition slots_bytes :: "hash Buffer \<Rightarrow> byte list" where
  "slots_bytes buf = concat (map (\<lambda>s. case s of Some h \<Rightarrow> h | None \<Rightarrow> replicate (b_item_size buf) 0) (b_data buf))"

definition WriteHistogramToNode :: "'w writer \<Rightarrow> byte list \<Rightarrow> int \<Rightarrow> nat \<Rightarrow> int \<Rightarrow> Histogram list \<times> 'w \<Rightarrow> (Histogram list \<times> 'w) option" where
  "WriteHistogramToNode g ptr own_histogram_index index fdw s =
     (if 0 \<le> own_histogram_index \<and> nat own_histogram_index < length (fst s) then
        (let histogram = fst s ! nat own_histogram_index;
             w1 = snd (g fdw (histogram_bytes ptr histogram) (snd s));
             w2 = snd (g fdw (slots_bytes (h_buffer histogram)) w1)
         in Some (fst s, w2))
      else None)"

text \<open>The slots that received bytes fill.\<close>

definition fill_slots :: "nat \<Rightarrow> nat \<Rightarrow> byte list \<Rightarrow> hash option list" where
  "fill_slots itemsize slots bs =
     map (\<lambda>i. if (i + 1) * itemsize \<le> length bs then Some (take itemsize (drop (i * itemsize) bs)) else None) [0..<slots]"

definition ReadHistogramFromNode :: "(nat \<Rightarrow> bool) \<Rightarrow> 'w reader \<Rightarrow> nat \<Rightarrow> int \<Rightarrow> Histogram list \<times> 'w \<Rightarrow> (Histogram list \<times> 'w) option" where
  "ReadHistogramFromNode mem f index fdr s =
     (if index < length (fst s) \<and> b_count (h_buffer (fst s ! index)) = 0 then
        (case f fdr 24 (snd s) of ((r, bs), w1) \<Rightarrow>
           if 0 < r \<and> length bs = 24 then do {
             let n = bytes_nat (take 4 (drop 16 bs));
             buf \<leftarrow> IF_ALLOC_ERROR (AllocBuffer mem (nat (bytes_int (take 4 (drop 12 bs)))) n);
             (case f fdr (b_buf_size buf) w1 of ((r', ds), w2) \<Rightarrow>
                if 0 < r' then
                  Some ((fst s)[index := \<lparr>src_nodeid = bytes_int (take 4 bs), step_hist_common = bytes_short (take 2 (drop 4 bs)),
                      step_hist_last = bytes_short (take 2 (drop 6 bs)),
                      h_buffer = buf\<lparr>b_count := n, b_data := fill_slots (b_item_size buf) (length (b_data buf)) ds\<rparr>\<rparr>], w2)
                else None) }
           else None)
      else None)"

end
