(* ===== verification/MrMapNode.thy ===== *)
theory MrMapNode
  imports MrExchange
begin

text \<open>
  The map node (\<open>MapNodeMain\<close> of \<open>lib/mapreduce/map_reduce_lib.c\<close>): it reads the input in chunks, runs the map
  function of the program, sorts the items, agrees with the other map nodes on the dividers after the first
  chunk, and sends every chunk to the reduce nodes. The size of a chunk comes from the environment and is an
  argument.
\<close>

section \<open>The map node\<close>

definition LocalSort :: "'w MapReduceUserIf \<Rightarrow> item_buffer \<Rightarrow> item_buffer" where
  "LocalSort mif sortable = sortable\<lparr>b_data := map Some (qsort (ComparatorMrItem mif) (items sortable)) @ drop (b_count sortable) (b_data sortable)\<rparr>"

definition MapInputDataLocalProcessing :: "(nat \<Rightarrow> bool) \<Rightarrow> 'w MapReduceUserIf \<Rightarrow> byte list \<Rightarrow> bool \<Rightarrow> (nat \<times> item_buffer) option" where
  "MapInputDataLocalProcessing mem mif buf last_chunk = do {
     empty \<leftarrow> IF_ALLOC_ERROR (AllocBuffer mem (mr_item_size mif) 1024);
     let (unhandled_data_pos, unsorted) = Map mif buf last_chunk empty;
     let sorted = LocalSort mif unsorted;
     result \<leftarrow> IF_ALLOC_ERROR (AllocBuffer mem (mr_item_size mif) (b_count sorted div 4));
     Some (unhandled_data_pos, case Combine mif of Some combine \<Rightarrow> combine sorted result | None \<Rightarrow> sorted) }"

text \<open>
  The input buffer is \<open>None\<close> before the first call; after that the data behind \<open>unhandled_data_pos\<close> moves to
  the front, where the data read then goes as well. The result is the number of bytes in the buffer and
  the buffer.
\<close>

definition MapInputDataProvider ::
  "(nat \<Rightarrow> bool) \<Rightarrow> 'w reader \<Rightarrow> int \<Rightarrow> byte list option \<Rightarrow> nat \<Rightarrow> nat \<Rightarrow> 'w \<Rightarrow> (nat \<times> byte list \<times> 'w) option" where
  "MapInputDataProvider mem f fd input_buffer requested_buf_size unhandled_data_pos w = do {
     (rest_data_in_buffer, buf) \<leftarrow> (case input_buffer of
        None \<Rightarrow> (if mem (requested_buf_size + 1) then Some (0, replicate (requested_buf_size + 1) 0) else None)
      | Some buf \<Rightarrow>
          (if unhandled_data_pos = 0 \<or> unhandled_data_pos < requested_buf_size div 2 \<or> requested_buf_size < unhandled_data_pos then None
           else let n = requested_buf_size - unhandled_data_pos
                in Some (n, store_at buf 0 (take n (drop unhandled_data_pos buf)))));
     case f fd (requested_buf_size - rest_data_in_buffer) w of ((readed, bs), w') \<Rightarrow>
       (if 0 < readed then Some (rest_data_in_buffer + nat readed, store_at buf 0 bs, w') else None) }"

text \<open>The data of the library and the channels while the node runs.\<close>

record MapNodeData =
  histograms_list :: "Histogram list"
  dividers_list :: "hash Buffer"
  node_channels :: ChannelsConfigInterface

fun init_histograms :: "(nat \<Rightarrow> bool) \<Rightarrow> nat \<Rightarrow> nat \<Rightarrow> Histogram list option" where
  "init_histograms mem hashsize 0 = Some []"
| "init_histograms mem hashsize (Suc n) = do {
     buf \<leftarrow> IF_ALLOC_ERROR (AllocBuffer mem hashsize 100);
     hs \<leftarrow> init_histograms mem hashsize n;
     Some (\<lparr>src_nodeid = 0, step_hist_common = 0, step_hist_last = 0, h_buffer = buf\<rparr> # hs) }"

text \<open>A histogram has 24 bytes. The dividers of the program's interface start without items.\<close>

definition InitMapInternals :: "(nat \<Rightarrow> bool) \<Rightarrow> nat \<Rightarrow> ChannelsConfigInterface \<Rightarrow> MapNodeData option" where
  "InitMapInternals mem hashsize chif = do {
     (ns, chif') \<leftarrow> GetNodesListByType chif EMapNode;
     if 0 < length ns \<and> mem (length ns * 24) then do {
       hs \<leftarrow> init_histograms mem hashsize (length ns);
       Some \<lparr>histograms_list = hs, dividers_list = zero_buffer, node_channels = chif'\<rparr> }
     else None }"

text \<open>Only the order of the channels changes; the rest is logging.\<close>

definition PrintDebugInfo :: "ChannelsConfigInterface \<Rightarrow> ChannelsConfigInterface option" where
  "PrintDebugInfo chif = do {
     (_, chif1) \<leftarrow> GetNodesListByType chif EMapNode;
     (_, chif2) \<leftarrow> GetNodesListByType chif1 EReduceNode;
     Some chif2 }"

definition MapCreateHistogramSendEachToOtherCreateDividersList ::
  "(nat \<Rightarrow> bool) \<Rightarrow> 'w reader \<Rightarrow> 'w writer \<Rightarrow> byte list \<Rightarrow> 'w MapReduceUserIf \<Rightarrow> item_buffer \<Rightarrow> MapNodeData \<Rightarrow> 'w \<Rightarrow> (MapNodeData \<times> 'w) option" where
  "MapCreateHistogramSendEachToOtherCreateDividersList mem f g ptr mif mapb d w = do {
     (map_nodes, chif1) \<leftarrow> GetNodesListByType (node_channels d) EMapNode;
     if map_nodes \<noteq> [] then do {
       (reduce_nodes, chif2) \<leftarrow> GetNodesListByType chif1 EReduceNode;
       let own = ownnodeid chif2 - 1;
       if 0 \<le> own \<and> nat own < length (histograms_list d) then do {
         (_, histogram) \<leftarrow> GetHistogram mem mapb (b_count mapb div length map_nodes div 100) (histograms_list d ! nat own);
         ((hs, w1), chif3) \<leftarrow> StartEachToOtherCommunication (ReadHistogramFromNode mem f) (WriteHistogramToNode g ptr own) chif2 EMapNode
           ((histograms_list d)[nat own := histogram], w);
         empty \<leftarrow> IF_ALLOC_ERROR (AllocBuffer mem (hash_size mif) (length reduce_nodes));
         dividers \<leftarrow> GetReducersDividerArrayBasedOnSummarizedHistograms mem (ComparatorHash mif) (hash_size mif) hs empty;
         Some (\<lparr>histograms_list = hs, dividers_list = dividers, node_channels = chif3\<rparr>, w1) }
       else None }
     else None }"

text \<open>
  One turn of the loop of \<open>MapNodeMain\<close>: whether it was the last, and the state after it. The buffer is freed
  before every call of the data provider.
\<close>

definition map_chunk ::
  "(nat \<Rightarrow> bool) \<Rightarrow> 'w reader \<Rightarrow> 'w writer \<Rightarrow> byte list \<Rightarrow> 'w MapReduceUserIf \<Rightarrow> int \<Rightarrow> nat \<Rightarrow> nat \<times> MapNodeData \<times> 'w
    \<Rightarrow> (bool \<times> nat \<times> MapNodeData \<times> 'w) option" where
  "map_chunk mem f g ptr mif fd split_input_size s = (case s of (current_unhandled_data_pos, d, w) \<Rightarrow> do {
     (returned_buf_size, buffer, w1) \<leftarrow> MapInputDataProvider mem f fd None split_input_size current_unhandled_data_pos w;
     let last_chunk = returned_buf_size < split_input_size;
     (pos, map_buffer) \<leftarrow> MapInputDataLocalProcessing mem mif (take returned_buf_size buffer) last_chunk;
     (d1, w2) \<leftarrow> (if b_count (dividers_list d) = 0
                  then MapCreateHistogramSendEachToOtherCreateDividersList mem f g ptr mif map_buffer d w1 else Some (d, w1));
     (chif, w3) \<leftarrow> MapSendToAllReducers mem g mif (dividers_list d1) (node_channels d1) last_chunk map_buffer w2;
     Some (last_chunk, pos, d1\<lparr>node_channels := chif\<rparr>, w3) })"

partial_function (option) map_loop ::
  "(nat \<Rightarrow> bool) \<Rightarrow> 'w reader \<Rightarrow> 'w writer \<Rightarrow> byte list \<Rightarrow> 'w MapReduceUserIf \<Rightarrow> int \<Rightarrow> nat \<Rightarrow> nat \<times> MapNodeData \<times> 'w \<Rightarrow> 'w option" where
  "map_loop mem f g ptr mif fd split_input_size s =
     Option.bind (map_chunk mem f g ptr mif fd split_input_size s) (\<lambda>r.
       if fst r then Some (snd (snd (snd r))) else map_loop mem f g ptr mif fd split_input_size (snd r))"

definition MapNodeMain ::
  "(nat \<Rightarrow> bool) \<Rightarrow> 'w reader \<Rightarrow> 'w writer \<Rightarrow> byte list \<Rightarrow> 'w MapReduceUserIf \<Rightarrow> nat \<Rightarrow> ChannelsConfigInterface \<Rightarrow> 'w \<Rightarrow> 'w option" where
  "MapNodeMain mem f g ptr mif split_input_size chif w = do {
     d \<leftarrow> InitMapInternals mem (hash_size mif) chif;
     chif' \<leftarrow> PrintDebugInfo (node_channels d);
     found \<leftarrow> Channel chif' EInputOutputNode 1 EChannelModeRead;
     channel \<leftarrow> found;
     map_loop mem f g ptr mif (int (uc_fd channel)) split_input_size (0, d\<lparr>node_channels := chif'\<rparr>, w) }"

end
