(* ===== verification/MrMapProps.thy ===== *)
theory MrMapProps
  imports MrMapNode
begin

text \<open>
  Properties of the parts of the map node: the histogram stands for all items, the dividers are complete and
  in order, the baskets divide the items, and every basket reaches its reduce node.
\<close>

section \<open>Histograms\<close>

definition hashes_ok :: "nat \<Rightarrow> item_buffer \<Rightarrow> bool" where
  "hashes_ok hashsize b \<longleftrightarrow> (\<forall>x \<in> set (items b). length (key_hash x) = hashsize)"

lemma AddHash_ok:
  assumes b: "readable mapb" "hashes_ok (b_item_size buf) mapb" "i < b_count mapb"
    and wf: "buffer_wf buf" and fits: "2 * (b_count buf * b_item_size buf) < 2 ^ 31" and mem: "\<forall>n < 2 ^ 31. mem n"
  shows "\<exists>buf'. AddHash mem buf mapb i = Some buf' \<and> buffer_wf buf' \<and> items buf' = items buf @ [key_hash (items mapb ! i)]
    \<and> b_item_size buf' = b_item_size buf \<and> b_count buf' = Suc (b_count buf)"
proof -
  have "items mapb ! i \<in> set (items mapb)" using b(1,3) by simp
  then have "hash_at buf (items mapb ! i) = Some (key_hash (items mapb ! i))" using b(2) by (simp add: hash_at_def hashes_ok_def)
  with AddBufferItem_ok [OF wf fits mem, of "key_hash (items mapb ! i)"] show ?thesis
    by (auto simp: AddHash_def BufferItem_items [OF b(1,3)])
qed

text \<open>The hash at the end of the \<open>i\<close>-th block.\<close>

definition block_end :: "item_buffer \<Rightarrow> nat \<Rightarrow> nat \<Rightarrow> hash" where
  "block_end mapb step i = key_hash (items mapb ! ((i + 1) * step - 1))"

lemma histogram_loop_step:
  assumes "min step (b_count mapb - n) mod 2 ^ 16 = l" "0 < l" "AddHash mem buf mapb (n + l - 1) = Some buf1"
  shows "histogram_loop mem mapb step n buf = (if n + l < b_count mapb then histogram_loop mem mapb step (n + l) buf1 else Some (l, buf1))"
  using assms by (subst histogram_loop.simps) (simp add: Let_def)

lemma histogram_loop_ok:
  assumes b: "readable mapb" "hashes_ok hashsize mapb" and step: "0 < step" "step < 2 ^ 16"
    and fits: "2 * (b_count mapb * hashsize) < 2 ^ 31" and mem: "\<forall>n < 2 ^ 31. mem n"
  shows "k * step < b_count mapb \<Longrightarrow> buffer_wf buf \<Longrightarrow> b_item_size buf = hashsize \<Longrightarrow> items buf = map (block_end mapb step) [0..<k]
    \<Longrightarrow> \<exists>m last buf'. histogram_loop mem mapb step (k * step) buf = Some (last, buf') \<and> 0 < last \<and> last \<le> step \<and> b_count mapb = m * step + last
      \<and> buffer_wf buf' \<and> b_item_size buf' = hashsize
      \<and> items buf' = map (block_end mapb step) [0..<m] @ [key_hash (items mapb ! (b_count mapb - 1))]"
proof (induction "b_count mapb - k * step" arbitrary: k buf rule: less_induct)
  case less
  let ?last = "min step (b_count mapb - k * step)"
  have last: "0 < ?last" "?last mod 2 ^ 16 = ?last" "k * step + ?last \<le> b_count mapb" using less.prems(1) step by auto
  have "k * 1 \<le> k * step" using step(1) by (intro mult_le_mono) auto
  then have "k \<le> b_count mapb" using less.prems(1) by linarith
  moreover have cnt: "b_count buf = k" using less.prems(2,4) length_buffer_items [of buf] by (simp add: buffer_wf_def)
  ultimately have "b_count buf * hashsize \<le> b_count mapb * hashsize" by (intro mult_right_mono) auto
  then have fit: "2 * (b_count buf * b_item_size buf) < 2 ^ 31" unfolding less.prems(3) using fits by linarith
  have i: "k * step + ?last - 1 < b_count mapb" using last(1,3) by linarith
  have ho: "hashes_ok (b_item_size buf) mapb" using b(2) less.prems(3) by simp
  obtain buf1 where b1: "AddHash mem buf mapb (k * step + ?last - 1) = Some buf1" "buffer_wf buf1"
    "items buf1 = items buf @ [key_hash (items mapb ! (k * step + ?last - 1))]" "b_item_size buf1 = b_item_size buf"
    using AddHash_ok [OF b(1) ho i less.prems(2) fit mem] by blast
  have un: "histogram_loop mem mapb step (k * step) buf
    = (if k * step + ?last < b_count mapb then histogram_loop mem mapb step (k * step + ?last) buf1 else Some (?last, buf1))"
    by (rule histogram_loop_step [OF last(2,1) b1(1)])
  show ?case
  proof (cases "k * step + ?last < b_count mapb")
    case True
    then have l: "?last = step" by (simp add: min_def split: if_splits)
    have n: "k * step + ?last = Suc k * step" using l by simp
    have "items buf1 = map (block_end mapb step) [0..<Suc k]" using b1(3) less.prems(4) l by (simp add: block_end_def add.commute)
    moreover have "b_count mapb - Suc k * step < b_count mapb - k * step" "Suc k * step < b_count mapb" using True n last(1) by linarith+
    ultimately show ?thesis
      using less.hyps [of "Suc k" buf1] b1(2,4) less.prems(3) un True n by (simp only: if_True)
  next
    case False
    then have e: "b_count mapb = k * step + ?last" using last(3) by linarith
    have "items buf1 = map (block_end mapb step) [0..<k] @ [key_hash (items mapb ! (b_count mapb - 1))]"
      using b1(3) less.prems(4) e by simp
    moreover have "histogram_loop mem mapb step (k * step) buf = Some (?last, buf1)" unfolding un using False by (simp only: if_False)
    ultimately show ?thesis using last(1) e b1(2,4) less.prems(3)
      by (intro exI [of _ k] exI [of _ ?last] exI [of _ buf1]) auto
  qed
qed

text \<open>The histogram of a node stands for all its items: it holds the hash at the end of every block of
  \<open>step\<close> items and the hash of the last item, and the number of items computed from the steps is their
  number. The step keeps below \<open>2 ^ 16\<close>, the width of its field.\<close>

theorem histogram_counts_items:
  assumes b: "readable mapb" "hashes_ok hashsize mapb" "0 < b_count mapb" and step: "0 < step" "step < 2 ^ 16"
    and h: "buffer_wf (h_buffer h)" "items (h_buffer h) = []" "b_item_size (h_buffer h) = hashsize"
    and fits: "2 * (b_count mapb * hashsize) < 2 ^ 31" and mem: "\<forall>n < 2 ^ 31. mem n"
  shows "\<exists>n h'. GetHistogram mem mapb step h = Some (n, h') \<and> n = (b_count mapb - 1) div step + 1
    \<and> items (h_buffer h') = map (block_end mapb step) [0..<n - 1] @ [key_hash (items mapb ! (b_count mapb - 1))]
    \<and> CalculateItemsCountBasedOnHistograms [h'] = Some (b_count mapb)"
proof -
  have z: "0 * step < b_count mapb" "items (h_buffer h) = map (block_end mapb step) [0..<0]" using b(3) h(2) by simp_all
  from histogram_loop_ok [OF b(1,2) step fits mem z(1) h(1,3) z(2)] obtain m last buf where
    lp: "histogram_loop mem mapb step 0 (h_buffer h) = Some (last, buf)" "0 < last" "last \<le> step" "b_count mapb = m * step + last"
    "buffer_wf buf" "b_item_size buf = hashsize" "items buf = map (block_end mapb step) [0..<m] @ [key_hash (items mapb ! (b_count mapb - 1))]"
    by auto
  define h' where "h' = h\<lparr>h_buffer := buf, step_hist_common := min step (b_count mapb) mod 2 ^ 16, step_hist_last := last\<rparr>"
  have cnt: "b_count buf = m + 1" using lp(5) arg_cong [OF lp(7), of length] by (simp add: buffer_wf_def)
  have gh: "GetHistogram mem mapb step h = Some (m + 1, h')"
    using b(3) step lp(1) cnt by (simp add: GetHistogram_def h'_def)
  have "(b_count mapb - 1) div step = m"
  proof -
    have "b_count mapb - 1 = m * step + (last - 1)" "last - 1 < step" using lp(2-4) by linarith+
    then show ?thesis by simp
  qed
  moreover have "b_count mapb < SIZE_T_MOD"
  proof (cases "hashsize = 0")
    case True
    then have False using h(1,3) by (simp add: buffer_wf_def)
    then show ?thesis ..
  next
    case False
    then have "b_count mapb * 1 \<le> b_count mapb * hashsize" by (intro mult_le_mono) auto
    then have "b_count mapb < 2 ^ 31" using fits by linarith
    then show ?thesis by simp
  qed
  moreover have "min step (b_count mapb) mod 2 ^ 16 = (if m = 0 then last else step)"
    using step lp(2-4) by (cases m) (auto simp: min_def)
  ultimately show ?thesis
    using gh lp(4,7) cnt by (auto simp: CalculateItemsCountBasedOnHistograms_def h'_def mult.commute)
qed

section \<open>Dividers\<close>

abbreviation ascending :: "comparator \<Rightarrow> hash list \<Rightarrow> bool" where
  "ascending cmp \<equiv> sorted_wrt (\<lambda>x y. cmp x y \<le> 0)"

lemma divider_loop_unfold:
  "divider_loop mem cmp hs M g ps cur D = (if b_count D + 1 < M then
     Option.bind (SelectNextHistogramWithMinimalHash cmp hs ps) (\<lambda>m. case m of None \<Rightarrow> Some D
       | Some k \<Rightarrow> Option.bind (BufferItem (h_buffer (hs ! k)) (ps ! k)) (\<lambda>hash.
           if g \<le> (cur + block_size (hs ! k) (ps ! k)) mod SIZE_T_MOD
           then Option.bind (AddBufferItem mem D hash) (\<lambda>D'. divider_loop mem cmp hs M g (ps[k := ps ! k + 1]) 0 D')
           else divider_loop mem cmp hs M g (ps[k := ps ! k + 1]) ((cur + block_size (hs ! k) (ps ! k)) mod SIZE_T_MOD) D)) else Some D)"
  by (subst divider_loop.simps) (simp add: Let_def cong: option.case_cong if_cong)

text \<open>What every turn keeps: the dividers so far ascend and lie below what is left of the histograms.\<close>

definition below :: "comparator \<Rightarrow> hash list \<Rightarrow> hash list \<Rightarrow> bool" where
  "below cmp ds rs \<longleftrightarrow> ascending cmp ds \<and> (\<forall>x \<in> set ds. \<forall>y \<in> set rs. cmp x y \<le> 0)"

lemma divider_loop_ok:
  assumes ord: "hash_order cmp" and src: "\<forall>b \<in> set (map h_buffer hs). readable b"
  shows "length ps = length hs \<Longrightarrow> \<forall>r \<in> set (rests (map h_buffer hs) ps). ascending cmp r \<Longrightarrow> buffer_wf D \<Longrightarrow> length (b_data D) = M \<Longrightarrow> b_count D < M
    \<Longrightarrow> below cmp (items D) (concat (rests (map h_buffer hs) ps))
    \<Longrightarrow> \<exists>D'. divider_loop mem cmp hs M g ps cur D = Some D' \<and> buffer_wf D' \<and> length (b_data D') = M \<and> b_count D' < M
      \<and> b_item_size D' = b_item_size D \<and> ascending cmp (items D') \<and> set (items D') \<subseteq> set (items D) \<union> set (concat (rests (map h_buffer hs) ps))"
proof (induction "length (concat (rests (map h_buffer hs) ps))" arbitrary: ps cur D rule: less_induct)
  case less
  let ?bs = "map h_buffer hs"
  have lenb: "length ps = length ?bs" using less.prems(1) by simp
  show ?case
  proof (cases "b_count D + 1 < M")
    case False
    then show ?thesis using less.prems by (subst divider_loop_unfold) (simp add: below_def)
  next
    case True
    from minimum_cases [OF ord src, where h = "\<lambda>h. h", OF less.prems(2) lenb] show ?thesis
    proof cases
      case 1
      then show ?thesis using less.prems True by (subst divider_loop_unfold) (simp add: SelectNextHistogramWithMinimalHash_def below_def)
    next
      case (2 k x r)
      let ?ps = "ps[k := ps ! k + 1]"
      note tk = take_minimum [OF 2(2) lenb 2(3)]
      have k: "k < length hs" using 2(2) by simp
      have "ascending cmp r" using less.prems(2) tk(5) by auto
      then have asc: "\<forall>q \<in> set (rests ?bs ?ps). ascending cmp q" using less.prems(2) tk(4) by blast
      have lt: "length (concat (rests ?bs ?ps)) < length (concat (rests ?bs ps))" using tk(2) by linarith
      have len: "length ?ps = length hs" using less.prems(1) by simp
      have sel: "SelectNextHistogramWithMinimalHash cmp hs ps = Some (Some k)" "BufferItem (h_buffer (hs ! k)) (ps ! k) = Some x"
        using 2(1,4) k by (simp_all add: SelectNextHistogramWithMinimalHash_def)
      let ?size = "(cur + block_size (hs ! k) (ps ! k)) mod SIZE_T_MOD"
      show ?thesis
      proof (cases "g \<le> ?size")
        case grow: True
        have "b_count D < length (b_data D)" using less.prems(4,5) by simp
        from AddBufferItem_room [OF less.prems(3) this, of mem x] obtain D1 where D1: "AddBufferItem mem D x = Some D1" "buffer_wf D1" "items D1 = items D @ [x]"
          "length (b_data D1) = M" "b_item_size D1 = b_item_size D" "b_count D1 = Suc (b_count D)" unfolding less.prems(4) by blast
        have "below cmp (items D1) (concat (rests ?bs ?ps))"
          using less.prems(6) 2(5) unfolding below_def D1(3) tk(3) by (auto simp: sorted_wrt_append)
        moreover have "b_count D1 < M" using True D1(6) by simp
        ultimately obtain D' where "divider_loop mem cmp hs M g ?ps 0 D1 = Some D'" "buffer_wf D'" "length (b_data D') = M" "b_count D' < M"
          "b_item_size D' = b_item_size D" "ascending cmp (items D')" "set (items D') \<subseteq> set (items D1) \<union> set (concat (rests ?bs ?ps))"
          using less.hyps [OF lt len asc D1(2,4)] D1(5) by metis
        moreover from this have "set (items D') \<subseteq> set (items D) \<union> set (concat (rests ?bs ps))" unfolding D1(3) tk(3) by auto
        moreover have "divider_loop mem cmp hs M g ps cur D = divider_loop mem cmp hs M g ?ps 0 D1"
          using True sel grow D1(1) by (subst divider_loop_unfold) simp
        ultimately show ?thesis by simp
      next
        case small: False
        have "below cmp (items D) (concat (rests ?bs ?ps))" using less.prems(6) unfolding below_def tk(3) by auto
        then obtain D' where "divider_loop mem cmp hs M g ?ps ?size D = Some D'" "buffer_wf D'" "length (b_data D') = M" "b_count D' < M"
          "b_item_size D' = b_item_size D" "ascending cmp (items D')" "set (items D') \<subseteq> set (items D) \<union> set (concat (rests ?bs ?ps))"
          using less.hyps [OF lt len asc less.prems(3,4,5)] by metis
        moreover from this have "set (items D') \<subseteq> set (items D) \<union> set (concat (rests ?bs ps))" unfolding tk(3) by auto
        moreover have "divider_loop mem cmp hs M g ps cur D = divider_loop mem cmp hs M g ?ps ?size D"
          using True sel small by (subst divider_loop_unfold) simp
        ultimately show ?thesis by simp
      qed
    qed
  qed
qed

lemma fill_dividers_ok:
  "buffer_wf D \<Longrightarrow> b_count D + n \<le> length (b_data D) \<Longrightarrow> \<exists>D'. fill_dividers mem h n D = Some D' \<and> buffer_wf D'
    \<and> items D' = items D @ replicate n h \<and> b_item_size D' = b_item_size D \<and> b_count D' = b_count D + n"
proof (induction n arbitrary: D)
  case (Suc n)
  then have "b_count D < length (b_data D)" by simp
  from AddBufferItem_room [OF Suc.prems(1) this, of mem h] obtain D1 where D1: "AddBufferItem mem D h = Some D1" "buffer_wf D1" "items D1 = items D @ [h]"
    "length (b_data D1) = length (b_data D)" "b_item_size D1 = b_item_size D" "b_count D1 = Suc (b_count D)" by blast
  from Suc.IH [OF D1(2)] Suc.prems(2) D1 show ?case by auto
qed simp

lemma count_loop_total:
  "\<forall>h \<in> set hs. b_count (h_buffer h) = 1 \<longrightarrow> step_hist_last h = step_hist_common h \<Longrightarrow> \<exists>n. count_loop hs ret = Some n"
  by (induction hs arbitrary: ret) (auto simp: Let_def)

text \<open>(C30) The choice of the dividers ends for all histograms of hashes in ascending order: there is one divider
  for every reduce node, they ascend, each of them is a hash of a histogram or the greatest hash, and the
  last one is the greatest hash.\<close>

theorem dividers_complete:
  assumes ord: "hash_order cmp" and top: "\<forall>x. cmp x (replicate hashsize 0xFF) \<le> 0"
    and hs: "\<forall>h \<in> set hs. readable (h_buffer h) \<and> ascending cmp (items (h_buffer h)) \<and> (b_count (h_buffer h) = 1 \<longrightarrow> step_hist_last h = step_hist_common h)"
    and D: "buffer_wf D" "items D = []"
  shows "\<exists>D'. GetReducersDividerArrayBasedOnSummarizedHistograms mem cmp hashsize hs D = Some D' \<and> buffer_wf D' \<and> b_count D' = length (b_data D)
    \<and> ascending cmp (items D') \<and> last (items D') = replicate hashsize 0xFF
    \<and> set (items D') \<subseteq> insert (replicate hashsize 0xFF) (\<Union>h \<in> set hs. set (items (h_buffer h)))"
proof -
  let ?top = "replicate hashsize 0xFF :: hash" and ?bs = "map h_buffer hs" and ?M = "length (b_data D)"
  let ?ps = "replicate (length hs) 0"
  have M: "b_buf_size D div b_item_size D = ?M" "0 < b_item_size D" "0 < ?M" using D(1) by (simp_all add: buffer_wf_def)
  have z: "b_count D = 0" using D length_buffer_items [of D] by (simp add: buffer_wf_def)
  obtain total where total: "CalculateItemsCountBasedOnHistograms hs = Some total"
    using count_loop_total [of hs 0] hs by (auto simp: CalculateItemsCountBasedOnHistograms_def)
  have src: "\<forall>b \<in> set ?bs. readable b" using hs by auto
  have rests: "rests ?bs ?ps = map items ?bs" using rests_start [of ?bs] by simp
  have asc: "\<forall>r \<in> set (rests ?bs ?ps). ascending cmp r" unfolding rests using hs by auto
  have bl: "below cmp (items D) (concat (rests ?bs ?ps))" using D(2) by (simp add: below_def)
  obtain D1 where D1: "divider_loop mem cmp hs ?M (total div ?M) ?ps 0 D = Some D1" "buffer_wf D1" "length (b_data D1) = ?M" "b_count D1 < ?M"
    "ascending cmp (items D1)" "set (items D1) \<subseteq> set (items D) \<union> set (concat (rests ?bs ?ps))"
    using divider_loop_ok [OF ord src _ asc D(1) refl _ bl] z M(3) by (metis length_replicate)
  have "b_count D1 + (?M - b_count D1) \<le> length (b_data D1)" using D1(3,4) by simp
  from fill_dividers_ok [OF D1(2) this, of mem ?top] obtain D' where D': "fill_dividers mem ?top (?M - b_count D1) D1 = Some D'" "buffer_wf D'"
    "items D' = items D1 @ replicate (?M - b_count D1) ?top" "b_count D' = b_count D1 + (?M - b_count D1)" by blast
  have "GetReducersDividerArrayBasedOnSummarizedHistograms mem cmp hashsize hs D = Some D'"
    using total M D1(1) D'(1) by (simp add: GetReducersDividerArrayBasedOnSummarizedHistograms_def)
  moreover have "ascending cmp (items D')"
  proof -
    have "ascending cmp (replicate n ?top)" for n by (induction n) (use top in auto)
    with D1(5) top show ?thesis unfolding D'(3) by (auto simp: sorted_wrt_append)
  qed
  moreover have "last (items D') = ?top" unfolding D'(3) using D1(4) by simp
  moreover have "set (items D') \<subseteq> insert ?top (\<Union>h \<in> set hs. set (items (h_buffer h)))"
    unfolding D'(3) using D1(6) D(2) rests by auto
  ultimately show ?thesis using D'(2,4) D1(4) by auto
qed

section \<open>Baskets\<close>

definition section_of :: "'a list \<Rightarrow> nat \<times> nat \<Rightarrow> 'a list" where
  "section_of xs b = take (snd b) (drop (fst b) xs)"

text \<open>
  What is known of the items of basket \<open>i\<close>: its first item lies above the divider before, all others
  lie below its own divider.
\<close>

definition basket_ok :: "comparator \<Rightarrow> hash list \<Rightarrow> ElasticBufItemData list \<Rightarrow> nat \<Rightarrow> nat \<times> nat \<Rightarrow> bool" where
  "basket_ok cmp ds xs i b \<longleftrightarrow> fst b + snd b \<le> length xs
     \<and> (\<forall>j. fst b < j \<longrightarrow> j < fst b + snd b \<longrightarrow> cmp (key_hash (xs ! j)) (ds ! i) \<le> 0)
     \<and> (0 < snd b \<longrightarrow> (if i = 0 then cmp (key_hash (xs ! fst b)) (ds ! 0) \<le> 0 else 0 < cmp (key_hash (xs ! fst b)) (ds ! (i - 1))))"

lemma basket_ok_extend:
  assumes "basket_ok cmp ds xs i (start, j - start)" "start \<le> j" "j < length xs" "cmp (key_hash (xs ! j)) (ds ! i) \<le> 0" "start = j \<longrightarrow> i = 0"
  shows "basket_ok cmp ds xs i (start, Suc j - start)"
  using assms by (cases "start = j") (auto simp: basket_ok_def less_Suc_eq)

lemma basket_ok_start:
  assumes "j < length xs" "0 < cmp (key_hash (xs ! j)) (ds ! i)"
  shows "basket_ok cmp ds xs (Suc i) (j, Suc j - j)"
  using assms by (auto simp: basket_ok_def)

lemma basket_loop_ok:
  assumes b: "readable mapb" and D: "readable D" "n = b_count D" "0 < n" and last: "\<forall>x \<in> set (items mapb). cmp (key_hash x) (items D ! (n - 1)) \<le> 0"
  shows "j \<le> b_count mapb \<Longrightarrow> i < n \<Longrightarrow> length bs = i \<Longrightarrow> start \<le> j \<Longrightarrow> (start = j \<longrightarrow> i = 0)
    \<Longrightarrow> \<forall>k < i. basket_ok cmp (items D) (items mapb) k (bs ! k) \<Longrightarrow> concat (map (section_of (items mapb)) bs) = take start (items mapb)
    \<Longrightarrow> basket_ok cmp (items D) (items mapb) i (start, j - start)
    \<Longrightarrow> \<exists>bs'. basket_loop cmp D mapb n i (items D ! i) start (j - start) j bs = Some bs' \<and> length bs' \<le> n
      \<and> (\<forall>k < length bs'. basket_ok cmp (items D) (items mapb) k (bs' ! k)) \<and> concat (map (section_of (items mapb)) bs') = items mapb"
proof (induction "b_count mapb - j" arbitrary: i j start bs)
  case 0
  then have j: "j = b_count mapb" by simp
  let ?bs = "bs @ [(start, j - start)]"
  have dv: "\<exists>d. (if i + 1 < b_count D then BufferItem D (i + 1) else Some (items D ! i)) = Some d" using D(1) by (simp add: BufferItem_items)
  then have "basket_loop cmp D mapb n i (items D ! i) start (j - start) j bs = Some ?bs"
    using 0(3,4) j by (subst basket_loop.simps) (auto simp: basket_loop.simps [of _ _ _ _ _ _ _ _ "Suc (b_count mapb)"])
  moreover have "\<forall>k < length ?bs. basket_ok cmp (items D) (items mapb) k (?bs ! k)" using 0(4,7,9) by (auto simp: less_Suc_eq nth_append)
  moreover have "concat (map (section_of (items mapb)) ?bs) = items mapb" using 0(5,8) j b by (simp add: section_of_def [of _ "(start, b_count mapb - start)"])
  ultimately show ?case using 0(3,4) by (intro exI [of _ ?bs]) simp
next
  case (Suc m)
  have j: "j < b_count mapb" using Suc.hyps(2) by simp
  then have item: "BufferItem mapb j = Some (items mapb ! j)" "items mapb ! j \<in> set (items mapb)" "j < length (items mapb)" using b by (simp_all add: BufferItem_items)
  have m: "m = b_count mapb - Suc j" using Suc.hyps(2) by simp
  show ?case
  proof (cases "0 < cmp (key_hash (items mapb ! j)) (items D ! i)")
    case False
    have "basket_ok cmp (items D) (items mapb) i (start, Suc j - start)"
      using basket_ok_extend [OF Suc.prems(8,4) item(3) _ Suc.prems(5)] False by simp
    moreover have "basket_loop cmp D mapb n i (items D ! i) start (j - start) j bs = basket_loop cmp D mapb n i (items D ! i) start (Suc j - start) (Suc j) bs"
      using j item(1) False Suc.prems(4) by (subst basket_loop.simps) (simp add: Suc_diff_le)
    ultimately show ?thesis using Suc.hyps(1) [OF m, of i bs start] Suc.prems j by simp
  next
    case True
    then have i: "Suc i < n" using last item(2) Suc.prems(2) by (metis Suc_lessI diff_Suc_1 not_le)
    let ?bs = "bs @ [(start, j - start)]"
    have "BufferItem D (i + 1) = Some (items D ! Suc i)" using i D by (simp add: BufferItem_items)
    then have "basket_loop cmp D mapb n i (items D ! i) start (j - start) j bs = basket_loop cmp D mapb n (Suc i) (items D ! Suc i) j (Suc j - j) (Suc j) ?bs"
      using j item(1) True i D(2) Suc.prems(2,3) by (subst basket_loop.simps) simp
    moreover have "basket_ok cmp (items D) (items mapb) (Suc i) (j, Suc j - j)" using basket_ok_start item(3) True by blast
    moreover have "\<forall>k < Suc i. basket_ok cmp (items D) (items mapb) k (?bs ! k)" using Suc.prems(3,6,8) by (auto simp: less_Suc_eq nth_append)
    moreover have "concat (map (section_of (items mapb)) ?bs) = take j (items mapb)"
      using Suc.prems(4,7) take_add [of start "j - start" "items mapb"] by (simp add: section_of_def [of _ "(start, j - start)"])
    ultimately show ?thesis using Suc.hyps(1) [OF m, of "Suc i" ?bs j] i j Suc.prems(3) by simp
  qed
qed

lemma baskets_ok:
  assumes b: "readable mapb" and D: "readable D" "0 < b_count D" and last: "\<forall>x \<in> set (items mapb). cmp (key_hash x) (last (items D)) \<le> 0"
  shows "\<exists>bs. DistributeDataIntoBaskets cmp D mapb (b_count D) = Some bs \<and> length bs = b_count D
    \<and> concat (map (section_of (items mapb)) bs) = items mapb \<and> (\<forall>k < length bs. basket_ok cmp (items D) (items mapb) k (bs ! k))"
proof -
  let ?n = "b_count D"
  have "items D \<noteq> []" using D by (metis length_buffer_items length_greater_0_conv)
  then have last': "\<forall>x \<in> set (items mapb). cmp (key_hash x) (items D ! (?n - 1)) \<le> 0" using last D by (simp add: last_conv_nth)
  have "basket_ok cmp (items D) (items mapb) 0 (0, 0 - 0)" by (simp add: basket_ok_def)
  then obtain bs where bs: "basket_loop cmp D mapb ?n 0 (items D ! 0) 0 0 0 [] = Some bs" "length bs \<le> ?n"
    "\<forall>k < length bs. basket_ok cmp (items D) (items mapb) k (bs ! k)" "concat (map (section_of (items mapb)) bs) = items mapb"
    using basket_loop_ok [where cmp = cmp and mapb = mapb and D = D and n = ?n and j = 0 and i = 0 and bs = "[]" and start = 0] b D last' by auto
  let ?bs = "bs @ replicate (?n - length bs) (0, 0)"
  have "DistributeDataIntoBaskets cmp D mapb ?n = Some ?bs" using bs(1) D by (simp add: DistributeDataIntoBaskets_def BufferItem_items)
  moreover have "\<forall>k < length ?bs. basket_ok cmp (items D) (items mapb) k (?bs ! k)"
    using bs(3) by (auto simp: nth_append basket_ok_def)
  moreover have "concat (map (section_of (items mapb)) ?bs) = items mapb" using bs(4) by (simp add: section_of_def)
  ultimately show ?thesis using bs(2) by (intro exI [of _ ?bs]) simp
qed

text \<open>(C31) The distribution over the baskets loses and doubles nothing: when no hash lies above the last divider,
  the sections of the baskets, one for every divider, are the items in their order. In every basket the first item lies above the divider before
  and all further items lie below the divider of the basket.\<close>

theorem baskets_divide_items:
  assumes b: "readable mapb" and D: "readable D" "0 < b_count D" and last: "\<forall>x \<in> set (items mapb). cmp (key_hash x) (last (items D)) \<le> 0"
  shows "\<exists>bs. DistributeDataIntoBaskets cmp D mapb (b_count D) = Some bs \<and> length bs = b_count D
    \<and> concat (map (section_of (items mapb)) bs) = items mapb \<and> (\<forall>k < length bs. basket_ok cmp (items D) (items mapb) k (bs ! k))"
  using assms by (rule baskets_ok)

text \<open>A hash that lies above several dividers goes to the wrong reduce node: the first item behind a
  divider is counted into the next basket whatever the divider of that basket. A single item whose hash
  lies above the first two of three dividers is sent to the second reduce node and not to the third.\<close>

theorem basket_skips_no_divider:
  assumes b: "readable mapb" "items mapb = [x]" and D: "readable D" "items D = [d0, d1, d2]"
    and x: "0 < cmp (key_hash x) d0" "0 < cmp (key_hash x) d1"
  shows "DistributeDataIntoBaskets cmp D mapb (b_count D) = Some [(0, 0), (0, 1), (0, 0)]"
proof -
  have n: "b_count mapb = 1" "b_count D = 3" using b D by (metis length_buffer_items length_Cons list.size(3) One_nat_def, metis length_buffer_items length_Cons list.size(3) numeral_3_eq_3)
  have "BufferItem mapb 0 = Some x" "BufferItem D 0 = Some d0" "BufferItem D 1 = Some d1" "BufferItem D 2 = Some d2"
    using b D n by (simp_all add: BufferItem_items)
  then show ?thesis using n x(1) by (simp add: DistributeDataIntoBaskets_def basket_loop.simps numeral_2_eq_2 numeral_3_eq_3)
qed

section \<open>Sending\<close>

definition sinks :: "'w writer \<Rightarrow> ('w \<Rightarrow> int \<Rightarrow> byte list) \<Rightarrow> bool" where
  "sinks g out \<longleftrightarrow> (\<forall>h. takes_all g h (\<lambda>w. out w h)) \<and> (\<forall>h h'. h \<noteq> h' \<longrightarrow> keeps (\<lambda>w. out w h') g h)"

lemma section_length: "length (packet flag (section_of xs b)) \<le> length (packet 0 xs)"
proof -
  let ?y = "section_of xs b"
  have "xs = take (fst b) xs @ ?y @ drop (snd b) (drop (fst b) xs)" by (simp only: section_of_def append_take_drop_id)
  then have "length (concat (map item_bytes xs)) = length (concat (map item_bytes (take (fst b) xs @ ?y @ drop (snd b) (drop (fst b) xs))))" by simp
  then show ?thesis by (simp add: packet_def)
qed

lemma send_loop_ok:
  assumes g: "sinks g out" and b: "readable mapb" "\<forall>x \<in> set (items mapb). item_ok (hash_size mif) (value_addr_is_data mif) x" "length (packet 0 (items mapb)) < 2 ^ 31"
  shows "serves EReduceNode EChannelModeWrite chif ns hs \<Longrightarrow> distinct hs \<Longrightarrow> length bs = length ns \<Longrightarrow> \<forall>b \<in> set bs. fst b + snd b \<le> b_count mapb \<Longrightarrow> wr_buf bio = []
    \<Longrightarrow> \<exists>bio' w'. send_loop g mif chif mapb flag ns bs (bio, w) = Some (bio', w')
      \<and> list_all2 (\<lambda>h b. out w' h = out w h @ framed flag (section_of (items mapb) b)) hs bs \<and> (\<forall>h. h \<notin> set hs \<longrightarrow> out w' h = out w h)"
proof (induction ns arbitrary: hs bs bio w)
  case Nil
  then show ?case by (simp add: serves_def)
next
  case (Cons n ns)
  obtain h hs' c where hs: "hs = h # hs'" and c: "Channel chif EReduceNode n EChannelModeWrite = Some (Some c)" "int (uc_fd c) = h"
    and sv: "serves EReduceNode EChannelModeWrite chif ns hs'" using Cons.prems(1) by (auto simp: serves_def list_all2_Cons1)
  obtain b bs' where bs: "bs = b # bs'" "length bs' = length ns" using Cons.prems(3) by (cases bs) auto
  have d: "distinct hs'" "h \<notin> set hs'" using Cons.prems(2) by (simp_all add: hs)
  have th: "takes_all g h (\<lambda>w. out w h)" using g by (simp add: sinks_def)
  have fits: "length (packet flag (section_of (items mapb) b)) < 2 ^ 31" using section_length b(3) by (rule le_less_trans)
  have e: "fst b + snd b \<le> b_count mapb" "length (wr_buf bio) \<le> wr_bufmax bio" using Cons.prems(4,5) by (simp_all add: bs)
  from WriteDataToReduce_ok [OF th assms(2,3) e fits [unfolded section_of_def], where w = w] obtain bio1 w1 where
    w1: "WriteDataToReduce g (hash_size mif) (value_addr_is_data mif) bio h mapb (fst b) (snd b) flag w = Some (bio1, w1)" "wr_buf bio1 = []"
    "out w1 h = out w h @ framed flag (section_of (items mapb) b)" using Cons.prems(5) by (auto simp: section_of_def)
  have keep: "out w1 h' = out w h'" if "h' \<noteq> h" for h'
    using WriteDataToReduce_keeps [OF _ w1(1), where P = "\<lambda>w. out w h'"] g that by (simp add: sinks_def)
  have "\<forall>b \<in> set bs'. fst b + snd b \<le> b_count mapb" using Cons.prems(4) by (simp add: bs)
  from Cons.IH [OF sv d(1) bs(2) this w1(2), of w1] obtain bio' w' where ih: "send_loop g mif chif mapb flag ns bs' (bio1, w1) = Some (bio', w')"
    "list_all2 (\<lambda>h b. out w' h = out w1 h @ framed flag (section_of (items mapb) b)) hs' bs'" "\<forall>h. h \<notin> set hs' \<longrightarrow> out w' h = out w1 h" by blast
  have "list_all2 (\<lambda>h b. out w' h = out w h @ framed flag (section_of (items mapb) b)) hs' bs'"
    using ih(2) d(2) keep by (auto simp: list_all2_conv_all_nth) (metis nth_mem)
  moreover have "send_loop g mif chif mapb flag (n # ns) bs (bio, w) = Some (bio', w')" using c w1(1) ih(1) by (simp add: bs)
  moreover have "out w' h = out w h @ framed flag (section_of (items mapb) b)" using ih(3) d(2) w1(3) by simp
  moreover have "\<forall>h'. h' \<notin> set hs \<longrightarrow> out w' h' = out w h'" using ih(3) keep by (simp add: hs)
  ultimately show ?case by (simp add: hs bs)
qed

lemma sections_sent:
  assumes g: "sinks g out" and mem: "mem SEND_BUFFER_SIZE"
    and nodes: "GetNodesListByType chif EReduceNode = Some (ns, chif')" "serves EReduceNode EChannelModeWrite chif' ns hs" "distinct hs"
    and D: "readable D" "0 < b_count D" "b_count D = length ns"
    and b: "readable mapb" "\<forall>x \<in> set (items mapb). item_ok (hash_size mif) (value_addr_is_data mif) x" "length (packet 0 (items mapb)) < 2 ^ 31"
    and last: "\<forall>x \<in> set (items mapb). ComparatorHash mif (key_hash x) (last (items D)) \<le> 0"
  shows "\<exists>w' xss. MapSendToAllReducers mem g mif D chif last_data mapb w = Some (chif', w') \<and> concat xss = items mapb
    \<and> list_all2 (\<lambda>h xs. out w' h = out w h @ framed (if last_data then 1 else 0) xs) hs xss \<and> (\<forall>h. h \<notin> set hs \<longrightarrow> out w' h = out w h)"
proof -
  from baskets_ok [where cmp = "ComparatorHash mif", OF b(1) D(1,2) last] obtain bs where bs: "DistributeDataIntoBaskets (ComparatorHash mif) D mapb (b_count D) = Some bs" "length bs = b_count D"
    "concat (map (section_of (items mapb)) bs) = items mapb" "\<forall>k < length bs. basket_ok (ComparatorHash mif) (items D) (items mapb) k (bs ! k)" by blast
  have "\<forall>k < length bs. fst (bs ! k) + snd (bs ! k) \<le> b_count mapb" using bs(4) b(1) by (simp add: basket_ok_def)
  then have "\<forall>x \<in> set bs. fst x + snd x \<le> b_count mapb" by (metis in_set_conv_nth)
  moreover have "length bs = length ns" using bs(2) D(3) by simp
  moreover have "wr_buf (AllocBufferedIOWrite SEND_BUFFER_SIZE) = []" by (simp add: AllocBufferedIOWrite_def)
  ultimately obtain bio' w' where w': "send_loop g mif chif' mapb (if last_data then 1 else 0) ns bs (AllocBufferedIOWrite SEND_BUFFER_SIZE, w) = Some (bio', w')"
    "list_all2 (\<lambda>h b. out w' h = out w h @ framed (if last_data then 1 else 0) (section_of (items mapb) b)) hs bs" "\<forall>h. h \<notin> set hs \<longrightarrow> out w' h = out w h"
    using send_loop_ok [OF g b nodes(2,3)] by blast
  have "MapSendToAllReducers mem g mif D chif last_data mapb w = Some (chif', w')"
    using bs(1) nodes(1) D(3) mem w'(1) by (simp add: MapSendToAllReducers_def)
  then show ?thesis using w'(2,3) bs(3) by (intro exI [of _ w'] exI [of _ "map (section_of (items mapb)) bs"]) (simp add: list_all2_map2)
qed

end
