(* ===== verification/MrExchangeProps.thy ===== *)
theory MrExchangeProps
  imports MrMapProps
begin

text \<open>
  The map nodes agree: after the exchange every map node holds the histograms of all map nodes, so that all
  of them choose the same dividers.
\<close>

section \<open>A histogram over a channel\<close>

definition histogram_ok :: "Histogram \<Rightarrow> bool" where
  "histogram_ok h \<longleftrightarrow> buffer_wf (h_buffer h) \<and> b_item_size (h_buffer h) < 2 ^ 31 \<and> b_buf_size (h_buffer h) < 2 ^ 31
     \<and> (\<forall>x. Some x \<in> set (b_data (h_buffer h)) \<longrightarrow> length x = b_item_size (h_buffer h))
     \<and> step_hist_common h < 2 ^ 16 \<and> step_hist_last h < 2 ^ 16"

text \<open>Equal for all that the choice of the dividers looks at.\<close>

definition alike :: "Histogram \<Rightarrow> Histogram \<Rightarrow> bool" where
  "alike h h' \<longleftrightarrow> step_hist_common h' = step_hist_common h \<and> step_hist_last h' = step_hist_last h
     \<and> readable (h_buffer h) \<and> readable (h_buffer h') \<and> items (h_buffer h') = items (h_buffer h)"

lemma alike_count: "alike h h' \<Longrightarrow> b_count (h_buffer h') = b_count (h_buffer h)"
  unfolding alike_def by (metis length_buffer_items)

lemma short_bytes: "x < 2 ^ 16 \<Longrightarrow> bytes_short (short_bytes x) = x" "length (short_bytes x) = 2"
proof -
  assume "x < 2 ^ 16"
  then have "x div 256 < 256" by (simp add: div_less_iff_less_mult)
  then have "unat (word_of_nat (x div 256) :: byte) = x div 256" by (simp add: unat_of_nat)
  moreover have "unat (word_of_nat x :: byte) = x mod 256" by (simp add: unat_of_nat)
  ultimately show "bytes_short (short_bytes x) = x" by (simp add: bytes_short_def short_bytes_def)
qed (simp add: short_bytes_def)

lemma bytes_nat_int_bytes: "n < 2 ^ 31 \<Longrightarrow> bytes_nat (int_bytes (int n)) = n"
  by (simp add: bytes_nat_def bytes_int_bytes s32_id)

lemma histogram_bytes_fields:
  assumes "length ptr = 4"
  shows "length (histogram_bytes ptr h) = 24" "take 4 (histogram_bytes ptr h) = int_bytes (src_nodeid h)"
    "take 2 (drop 4 (histogram_bytes ptr h)) = short_bytes (step_hist_common h)" "take 2 (drop 6 (histogram_bytes ptr h)) = short_bytes (step_hist_last h)"
    "take 4 (drop 12 (histogram_bytes ptr h)) = int_bytes (int (b_item_size (h_buffer h)))"
    "take 4 (drop 16 (histogram_bytes ptr h)) = int_bytes (int (b_count (h_buffer h)))"
  using assms by (simp_all add: histogram_bytes_def short_bytes(2))

lemma length_concat_equal: "\<forall>x \<in> set xs. length x = n \<Longrightarrow> length (concat xs) = length xs * n"
  by (induction xs) simp_all

lemma concat_chunk: "\<forall>x \<in> set xs. length x = n \<Longrightarrow> i < length xs \<Longrightarrow> take n (drop (i * n) (concat xs)) = xs ! i"
proof (induction xs arbitrary: i)
  case (Cons x xs)
  then show ?case by (cases i) simp_all
qed simp

text \<open>The slots as they go over the channel, and the part of them that is read.\<close>

lemma fill_slots_items:
  assumes h: "histogram_ok h" and m: "m \<le> length (b_data (h_buffer h))" "b_count (h_buffer h) \<le> m"
  shows "\<forall>i < b_count (h_buffer h). fill_slots (b_item_size (h_buffer h)) m (take (m * b_item_size (h_buffer h)) (slots_bytes (h_buffer h))) ! i
      = Some (items (h_buffer h) ! i)" "length (slots_bytes (h_buffer h)) = b_buf_size (h_buffer h)"
proof -
  let ?b = "h_buffer h" and ?n = "b_item_size (h_buffer h)"
  define xs where "xs = map (\<lambda>s. case s of Some x \<Rightarrow> x | None \<Rightarrow> replicate ?n (0 :: byte)) (b_data ?b)"
  have xs: "\<forall>x \<in> set xs. length x = ?n" using h by (auto simp: xs_def histogram_ok_def split: option.splits)
  have wf: "readable ?b" "b_buf_size ?b = ?n * length (b_data ?b)" "0 < length (b_data ?b)" using h by (simp_all add: histogram_ok_def buffer_wf_def)
  have sb: "slots_bytes ?b = concat xs" by (simp add: slots_bytes_def xs_def)
  show len: "length (slots_bytes ?b) = b_buf_size ?b"
    using length_concat_equal [OF xs] wf(2) by (simp add: sb xs_def mult.commute)
  show "\<forall>i < b_count ?b. fill_slots ?n m (take (m * ?n) (slots_bytes ?b)) ! i = Some (items ?b ! i)"
  proof (intro allI impI)
    fix i assume i: "i < b_count ?b"
    then have im: "i < m" "i < length xs" using m by (simp_all add: xs_def)
    have le: "(i + 1) * ?n \<le> m * ?n" using im(1) by (intro mult_le_mono) simp_all
    moreover have "m * ?n \<le> length (slots_bytes ?b)" unfolding len wf(2) using m(1) by (simp add: mult.commute)
    ultimately have "fill_slots ?n m (take (m * ?n) (slots_bytes ?b)) ! i = Some (take ?n (drop (i * ?n) (take (m * ?n) (slots_bytes ?b))))"
      using im(1) by (simp add: fill_slots_def)
    also have "take ?n (drop (i * ?n) (take (m * ?n) (slots_bytes ?b))) = take ?n (drop (i * ?n) (slots_bytes ?b))"
      using le by (simp add: drop_take min_def)
    also have "\<dots> = xs ! i" unfolding sb by (rule concat_chunk [OF xs im(2)])
    also have "\<dots> = items ?b ! i" using i wf(1) by (auto simp: xs_def items_def readable_def split: option.splits)
    finally show "fill_slots ?n m (take (m * ?n) (slots_bytes ?b)) ! i = Some (items ?b ! i)" .
  qed
qed

lemma ReadHistogram_ok:
  assumes f: "gives_all f h (\<lambda>w. rest w h)" and r: "rest w h = histogram_bytes ptr g @ slots_bytes (h_buffer g) @ tail"
    and ok: "histogram_ok g" "length ptr = 4" and mem: "\<forall>n < 2 ^ 31. mem n"
    and i: "i < length hs" "b_count (h_buffer (hs ! i)) = 0"
  shows "\<exists>g' n. ReadHistogramFromNode mem f i h (hs, w) = Some (hs[i := g'], snd (f h n (snd (f h 24 w)))) \<and> alike g g'"
proof -
  let ?b = "h_buffer g" and ?n = "b_item_size (h_buffer g)"
  let ?m = "max 1 (b_count ?b)"
  have wf: "readable ?b" "b_buf_size ?b = ?n * length (b_data ?b)" "0 < length (b_data ?b)" "0 < ?n" "b_count ?b \<le> length (b_data ?b)"
    using ok(1) by (simp_all add: histogram_ok_def buffer_wf_def readable_def)
  have m: "?m \<le> length (b_data ?b)" "b_count ?b \<le> ?m" using wf(3,5) by (linarith, simp)
  then have mn: "?m * ?n \<le> b_buf_size ?b" unfolding wf(2) by (simp add: mult.commute)
  have small: "b_buf_size ?b < 2 ^ 31" "?n < 2 ^ 31" using ok(1) by (simp_all add: histogram_ok_def)
  have "b_count ?b * 1 \<le> ?m * ?n" using wf(4) by (intro mult_le_mono) auto
  then have cnt: "b_count ?b < 2 ^ 31" using mn small(1) by linarith
  have "fst (f h 24 w) = (24, histogram_bytes ptr g)" and r1: "rest (snd (f h 24 w)) h = slots_bytes ?b @ tail"
    using f r histogram_bytes_fields(1) [OF ok(2), of g] by (simp_all add: gives_all_def)
  then obtain w1 where w1: "f h 24 w = ((24, histogram_bytes ptr g), w1)" "rest w1 h = slots_bytes ?b @ tail" by (metis prod.collapse)
  have "?m * ?n < 2 ^ 31" using mn small(1) by linarith
  then have "?m * ?n < SIZE_T_MOD" "mem (?m * ?n)" using mem by (simp_all del: max_less_iff_conj)
  then obtain buf :: "hash Buffer" where buf: "IF_ALLOC_ERROR (AllocBuffer mem ?n (b_count ?b)) = Some buf" "buffer_wf buf" "length (b_data buf) = ?m" "b_item_size buf = ?n"
    using AllocBuffer_ok [of ?n "b_count ?b" mem] wf(4) by blast
  have bs: "b_buf_size buf = ?m * ?n" using buf(2-4) by (simp add: buffer_wf_def mult.commute)
  note fs = fill_slots_items [OF ok(1) m]
  have "fst (f h (?m * ?n) w1) = (int (?m * ?n), take (?m * ?n) (slots_bytes ?b))"
    using f w1(2) fs(2) mn by (simp add: gives_all_def)
  then obtain w2 where w2: "f h (?m * ?n) w1 = ((int (?m * ?n), take (?m * ?n) (slots_bytes ?b)), w2)" by (metis prod.collapse)
  define g' where "g' = \<lparr>src_nodeid = bytes_int (int_bytes (src_nodeid g)), step_hist_common = step_hist_common g, step_hist_last = step_hist_last g,
     h_buffer = buf\<lparr>b_count := b_count ?b, b_data := fill_slots ?n ?m (take (?m * ?n) (slots_bytes ?b))\<rparr>\<rparr>"
  have "step_hist_common g < 2 ^ 16" "step_hist_last g < 2 ^ 16" using ok(1) by (simp_all add: histogram_ok_def)
  moreover have "bytes_int (int_bytes (int ?n)) = int ?n" using small(2) by (simp add: bytes_int_bytes s32_id)
  moreover have "0 < ?m * ?n" using wf(4) by simp
  ultimately have "ReadHistogramFromNode mem f i h (hs, w) = Some (hs[i := g'], w2)"
    using i w1(1) w2 buf cnt bs
    by (simp add: ReadHistogramFromNode_def histogram_bytes_fields [OF ok(2)] short_bytes bytes_nat_int_bytes g'_def Let_def)
  moreover have "alike g g'"
  proof -
    have len: "length (fill_slots ?n ?m (take (?m * ?n) (slots_bytes ?b))) = ?m" by (simp add: fill_slots_def)
    have rd: "readable (h_buffer g')" using fs(1) len m(2) by (simp add: readable_def g'_def)
    moreover have "items (h_buffer g') = items ?b"
    proof (rule nth_equalityI)
      show "length (items (h_buffer g')) = length (items ?b)" using rd wf(1) by (simp add: g'_def)
      fix j assume "j < length (items (h_buffer g'))"
      then have "j < b_count ?b" using rd by (simp add: g'_def)
      then show "items (h_buffer g') ! j = items ?b ! j" using fs(1) len m(2) by (simp add: items_def [of "h_buffer g'"]) (simp add: g'_def)
    qed
    ultimately show ?thesis using wf(1) by (simp add: alike_def g'_def)
  qed
  ultimately show ?thesis using w1(1) w2 by (intro exI [of _ g'] exI [of _ "?m * ?n"]) simp
qed

section \<open>Dividers of histograms that are alike\<close>

lemma count_loop_alike: "list_all2 alike hs hs' \<Longrightarrow> count_loop hs' ret = count_loop hs ret"
proof (induction arbitrary: ret rule: list_all2_induct)
  case (Cons h hs h' hs')
  then show ?case by (simp add: alike_count [OF Cons.hyps(1)] Let_def) (simp add: alike_def)
qed simp

lemma rests_alike: "list_all2 alike hs hs' \<Longrightarrow> rests (map h_buffer hs') ps = rests (map h_buffer hs) ps"
proof (induction arbitrary: ps rule: list_all2_induct)
  case (Cons h hs h' hs')
  then show ?case by (cases ps) (simp_all add: rests_def alike_def)
qed (simp add: rests_def)

lemma list_all2_alike_readable: "list_all2 alike hs hs' \<Longrightarrow> (\<forall>b \<in> set (map h_buffer hs). readable b) \<and> (\<forall>b \<in> set (map h_buffer hs'). readable b)"
  by (induction rule: list_all2_induct) (auto simp: alike_def)

lemma select_alike:
  assumes "list_all2 alike hs hs'"
  shows "SelectNextHistogramWithMinimalHash cmp hs' ps = SelectNextHistogramWithMinimalHash cmp hs ps"
proof -
  have "\<forall>b \<in> set (map h_buffer hs). readable b" "\<forall>b \<in> set (map h_buffer hs'). readable b" using list_all2_alike_readable [OF assms] by simp_all
  from minimum_loop_rests [OF this(1)] minimum_loop_rests [OF this(2)] show ?thesis
    by (simp add: SelectNextHistogramWithMinimalHash_def rests_alike [OF assms])
qed

lemma min_head_index: "min_head h cmp i rs best = Some (k, m) \<Longrightarrow> best = Some (k, m) \<or> (\<exists>j. j < length rs \<and> k = i + j \<and> rs ! j \<noteq> [])"
proof (induction h cmp i rs best rule: min_head.induct)
  case (2 h cmp i rs best)
  then show ?case by (fastforce simp: less_Suc_eq_0_disj)
next
  case (3 h cmp i x r rs best)
  then have "min_head h cmp (Suc i) rs (case best of None \<Rightarrow> Some (i, h x) | Some (_, m) \<Rightarrow> if cmp (h x) m \<le> 0 then Some (i, h x) else best) = Some (k, m)" by simp
  from "3.IH" [OF this] show ?case
  proof
    assume "(case best of None \<Rightarrow> Some (i, h x) | Some (_, m) \<Rightarrow> if cmp (h x) m \<le> 0 then Some (i, h x) else best) = Some (k, m)"
    then have "best = Some (k, m) \<or> k = i" by (auto split: option.splits if_splits)
    then show ?thesis by (auto intro: exI [of _ 0])
  next
    assume "\<exists>j. j < length rs \<and> k = Suc i + j \<and> rs ! j \<noteq> []"
    then obtain j where "j < length rs" "k = Suc i + j" "rs ! j \<noteq> []" by blast
    then show ?thesis by (intro disjI2 exI [of _ "Suc j"]) simp
  qed
qed simp

lemma selected_alike:
  assumes a: "list_all2 alike hs hs'" and k: "SelectNextHistogramWithMinimalHash cmp hs ps = Some (Some k)"
  shows "BufferItem (h_buffer (hs' ! k)) (ps ! k) = BufferItem (h_buffer (hs ! k)) (ps ! k)" "block_size (hs' ! k) i = block_size (hs ! k) i"
proof -
  let ?bs = "map h_buffer hs"
  have "\<forall>b \<in> set ?bs. readable b" using list_all2_alike_readable [OF a] by blast
  with k obtain m where "min_head (\<lambda>h. h) cmp 0 (rests ?bs ps) None = Some (k, m)"
    by (auto simp: SelectNextHistogramWithMinimalHash_def minimum_loop_rests)
  from min_head_index [OF this] have j: "k < length (rests ?bs ps)" "rests ?bs ps ! k \<noteq> []" by auto
  then have kh: "k < length hs" "k < length ps" by (simp_all add: rests_def)
  then have al: "alike (hs ! k) (hs' ! k)" using a by (simp add: list_all2_conv_all_nth)
  have "ps ! k < length (items (h_buffer (hs ! k)))" using j(2) kh by (simp add: rests_def)
  then have "ps ! k < b_count (h_buffer (hs ! k))" using al by (simp add: alike_def)
  then show "BufferItem (h_buffer (hs' ! k)) (ps ! k) = BufferItem (h_buffer (hs ! k)) (ps ! k)"
    using al alike_count [OF al] by (simp add: BufferItem_items alike_def)
  show "block_size (hs' ! k) i = block_size (hs ! k) i" using al alike_count [OF al] by (simp add: block_size_def alike_def)
qed

lemma divider_loop_alike:
  assumes "divider_loop mem cmp hs M g ps cur D = Some D'" "list_all2 alike hs hs'"
  shows "divider_loop mem cmp hs' M g ps cur D = Some D'"
proof -
  let ?P = "\<lambda>mem cmp hs M g ps cur D D'. \<forall>hs'. list_all2 alike hs hs' \<longrightarrow> divider_loop mem cmp hs' M g ps cur D = Some D'"
  have "?P mem cmp hs M g ps cur D D'"
  proof (rule divider_loop.raw_induct [where P = ?P, OF _ assms(1)])
    fix dl mem cmp hs M g ps cur D D'
    assume ih: "\<And>mem cmp hs M g ps cur D y. dl mem cmp hs M g ps cur D = Some y \<Longrightarrow> ?P mem cmp hs M g ps cur D y"
      and body: "(if b_count D + 1 < M then Option.bind (SelectNextHistogramWithMinimalHash cmp hs ps) (\<lambda>m. case m of
          None \<Rightarrow> Some D
        | Some k \<Rightarrow>
            (let i = ps ! k; size = (cur + block_size (hs ! k) i) mod SIZE_T_MOD
             in Option.bind (BufferItem (h_buffer (hs ! k)) i) (\<lambda>hash.
                if g \<le> size then Option.bind (AddBufferItem mem D hash) (dl mem cmp hs M g (ps[k := i + 1]) 0)
                else dl mem cmp hs M g (ps[k := i + 1]) size D))) else Some D) = Some D'"
    show "?P mem cmp hs M g ps cur D D'"
    proof (intro allI impI)
      fix hs' assume al: "list_all2 alike hs hs'"
      show "divider_loop mem cmp hs' M g ps cur D = Some D'"
      proof (cases "b_count D + 1 < M \<and> SelectNextHistogramWithMinimalHash cmp hs ps \<noteq> Some None")
        case False
        then show ?thesis using body by (subst divider_loop_unfold) (auto simp: select_alike [OF al] split: if_splits)
      next
        case True
        then obtain k x where k: "SelectNextHistogramWithMinimalHash cmp hs ps = Some (Some k)" and x: "BufferItem (h_buffer (hs ! k)) (ps ! k) = Some x"
          using body by (auto simp: bind_eq_Some_conv Let_def split: option.splits)
        note sa = selected_alike [OF al k]
        show ?thesis
        proof (cases "g \<le> (cur + block_size (hs ! k) (ps ! k)) mod SIZE_T_MOD")
          case grow: True
          then obtain D1 where D1: "AddBufferItem mem D x = Some D1" "dl mem cmp hs M g (ps[k := ps ! k + 1]) 0 D1 = Some D'"
            using body True k x by (auto simp: bind_eq_Some_conv Let_def)
          have "divider_loop mem cmp hs' M g (ps[k := ps ! k + 1]) 0 D1 = Some D'" using ih [OF D1(2)] al by blast
          then show ?thesis using True k x grow D1(1) by (subst divider_loop_unfold) (simp add: select_alike [OF al] sa)
        next
          case small: False
          then have "dl mem cmp hs M g (ps[k := ps ! k + 1]) ((cur + block_size (hs ! k) (ps ! k)) mod SIZE_T_MOD) D = Some D'"
            using body True k x by (simp add: Let_def)
          then have "divider_loop mem cmp hs' M g (ps[k := ps ! k + 1]) ((cur + block_size (hs ! k) (ps ! k)) mod SIZE_T_MOD) D = Some D'"
            using ih al by blast
          then show ?thesis using True k x small by (subst divider_loop_unfold) (simp add: select_alike [OF al] sa)
        qed
      qed
    qed
  qed
  then show ?thesis using assms(2) by blast
qed

lemma dividers_alike:
  assumes "GetReducersDividerArrayBasedOnSummarizedHistograms mem cmp hashsize hs D = Some D'" "list_all2 alike hs hs'"
  shows "GetReducersDividerArrayBasedOnSummarizedHistograms mem cmp hashsize hs' D = Some D'"
  using assms(1) divider_loop_alike [OF _ assms(2)] list_all2_lengthD [OF assms(2)]
  by (auto simp: GetReducersDividerArrayBasedOnSummarizedHistograms_def CalculateItemsCountBasedOnHistograms_def count_loop_alike [OF assms(2)]
      Let_def bind_eq_Some_conv split: if_splits)

section \<open>The exchange\<close>

text \<open>
  The channels of the map nodes, whose ids are \<open>1 \<dots> n\<close>, as node \<open>own\<close> sees them: \<open>rfd\<close> and \<open>wfd\<close> are the
  descriptors it reads the other nodes from and writes to them.
\<close>

definition connected :: "ChannelsConfigInterface \<Rightarrow> nat \<Rightarrow> nat \<Rightarrow> (nat \<Rightarrow> int) \<Rightarrow> (nat \<Rightarrow> int) \<Rightarrow> bool" where
  "connected chif n own rfd wfd \<longleftrightarrow> own < n \<and> ownnodeid chif = int (Suc own)
     \<and> inj_on rfd ({0..<n} - {own}) \<and> inj_on wfd ({0..<n} - {own}) \<and> Channel chif EMapNode (Suc own) EChannelModeWrite \<noteq> None
     \<and> (\<forall>j < n. j \<noteq> own \<longrightarrow> (\<exists>c. Channel chif EMapNode (Suc j) EChannelModeWrite = Some (Some c) \<and> int (uc_fd c) = wfd j)
       \<and> (\<exists>c. Channel chif EMapNode (Suc j) EChannelModeRead = Some (Some c) \<and> int (uc_fd c) = rfd j))"

lemma connected_distinct:
  assumes "connected chif n own rfd wfd" "i < n" "j < n" "i \<noteq> own" "j \<noteq> own" "i \<noteq> j"
  shows "rfd i \<noteq> rfd j" "wfd i \<noteq> wfd j"
  using assms unfolding connected_def by (auto dest: inj_onD)

text \<open>A histogram on its way, and what the descriptors of a node have received of it.\<close>

definition histogram_message :: "byte list \<Rightarrow> Histogram \<Rightarrow> byte list" where
  "histogram_message ptr h = histogram_bytes ptr h @ slots_bytes (h_buffer h)"

lemma WriteHistogram_ok:
  assumes g: "\<forall>h h'. keeps (\<lambda>w. rest w h') g h" "sinks g out" and own: "own < length hs"
  shows "\<exists>w'. WriteHistogramToNode g ptr (int own) i fd (hs, w) = Some (hs, w') \<and> (\<forall>h. rest w' h = rest w h)
    \<and> (\<forall>h. out w' h = out w h @ (if h = fd then histogram_message ptr (hs ! own) else []))"
  using own g by (simp add: WriteHistogramToNode_def Let_def keeps_def sinks_def takes_all_def histogram_message_def)

lemma write_to_others_ok:
  assumes c: "connected chif n own rfd wfd" and g: "\<forall>h h'. keeps (\<lambda>w. rest w h') g h" "sinks g out" and own: "own < length hs"
  shows "i \<le> n \<Longrightarrow> \<exists>w'. write_to_others (WriteHistogramToNode g ptr (int own)) chif EMapNode i (map Suc [i..<n]) (hs, w) = Some (hs, w')
    \<and> (\<forall>h. rest w' h = rest w h) \<and> (\<forall>j < n. j \<noteq> own \<longrightarrow> out w' (wfd j) = out w (wfd j) @ (if i \<le> j then histogram_message ptr (hs ! own) else []))"
proof (induction "n - i" arbitrary: i w)
  case (Suc m)
  let ?wr = "WriteHistogramToNode g ptr (int own)"
  from Suc have i: "i < n" "m = n - Suc i" "Suc i \<le> n" by simp_all
  have up: "map Suc [i..<n] = Suc i # map Suc [Suc i..<n]" using i(1) by (simp add: upt_conv_Cons)
  show ?case
  proof (cases "i = own")
    case True
    have "write_to_others ?wr chif EMapNode i (map Suc [i..<n]) (hs, w) = write_to_others ?wr chif EMapNode (Suc i) (map Suc [Suc i..<n]) (hs, w)"
      using True c unfolding up by (auto simp: connected_def)
    moreover have "(Suc i \<le> j) = (i \<le> j)" if "j \<noteq> own" for j using that True by auto
    ultimately show ?thesis using Suc.hyps(1) [OF i(2,3), of w] by simp
  next
    case False
    then obtain ch where ch: "Channel chif EMapNode (Suc i) EChannelModeWrite = Some (Some ch)" "int (uc_fd ch) = wfd i"
      using c i(1) by (auto simp: connected_def)
    from WriteHistogram_ok [OF g own, of ptr i "wfd i" w] obtain w1 where
      w1: "?wr i (wfd i) (hs, w) = Some (hs, w1)" "\<forall>h. rest w1 h = rest w h" "\<forall>h. out w1 h = out w h @ (if h = wfd i then histogram_message ptr (hs ! own) else [])" by blast
    from Suc.hyps(1) [OF i(2,3), of w1] obtain w' where
      w': "write_to_others ?wr chif EMapNode (Suc i) (map Suc [Suc i..<n]) (hs, w1) = Some (hs, w')" "\<forall>h. rest w' h = rest w1 h"
        "\<forall>j < n. j \<noteq> own \<longrightarrow> out w' (wfd j) = out w1 (wfd j) @ (if Suc i \<le> j then histogram_message ptr (hs ! own) else [])" by blast
    have "int (Suc i) \<noteq> ownnodeid chif" using c False by (simp add: connected_def)
    then have "write_to_others ?wr chif EMapNode i (map Suc [i..<n]) (hs, w) = Some (hs, w')" using ch w1(1) w'(1) unfolding up by simp
    moreover have "out w' (wfd j) = out w (wfd j) @ (if i \<le> j then histogram_message ptr (hs ! own) else [])" if "j < n" "j \<noteq> own" for j
      using w'(3) w1(3) that connected_distinct(2) [OF c i(1) that(1) False that(2)] by (cases "i = j") auto
    ultimately show ?thesis using w1(2) w'(2) by auto
  qed
qed simp

text \<open>What is on the channels from the nodes \<open>i\<close> on, and the histograms that were received before.\<close>

definition arriving :: "('w \<Rightarrow> int \<Rightarrow> byte list) \<Rightarrow> nat \<Rightarrow> nat \<Rightarrow> (nat \<Rightarrow> int) \<Rightarrow> (nat \<Rightarrow> byte list) \<Rightarrow> Histogram list \<Rightarrow> nat \<Rightarrow> 'w \<Rightarrow> bool" where
  "arriving rest n own rfd ptr gs i w \<longleftrightarrow> (\<forall>j. i \<le> j \<longrightarrow> j < n \<longrightarrow> j \<noteq> own \<longrightarrow> (\<exists>tail. rest w (rfd j) = histogram_message (ptr j) (gs ! j) @ tail))"

definition gathered :: "nat \<Rightarrow> nat \<Rightarrow> Histogram list \<Rightarrow> nat \<Rightarrow> Histogram list \<Rightarrow> bool" where
  "gathered n own gs i hs \<longleftrightarrow> length hs = n \<and> hs ! own = gs ! own
     \<and> (\<forall>j < n. j \<noteq> own \<longrightarrow> (if j < i then alike (gs ! j) (hs ! j) else b_count (h_buffer (hs ! j)) = 0))"

text \<open>The laws of the reader, the writer and the allocator that a node relies on.\<close>

definition network :: "(nat \<Rightarrow> bool) \<Rightarrow> 'w reader \<Rightarrow> 'w writer \<Rightarrow> ('w \<Rightarrow> int \<Rightarrow> byte list) \<Rightarrow> ('w \<Rightarrow> int \<Rightarrow> byte list) \<Rightarrow> bool" where
  "network mem f g rest out \<longleftrightarrow> streams f rest \<and> (\<forall>h n w. out (snd (f h n w)) = out w)
     \<and> sinks g out \<and> (\<forall>h h'. keeps (\<lambda>w. rest w h') g h) \<and> (\<forall>n < 2 ^ 31. mem n)"

lemma read_from_node_ok:
  assumes c: "connected chif n own rfd wfd" and net: "network mem f g rest out" and gs: "histogram_ok (gs ! i)" "length (ptr i) = 4"
    and i: "i < n" "i \<noteq> own" and hs: "gathered n own gs i hs" "arriving rest n own rfd ptr gs i w"
  shows "\<exists>hs' w'. ReadHistogramFromNode mem f i (rfd i) (hs, w) = Some (hs', w') \<and> gathered n own gs (Suc i) hs'
    \<and> arriving rest n own rfd ptr gs (Suc i) w' \<and> out w' = out w"
proof -
  have f: "streams f rest" "\<And>h n w. out (snd (f h n w)) = out w" and mem: "\<forall>n < 2 ^ 31. mem n" using net by (simp_all add: network_def)
  have own: "own < n" using c by (simp add: connected_def)
  obtain tail where tail: "rest w (rfd i) = histogram_bytes (ptr i) (gs ! i) @ slots_bytes (h_buffer (gs ! i)) @ tail"
    using hs(2) i by (auto simp: arriving_def histogram_message_def)
  have ih: "i < length hs" "b_count (h_buffer (hs ! i)) = 0" using hs(1) i by (auto simp: gathered_def)
  have ga: "gives_all f (rfd i) (\<lambda>w. rest w (rfd i))" using f(1) by (simp add: streams_def)
  from ReadHistogram_ok [where rest = rest and w = w, OF ga tail gs mem ih] obtain g' k where
    rd: "ReadHistogramFromNode mem f i (rfd i) (hs, w) = Some (hs[i := g'], snd (f (rfd i) k (snd (f (rfd i) 24 w))))" "alike (gs ! i) g'" by blast
  let ?w = "snd (f (rfd i) k (snd (f (rfd i) 24 w)))"
  have "rest ?w h = rest w h" if "h \<noteq> rfd i" for h using f(1) that by (metis streams_def)
  moreover have "rfd j \<noteq> rfd i" if "Suc i \<le> j" "j < n" "j \<noteq> own" for j
    using connected_distinct(1) [OF c that(2) i(1) that(3) i(2)] that(1) by simp
  ultimately have "arriving rest n own rfd ptr gs (Suc i) ?w" using hs(2) by (simp add: arriving_def)
  moreover have "gathered n own gs (Suc i) (hs[i := g'])" using hs(1) rd(2) i own by (auto simp: gathered_def less_Suc_eq nth_list_update)
  ultimately show ?thesis using rd(1) by (intro exI [of _ "hs[i := g']"] exI [of _ ?w]) (simp add: f(2))
qed

lemma each_loop_ok:
  assumes c: "connected chif n own rfd wfd" and net: "network mem f g rest out"
    and gs: "\<forall>j < n. histogram_ok (gs ! j)" "\<forall>j < n. length (ptr j) = 4"
  shows "i \<le> n \<Longrightarrow> gathered n own gs i hs \<Longrightarrow> arriving rest n own rfd ptr gs i w
    \<Longrightarrow> \<exists>hs' w'. each_loop (ReadHistogramFromNode mem f) (WriteHistogramToNode g (ptr own) (int own)) chif EMapNode (map Suc [0..<n]) i (map Suc [i..<n]) (hs, w)
        = Some (hs', w') \<and> gathered n own gs n hs'
      \<and> (\<forall>j < n. j \<noteq> own \<longrightarrow> out w' (wfd j) = out w (wfd j) @ (if i \<le> own then histogram_message (ptr own) (gs ! own) else []))"
proof (induction "n - i" arbitrary: i hs w)
  case 0
  moreover have "own < n" using c by (simp add: connected_def)
  ultimately show ?case by simp
next
  case (Suc m)
  then have i: "i < n" "m = n - Suc i" "Suc i \<le> n" by simp_all
  have up: "map Suc [i..<n] = Suc i # map Suc [Suc i..<n]" using i(1) by (simp add: upt_conv_Cons)
  have own: "own < n" "ownnodeid chif = int (Suc own)" using c by (simp_all add: connected_def)
  have g: "\<forall>h h'. keeps (\<lambda>w. rest w h') g h" "sinks g out" using net by (simp_all add: network_def)
  show ?case
  proof (cases "i = own")
    case True
    have hs: "own < length hs" "hs ! own = gs ! own" using Suc.prems(2) own(1) by (simp_all add: gathered_def)
    from write_to_others_ok [OF c g hs(1), of 0 "ptr own" w] obtain w1 where
      w1: "write_to_others (WriteHistogramToNode g (ptr own) (int own)) chif EMapNode 0 (map Suc [0..<n]) (hs, w) = Some (hs, w1)"
        "\<forall>h. rest w1 h = rest w h" "\<forall>j < n. j \<noteq> own \<longrightarrow> out w1 (wfd j) = out w (wfd j) @ histogram_message (ptr own) (gs ! own)" by (auto simp: hs(2))
    have "gathered n own gs (Suc i) hs" using Suc.prems(2) True by (auto simp: gathered_def less_Suc_eq)
    moreover have "arriving rest n own rfd ptr gs (Suc i) w1" using Suc.prems(3) w1(2) by (simp add: arriving_def)
    ultimately show ?thesis using Suc.hyps(1) [OF i(2,3), of hs w1] w1(1,3) True own(2) unfolding up by auto
  next
    case False
    obtain ch where ch: "Channel chif EMapNode (Suc i) EChannelModeRead = Some (Some ch)" "int (uc_fd ch) = rfd i" using c i(1) False by (auto simp: connected_def)
    from read_from_node_ok [OF c net _ _ i(1) False Suc.prems(2,3)] gs i(1) obtain hs1 w1 where
      rd: "ReadHistogramFromNode mem f i (rfd i) (hs, w) = Some (hs1, w1)" "gathered n own gs (Suc i) hs1" "arriving rest n own rfd ptr gs (Suc i) w1" "out w1 = out w"
      by blast
    have "(Suc i \<le> own) = (i \<le> own)" "int (Suc i) \<noteq> ownnodeid chif" using own(2) False by auto
    then show ?thesis using Suc.hyps(1) [OF i(2,3) rd(2,3)] ch rd(1,4) unfolding up by simp
  qed
qed

text \<open>A map node before the exchange: it has counted the items of its own chunk into the histogram \<open>gs ! own\<close>, and
  the other histograms are empty.\<close>

definition has_counted :: "(nat \<Rightarrow> bool) \<Rightarrow> nat \<Rightarrow> nat list \<Rightarrow> Histogram list \<Rightarrow> nat \<Rightarrow> MapNodeData \<Rightarrow> item_buffer \<Rightarrow> ChannelsConfigInterface \<Rightarrow> bool" where
  "has_counted mem n rs gs own d mapb chif \<longleftrightarrow> GetNodesListByType (node_channels d) EMapNode = Some (map Suc [0..<n], chif)
     \<and> (\<exists>chif'. GetNodesListByType chif EReduceNode = Some (rs, chif')) \<and> length (histograms_list d) = n
     \<and> (\<forall>j < n. j \<noteq> own \<longrightarrow> b_count (h_buffer (histograms_list d ! j)) = 0)
     \<and> (\<exists>k. GetHistogram mem mapb (b_count mapb div n div 100) (histograms_list d ! own) = Some (k, gs ! own))"

lemma map_node_exchanges:
  assumes c: "has_counted mem n rs gs own d mapb chif" "connected chif n own rfd wfd" and net: "network mem f g rest out"
    and gs: "length gs = n" "\<forall>j < n. histogram_ok (gs ! j)" "\<forall>j < n. length (ptr j) = 4" "arriving rest n own rfd ptr gs 0 w"
    and ref: "IF_ALLOC_ERROR (AllocBuffer mem (hash_size mif) (length rs)) = Some D0"
      "GetReducersDividerArrayBasedOnSummarizedHistograms mem (ComparatorHash mif) (hash_size mif) gs D0 = Some D"
  shows "\<exists>d' w'. MapCreateHistogramSendEachToOtherCreateDividersList mem f g (ptr own) mif mapb d w = Some (d', w') \<and> dividers_list d' = D
    \<and> (\<forall>j < n. j \<noteq> own \<longrightarrow> out w' (wfd j) = out w (wfd j) @ histogram_message (ptr own) (gs ! own))"
proof -
  obtain chif' k where c0: "GetNodesListByType (node_channels d) EMapNode = Some (map Suc [0..<n], chif)" "GetNodesListByType chif EReduceNode = Some (rs, chif')"
    and init: "length (histograms_list d) = n" "\<forall>j < n. j \<noteq> own \<longrightarrow> b_count (h_buffer (histograms_list d ! j)) = 0"
    and own: "GetHistogram mem mapb (b_count mapb div n div 100) (histograms_list d ! own) = Some (k, gs ! own)"
    using c(1) by (auto simp: has_counted_def)
  have c': "chif' = chif" "GetNodesListByType chif EMapNode = Some (map Suc [0..<n], chif)"
    using GetNodesListByType_again(1) [OF c0(1)] GetNodesListByType_again(2) [OF c0(1), of EReduceNode] c0(2) by auto
  have n: "own < n" "ownnodeid chif = int (Suc own)" using c(2) by (simp_all add: connected_def)
  let ?hs = "(histograms_list d)[own := gs ! own]" and ?wr = "WriteHistogramToNode g (ptr own) (int own)"
  have "gathered n own gs 0 ?hs" using init n(1) by (simp add: gathered_def nth_list_update)
  from each_loop_ok [OF c(2) net gs(2,3) _ this gs(4)] obtain hs' w' where
    ex: "each_loop (ReadHistogramFromNode mem f) ?wr chif EMapNode (map Suc [0..<n]) 0 (map Suc [0..<n]) (?hs, w) = Some (hs', w')"
      "gathered n own gs n hs'" "\<forall>j < n. j \<noteq> own \<longrightarrow> out w' (wfd j) = out w (wfd j) @ histogram_message (ptr own) (gs ! own)" by auto
  have "alike (gs ! own) (hs' ! own)" using gs(2) n(1) ex(2) by (simp add: alike_def histogram_ok_def buffer_wf_def gathered_def)
  then have "list_all2 alike gs hs'" using ex(2) gs(1) by (auto simp: gathered_def list_all2_conv_all_nth)
  from dividers_alike [OF ref(2) this] have dv: "GetReducersDividerArrayBasedOnSummarizedHistograms mem (ComparatorHash mif) (hash_size mif) hs' D0 = Some D" .
  have st: "StartEachToOtherCommunication (ReadHistogramFromNode mem f) ?wr chif EMapNode (?hs, w) = Some ((hs', w'), chif)"
    using c'(2) ex(1) n(1) by (simp add: StartEachToOtherCommunication_def)
  have "ownnodeid chif - 1 = int own" using n(2) by simp
  then have "MapCreateHistogramSendEachToOtherCreateDividersList mem f g (ptr own) mif mapb d w
    = Some (\<lparr>histograms_list = hs', dividers_list = D, node_channels = chif\<rparr>, w')"
    using c0 c' n(1) init(1) own st ref(1) dv by (simp add: MapCreateHistogramSendEachToOtherCreateDividersList_def Let_def)
  then show ?thesis using ex(3) by simp
qed

text \<open>(C29) The map nodes agree: let every node have counted its own items into a histogram, and let the bytes
  that each node reads from another begin with the message of that node's histogram. Then the exchange ends in
  every node, each has sent exactly the message of its own histogram to every other node, which is what the
  others read, and all of them have the same dividers, those of the list of all histograms.\<close>

theorem map_nodes_agree:
  assumes net: "network mem f g rest out"
    and nodes: "\<forall>own < n. has_counted mem n rs gs own (d own) (mapb own) (chif own) \<and> connected (chif own) n own (rfd own) (wfd own)"
    and gs: "length gs = n" "\<forall>j < n. histogram_ok (gs ! j) \<and> length (ptr j) = 4"
    and sent: "\<forall>own < n. arriving rest n own (rfd own) ptr gs 0 (w own)"
    and ref: "IF_ALLOC_ERROR (AllocBuffer mem (hash_size mif) (length rs)) = Some D0"
      "GetReducersDividerArrayBasedOnSummarizedHistograms mem (ComparatorHash mif) (hash_size mif) gs D0 = Some D"
  shows "\<forall>own < n. \<exists>d' w'. MapCreateHistogramSendEachToOtherCreateDividersList mem f g (ptr own) mif (mapb own) (d own) (w own) = Some (d', w')
    \<and> dividers_list d' = D \<and> (\<forall>j < n. j \<noteq> own \<longrightarrow> out w' (wfd own j) = out (w own) (wfd own j) @ histogram_message (ptr own) (gs ! own))"
proof (intro allI impI)
  fix own assume own: "own < n"
  have "has_counted mem n rs gs own (d own) (mapb own) (chif own)" "connected (chif own) n own (rfd own) (wfd own)" "arriving rest n own (rfd own) ptr gs 0 (w own)"
    using nodes sent own by blast+
  moreover have "\<forall>j < n. histogram_ok (gs ! j)" "\<forall>j < n. length (ptr j) = 4" using gs(2) by blast+
  ultimately show "\<exists>d' w'. MapCreateHistogramSendEachToOtherCreateDividersList mem f g (ptr own) mif (mapb own) (d own) (w own) = Some (d', w')
    \<and> dividers_list d' = D \<and> (\<forall>j < n. j \<noteq> own \<longrightarrow> out w' (wfd own j) = out (w own) (wfd own j) @ histogram_message (ptr own) (gs ! own))"
    using gs(1) net ref by (intro map_node_exchanges)
qed

end
