(* ===== verification/MrMapNodeProps.thy ===== *)
theory MrMapNodeProps
  imports MrExchangeProps
begin

text \<open>
  Properties of the loop of the map node over the chunks of its input: what it sends to the reduce nodes, and that it
  fails on an input that consists of whole chunks.
\<close>

section \<open>One chunk\<close>

lemma provider_read:
  assumes f: "gives_all f fd (\<lambda>w. rest w fd)" and mem: "mem (split_size + 1)" and data: "rest w fd \<noteq> []" and size: "0 < split_size"
  shows "\<exists>buf. MapInputDataProvider mem f fd None split_size pos w = Some (length (take split_size (rest w fd)), buf, snd (f fd split_size w))
    \<and> take (length (take split_size (rest w fd))) buf = take split_size (rest w fd)"
proof -
  let ?bs = "take split_size (rest w fd)"
  have "fst (f fd split_size w) = (int (length ?bs), ?bs)" using f by (simp add: gives_all_def)
  then obtain w1 where w1: "f fd split_size w = ((int (length ?bs), ?bs), w1)" by (metis prod.collapse)
  have "0 < length ?bs" using data size by simp
  moreover have "take (length ?bs) (rest w fd) = ?bs" by (simp add: min_def)
  ultimately show ?thesis using w1 mem by (simp add: MapInputDataProvider_def store_at_def)
qed

lemma provider_end:
  assumes "gives_all f fd (\<lambda>w. rest w fd)" "rest w fd = []"
  shows "MapInputDataProvider mem f fd None split_size pos w = None"
proof -
  have "fst (f fd split_size w) = (0, [])" using assms by (simp add: gives_all_def)
  then show ?thesis by (cases "f fd split_size w") (simp add: MapInputDataProvider_def)
qed

section \<open>Channels apart from the input\<close>

definition apart :: "ChannelsConfigInterface \<Rightarrow> int \<Rightarrow> bool" where
  "apart chif fd \<longleftrightarrow> (\<forall>t n m c. t \<noteq> EInputOutputNode \<longrightarrow> Channel chif t n m = Some (Some c) \<longrightarrow> int (uc_fd c) \<noteq> fd)"

lemma apartD: "apart chif fd \<Longrightarrow> t \<noteq> EInputOutputNode \<Longrightarrow> Channel chif t n m = Some (Some c) \<Longrightarrow> int (uc_fd c) \<noteq> fd"
  unfolding apart_def by blast

lemma write_to_others_keeps:
  assumes wr: "\<And>j h s s'. h \<noteq> fd \<Longrightarrow> wr j h s = Some s' \<Longrightarrow> P s' = P s" and ap: "apart chif fd"
  shows "write_to_others wr chif EMapNode j ns s = Some s' \<Longrightarrow> P s' = P s"
proof (induction ns arbitrary: j s)
  case (Cons n ns)
  then obtain found s1 where s1: "Channel chif EMapNode n EChannelModeWrite = Some found"
    "(if int n \<noteq> ownnodeid chif then Option.bind found (\<lambda>channel. wr j (int (uc_fd channel)) s) else Some s) = Some s1"
    "write_to_others wr chif EMapNode (Suc j) ns s1 = Some s'" by (auto simp: bind_eq_Some_conv)
  have "P s1 = P s"
  proof (cases "int n = ownnodeid chif")
    case False
    then obtain c where "found = Some c" "wr j (int (uc_fd c)) s = Some s1" using s1(2) by (auto simp: bind_eq_Some_conv)
    moreover from this s1(1) have "int (uc_fd c) \<noteq> fd" by (intro apartD [OF ap]) simp_all
    ultimately show ?thesis using wr by blast
  qed (use s1(2) in simp)
  with Cons.IH [OF s1(3)] show ?case by simp
qed simp

lemma each_loop_keeps:
  assumes rd: "\<And>j h s s'. h \<noteq> fd \<Longrightarrow> rd j h s = Some s' \<Longrightarrow> P s' = P s" and wr: "\<And>j h s s'. h \<noteq> fd \<Longrightarrow> wr j h s = Some s' \<Longrightarrow> P s' = P s"
    and ap: "apart chif fd"
  shows "each_loop rd wr chif EMapNode all i ns s = Some s' \<Longrightarrow> P s' = P s"
proof (induction ns arbitrary: i s)
  case (Cons n ns)
  then obtain s1 where s1: "(if int n = ownnodeid chif then write_to_others wr chif EMapNode 0 all s
      else do { found \<leftarrow> Channel chif EMapNode n EChannelModeRead; channel \<leftarrow> found; rd i (int (uc_fd channel)) s }) = Some s1"
    "each_loop rd wr chif EMapNode all (Suc i) ns s1 = Some s'" by (auto simp: bind_eq_Some_conv simp del: One_nat_def)
  have "P s1 = P s"
  proof (cases "int n = ownnodeid chif")
    case True
    then show ?thesis using s1(1) write_to_others_keeps [where P = P, OF wr ap] by simp
  next
    case False
    then obtain c where "Channel chif EMapNode n EChannelModeRead = Some (Some c)" "rd i (int (uc_fd c)) s = Some s1"
      using s1(1) by (auto simp: bind_eq_Some_conv)
    moreover from this have "int (uc_fd c) \<noteq> fd" by (intro apartD [OF ap]) simp_all
    ultimately show ?thesis using rd by blast
  qed
  with Cons.IH [OF s1(2)] show ?case by simp
qed simp

lemma read_histogram_keeps:
  assumes "streams f rest" "h \<noteq> fd" "ReadHistogramFromNode mem f j h s = Some s'"
  shows "rest (snd s') fd = rest (snd s) fd"
proof -
  obtain r bs w1 where w1: "f h 24 (snd s) = ((r, bs), w1)" by (metis prod.collapse)
  with assms(3) obtain buf :: "hash Buffer" where b: "(case f h (b_buf_size buf) w1 of ((r', ds), w2) \<Rightarrow> if 0 < r' then
      Some ((fst s)[j := \<lparr>src_nodeid = bytes_int (take 4 bs), step_hist_common = bytes_short (take 2 (drop 4 bs)),
          step_hist_last = bytes_short (take 2 (drop 6 bs)),
          h_buffer = buf\<lparr>b_count := bytes_nat (take 4 (drop 16 bs)), b_data := fill_slots (b_item_size buf) (length (b_data buf)) ds\<rparr>\<rparr>], w2) else None) = Some s'"
    by (auto simp: ReadHistogramFromNode_def Let_def bind_eq_Some_conv split: if_splits)
  obtain r' ds w2 where w2: "f h (b_buf_size buf) w1 = ((r', ds), w2)" by (metis prod.collapse)
  have "snd s' = w2" using b w2 by (auto split: if_splits)
  then have "snd s' = snd (f h (b_buf_size buf) (snd (f h 24 (snd s))))" using w1 w2 by simp
  then show ?thesis using assms(1,2) by (simp add: streams_def)
qed

lemma send_loop_keeps:
  assumes g: "\<forall>h h'. keeps (\<lambda>w. rest w h') g h"
  shows "send_loop g mif chif mapb flag ns bs s = Some s' \<Longrightarrow> rest (snd s') h = rest (snd s) h"
proof (induction ns arbitrary: bs s)
  case (Cons n ns)
  show ?case
  proof (cases bs)
    case Nil
    then show ?thesis using Cons.prems by simp
  next
    case (Cons b bs')
    then obtain c :: UserChannel and s1 where s1: "WriteDataToReduce g (hash_size mif) (value_addr_is_data mif) (fst s) (int (uc_fd c)) mapb (fst b) (snd b) flag (snd s) = Some s1"
      "send_loop g mif chif mapb flag ns bs' s1 = Some s'" using Cons.prems by (auto simp: bind_eq_Some_conv)
    have "rest (snd s1) h = rest (snd s) h" using WriteDataToReduce_keeps [OF _ s1(1), where P = "\<lambda>w. rest w h"] g by blast
    with Cons.IH [OF s1(2)] show ?thesis by simp
  qed
qed simp

section \<open>Whole chunks\<close>

text \<open>The list of nodes can be asked for, and asking for it changes nothing more.\<close>

definition settled :: "ChannelsConfigInterface \<Rightarrow> bool" where
  "settled chif \<longleftrightarrow> (\<forall>t. \<exists>ns. GetNodesListByType chif t = Some (ns, chif))"

lemma settled: "GetNodesListByType c t = Some (ns, c1) \<Longrightarrow> settled c1"
  unfolding settled_def using GetNodesListByType_again(2) by blast

lemma settledE:
  assumes "settled c"
  obtains ns where "GetNodesListByType c t = Some (ns, c)"
  using assms unfolding settled_def by blast

lemma create_dividers_keeps:
  assumes f: "streams f rest" and g: "\<forall>h h'. keeps (\<lambda>w. rest w h') g h" and ap: "apart (node_channels d) fd" "settled (node_channels d)"
    and r: "MapCreateHistogramSendEachToOtherCreateDividersList mem f g ptr mif mapb d w = Some (d', w')"
  shows "node_channels d' = node_channels d \<and> rest w' fd = rest w fd"
proof -
  let ?own = "ownnodeid (node_channels d) - 1"
  obtain mn rn where mn: "GetNodesListByType (node_channels d) EMapNode = Some (mn, node_channels d)"
    and rn: "GetNodesListByType (node_channels d) EReduceNode = Some (rn, node_channels d)"
    using ap(2) unfolding settled_def by blast
  obtain hs0 hs' chif3 where st: "StartEachToOtherCommunication (ReadHistogramFromNode mem f) (WriteHistogramToNode g ptr ?own) (node_channels d) EMapNode (hs0, w) = Some ((hs', w'), chif3)"
    and d': "node_channels d' = chif3"
    using r [unfolded MapCreateHistogramSendEachToOtherCreateDividersList_def mn Option.bind.bind_lunit prod.case rn Let_def]
    by (auto simp: bind_eq_Some_conv split: if_splits)
  let ?lp = "each_loop (ReadHistogramFromNode mem f) (WriteHistogramToNode g ptr ?own) (node_channels d) EMapNode mn 0 mn (hs0, w)"
  have "StartEachToOtherCommunication (ReadHistogramFromNode mem f) (WriteHistogramToNode g ptr ?own) (node_channels d) EMapNode (hs0, w)
    = (if mn \<noteq> [] then map_option (\<lambda>s. (s, node_channels d)) ?lp else None)"
    unfolding StartEachToOtherCommunication_def mn by (cases ?lp) simp_all
  then have lp: "?lp = Some (hs', w')" and c3: "chif3 = node_channels d" using st by (auto split: if_splits)
  have wr: "rest (snd s') fd = rest (snd s) fd" if "h \<noteq> fd" "WriteHistogramToNode g ptr ?own j h s = Some s'" for j h s s'
    using that g by (auto simp: WriteHistogramToNode_def Let_def keeps_def split: if_splits)
  have "rest (snd (hs', w')) fd = rest (snd (hs0, w)) fd"
    by (rule each_loop_keeps [where P = "\<lambda>s. rest (snd s) fd" and fd = fd, OF _ _ ap(1) lp]) (auto intro: read_histogram_keeps [OF f] wr)
  then show ?thesis using d' c3 by simp
qed

lemma send_keeps:
  assumes g: "\<forall>h h'. keeps (\<lambda>w. rest w h') g h" and c: "settled chif"
    and r: "MapSendToAllReducers mem g mif D chif last_data mapb w = Some (chif', w')"
  shows "chif' = chif \<and> rest w' fd = rest w fd"
proof -
  obtain rn where rn: "GetNodesListByType chif EReduceNode = Some (rn, chif)" by (rule settledE [OF c])
  obtain bs where bs: "DistributeDataIntoBaskets (ComparatorHash mif) D mapb (b_count D) = Some bs"
    using r by (cases "DistributeDataIntoBaskets (ComparatorHash mif) D mapb (b_count D)") (simp_all add: MapSendToAllReducers_def)
  let ?flag = "if last_data then MAP_NODE_EXCLUDE else MAP_NODE_NO_EXCLUDE"
  define snt where "snt = send_loop g mif chif mapb ?flag rn bs (AllocBufferedIOWrite SEND_BUFFER_SIZE, w)"
  have "length rn = b_count D \<and> mem SEND_BUFFER_SIZE" using r unfolding MapSendToAllReducers_def Let_def bs rn by (rule contrapos_pp) auto
  then have "MapSendToAllReducers mem g mif D chif last_data mapb w = map_option (\<lambda>s. (chif, snd s)) snt"
    unfolding MapSendToAllReducers_def Let_def bs rn by (cases snt) (simp_all flip: snt_def)
  then obtain s where "snt = Some s" "chif' = chif" "w' = snd s" using r by (cases snt) simp_all
  with send_loop_keeps [OF g, of mif chif mapb ?flag rn bs _ s fd] show ?thesis by (simp add: snt_def)
qed

lemma map_chunk_keeps:
  assumes f: "streams f rest" and g: "\<forall>h h'. keeps (\<lambda>w. rest w h') g h" and ap: "apart (node_channels d) fd" "settled (node_channels d)"
    and size: "0 < split_size" "split_size \<le> length (rest w fd)"
    and r: "map_chunk mem f g ptr mif fd split_size (pos, d, w) = Some (last_chunk, pos', d', w')"
  shows "\<not> last_chunk \<and> node_channels d' = node_channels d \<and> rest w' fd = drop split_size (rest w fd)"
proof -
  have ga: "gives_all f fd (\<lambda>w. rest w fd)" using f by (simp add: streams_def)
  have fst: "fst (f fd split_size w) = (int split_size, take split_size (rest w fd))" "rest (snd (f fd split_size w)) fd = drop split_size (rest w fd)"
    using ga size(2) by (simp_all add: gives_all_def)
  obtain buf w1 where p: "MapInputDataProvider mem f fd None split_size pos w = Some (split_size, buf, w1)" and w1: "rest w1 fd = drop split_size (rest w fd)"
    using r fst size(1) by (cases "f fd split_size w") (auto simp: map_chunk_def MapInputDataProvider_def bind_eq_Some_conv split: if_splits)
  obtain mb d1 w2 where x: "(if b_count (dividers_list d) = 0 then MapCreateHistogramSendEachToOtherCreateDividersList mem f g ptr mif mb d w1 else Some (d, w1)) = Some (d1, w2)"
    and y: "MapSendToAllReducers mem g mif (dividers_list d1) (node_channels d1) last_chunk mb w2 = Some (node_channels d', w')" and nl: "\<not> last_chunk"
    using r p by (auto simp: map_chunk_def Let_def bind_eq_Some_conv)
  have d1: "node_channels d1 = node_channels d \<and> rest w2 fd = rest w1 fd"
    using x create_dividers_keeps [OF f g ap] by (auto split: if_splits)
  then have "settled (node_channels d1)" using ap(2) by simp
  from send_keeps [OF g this y, of fd] d1 w1 nl show ?thesis by simp
qed

lemma map_loop_whole_chunks:
  assumes f: "streams f rest" and g: "\<forall>h h'. keeps (\<lambda>w. rest w h') g h" and size: "0 < split_size"
  shows "apart (node_channels d) fd \<Longrightarrow> settled (node_channels d) \<Longrightarrow> length (rest w fd) = k * split_size
    \<Longrightarrow> map_loop mem f g ptr mif fd split_size (pos, d, w) = None"
proof (induction k arbitrary: pos d w)
  case 0
  have "gives_all f fd (\<lambda>w. rest w fd)" using f by (simp add: streams_def)
  then have "MapInputDataProvider mem f fd None split_size pos w = None" by (rule provider_end) (use 0 in simp)
  then show ?case by (subst map_loop.simps) (simp add: map_chunk_def)
next
  case (Suc k)
  show ?case
  proof (cases "map_chunk mem f g ptr mif fd split_size (pos, d, w)")
    case None
    then show ?thesis by (subst map_loop.simps) simp
  next
    case (Some r)
    obtain last_chunk pos' d' w' where r: "r = (last_chunk, pos', d', w')" by (cases r)
    have "split_size \<le> length (rest w fd)" using Suc.prems(3) by simp
    from map_chunk_keeps [OF f g Suc.prems(1,2) size this Some [unfolded r]]
    have k: "\<not> last_chunk" "node_channels d' = node_channels d" "rest w' fd = drop split_size (rest w fd)" by simp_all
    then have "map_loop mem f g ptr mif fd split_size (pos', d', w') = None" using Suc by simp
    then show ?thesis using Some r k(1) by (subst map_loop.simps) simp
  qed
qed

text \<open>On an input that is a whole number of chunks no map node returns, whatever the exchange and the map function
  do: no chunk is the last one.\<close>

lemma whole_chunks_no_return:
  assumes f: "streams f rest" and g: "\<forall>h h'. keeps (\<lambda>w. rest w h') g h" and size: "0 < split_size"
    and c: "GetNodesListByType chif EMapNode = Some (ns, chif')" "Channel chif' EInputOutputNode 1 EChannelModeRead = Some (Some ch)" "apart chif' (int (uc_fd ch))"
    and input: "length (rest w (int (uc_fd ch))) mod split_size = 0"
  shows "MapNodeMain mem f g ptr mif split_size chif w = None"
proof -
  have st: "settled chif'" by (rule settled [OF c(1)])
  have len: "length (rest w (int (uc_fd ch))) = length (rest w (int (uc_fd ch))) div split_size * split_size" using input by auto
  have "map_loop mem f g ptr mif (int (uc_fd ch)) split_size (0, d, w) = None" if "node_channels d = chif'" for d
    using map_loop_whole_chunks [OF f g size _ _ len] c(3) st that by blast
  moreover have "node_channels d = chif'" if "InitMapInternals mem (hash_size mif) chif = Some d" for d
    using that c(1) by (auto simp: InitMapInternals_def bind_eq_Some_conv split: if_splits)
  moreover have "PrintDebugInfo chif' = Some chif'"
    using st unfolding settled_def PrintDebugInfo_def by (metis (no_types, lifting) bind.bind_lunit case_prod_conv)
  ultimately show ?thesis using c(2) by (auto simp: MapNodeMain_def bind_eq_None_conv)
qed

section \<open>What the map node delivers\<close>

lemma LocalSort_ok:
  assumes "readable b"
  shows "readable (LocalSort mif b)" "items (LocalSort mif b) = qsort (ComparatorMrItem mif) (items b)" "b_count (LocalSort mif b) = b_count b"
proof -
  have len: "length (qsort (ComparatorMrItem mif) (items b)) = b_count b" using assms mset_eq_length [OF mset_qsort] by (metis length_buffer_items)
  show "b_count (LocalSort mif b) = b_count b" by (simp add: LocalSort_def)
  show "readable (LocalSort mif b)" using assms len by (auto simp: readable_def LocalSort_def nth_append)
  show "items (LocalSort mif b) = qsort (ComparatorMrItem mif) (items b)" using len by (simp add: items_def [of "LocalSort mif b"]) (simp add: LocalSort_def o_def)
qed

lemma packet_length_mset:
  assumes "mset xs = mset ys"
  shows "length (packet flag xs) = length (packet flag ys)"
proof -
  have "sum_list (map (\<lambda>x. length (item_bytes x)) xs) = sum_list (map (\<lambda>x. length (item_bytes x)) ys)"
    using assms by (metis mset_map sum_mset_sum_list)
  then show ?thesis by (simp add: packet_def length_concat o_def)
qed

text \<open>The items of a chunk, the chunks of an input, the last one shorter than the others, and their items.\<close>

definition chunk_items :: "'w MapReduceUserIf \<Rightarrow> item_buffer \<Rightarrow> byte list \<Rightarrow> bool \<Rightarrow> ElasticBufItemData list" where
  "chunk_items mif e bs fin = qsort (ComparatorMrItem mif) (items (snd (Map mif bs fin e)))"

function input_items :: "'w MapReduceUserIf \<Rightarrow> item_buffer \<Rightarrow> nat \<Rightarrow> byte list \<Rightarrow> ElasticBufItemData list list" where
  "input_items mif e n bs = (if n = 0 \<or> length bs < n then [chunk_items mif e bs True]
     else chunk_items mif e (take n bs) False # input_items mif e n (drop n bs))"
  by pat_completeness auto
termination
  by (relation "measure (\<lambda>(mif, e, n, bs). length bs)") auto

declare input_items.simps [simp del]

text \<open>What the map function of the program has to provide for every chunk.\<close>

definition map_ok :: "'w MapReduceUserIf \<Rightarrow> item_buffer \<Rightarrow> hash Buffer \<Rightarrow> bool" where
  "map_ok mif e D \<longleftrightarrow> (\<forall>bs fin. let b = snd (Map mif bs fin e) in readable b \<and> length (packet 0 (items b)) < 2 ^ 31 \<and> max 1 (b_count b) * mr_item_size mif < 2 ^ 31
     \<and> (\<forall>x \<in> set (items b). item_ok (hash_size mif) (value_addr_is_data mif) x \<and> ComparatorHash mif (key_hash x) (last (items D)) \<le> 0))"

lemma local_processing:
  assumes e: "IF_ALLOC_ERROR (AllocBuffer mem (mr_item_size mif) 1024) = Some e" and nc: "Combine mif = None" and ok: "map_ok mif e D"
    and size: "0 < mr_item_size mif" and mem: "\<forall>n < 2 ^ 31. mem n"
  shows "\<exists>pos b. MapInputDataLocalProcessing mem mif bs fin = Some (pos, b) \<and> readable b \<and> items b = chunk_items mif e bs fin
    \<and> length (packet 0 (items b)) < 2 ^ 31 \<and> (\<forall>x \<in> set (items b). item_ok (hash_size mif) (value_addr_is_data mif) x)
    \<and> (\<forall>x \<in> set (items b). ComparatorHash mif (key_hash x) (last (items D)) \<le> 0)"
proof -
  obtain pos u where u: "Map mif bs fin e = (pos, u)" by (cases "Map mif bs fin e")
  from ok have m: "let b = snd (Map mif bs fin e) in readable b \<and> length (packet 0 (items b)) < 2 ^ 31 \<and> max 1 (b_count b) * mr_item_size mif < 2 ^ 31
     \<and> (\<forall>x \<in> set (items b). item_ok (hash_size mif) (value_addr_is_data mif) x \<and> ComparatorHash mif (key_hash x) (last (items D)) \<le> 0)"
    unfolding map_ok_def by blast
  then have m': "readable u" "length (packet 0 (items u)) < 2 ^ 31" "max 1 (b_count u) * mr_item_size mif < 2 ^ 31"
    "\<forall>x \<in> set (items u). item_ok (hash_size mif) (value_addr_is_data mif) x" "\<forall>x \<in> set (items u). ComparatorHash mif (key_hash x) (last (items D)) \<le> 0"
    by (simp_all add: u)
  note srt = LocalSort_ok [OF m'(1), of mif]
  have "max 1 (b_count u div 4) * mr_item_size mif \<le> max 1 (b_count u) * mr_item_size mif" by (intro mult_right_mono) auto
  then have "max 1 (b_count u div 4) * mr_item_size mif < 2 ^ 31" using m'(3) by linarith
  then obtain t :: item_buffer where "IF_ALLOC_ERROR (AllocBuffer mem (mr_item_size mif) (b_count u div 4)) = Some t"
    using AllocBuffer_small [OF size _ mem] by blast
  then have "MapInputDataLocalProcessing mem mif bs fin = Some (pos, LocalSort mif u)"
    using e u nc srt(3) by (simp add: MapInputDataLocalProcessing_def)
  moreover have "mset (items (LocalSort mif u)) = mset (items u)" unfolding srt(2) by (rule mset_qsort)
  moreover from this have "set (items (LocalSort mif u)) = set (items u)" "length (packet 0 (items (LocalSort mif u))) = length (packet 0 (items u))"
    by (metis mset_eq_setD, metis packet_length_mset)
  ultimately show ?thesis using srt m' u by (intro exI [of _ pos] exI [of _ "LocalSort mif u"]) (simp add: chunk_items_def)
qed

text \<open>The channels to the reduce nodes and the dividers while the chunks are sent.\<close>

definition ready :: "'w MapReduceUserIf \<Rightarrow> MapNodeData \<Rightarrow> int list \<Rightarrow> bool" where
  "ready mif d hs \<longleftrightarrow> settled (node_channels d) \<and> distinct hs \<and> readable (dividers_list d) \<and> 0 < b_count (dividers_list d)
     \<and> (\<exists>ns. GetNodesListByType (node_channels d) EReduceNode = Some (ns, node_channels d) \<and> length ns = b_count (dividers_list d)
         \<and> serves EReduceNode EChannelModeWrite (node_channels d) ns hs)"

lemma map_chunk_delivers:
  assumes f: "streams f rest" "\<forall>h n w. out (snd (f h n w)) = out w" and g: "sinks g out" "\<forall>h h'. keeps (\<lambda>w. rest w h') g h" and mem: "\<forall>n < 2 ^ 31. mem n"
    and rd: "ready mif d hs" and e: "IF_ALLOC_ERROR (AllocBuffer mem (mr_item_size mif) 1024) = Some e" and nc: "Combine mif = None"
    and ok: "map_ok mif e (dividers_list d)" "0 < mr_item_size mif" and size: "0 < n" "n + 1 < 2 ^ 31" and data: "rest w fd \<noteq> []"
  shows "\<exists>pos' w' xss. map_chunk mem f g ptr mif fd n (pos, d, w) = Some (length (rest w fd) < n, pos', d, w') \<and> rest w' fd = drop n (rest w fd)
    \<and> concat xss = chunk_items mif e (take n (rest w fd)) (length (rest w fd) < n)
    \<and> list_all2 (\<lambda>h xs. out w' h = out w h @ framed (if length (rest w fd) < n then 1 else 0) xs) hs xss"
proof -
  let ?data = "rest w fd"
  have ga: "gives_all f fd (\<lambda>w. rest w fd)" using f(1) by (simp add: streams_def)
  have "mem (n + 1)" using mem size(2) by blast
  from provider_read [where rest = rest and w = w and pos = pos and mem = mem and split_size = n, OF ga this data size(1)] obtain buf where p: "MapInputDataProvider mem f fd None n pos w
      = Some (length (take n ?data), buf, snd (f fd n w))" "take (length (take n ?data)) buf = take n ?data" by blast
  define w1 where "w1 = snd (f fd n w)"
  have w1: "rest w1 fd = drop n ?data" "out w1 = out w" using ga f(2) by (simp_all add: gives_all_def w1_def)
  define fin where "fin \<longleftrightarrow> length ?data < n"
  have fin: "(length (take n ?data) < n) = fin" by (auto simp: fin_def)
  obtain pos' b where b: "MapInputDataLocalProcessing mem mif (take n ?data) fin = Some (pos', b)" "readable b" "items b = chunk_items mif e (take n ?data) fin"
    "length (packet 0 (items b)) < 2 ^ 31" "\<forall>x \<in> set (items b). item_ok (hash_size mif) (value_addr_is_data mif) x"
    "\<forall>x \<in> set (items b). ComparatorHash mif (key_hash x) (last (items (dividers_list d))) \<le> 0"
    using local_processing [OF e nc ok mem] by blast
  from rd obtain ns where ns: "GetNodesListByType (node_channels d) EReduceNode = Some (ns, node_channels d)" "length ns = b_count (dividers_list d)"
    "serves EReduceNode EChannelModeWrite (node_channels d) ns hs" "distinct hs" "readable (dividers_list d)" "0 < b_count (dividers_list d)" "settled (node_channels d)"
    by (auto simp: ready_def)
  have "mem SEND_BUFFER_SIZE" using mem by simp
  from sections_sent [where w = w1 and out = out and last_data = fin and mem = mem and mif = mif, OF g(1) this ns(1,3,4,5,6) ns(2) [symmetric] b(2,5,4,6)] obtain w' xss where
    s: "MapSendToAllReducers mem g mif (dividers_list d) (node_channels d) fin b w1 = Some (node_channels d, w')" "concat xss = items b"
    "list_all2 (\<lambda>h xs. out w' h = out w1 h @ framed (if fin then 1 else 0) xs) hs xss" by blast
  have "rest w' fd = rest w1 fd" using send_keeps [OF g(2) ns(7) s(1)] by blast
  moreover have "map_chunk mem f g ptr mif fd n (pos, d, w) = Some (fin, pos', d, w')"
    using p b(1) s(1) ns(6) fin by (simp add: map_chunk_def Let_def flip: w1_def)
  moreover have "list_all2 (\<lambda>h xs. out w' h = out w h @ framed (if fin then 1 else 0) xs) hs xss" using s(3) by (simp only: w1(2))
  ultimately have "map_chunk mem f g ptr mif fd n (pos, d, w) = Some (fin, pos', d, w') \<and> rest w' fd = drop n ?data
    \<and> concat xss = chunk_items mif e (take n ?data) fin \<and> list_all2 (\<lambda>h xs. out w' h = out w h @ framed (if fin then 1 else 0) xs) hs xss"
    using s(2) b(3) w1(1) by simp
  then show ?thesis unfolding fin_def by (intro exI)
qed

text \<open>(C28) In a program without a combining function, once the dividers are chosen the map node returns, for every input whose last chunk is not empty: every reduce
  node receives one packet for each chunk, the last one marked, and the packets of a chunk together hold the items that the map function
  of the program makes of that chunk, sorted, each of them exactly once.\<close>

theorem map_node_delivers:
  assumes f: "streams f rest" "\<forall>h n w. out (snd (f h n w)) = out w" and g: "sinks g out" "\<forall>h h'. keeps (\<lambda>w. rest w h') g h" and mem: "\<forall>n < 2 ^ 31. mem n"
    and rd: "ready mif d hs" and e: "IF_ALLOC_ERROR (AllocBuffer mem (mr_item_size mif) 1024) = Some e" and nc: "Combine mif = None"
    and ok: "map_ok mif e (dividers_list d)" "0 < mr_item_size mif" and size: "0 < n" "n + 1 < 2 ^ 31" and data: "length (rest w fd) mod n \<noteq> 0"
  shows "\<exists>w' xsss. map_loop mem f g ptr mif fd n (pos, d, w) = Some w' \<and> map concat xsss = input_items mif e n (rest w fd)
    \<and> (\<forall>xss \<in> set xsss. length xss = length hs) \<and> (\<forall>i < length hs. out w' (hs ! i) = out w (hs ! i) @ stream (map (\<lambda>xss. xss ! i) xsss))"
  using data
proof (induction "length (rest w fd)" arbitrary: pos w rule: less_induct)
  case less
  have ne: "rest w fd \<noteq> []" using less.prems by auto
  from map_chunk_delivers [where w = w and rest = rest and pos = pos and ptr = ptr, OF f g mem rd e nc ok size ne] obtain pos' w1 xss where
    c: "map_chunk mem f g ptr mif fd n (pos, d, w) = Some (length (rest w fd) < n, pos', d, w1)" "rest w1 fd = drop n (rest w fd)"
    "concat xss = chunk_items mif e (take n (rest w fd)) (length (rest w fd) < n)"
    "list_all2 (\<lambda>h xs. out w1 h = out w h @ framed (if length (rest w fd) < n then 1 else 0) xs) hs xss" by blast
  have lx: "length xss = length hs" and o1: "\<forall>i < length hs. out w1 (hs ! i) = out w (hs ! i) @ framed (if length (rest w fd) < n then 1 else 0) (xss ! i)"
    using c(4) by (auto simp: list_all2_conv_all_nth)
  have un: "map_loop mem f g ptr mif fd n (pos, d, w) = (if length (rest w fd) < n then Some w1 else map_loop mem f g ptr mif fd n (pos', d, w1))"
    using c(1) by (subst map_loop.simps) simp
  show ?case
  proof (cases "length (rest w fd) < n")
    case True
    then have "map concat [xss] = input_items mif e n (rest w fd)" using c(3) by (simp add: input_items.simps [of mif e n "rest w fd"])
    moreover have "map_loop mem f g ptr mif fd n (pos, d, w) = Some w1" using un True by simp
    ultimately show ?thesis using lx o1 True by (intro exI [of _ w1] exI [of _ "[xss]"]) simp
  next
    case False
    then have lt: "length (rest w1 fd) < length (rest w fd)" "length (rest w1 fd) mod n \<noteq> 0" using c(2) size(1) less.prems by (simp_all add: le_mod_geq)
    from less.hyps [OF this, of pos'] obtain w' xsss where ih: "map_loop mem f g ptr mif fd n (pos', d, w1) = Some w'"
      "map concat xsss = input_items mif e n (rest w1 fd)" "\<forall>xss \<in> set xsss. length xss = length hs"
      "\<forall>i < length hs. out w' (hs ! i) = out w1 (hs ! i) @ stream (map (\<lambda>xss. xss ! i) xsss)" by blast
    have nn: "xsss \<noteq> []" using ih(2) by (auto simp: input_items.simps [of mif e n "rest w1 fd"] split: if_splits)
    have "map concat (xss # xsss) = input_items mif e n (rest w fd)"
      using False size(1) c(2,3) ih(2) by (simp add: input_items.simps [of mif e n "rest w fd"])
    moreover have "out w' (hs ! i) = out w (hs ! i) @ stream (map (\<lambda>xss. xss ! i) (xss # xsss))" if "i < length hs" for i
      using ih(4) o1 that False nn by (simp add: stream_Cons flag_of_def)
    moreover have "map_loop mem f g ptr mif fd n (pos, d, w) = Some w'" using un False ih(1) by simp
    ultimately show ?thesis using lx ih(3) by (intro exI [of _ w'] exI [of _ "xss # xsss"]) auto
  qed
qed

text \<open>Turns of the loop none of which was the last.\<close>

fun map_turns ::
  "(nat \<Rightarrow> bool) \<Rightarrow> 'w reader \<Rightarrow> 'w writer \<Rightarrow> byte list \<Rightarrow> 'w MapReduceUserIf \<Rightarrow> int \<Rightarrow> nat \<Rightarrow> nat \<Rightarrow> nat \<times> MapNodeData \<times> 'w
    \<Rightarrow> (nat \<times> MapNodeData \<times> 'w) option" where
  "map_turns mem f g ptr mif fd n 0 s = Some s"
| "map_turns mem f g ptr mif fd n (Suc k) s =
     Option.bind (map_chunk mem f g ptr mif fd n s) (\<lambda>(fin, s'). if fin then None else map_turns mem f g ptr mif fd n k s')"

lemma map_loop_turns:
  "map_turns mem f g ptr mif fd n k s = Some s' \<Longrightarrow> map_loop mem f g ptr mif fd n s = map_loop mem f g ptr mif fd n s'"
proof (induction k arbitrary: s)
  case (Suc k)
  then obtain s1 where "map_chunk mem f g ptr mif fd n s = Some (False, s1)" "map_turns mem f g ptr mif fd n k s1 = Some s'"
    by (auto simp: bind_eq_Some_conv split: if_splits)
  then show ?case using Suc.IH [of s1] by (subst map_loop.simps) simp
qed simp

lemma map_turns_deliver:
  assumes f: "streams f rest" "\<forall>h n w. out (snd (f h n w)) = out w" and g: "sinks g out" "\<forall>h h'. keeps (\<lambda>w. rest w h') g h" and mem: "\<forall>n < 2 ^ 31. mem n"
    and rd: "ready mif d hs" and e: "IF_ALLOC_ERROR (AllocBuffer mem (mr_item_size mif) 1024) = Some e" and nc: "Combine mif = None"
    and ok: "map_ok mif e (dividers_list d)" "0 < mr_item_size mif" and size: "0 < n" "n + 1 < 2 ^ 31"
  shows "length (rest w fd) = k * n \<Longrightarrow> \<exists>pos' w' xsss. map_turns mem f g ptr mif fd n k (pos, d, w) = Some (pos', d, w') \<and> rest w' fd = []
    \<and> map concat xsss = map (\<lambda>i. chunk_items mif e (take n (drop (i * n) (rest w fd))) False) [0..<k]
    \<and> (\<forall>xss \<in> set xsss. length xss = length hs) \<and> (\<forall>i < length hs. out w' (hs ! i) = out w (hs ! i) @ concat (map (\<lambda>xss. framed 0 (xss ! i)) xsss))"
proof (induction k arbitrary: pos w)
  case (Suc k)
  have ne: "rest w fd \<noteq> []" and nf: "\<not> length (rest w fd) < n" using Suc.prems size(1) by auto
  from map_chunk_delivers [where w = w and rest = rest and pos = pos and ptr = ptr, OF f g mem rd e nc ok size ne] nf obtain pos1 w1 xss where
    c: "map_chunk mem f g ptr mif fd n (pos, d, w) = Some (False, pos1, d, w1)" "rest w1 fd = drop n (rest w fd)"
    "concat xss = chunk_items mif e (take n (rest w fd)) False" "list_all2 (\<lambda>h xs. out w1 h = out w h @ framed 0 xs) hs xss" by auto
  have "length (rest w1 fd) = k * n" using c(2) Suc.prems by simp
  from Suc.IH [OF this, of pos1] obtain pos' w' xsss where
    ih: "map_turns mem f g ptr mif fd n k (pos1, d, w1) = Some (pos', d, w')" "rest w' fd = []"
      "map concat xsss = map (\<lambda>i. chunk_items mif e (take n (drop (i * n) (rest w1 fd))) False) [0..<k]" "\<forall>xss \<in> set xsss. length xss = length hs"
      "\<forall>i < length hs. out w' (hs ! i) = out w1 (hs ! i) @ concat (map (\<lambda>xss. framed 0 (xss ! i)) xsss)" by blast
  have "map concat (xss # xsss) = map (\<lambda>i. chunk_items mif e (take n (drop (i * n) (rest w fd))) False) [0..<Suc k]"
    using c(2,3) ih(3) by (simp add: upt_conv_Cons map_Suc_upt [symmetric] o_def add.commute del: upt_Suc)
  moreover have "map_turns mem f g ptr mif fd n (Suc k) (pos, d, w) = Some (pos', d, w')" using c(1) ih(1) by simp
  moreover have "\<forall>i < length hs. out w' (hs ! i) = out w (hs ! i) @ concat (map (\<lambda>xss. framed 0 (xss ! i)) (xss # xsss))" "length xss = length hs"
    using c(4) ih(5) by (auto simp: list_all2_conv_all_nth)
  ultimately show ?case using ih(2,4) by (intro exI [of _ pos'] exI [of _ w'] exI [of _ "xss # xsss"]) simp
qed simp

text \<open>(C32) A map node fails on an input that is a whole number of chunks, the empty input included, in a program
  without a combining function and with the dividers chosen: all chunks are mapped and sent, in packets none
  of which is marked as the last one, since the last chunk is recognised by its size only. In the state after
  them there is memory for another chunk, but the read gives no byte, the assertion of the data provider on the
  number of bytes fails, and the loop does not return.\<close>

theorem whole_chunks_fail:
  assumes f: "streams f rest" "\<forall>h n w. out (snd (f h n w)) = out w" and g: "sinks g out" "\<forall>h h'. keeps (\<lambda>w. rest w h') g h" and mem: "\<forall>n < 2 ^ 31. mem n"
    and rd: "ready mif d hs" and e: "IF_ALLOC_ERROR (AllocBuffer mem (mr_item_size mif) 1024) = Some e" and nc: "Combine mif = None"
    and ok: "map_ok mif e (dividers_list d)" "0 < mr_item_size mif" and size: "0 < n" "n + 1 < 2 ^ 31" and data: "length (rest w fd) = k * n"
  shows "\<exists>pos' w' xsss. map_turns mem f g ptr mif fd n k (pos, d, w) = Some (pos', d, w')
    \<and> map concat xsss = map (\<lambda>i. chunk_items mif e (take n (drop (i * n) (rest w fd))) False) [0..<k]
    \<and> (\<forall>xss \<in> set xsss. length xss = length hs) \<and> (\<forall>i < length hs. out w' (hs ! i) = out w (hs ! i) @ concat (map (\<lambda>xss. framed 0 (xss ! i)) xsss))
    \<and> mem (n + 1) \<and> fst (f fd n w') = (0, []) \<and> MapInputDataProvider mem f fd None n pos' w' = None
    \<and> map_loop mem f g ptr mif fd n (pos, d, w) = None"
proof -
  from map_turns_deliver [where w = w and rest = rest and pos = pos and ptr = ptr, OF f g mem rd e nc ok size data] obtain pos' w' xsss where
    t: "map_turns mem f g ptr mif fd n k (pos, d, w) = Some (pos', d, w')" "rest w' fd = []"
      "map concat xsss = map (\<lambda>i. chunk_items mif e (take n (drop (i * n) (rest w fd))) False) [0..<k]" "\<forall>xss \<in> set xsss. length xss = length hs"
      "\<forall>i < length hs. out w' (hs ! i) = out w (hs ! i) @ concat (map (\<lambda>xss. framed 0 (xss ! i)) xsss)" by blast
  have ga: "gives_all f fd (\<lambda>w. rest w fd)" using f(1) by (simp add: streams_def)
  have "fst (f fd n w') = (0, [])" using ga t(2) by (simp add: gives_all_def)
  moreover have p: "MapInputDataProvider mem f fd None n pos' w' = None" by (rule provider_end [where rest = rest and w = w', OF ga t(2)])
  moreover have "map_loop mem f g ptr mif fd n (pos, d, w) = None"
    unfolding map_loop_turns [OF t(1)] by (subst map_loop.simps) (simp add: map_chunk_def p)
  moreover have "mem (n + 1)" using mem size(2) by blast
  ultimately show ?thesis using t(1,3-5) by blast
qed

end
