(* ===== verification/DemoMr.thy ===== *)
theory DemoMr
  imports MrMapNodeProps
begin

text \<open>
  A small MapReduce job: two map nodes, one reduce node, hashes of one byte. The properties of the MapReduce
  theories are applied to its nodes.
\<close>

section \<open>The job\<close>

text \<open>The bytes that can still be read from every descriptor, and those written to it.\<close>

type_synonym net = "(int \<Rightarrow> byte list) \<times> (int \<Rightarrow> byte list)"

definition net_read :: "net reader" where
  "net_read h n w = ((int (length (take n (fst w h))), take n (fst w h)), ((fst w)(h := drop n (fst w h)), snd w))"

definition net_write :: "net writer" where
  "net_write h bs w = (int (length bs), (fst w, (snd w)(h := snd w h @ bs)))"

lemma net_streams: "streams net_read fst"
  by (simp add: streams_def gives_all_def net_read_def)

lemma net_sinks: "sinks net_write snd" "\<forall>h h'. keeps (\<lambda>w. fst w h') net_write h" "\<forall>h n w. snd (snd (net_read h n w)) = snd w"
  by (simp_all add: sinks_def takes_all_def keeps_def net_write_def net_read_def)

definition byte_order :: comparator where
  "byte_order x y = (if x = [] then 0 else uint (hd x)) - (if y = [] then 0 else uint (hd y))"

lemma byte_order: "hash_order byte_order" "byte_order x [0xFF] \<le> 0"
  using uint_lt2p [of "hd x"] by (auto simp: hash_order_def byte_order_def)

definition demo_item :: "byte \<Rightarrow> ElasticBufItemData" where
  "demo_item k = \<lparr>key_data = [k], item_value = Plain [1, 0, 0, 0], own_key = True, own_value = False, key_hash = [k]\<rparr>"

text \<open>The map function makes one item of a chunk, with the first byte as its key; the reduce function writes the keys.\<close>

definition demo_if :: "net MapReduceUserIf" where
  "demo_if = \<lparr>Map = (\<lambda>bs fin e. (length bs, e\<lparr>b_count := 1, b_data := Some (demo_item (if bs = [] then 0 else hd bs)) # tl (b_data e)\<rparr>)),
     Combine = None, Reduce = (\<lambda>b w. (fst w, (snd w)(9 := concat (map key_data (items b))))),
     ComparatorMrItem = (\<lambda>x y. byte_order (key_hash x) (key_hash y)), ComparatorHash = byte_order,
     mr_item_size = 20, hash_size = 1, value_addr_is_data = True\<rparr>"

definition demo_channel :: "nat \<Rightarrow> nat \<Rightarrow> nat \<Rightarrow> ChannelMode \<Rightarrow> UserChannel" where
  "demo_channel t n h m = \<lparr>nodetype = t, nodeid = n, uc_fd = h, uc_mode = m\<rparr>"

definition demo_node :: "int \<Rightarrow> int \<Rightarrow> UserChannel list \<Rightarrow> ChannelsConfigInterface" where
  "demo_node own t cs = \<lparr>ownnodeid = own, ownnodetype = t, channels = Some
     \<lparr>num_entries = length cs, ptr_array = map Some cs, ptr_array_space = length cs, available = [], avail_ix = 0\<rparr>\<rparr>"

definition reduce_node :: ChannelsConfigInterface where
  "reduce_node = demo_node 1 2 [demo_channel 1 1 3 EChannelModeRead, demo_channel 1 2 4 EChannelModeRead]"

definition map_node :: ChannelsConfigInterface where
  "map_node = demo_node 1 1 [demo_channel 1 1 3 EChannelModeWrite, demo_channel 1 2 4 EChannelModeRead, demo_channel 1 2 5 EChannelModeWrite,
     demo_channel 2 1 6 EChannelModeWrite, demo_channel 3 1 7 EChannelModeRead]"

lemmas node_defs = demo_node_def demo_channel_def DynArrayGet_def entries_def qsort_def cmp_by_node_type_and_id_def GetNodesListByType_def Channel_def
  List.map_filter_def atLeast0_lessThan_Suc

lemma reduce_node_channels:
  "GetNodesListByType reduce_node EMapNode = Some ([1, 2], reduce_node)" "serves EMapNode EChannelModeRead reduce_node [1, 2] [3, 4]"
  by (simp_all add: reduce_node_def node_defs serves_def)

lemma map_node_channels:
  "GetNodesListByType map_node EMapNode = Some ([1, 2], map_node)" "GetNodesListByType map_node EReduceNode = Some ([1], map_node)"
  "serves EReduceNode EChannelModeWrite map_node [1] [6]" "Channel map_node EInputOutputNode 1 EChannelModeRead = Some (Some (demo_channel 3 1 7 EChannelModeRead))"
  by (simp_all add: map_node_def node_defs serves_def)

definition demo_net :: "(int \<times> byte list) list \<Rightarrow> net" where
  "demo_net inputs = ((\<lambda>h. case map_of inputs h of Some bs \<Rightarrow> bs | None \<Rightarrow> []), (\<lambda>h. []))"

text \<open>A full array.\<close>

definition demo_buffer :: "nat \<Rightarrow> 'a list \<Rightarrow> 'a Buffer" where
  "demo_buffer sz xs = \<lparr>b_buf_size = sz * length xs, b_item_size = sz, b_count = length xs, b_data = map Some xs\<rparr>"

lemma demo_buffer [simp]:
  "readable (demo_buffer sz xs)" "items (demo_buffer sz xs) = xs" "b_count (demo_buffer sz xs) = length xs" "b_item_size (demo_buffer sz xs) = sz"
  by (simp_all add: demo_buffer_def readable_def items_def o_def)

lemma demo_item [simp]: "key_hash (demo_item k) = [k]" "item_ok (Suc 0) True (demo_item k)" "received True (demo_item k) = demo_item k"
  by (simp_all add: demo_item_def item_ok_def received_def)

lemma demo_if [simp]:
  "mr_item_size demo_if = 20" "hash_size demo_if = 1" "value_addr_is_data demo_if" "Combine demo_if = None" "ComparatorHash demo_if = byte_order"
  by (simp_all add: demo_if_def)

text \<open>An empty array of hashes, and one with room for a number of hashes.\<close>

definition no_hashes :: "nat \<Rightarrow> hash Buffer" where
  "no_hashes n = \<lparr>b_buf_size = n, b_item_size = 1, b_count = 0, b_data = replicate n None\<rparr>"

lemma no_hashes [simp]:
  "items (no_hashes n) = []" "b_item_size (no_hashes n) = 1" "b_count (no_hashes n) = 0" "length (b_data (no_hashes n)) = n" "0 < n \<Longrightarrow> n < SIZE_T_MOD \<Longrightarrow> buffer_wf (no_hashes n)"
  by (simp_all add: no_hashes_def items_def buffer_wf_def readable_def)

definition demo_histogram :: "hash list \<Rightarrow> nat \<Rightarrow> nat \<Rightarrow> Histogram" where
  "demo_histogram hs c l = \<lparr>src_nodeid = 0, step_hist_common = c, step_hist_last = l, h_buffer = demo_buffer 1 hs\<rparr>"

definition empty_histogram :: Histogram where
  "empty_histogram = \<lparr>src_nodeid = 0, step_hist_common = 0, step_hist_last = 0, h_buffer = no_hashes 1\<rparr>"

lemma demo_histograms [simp]:
  "h_buffer (demo_histogram hs c l) = demo_buffer 1 hs" "step_hist_common (demo_histogram hs c l) = c" "step_hist_last (demo_histogram hs c l) = l"
  "h_buffer empty_histogram = no_hashes 1"
  by (simp_all add: demo_histogram_def empty_histogram_def)

section \<open>The reduce node\<close>

theorem reduce_node_returns_witness:
  "\<exists>result w'. ReduceNodeMain (\<lambda>n. True) net_read demo_if reduce_node
       (demo_net [(3, stream [[demo_item 2, demo_item 5], [demo_item 1]]), (4, stream [[demo_item 3]])]) = Some (Reduce demo_if result w')
     \<and> by_hash byte_order (items result) \<and> mset (items result) = {#demo_item 1, demo_item 2, demo_item 3, demo_item 5#}"
proof -
  let ?qs = "[[[demo_item 2, demo_item 5], [demo_item 1]], [[demo_item 3]]]"
  have ok: "\<forall>q \<in> set ?qs. q \<noteq> [] \<and> packets_ok demo_if q"
    by (simp add: packets_ok_def packet_def item_bytes_def int_bytes_def by_hash_def byte_order_def) (simp add: demo_item_def)
  then show ?thesis
    using reduce_node_returns [where f = net_read and rest = fst and mem = "\<lambda>n. True" and mif = demo_if and chif = reduce_node and ns = "[1, 2]" and chif' = reduce_node
        and hs = "[3, 4]" and qs = ?qs and w = "demo_net [(3, stream (?qs ! 0)), (4, stream (?qs ! 1))]", OF net_streams _ _ reduce_node_channels]
      byte_order(1) by (simp add: demo_net_def add_mset_commute)
qed

section \<open>Histograms, dividers and baskets\<close>

theorem histogram_counts_items_witness:
  "\<exists>h'. GetHistogram (\<lambda>n. True) (demo_buffer 20 (map demo_item [1, 2, 4, 6, 9])) 2 empty_histogram = Some (3, h')
     \<and> items (h_buffer h') = [[2], [6], [9]] \<and> CalculateItemsCountBasedOnHistograms [h'] = Some 5"
  using histogram_counts_items [of "demo_buffer 20 (map demo_item [1, 2, 4, 6, 9])" 1 2 empty_histogram "\<lambda>n. True"]
  by (simp add: hashes_ok_def block_end_def upt_rec) (simp add: numeral_eq_Suc)

theorem dividers_complete_witness:
  "\<exists>D'. GetReducersDividerArrayBasedOnSummarizedHistograms (\<lambda>n. True) byte_order 1 [demo_histogram [[2], [6]] 3 1, demo_histogram [[4]] 2 2] (no_hashes 3) = Some D'
     \<and> buffer_wf D' \<and> b_count D' = 3 \<and> ascending byte_order (items D') \<and> last (items D') = [0xFF]
     \<and> set (items D') \<subseteq> {[0xFF], [2], [6], [4]}"
proof -
  have "ascending byte_order [[2], [6]]" by (simp add: byte_order_def)
  then show ?thesis
    using dividers_complete [of byte_order 1 "[demo_histogram [[2], [6]] 3 1, demo_histogram [[4]] 2 2]" "no_hashes 3" "\<lambda>n. True"] byte_order
    by (simp add: insert_commute)
qed

theorem baskets_divide_items_witness:
  "\<exists>bs. DistributeDataIntoBaskets byte_order (demo_buffer 1 [[4], [0xFF]]) (demo_buffer 20 (map demo_item [1, 4, 6])) 2 = Some bs
     \<and> concat (map (section_of (map demo_item [1, 4, 6])) bs) = map demo_item [1, 4, 6]"
  using baskets_divide_items [of "demo_buffer 20 (map demo_item [1, 4, 6])" "demo_buffer 1 [[4], [0xFF]]" byte_order]
  by (auto simp: byte_order numeral_2_eq_2)

theorem basket_skips_no_divider_witness:
  "DistributeDataIntoBaskets byte_order (demo_buffer 1 [[1], [2], [0xFF]]) (demo_buffer 20 [demo_item 9]) 3 = Some [(0, 0), (0, 1), (0, 0)]"
  using basket_skips_no_divider [of "demo_buffer 20 [demo_item 9]" "demo_item 9" "demo_buffer 1 [[1], [2], [0xFF]]" "[1]" "[2]" "[0xFF]" byte_order]
  by (simp add: byte_order_def numeral_3_eq_3)

section \<open>The map node\<close>

lemma map_node_apart: "apart map_node 7"
  by (auto simp: apart_def map_node_def node_defs split: if_splits)

definition demo_data :: MapNodeData where
  "demo_data = \<lparr>histograms_list = [empty_histogram, empty_histogram], dividers_list = demo_buffer 1 [[0xFF]], node_channels = map_node\<rparr>"

lemma demo_data [simp]:
  "histograms_list demo_data = [empty_histogram, empty_histogram]" "dividers_list demo_data = demo_buffer 1 [[0xFF]]" "node_channels demo_data = map_node"
  by (simp_all add: demo_data_def)

text \<open>The map function of the job on an empty array of items.\<close>

lemma demo_map:
  fixes e :: item_buffer
  shows "map_ok demo_if e (demo_buffer 1 [[0xFF]])" "chunk_items demo_if e bs fin = [demo_item (if bs = [] then 0 else hd bs)]"
proof -
  have m: "snd (Map demo_if bs fin e) = e\<lparr>b_count := 1, b_data := Some (demo_item (if bs = [] then 0 else hd bs)) # tl (b_data e)\<rparr>" for bs fin
    by (simp add: demo_if_def)
  have one_item: "readable (e\<lparr>b_count := 1, b_data := Some x # xs\<rparr>)" "items (e\<lparr>b_count := 1, b_data := Some x # xs\<rparr>) = [x]" for x xs
    by (simp_all add: readable_def items_def)
  show "map_ok demo_if e (demo_buffer 1 [[0xFF]])" unfolding map_ok_def m Let_def
    by (simp add: one_item [unfolded One_nat_def] byte_order packet_def item_bytes_def int_bytes_def) (simp add: demo_item_def)
  show "chunk_items demo_if e bs fin = [demo_item (if bs = [] then 0 else hd bs)]"
    by (simp add: chunk_items_def m one_item [unfolded One_nat_def] qsort_def)
qed

lemma demo_ready: "ready demo_if demo_data [6]"
  using settled [OF map_node_channels(1)] map_node_channels(2,3) by (auto simp: ready_def)

lemma demo_alloc: "\<exists>e :: item_buffer. IF_ALLOC_ERROR (AllocBuffer (\<lambda>n. True) (mr_item_size demo_if) 1024) = Some e"
  using AllocBuffer_small [of 20 1024 "\<lambda>n. True"] by auto

lemma single_sections: "\<forall>xss \<in> set xsss. length xss = 1 \<Longrightarrow> map concat xsss = map (\<lambda>xss. xss ! 0) xsss"
  by (auto simp: length_Suc_conv)

theorem map_node_delivers_witness:
  "\<exists>w'. map_loop (\<lambda>n. True) net_read net_write [0, 0, 0, 0] demo_if 7 2 (0, demo_data, demo_net [(7, [5, 6, 1])]) = Some w'
     \<and> snd w' 6 = framed 0 [demo_item 5] @ framed 1 [demo_item 1]"
proof -
  let ?w = "demo_net [(7, [5, 6, 1])]"
  obtain e :: item_buffer where e: "IF_ALLOC_ERROR (AllocBuffer (\<lambda>n. True) (mr_item_size demo_if) 1024) = Some e" using demo_alloc by blast
  obtain w' xsss where w': "map_loop (\<lambda>n. True) net_read net_write [0, 0, 0, 0] demo_if 7 2 (0, demo_data, ?w) = Some w'"
    "map concat xsss = input_items demo_if e 2 [5, 6, 1]" "\<forall>xss \<in> set xsss. length xss = 1" "snd w' 6 = stream (map (\<lambda>xss. xss ! 0) xsss)"
    using map_node_delivers [where f = net_read and rest = fst and g = net_write and out = snd and mem = "\<lambda>n. True" and d = demo_data
        and n = 2 and w = ?w and fd = 7 and pos = 0 and ptr = "[0, 0, 0, 0]", OF net_streams net_sinks(3,1,2) _ demo_ready e] demo_map(1) by (auto simp: demo_net_def)
  have "input_items demo_if e 2 [5, 6, 1] = [[demo_item 5], [demo_item 1]]" by (simp add: input_items.simps demo_map(2))
  then have "map (\<lambda>xss. xss ! 0) xsss = [[demo_item 5], [demo_item 1]]" using w'(2) single_sections [OF w'(3)] by simp
  then show ?thesis using w'(1,4) by simp
qed

text \<open>Two whole chunks: both reach the reduce node, in packets that are not marked, and then the node fails.\<close>

theorem whole_chunks_fail_witness:
  "\<exists>pos' w'. map_turns (\<lambda>n. True) net_read net_write [0, 0, 0, 0] demo_if 7 2 2 (0, demo_data, demo_net [(7, [5, 6, 1, 2])]) = Some (pos', demo_data, w')
     \<and> snd w' 6 = framed 0 [demo_item 5] @ framed 0 [demo_item 1] \<and> fst (net_read 7 2 w') = (0, [])
     \<and> MapInputDataProvider (\<lambda>n. True) net_read 7 None 2 pos' w' = None
     \<and> map_loop (\<lambda>n. True) net_read net_write [0, 0, 0, 0] demo_if 7 2 (0, demo_data, demo_net [(7, [5, 6, 1, 2])]) = None"
proof -
  let ?w = "demo_net [(7, [5, 6, 1, 2])]"
  have data: "fst ?w 7 = [5, 6, 1, 2]" by (simp add: demo_net_def)
  obtain e :: item_buffer where e: "IF_ALLOC_ERROR (AllocBuffer (\<lambda>n. True) (mr_item_size demo_if) 1024) = Some e" using demo_alloc by blast
  have "map_ok demo_if e (dividers_list demo_data)" using demo_map(1) by simp
  moreover have "length (fst ?w 7) = 2 * 2" by (simp add: data)
  ultimately obtain pos' w' xsss where
    t: "map_turns (\<lambda>n. True) net_read net_write [0, 0, 0, 0] demo_if 7 2 2 (0, demo_data, ?w) = Some (pos', demo_data, w')"
      "map concat xsss = map (\<lambda>i. chunk_items demo_if e (take 2 (drop (i * 2) (fst ?w 7))) False) [0..<2]"
      "\<forall>xss \<in> set xsss. length xss = length [6 :: int]" "\<forall>i < length [6 :: int]. snd w' ([6] ! i) = snd ?w ([6] ! i) @ concat (map (\<lambda>xss. framed 0 (xss ! i)) xsss)"
      "fst (net_read 7 2 w') = (0, [])" "MapInputDataProvider (\<lambda>n. True) net_read 7 None 2 pos' w' = None"
      "map_loop (\<lambda>n. True) net_read net_write [0, 0, 0, 0] demo_if 7 2 (0, demo_data, ?w) = None"
    using whole_chunks_fail [where f = net_read and rest = fst and g = net_write and out = snd and mem = "\<lambda>n. True" and d = demo_data
        and n = 2 and w = ?w and fd = 7 and pos = 0 and ptr = "[0, 0, 0, 0]" and k = 2, OF net_streams net_sinks(3,1,2) _ demo_ready e] by (simp only: demo_if) auto
  have "map (\<lambda>xss. xss ! 0) xsss = [[demo_item 5], [demo_item 1]]"
    using t(2) single_sections [of xsss] t(3) by (simp add: demo_map(2) data numeral_2_eq_2)
  moreover have "snd w' 6 = concat (map (framed 0) (map (\<lambda>xss. xss ! 0) xsss))" using t(4) by (simp add: demo_net_def o_def)
  ultimately have "snd w' 6 = framed 0 [demo_item 5] @ framed 0 [demo_item 1]" by simp
  then show ?thesis using t(1,5-7) by blast
qed

section \<open>The exchange\<close>

text \<open>The second map node, and the bytes between the two.\<close>

definition map_node_2 :: ChannelsConfigInterface where
  "map_node_2 = demo_node 2 1 [demo_channel 1 1 3 EChannelModeRead, demo_channel 1 1 4 EChannelModeWrite, demo_channel 1 2 5 EChannelModeWrite,
     demo_channel 2 1 6 EChannelModeWrite, demo_channel 3 1 7 EChannelModeRead]"

definition demo_data_2 :: MapNodeData where
  "demo_data_2 = demo_data\<lparr>node_channels := map_node_2\<rparr>"

lemma exchange_channels:
  "GetNodesListByType map_node_2 EMapNode = Some ([1, 2], map_node_2)" "GetNodesListByType map_node_2 EReduceNode = Some ([1], map_node_2)"
  "connected map_node 2 0 (\<lambda>j. 4) (\<lambda>j. 5)" "connected map_node_2 2 (Suc 0) (\<lambda>j. 3) (\<lambda>j. 4)"
  subgoal by (simp add: map_node_2_def node_defs)
  subgoal by (simp add: map_node_2_def node_defs)
  subgoal by (auto simp: connected_def less_Suc_eq numeral_2_eq_2 inj_on_def) (simp_all add: map_node_def node_defs)
  subgoal by (auto simp: connected_def less_Suc_eq numeral_2_eq_2 inj_on_def) (simp_all add: map_node_2_def node_defs)
  done

lemma demo_counted: "GetHistogram (\<lambda>n. True) (demo_buffer 20 [demo_item k]) 0 empty_histogram = Some (1, demo_histogram [[k]] 1 1)"
  by (simp add: GetHistogram_def AddHash_def BufferItem_def hash_at_def AddBufferItem_def SetBufferItem_def BufferCountMax_def empty_histogram_def no_hashes_def
      demo_histogram_def demo_buffer_def)

definition demo_message :: "byte \<Rightarrow> byte list" where
  "demo_message k = histogram_message [0, 0, 0, 0] (demo_histogram [[k]] 1 1)"

text \<open>Node 1 holds an item with the hash 2, node 2 one with the hash 7: both choose the same dividers, and each sends what
  the other one reads.\<close>

theorem map_nodes_agree_witness:
  "(\<exists>d' w'. MapCreateHistogramSendEachToOtherCreateDividersList (\<lambda>n. True) net_read net_write [0, 0, 0, 0] demo_if (demo_buffer 20 [demo_item 2]) demo_data
       (demo_net [(4, demo_message 7)]) = Some (d', w') \<and> dividers_list d' = demo_buffer 1 [[0xFF]] \<and> snd w' 5 = demo_message 2)
   \<and> (\<exists>d' w'. MapCreateHistogramSendEachToOtherCreateDividersList (\<lambda>n. True) net_read net_write [0, 0, 0, 0] demo_if (demo_buffer 20 [demo_item 7]) demo_data_2
       (demo_net [(3, demo_message 2)]) = Some (d', w') \<and> dividers_list d' = demo_buffer 1 [[0xFF]] \<and> snd w' 4 = demo_message 7)"
proof -
  let ?gs = "[demo_histogram [[2]] 1 1, demo_histogram [[7]] 1 1]"
  let ?w = "\<lambda>own. if own = 0 then demo_net [(4, demo_message 7)] else demo_net [(3, demo_message 2)]" and ?mapb = "\<lambda>own. if own = 0 then demo_buffer 20 [demo_item 2] else demo_buffer 20 [demo_item 7]"
  let ?d = "\<lambda>own. if own = 0 then demo_data else demo_data_2" and ?chif = "\<lambda>own. if own = 0 then map_node else map_node_2"
  let ?rfd = "\<lambda>own j. if own = 0 then 4 else 3 :: int" and ?wfd = "\<lambda>own j. if own = 0 then 5 else 4 :: int"
  have net: "network (\<lambda>n. True) net_read net_write fst snd" using net_streams net_sinks by (simp add: network_def)
  have "has_counted (\<lambda>n. True) 2 [1] ?gs 0 demo_data (demo_buffer 20 [demo_item 2]) map_node"
    "has_counted (\<lambda>n. True) 2 [1] ?gs (Suc 0) demo_data_2 (demo_buffer 20 [demo_item 7]) map_node_2"
    using map_node_channels(1,2) exchange_channels(1,2) demo_counted [of 2] demo_counted [of 7]
    by (auto simp: has_counted_def demo_data_2_def numeral_2_eq_2 less_Suc_eq)
  then have nodes: "\<forall>own < 2. has_counted (\<lambda>n. True) 2 [1] ?gs own (?d own) (?mapb own) (?chif own) \<and> connected (?chif own) 2 own (?rfd own) (?wfd own)"
    using exchange_channels(3,4) by (auto simp: less_2_cases_iff)
  have "histogram_ok (demo_histogram [[k]] 1 1)" for k by (simp add: histogram_ok_def buffer_wf_def) (simp add: demo_buffer_def)
  then have ok: "\<forall>j < 2. histogram_ok (?gs ! j) \<and> length [0 :: byte, 0, 0, 0] = 4" by (simp add: less_2_cases_iff)
  have arr: "\<forall>own < 2. arriving fst 2 own (?rfd own) (\<lambda>j. [0, 0, 0, 0]) ?gs 0 (?w own)"
    by (auto simp: less_2_cases_iff arriving_def demo_net_def demo_message_def)
  have D0: "IF_ALLOC_ERROR (AllocBuffer (\<lambda>n. True) (hash_size demo_if) (length [1 :: nat])) = Some (no_hashes 1)"
    by (simp add: AllocBuffer_def IF_ALLOC_ERROR_def no_hashes_def)
  have D: "GetReducersDividerArrayBasedOnSummarizedHistograms (\<lambda>n. True) (ComparatorHash demo_if) (hash_size demo_if) ?gs (no_hashes 1) = Some (demo_buffer 1 [[0xFF]])"
    by (simp add: GetReducersDividerArrayBasedOnSummarizedHistograms_def CalculateItemsCountBasedOnHistograms_def divider_loop.simps demo_histogram_def no_hashes_def
        demo_buffer_def AddBufferItem_def SetBufferItem_def BufferCountMax_def)
  from map_nodes_agree [OF net nodes _ ok arr D0 D]
  have all: "\<forall>own < 2. \<exists>d' w'. MapCreateHistogramSendEachToOtherCreateDividersList (\<lambda>n. True) net_read net_write [0, 0, 0, 0] demo_if (?mapb own) (?d own) (?w own) = Some (d', w')
      \<and> dividers_list d' = demo_buffer 1 [[0xFF]] \<and> (\<forall>j < 2. j \<noteq> own \<longrightarrow> snd w' (?wfd own j) = snd (?w own) (?wfd own j) @ histogram_message [0, 0, 0, 0] (?gs ! own))"
    by simp
  from all [rule_format, of 0] all [rule_format, of "Suc 0"] show ?thesis by (auto simp: demo_message_def demo_net_def less_2_cases_iff all_conj_distrib)
qed

end
