(* ===== verification/LibcCalls.thy ===== *)
theory LibcCalls
  imports Prolog
begin

text \<open>
  The calls that replace functions of the C library (\<open>lib/libc\<close>): most of them check that the run-time
  is ready, make the path absolute and go on to the dispatcher. A NULL pointer is \<open>None\<close> or a boolean
  argument. What \<open>realpath\<close> stores in \<open>errno\<close> when it fails is not modelled.
\<close>

section \<open>Calls on a path\<close>

definition CHECK_EXIT_IF_ZRT_NOT_READY :: "('w, 'a) proc_scheme \<Rightarrow> ('w, 'a) proc_scheme res \<Rightarrow> ('w, 'a) proc_scheme res" where
  "CHECK_EXIT_IF_ZRT_NOT_READY s call = (if s_zrt_ready s then call else Some (-1, SET_ERRNO ENOSYS s))"

text \<open>The body shared by the calls on an existing path.\<close>

definition with_realpath :: "('w, 'a, 'r) penv \<Rightarrow> ('w, 'a) proc_scheme \<Rightarrow> string option \<Rightarrow> (('w, 'a) proc_scheme \<Rightarrow> string \<Rightarrow> ('w, 'a) proc_scheme res)
    \<Rightarrow> ('w, 'a) proc_scheme res" where
  "with_realpath env s path call = CHECK_EXIT_IF_ZRT_NOT_READY s
     (let s1 = SET_ERRNO 0 s
      in case path of
           None \<Rightarrow> Some (-1, SET_ERRNO EFAULT s1)
         | Some p \<Rightarrow> (case te_realpath env p of Some absolute_path \<Rightarrow> call s1 absolute_path | None \<Rightarrow> Some (-1, s1)))"

definition zrt_zcall_chmod :: "('w, 'a, 'r) penv \<Rightarrow> mode_t option \<Rightarrow> ('w, 'a) proc_scheme \<Rightarrow> string option \<Rightarrow> mode_t \<Rightarrow> ('w, 'a) proc_scheme res" where
  "zrt_zcall_chmod env umask s path mode = with_realpath env s path (\<lambda>s p. transparent_chmod env s p (APPLY_UMASK umask mode))"

definition zrt_zcall_chown :: "('w, 'a, 'r) penv \<Rightarrow> ('w, 'a) proc_scheme \<Rightarrow> string option \<Rightarrow> int \<Rightarrow> int \<Rightarrow> ('w, 'a) proc_scheme res" where
  "zrt_zcall_chown env s path owner grp = with_realpath env s path (\<lambda>s p. transparent_chown env s p owner grp)"

definition zrt_zcall_unlink :: "('w, 'a, 'r) penv \<Rightarrow> ('w, 'a) proc_scheme \<Rightarrow> string option \<Rightarrow> ('w, 'a) proc_scheme res" where
  "zrt_zcall_unlink env s pathname = with_realpath env s pathname (transparent_unlink env)"

text \<open>Here the pointer is checked before \<open>errno\<close> is cleared, which makes no difference.\<close>

definition zrt_zcall_rmdir :: "('w, 'a, 'r) penv \<Rightarrow> ('w, 'a) proc_scheme \<Rightarrow> string option \<Rightarrow> ('w, 'a) proc_scheme res" where
  "zrt_zcall_rmdir env s pathname = with_realpath env s pathname (transparent_rmdir env)"

definition zrt_zcall_readlink :: "('w, 'a, 'r) penv \<Rightarrow> ('w, 'a) proc_scheme \<Rightarrow> string option \<Rightarrow> bool \<Rightarrow> ('w, 'a) proc_scheme res" where
  "zrt_zcall_readlink env s path buf_null =
     (if buf_null then CHECK_EXIT_IF_ZRT_NOT_READY s (Some (-1, SET_ERRNO EFAULT s)) else with_realpath env s path (\<lambda>s _. transparent_enosys s))"

definition zrt_zcall_symlink :: "('w, 'a, 'r) penv \<Rightarrow> ('w, 'a) proc_scheme \<Rightarrow> string option \<Rightarrow> bool \<Rightarrow> ('w, 'a) proc_scheme res" where
  "zrt_zcall_symlink env s oldpath newpath_null =
     (if newpath_null then CHECK_EXIT_IF_ZRT_NOT_READY s (Some (-1, SET_ERRNO EFAULT s)) else with_realpath env s oldpath (\<lambda>s _. transparent_enosys s))"

definition zrt_zcall_statvfs :: "('w, 'a, 'r) penv \<Rightarrow> ('w, 'a) proc_scheme \<Rightarrow> string option \<Rightarrow> bool \<Rightarrow> ('w, 'a) proc_scheme res" where
  "zrt_zcall_statvfs env s path buf_null =
     (if buf_null then CHECK_EXIT_IF_ZRT_NOT_READY s (Some (-1, SET_ERRNO EFAULT s)) else with_realpath env s path (\<lambda>s _. transparent_enosys s))"

definition zrt_zcall_stat_realpath :: "('w, 'a, 'r) penv \<Rightarrow> ('w, 'a) proc_scheme \<Rightarrow> string option \<Rightarrow> (int \<times> stat option \<times> ('w, 'a) proc_scheme) option" where
  "zrt_zcall_stat_realpath env s abspathname =
     (if s_zrt_ready s then
        (case abspathname of
           None \<Rightarrow> Some (-1, None, SET_ERRNO EFAULT s)
         | Some p \<Rightarrow> transparent_stat env (SET_ERRNO 0 s) p)
      else Some (-1, None, SET_ERRNO ENOSYS s))"

definition zrt_zcall_mkdir :: "('w, 'a, 'r) penv \<Rightarrow> ('w, 'a) proc_scheme \<Rightarrow> string option \<Rightarrow> mode_t \<Rightarrow> ('w, 'a) proc_scheme res" where
  "zrt_zcall_mkdir env s pathname mode = CHECK_EXIT_IF_ZRT_NOT_READY s
     (let s1 = SET_ERRNO 0 s
      in case pathname of
           None \<Rightarrow> Some (-1, SET_ERRNO EFAULT s1)
         | Some p \<Rightarrow> (case zrealpath (te_realpath env) (te_cwd env) p of
               Some absolute_path \<Rightarrow> transparent_mkdir env s1 absolute_path mode
             | None \<Rightarrow> Some (-1, s1)))"

text \<open>The body shared by the calls on an existing and a new path.\<close>

definition with_two_paths :: "('w, 'a, 'r) penv \<Rightarrow> ('w, 'a) proc_scheme \<Rightarrow> string option \<Rightarrow> string option
    \<Rightarrow> (('w, 'a) proc_scheme \<Rightarrow> string \<Rightarrow> string \<Rightarrow> ('w, 'a) proc_scheme res) \<Rightarrow> ('w, 'a) proc_scheme res" where
  "with_two_paths env s oldpath newpath call = CHECK_EXIT_IF_ZRT_NOT_READY s
     (let s1 = SET_ERRNO 0 s
      in case (oldpath, newpath) of
           (Some old, Some new) \<Rightarrow>
             (case (te_realpath env old, zrealpath (te_realpath env) (te_cwd env) new) of
                (Some absolute_path1, Some absolute_path2) \<Rightarrow> call s1 absolute_path1 absolute_path2
              | _ \<Rightarrow> Some (-1, s1))
         | _ \<Rightarrow> Some (-1, SET_ERRNO EFAULT s1))"

definition zrt_zcall_rename :: "('w, 'a, 'r) penv \<Rightarrow> ('w, 'a) proc_scheme \<Rightarrow> string option \<Rightarrow> string option \<Rightarrow> ('w, 'a) proc_scheme res" where
  "zrt_zcall_rename env s oldpath newpath = with_two_paths env s oldpath newpath (transparent_rename env)"

definition zrt_zcall_link :: "('w, 'a, 'r) penv \<Rightarrow> ('w, 'a) proc_scheme \<Rightarrow> string option \<Rightarrow> string option \<Rightarrow> ('w, 'a) proc_scheme res" where
  "zrt_zcall_link env s oldpath newpath = with_two_paths env s oldpath newpath (transparent_link env)"

section \<open>Calls on a descriptor\<close>

definition zrt_zcall_fchmod :: "('w, 'a, 'r) penv \<Rightarrow> mode_t option \<Rightarrow> ('w, 'a) proc_scheme \<Rightarrow> int \<Rightarrow> mode_t \<Rightarrow> ('w, 'a) proc_scheme res" where
  "zrt_zcall_fchmod env umask s fd mode = CHECK_EXIT_IF_ZRT_NOT_READY s (transparent_fchmod env (SET_ERRNO 0 s) fd (APPLY_UMASK umask mode))"

definition zrt_zcall_fchown :: "('w, 'a, 'r) penv \<Rightarrow> ('w, 'a) proc_scheme \<Rightarrow> int \<Rightarrow> int \<Rightarrow> int \<Rightarrow> ('w, 'a) proc_scheme res" where
  "zrt_zcall_fchown env s fd owner grp = CHECK_EXIT_IF_ZRT_NOT_READY s (transparent_fchown env (SET_ERRNO 0 s) fd owner grp)"

text \<open>Commands other than those on locks and flags succeed without any call.\<close>

definition zrt_zcall_fcntl :: "('w, 'a, 'r) penv \<Rightarrow> ('w, 'a) proc_scheme \<Rightarrow> int \<Rightarrow> int \<Rightarrow> flock option \<Rightarrow> flags_t
    \<Rightarrow> (int \<times> flock option \<times> ('w, 'a) proc_scheme) option" where
  "zrt_zcall_fcntl env s fd cmd lock flags =
     (if s_zrt_ready s then
        (if cmd = F_SETLK \<or> cmd = F_SETLKW \<or> cmd = F_GETLK \<or> cmd = F_GETFL \<or> cmd = F_SETFL
         then transparent_fcntl env (SET_ERRNO 0 s) fd cmd lock flags else Some (0, lock, SET_ERRNO 0 s))
      else Some (-1, lock, SET_ERRNO ENOSYS s))"

text \<open>\<open>chdir\<close> is the function of the C library.\<close>

definition zrt_zcall_fchdir :: "('w, 'a, 'r) penv \<Rightarrow> (('w, 'a) proc_scheme \<Rightarrow> string \<Rightarrow> ('w, 'a) proc_scheme res) \<Rightarrow> ('w, 'a) proc_scheme \<Rightarrow> int
    \<Rightarrow> ('w, 'a) proc_scheme res" where
  "zrt_zcall_fchdir env chdir s fd = CHECK_EXIT_IF_ZRT_NOT_READY s
     (let s1 = SET_ERRNO 0 s
      in case entry s1 fd of
           None \<Rightarrow> Some (-1, SET_ERRNO EBADF s1)
         | Some e \<Rightarrow> do {
             mount \<leftarrow> hi_mount_fs e;
             path \<leftarrow> ms_handle_path (m_implem (te_mounts env mount)) s1 fd;
             (case path of Some p \<Rightarrow> chdir s1 p | None \<Rightarrow> Some (-1, SET_ERRNO ENOENT s1)) })"

section \<open>The number of pages\<close>

definition zrt_zcall_get_phys_pages :: "('w, 'a) proc_scheme \<Rightarrow> ('w, 'a) proc_scheme res" where
  "zrt_zcall_get_phys_pages s = CHECK_EXIT_IF_ZRT_NOT_READY s (Some (memory_get_phys_pages (memif s), SET_ERRNO 0 s))"

definition zrt_zcall_get_avphys_pages :: "('w, 'a) proc_scheme \<Rightarrow> ('w, 'a) proc_scheme res" where
  "zrt_zcall_get_avphys_pages s = CHECK_EXIT_IF_ZRT_NOT_READY s (do { r \<leftarrow> memory_get_avphys_pages (memif s); Some (r, SET_ERRNO 0 s) })"

end
