(* ===== verification/Truncate.thy ===== *)
theory Truncate
  imports LibcCalls
begin

text \<open>
  \<open>zrt_zcall_ftruncate\<close> (\<open>lib/libc/ftruncate.c\<close>): a file grows by zeros that are written behind its end and
  shrinks by a call of the file system. The functions \<open>lseek\<close>, \<open>write\<close> and \<open>fstat\<close> of the C library are a record;
  \<open>None\<close> is a failed assertion or an abort of one of them.
\<close>

record 's libc =
  lc_lseek :: "'s \<Rightarrow> int \<Rightarrow> off_t \<Rightarrow> int \<Rightarrow> (off_t \<times> 's) option"
  lc_write :: "'s \<Rightarrow> int \<Rightarrow> byte list \<Rightarrow> 's res"
  lc_fstat :: "'s \<Rightarrow> int \<Rightarrow> (int \<times> stat option \<times> 's) option"

abbreviation (input) BUFSIZE :: int where "BUFSIZE \<equiv> 0x10000"

definition LSEEK_SET_ASSERT_IF_FAIL :: "'s libc \<Rightarrow> 's \<Rightarrow> int \<Rightarrow> off_t \<Rightarrow> 's option" where
  "LSEEK_SET_ASSERT_IF_FAIL lc s fd len = do { (new_pos, s') \<leftarrow> lc_lseek lc s fd len SEEK_SET; if new_pos = len then Some s' else None }"

function write_file_padding :: "'s libc \<Rightarrow> int \<Rightarrow> off_t \<Rightarrow> 's \<Rightarrow> 's res" where
  "write_file_padding lc fd remain_bytes s =
     (case lc_write lc s fd (replicate (nat (if BUFSIZE < remain_bytes then BUFSIZE else remain_bytes)) 0) of
        None \<Rightarrow> None
      | Some (wrote, s') \<Rightarrow>
          (let remain = (if 0 < wrote then remain_bytes - wrote else wrote)
           in if 0 < remain then write_file_padding lc fd remain s' else Some (s32 remain, s')))"
  by pat_completeness auto
termination
  by (relation "measure (\<lambda>(lc, fd, remain_bytes, s). nat remain_bytes)") (auto split: if_splits)

declare write_file_padding.simps [simp del]

text \<open>The change of the size.\<close>

definition change_size :: "'s libc \<Rightarrow> ('s \<Rightarrow> int \<Rightarrow> off_t \<Rightarrow> 's res) \<Rightarrow> 's \<Rightarrow> int \<Rightarrow> off_t \<Rightarrow> off_t \<Rightarrow> 's res" where
  "change_size lc ftruncate_size s fd filesize len =
     (if filesize < len then do {
        (endpos, s1) \<leftarrow> lc_lseek lc s fd filesize SEEK_SET;
        if endpos = filesize then write_file_padding lc fd (len - filesize) s1 else None }
      else ftruncate_size s fd len)"

definition zrt_zcall_ftruncate :: "('w, 'a, 'r) penv \<Rightarrow> ('w, 'a) proc_scheme libc \<Rightarrow> ('w, 'a) proc_scheme \<Rightarrow> int \<Rightarrow> off_t \<Rightarrow> ('w, 'a) proc_scheme res" where
  "zrt_zcall_ftruncate env lc s fd len = CHECK_EXIT_IF_ZRT_NOT_READY s (do {
     (saved_pos, s1) \<leftarrow> lc_lseek lc (SET_ERRNO 0 s) fd 0 SEEK_CUR;
     if saved_pos < 0 then Some (s32 saved_pos, s1)
     else do {
       (ret, st, s2) \<leftarrow> lc_fstat lc s1 fd;
       st \<leftarrow> (if ret = 0 then st else None);
       if st_size st < 0 then Some (s32 (st_size st), s2)
       else do {
         (res, s3) \<leftarrow> change_size lc (transparent_ftruncate_size env) s2 fd (st_size st) len;
         if res < 0 then Some (res, s3)
         else do {
           s4 \<leftarrow> (if saved_pos < len then LSEEK_SET_ASSERT_IF_FAIL lc s3 fd saved_pos else Some s3);
           (ret, st, s5) \<leftarrow> lc_fstat lc s4 fd;
           st \<leftarrow> (if ret = 0 then st else None);
           if st_size st = len then Some (0, s5) else None } } } })"

section \<open>The file after the call\<close>

text \<open>
  What the call relies on: \<open>file\<close> is the content and the position of the open file in a state in which the
  descriptor is usable (\<open>good\<close>). A write may be short, but it writes something.
\<close>

definition stored :: "byte list \<Rightarrow> nat \<Rightarrow> byte list \<Rightarrow> byte list" where
  "stored c p bs = take p c @ replicate (p - length c) 0 @ bs @ drop (p + length bs) c"

abbreviation (input) fits_off_t :: "nat \<Rightarrow> bool" where "fits_off_t n \<equiv> n < 2 ^ 63"

definition file_laws :: "'s libc \<Rightarrow> ('s \<Rightarrow> int \<Rightarrow> off_t \<Rightarrow> 's res) \<Rightarrow> int \<Rightarrow> ('s \<Rightarrow> bool) \<Rightarrow> ('s \<Rightarrow> byte list \<times> nat) \<Rightarrow> bool" where
  "file_laws lc ftruncate_size fd good file \<longleftrightarrow>
     (\<forall>s. good s \<longrightarrow> (\<exists>s'. lc_lseek lc s fd 0 SEEK_CUR = Some (int (snd (file s)), s') \<and> file s' = file s \<and> good s'))
   \<and> (\<forall>s p. good s \<longrightarrow> fits_off_t p \<longrightarrow> (\<exists>s'. lc_lseek lc s fd (int p) SEEK_SET = Some (int p, s') \<and> file s' = (fst (file s), p) \<and> good s'))
   \<and> (\<forall>s. good s \<longrightarrow> (\<exists>st s'. lc_fstat lc s fd = Some (0, Some st, s') \<and> st_size st = int (length (fst (file s))) \<and> file s' = file s \<and> good s'))
   \<and> (\<forall>s bs. good s \<longrightarrow> bs \<noteq> [] \<longrightarrow> fits_off_t (snd (file s) + length bs) \<longrightarrow> (\<exists>n s'. lc_write lc s fd bs = Some (int n, s') \<and> 0 < n \<and> n \<le> length bs
         \<and> file s' = (stored (fst (file s)) (snd (file s)) (take n bs), snd (file s) + n) \<and> good s'))
   \<and> (\<forall>s n. good s \<longrightarrow> n \<le> length (fst (file s)) \<longrightarrow> (\<exists>s'. ftruncate_size s fd (int n) = Some (0, s') \<and> file s' = (take n (fst (file s)), snd (file s)) \<and> good s'))"

lemma file_lawsD:
  assumes "file_laws lc tr fd good file" "good s"
  shows "\<exists>s'. lc_lseek lc s fd 0 SEEK_CUR = Some (int (snd (file s)), s') \<and> file s' = file s \<and> good s'"
    "fits_off_t p \<Longrightarrow> \<exists>s'. lc_lseek lc s fd (int p) SEEK_SET = Some (int p, s') \<and> file s' = (fst (file s), p) \<and> good s'"
    "\<exists>st s'. lc_fstat lc s fd = Some (0, Some st, s') \<and> st_size st = int (length (fst (file s))) \<and> file s' = file s \<and> good s'"
    "bs \<noteq> [] \<Longrightarrow> fits_off_t (snd (file s) + length bs) \<Longrightarrow> \<exists>n s'. lc_write lc s fd bs = Some (int n, s') \<and> 0 < n \<and> n \<le> length bs
         \<and> file s' = (stored (fst (file s)) (snd (file s)) (take n bs), snd (file s) + n) \<and> good s'"
    "n \<le> length (fst (file s)) \<Longrightarrow> \<exists>s'. tr s fd (int n) = Some (0, s') \<and> file s' = (take n (fst (file s)), snd (file s)) \<and> good s'"
  using assms unfolding file_laws_def by blast+

lemma stored_end [simp]: "stored c (length c) bs = c @ bs"
  by (simp add: stored_def)

lemma padding_ok:
  assumes f: "file_laws lc tr fd good file"
  shows "0 < n \<Longrightarrow> fits_off_t (length c + n) \<Longrightarrow> good s \<Longrightarrow> file s = (c, length c)
    \<Longrightarrow> \<exists>s'. write_file_padding lc fd (int n) s = Some (0, s') \<and> file s' = (c @ replicate n 0, length c + n) \<and> good s'"
proof (induction n arbitrary: s c rule: less_induct)
  case (less n)
  let ?bs = "replicate (nat (if BUFSIZE < int n then BUFSIZE else int n)) (0 :: byte)"
  have bs: "?bs \<noteq> []" "length ?bs \<le> n" using less.prems(1) by auto
  then have "fits_off_t (snd (file s) + length ?bs)" using less.prems(2,4) by simp
  with file_lawsD(4) [OF f less.prems(3) bs(1)] less.prems(4) obtain k s1 where w: "lc_write lc s fd ?bs = Some (int k, s1)" "0 < k" "k \<le> length ?bs"
    "file s1 = (c @ take k ?bs, length c + k)" "good s1" by auto
  have k: "k \<le> n" "take k ?bs = replicate k 0" using w(3) bs(2) by auto
  have un: "write_file_padding lc fd (int n) s = (if k < n then write_file_padding lc fd (int (n - k)) s1 else Some (0, s1))"
    using w(1,2) k(1) by (subst write_file_padding.simps) (auto simp: of_nat_diff s32_def)
  show ?case
  proof (cases "k < n")
    case True
    let ?c = "c @ replicate k (0 :: byte)"
    have "n - k < n" "0 < n - k" "fits_off_t (length ?c + (n - k))" "file s1 = (?c, length ?c)" using True w(2,4) k(2) less.prems(2) by simp_all
    from less.IH [OF this(1-3) w(5) this(4)] obtain s' where "write_file_padding lc fd (int (n - k)) s1 = Some (0, s')"
      "file s' = (?c @ replicate (n - k) 0, length ?c + (n - k))" "good s'" by blast
    then show ?thesis using un True by (simp add: replicate_add [symmetric])
  next
    case False
    then show ?thesis using un w(4,5) k by simp
  qed
qed

text \<open>(C34) Changing the size of a file: whatever the lengths of the single writes, the file ends up with the length asked for, its
  content cut off or continued by zeros. The position stays where it was, except that behind the new end of a
  file that grows it moves to that end.\<close>

theorem ftruncate_correct:
  assumes f: "file_laws lc (transparent_ftruncate_size env) fd good file" and ready: "s_zrt_ready s"
    and s: "good (SET_ERRNO 0 s)" "file (SET_ERRNO 0 s) = (c, p)" and n: "fits_off_t n" "fits_off_t p" "fits_off_t (length c)"
  shows "\<exists>s'. zrt_zcall_ftruncate env lc s fd (int n) = Some (0, s') \<and>
     file s' = (take n c @ replicate (n - length c) 0, if p \<le> n \<or> n \<le> length c then p else n)"
proof -
  obtain s1 where s1: "lc_lseek lc (SET_ERRNO 0 s) fd 0 SEEK_CUR = Some (int p, s1)" "file s1 = (c, p)" "good s1" using file_lawsD(1) [OF f s(1)] s(2) by auto
  obtain st s2 where s2: "lc_fstat lc s1 fd = Some (0, Some st, s2)" "st_size st = int (length c)" "file s2 = (c, p)" "good s2" using file_lawsD(3) [OF f s1(3)] s1(2) by auto
  let ?c = "take n c @ replicate (n - length c) 0" and ?p = "if length c < n then n else p"
  obtain s3 where s3: "change_size lc (transparent_ftruncate_size env) s2 fd (int (length c)) (int n) = Some (0, s3)" "file s3 = (?c, ?p)" "good s3"
  proof (cases "length c < n")
    case True
    obtain s' where s': "lc_lseek lc s2 fd (int (length c)) SEEK_SET = Some (int (length c), s')" "file s' = (c, length c)" "good s'"
      using file_lawsD(2) [OF f s2(4) n(3)] s2(3) by auto
    with padding_ok [OF f, of "n - length c" c s'] True n(1) that show ?thesis by (auto simp: change_size_def of_nat_diff)
  next
    case False
    with file_lawsD(5) [OF f s2(4), of n] s2(3) that show ?thesis by (auto simp: change_size_def)
  qed
  obtain s4 where s4: "(if int p < int n then LSEEK_SET_ASSERT_IF_FAIL lc s3 fd (int p) else Some s3) = Some s4"
    "file s4 = (?c, if p \<le> n \<or> n \<le> length c then p else n)" "good s4"
    using file_lawsD(2) [OF f s3(3) n(2)] s3(2,3) that by (cases "p < n") (auto simp: LSEEK_SET_ASSERT_IF_FAIL_def)
  obtain st' s5 where s5: "lc_fstat lc s4 fd = Some (0, Some st', s5)" "st_size st' = int (length ?c)" "file s5 = file s4"
    using file_lawsD(3) [OF f s4(3)] s4(2) by auto
  have "length ?c = n" by simp
  then have "zrt_zcall_ftruncate env lc s fd (int n) = Some (0, s5)"
    using ready s1(1) s2(1,2) s3(1) s4(1) s5(1,2) by (simp add: zrt_zcall_ftruncate_def CHECK_EXIT_IF_ZRT_NOT_READY_def)
  with s5(3) s4(2) show ?thesis by simp
qed

end
