(* ===== verification/Unpack.thy ===== *)
theory Unpack
  imports LibcCalls BufferedIO
begin

text \<open>
  Unpacking a tar archive into the file system (\<open>lib/fs/unpack\<close>): the reader of the archive over buffered
  I/O (\<open>mounts_reader.c\<close>), the creation of directories with a cache of the last one (\<open>parse_path.c\<close>), the
  headers of the archive (\<open>unpack_tar.c\<close>) and its entries (\<open>image_engine.c\<close>), and \<open>mkpath_recursively\<close> of
  \<open>helpers/path_utils.c\<close>.

  The interface that the archive is read from and the one that the files are written to are tables of
  functions on the run-time state, of which only \<open>errno\<close> is looked at; \<open>mkdir\<close> and \<open>stat\<close> are those of the C library.
  \<open>None\<close> is a failed assertion, an abort of a called function, or undefined behaviour.
\<close>

abbreviation (input) O_CREAT :: flags_t where "O_CREAT \<equiv> 0x40"

section \<open>The reader of the archive\<close>

text \<open>An abort of the function that reads is kept in the world.\<close>

definition read_override :: "'s MountsPublicInterface \<Rightarrow> 's option reader" where
  "read_override mounts handle n w = (case w of
     None \<Rightarrow> ((0, []), None)
   | Some s \<Rightarrow> (case m_read mounts s handle n of None \<Rightarrow> ((0, []), None) | Some (r, bs, s') \<Rightarrow> ((r, bs), Some s')))"

abbreviation (input) BUFFER_IO_SIZE :: nat where "BUFFER_IO_SIZE \<equiv> 0x10000"

record MountsReader =
  mr_fd :: int
  mr_bio :: BufferedIORead

definition mounts_read :: "'s MountsPublicInterface \<Rightarrow> MountsReader \<Rightarrow> nat \<Rightarrow> 's \<Rightarrow> ((int \<times> byte list) \<times> MountsReader \<times> 's) option" where
  "mounts_read mounts reader n s =
     (case buf_read (read_override mounts) (mr_bio reader) (mr_fd reader) n (Some s) of
        (res, bio, w) \<Rightarrow> do { s' \<leftarrow> w; Some (res, reader\<lparr>mr_bio := bio\<rparr>, s') })"

text \<open>The channel stays open when it cannot be positioned. The memory of the buffer is \<open>mem\<close>.\<close>

definition alloc_mounts_reader :: "byte list \<Rightarrow> 's MountsPublicInterface \<Rightarrow> string \<Rightarrow> 's \<Rightarrow> (MountsReader option \<times> 's) option" where
  "alloc_mounts_reader mem mounts channel_name s = do {
     (fd, s1) \<leftarrow> m_open mounts s channel_name O_RDONLY 0;
     if fd < 0 then Some (None, s1)
     else do {
       (err, s2) \<leftarrow> m_lseek mounts s1 fd 0 SEEK_SET;
       if s32 err \<noteq> 0 then Some (None, s2) else Some (Some \<lparr>mr_fd = fd, mr_bio = AllocBufferedIORead mem\<rparr>, s2) } }"

definition free_mounts_reader :: "'s MountsPublicInterface \<Rightarrow> MountsReader \<Rightarrow> 's \<Rightarrow> 's option" where
  "free_mounts_reader mounts reader s = do { (_, s') \<leftarrow> m_close mounts s (mr_fd reader); Some s' }"

section \<open>Directories\<close>

type_synonym 's mkdir_call = "'s \<Rightarrow> string \<Rightarrow> mode_t \<Rightarrow> 's res"

text \<open>\<open>cache\<close> is \<open>s_cached_full_path\<close>, of 4096 bytes; a path that fills it has no end.\<close>

definition create_dir_and_cache_name :: "'a kern_scheme mkdir_call \<Rightarrow> string \<Rightarrow> nat \<Rightarrow> string \<times> 'a kern_scheme \<Rightarrow> (int \<times> string \<times> 'a kern_scheme) option" where
  "create_dir_and_cache_name mkdir dirpath len cs = (case cs of (cache, s) \<Rightarrow>
     if strncmp_eq dirpath cache len then Some (0, cache, s)
     else if 4096 \<le> length (take len dirpath) then None
     else do {
       (ret, s') \<leftarrow> mkdir s (take len dirpath) S_IRWXU;
       if ret \<noteq> 0 \<and> errno s' \<noteq> EEXIST then Some (-1, [], s') else Some (0, take len dirpath, s') })"

definition callback_parse :: "'a kern_scheme mkdir_call \<Rightarrow> string \<Rightarrow> nat \<Rightarrow> string \<times> 'a kern_scheme \<Rightarrow> (string \<times> 'a kern_scheme) option" where
  "callback_parse mkdir path len cs =
     (if len < 2 then Some cs else do { (_, cs') \<leftarrow> create_dir_and_cache_name mkdir path len cs; Some cs' })"

text \<open>\<open>process_subdirs_via_callback\<close>: the number is 1 or 0.\<close>

function process_subdirs_of_path :: "'a kern_scheme mkdir_call \<Rightarrow> string \<Rightarrow> nat \<Rightarrow> string \<times> 'a kern_scheme \<Rightarrow> (int \<times> string \<times> 'a kern_scheme) option" where
  "process_subdirs_of_path mkdir path len cs =
     (case locate_last path len SLASH of
        None \<Rightarrow> Some (0, cs)
      | Some i \<Rightarrow>
          (let subpathlen = (if 1 < len \<and> i = 0 then 1 else i)
           in do {
             (_, cs1) \<leftarrow> process_subdirs_of_path mkdir path subpathlen cs;
             cs2 \<leftarrow> callback_parse mkdir path subpathlen cs1;
             Some (1, cs2) }))"
  by pat_completeness auto
termination
  by (relation "measure (\<lambda>(mkdir, path, len, cs). len)") (auto dest: locate_last_SomeD)

declare process_subdirs_of_path.simps [simp del]

text \<open>A path without a slash has its whole length, as for an address below 2 GB.\<close>

definition parse_path :: "'a kern_scheme mkdir_call \<Rightarrow> string \<Rightarrow> string \<times> 'a kern_scheme \<Rightarrow> (int \<times> string \<times> 'a kern_scheme) option" where
  "parse_path mkdir path cs =
     (let dir_path_len = (case locate_last path (length path) SLASH of Some c \<Rightarrow> c + 1 | None \<Rightarrow> length path)
      in do {
        (res, cs1) \<leftarrow> create_dir_and_cache_name mkdir path dir_path_len cs;
        if res \<noteq> 0 then process_subdirs_of_path mkdir path dir_path_len cs1 else Some (0, cs1) })"

section \<open>Entries\<close>

datatype TypeFlag = ETypeFile | ETypeDir

record 'a unpack =
  up_reader :: MountsReader
  up_cache :: string
  up_state :: "'a kern_scheme"

text \<open>
  The blocks of a file. A write of a whole block is compared with an unsigned number, so that the result
  -1 does not count as an error.
\<close>

function save_blocks :: "'a kern_scheme MountsPublicInterface \<Rightarrow> 'a kern_scheme MountsPublicInterface \<Rightarrow> int \<Rightarrow> int \<Rightarrow> 'a unpack \<Rightarrow> (int \<times> 'a unpack) option" where
  "save_blocks chans mounts out_fd entry_size u =
     (if 0 < entry_size then
        (case mounts_read chans (up_reader u) 512 (up_state u) of
           None \<Rightarrow> None
         | Some ((len, block), reader, s) \<Rightarrow>
             (let u1 = u\<lparr>up_reader := reader, up_state := s\<rparr>
              in if len \<noteq> 512 then Some (-1, u1)
                 else (case m_write mounts s out_fd (take (if 512 < entry_size then 512 else nat entry_size) block) of
                         None \<Rightarrow> None
                       | Some (wrote, s') \<Rightarrow>
                           (if (if 512 < entry_size then 0 \<le> wrote \<and> wrote < 512 else wrote < entry_size) then Some (-1, u1\<lparr>up_state := s'\<rparr>)
                            else save_blocks chans mounts out_fd (entry_size - 512) (u1\<lparr>up_state := s'\<rparr>)))))
      else Some (0, u))"
  by pat_completeness auto
termination
  by (relation "measure (\<lambda>(chans, mounts, out_fd, entry_size, u). nat entry_size)") auto

declare save_blocks.simps [simp del]

definition in_dirs :: "(string \<times> 'a kern_scheme \<Rightarrow> (int \<times> string \<times> 'a kern_scheme) option) \<Rightarrow> 'a unpack \<Rightarrow> 'a unpack option" where
  "in_dirs f u = do { (_, cache, s) \<leftarrow> f (up_cache u, up_state u); Some (u\<lparr>up_cache := cache, up_state := s\<rparr>) }"

text \<open>The file stays open after an error.\<close>

definition extract_entry :: "'a kern_scheme MountsPublicInterface \<Rightarrow> 'a kern_scheme MountsPublicInterface \<Rightarrow> 'a kern_scheme mkdir_call
    \<Rightarrow> TypeFlag \<Rightarrow> string \<Rightarrow> int \<Rightarrow> 'a unpack \<Rightarrow> (int \<times> 'a unpack) option" where
  "extract_entry chans mounts mkdir type name entry_size u = do {
     u1 \<leftarrow> in_dirs (parse_path mkdir name) u;
     (case type of
        ETypeDir \<Rightarrow> do { u2 \<leftarrow> in_dirs (create_dir_and_cache_name mkdir name (length name)) u1; Some (0, u2) }
      | ETypeFile \<Rightarrow> do {
          (out_fd, s) \<leftarrow> m_open mounts (up_state u1) name (O_WRONLY OR O_CREAT OR O_TRUNC) S_IRWXU;
          (let u2 = u1\<lparr>up_state := s\<rparr>
           in if out_fd < 0 then Some (-1, u2)
              else do {
                (err, u3) \<leftarrow> save_blocks chans mounts out_fd entry_size u2;
                if err \<noteq> 0 then Some (-1, u3)
                else do { (_, s') \<leftarrow> m_close mounts (up_state u3) out_fd; Some (0, u3\<lparr>up_state := s'\<rparr>) } }) }) }"

section \<open>Headers\<close>

definition text_at :: "nat \<Rightarrow> byte list \<Rightarrow> string" where
  "text_at i block = takeWhile (\<lambda>c. c \<noteq> CHR 0x00) (map (\<lambda>b. char_of (unat b)) (drop i block))"

definition octal_digit :: "char \<Rightarrow> bool" where
  "octal_digit c \<longleftrightarrow> 48 \<le> (of_char c :: nat) \<and> (of_char c :: nat) < 56"

definition octal_value :: "string \<Rightarrow> nat" where
  "octal_value ds = foldl (\<lambda>v c. 8 * v + (of_char c - 48)) 0 ds"

text \<open>\<open>sscanf\<close> with \<open>%o\<close> into an \<open>int\<close>: white space, a sign, digits; a number that does not fit is the greatest one.\<close>

definition sscanf_o :: "string \<Rightarrow> int option" where
  "sscanf_o text =
     (let t = dropWhile (\<lambda>c. c \<in> {CHR 0x20, CHR 0x09, CHR 0x0A, CHR 0x0B, CHR 0x0C, CHR 0x0D}) text;
          neg = (t \<noteq> [] \<and> hd t = CHR 0x2D);
          ds = takeWhile octal_digit (if t \<noteq> [] \<and> hd t \<in> {CHR 0x2B, CHR 0x2D} then tl t else t);
          v = int (octal_value ds)
      in if ds = [] then None else if 2 ^ 32 \<le> v then Some (-1) else Some (s32 (if neg then - v else v)))"

abbreviation (input) MAXPATHLEN :: nat where "MAXPATHLEN \<equiv> 4096"

text \<open>
  The loop of \<open>unpack_tar\<close>. Texts that run behind the block are undefined. The buffer of the name is written
  again for every entry.
\<close>

partial_function (option) unpack_loop :: "'a kern_scheme MountsPublicInterface \<Rightarrow> 'a kern_scheme MountsPublicInterface \<Rightarrow> 'a kern_scheme mkdir_call
    \<Rightarrow> string \<Rightarrow> int \<Rightarrow> 'a unpack \<Rightarrow> (int \<times> 'a unpack) option" where
  "unpack_loop chans mounts mkdir mount_path cnt u =
     Option.bind (mounts_read chans (up_reader u) 512 (up_state u)) (\<lambda>r.
       let len = fst (fst r); block = snd (fst r); u1 = u\<lparr>up_reader := fst (snd r), up_state := snd (snd r)\<rparr>;
           name = mount_path @ (if mount_path \<noteq> [] \<and> last mount_path = SLASH then [] else [SLASH]) @ text_at 0 block
       in if len = 0 then Some (cnt, u1)
          else if len \<noteq> 512 then Some (-38, u1)
          else if 0 \<notin> set (drop 124 block) then None
          else case sscanf_o (text_at 124 block) of
                 None \<Rightarrow> Some (cnt, u1)
               | Some file_len \<Rightarrow>
                   (if text_at 0 block = [] then Some (cnt, u1)
                    else if MAXPATHLEN < length name then Some (-1, u1)
                    else Option.bind (extract_entry chans mounts mkdir (if block ! 156 = 0x35 then ETypeDir else ETypeFile) name file_len u1) (\<lambda>e.
                      if fst e = 0 then unpack_loop chans mounts mkdir mount_path (cnt + 1) (snd e) else Some (-1, snd e))))"

text \<open>
  Before the loop the path of the mount is appended to the buffer of the name, which is not initialised:
  \<open>dst_filename\<close> is what the memory of its \<open>MAXPATHLEN + 1\<close> bytes holds by chance. Without a NUL in it, or
  with too long a text before the NUL, \<open>strcat\<close> writes behind the buffer.
\<close>

definition strcat_fits :: "nat \<Rightarrow> string \<Rightarrow> string \<Rightarrow> bool" where
  "strcat_fits n dst src \<longleftrightarrow> CHR 0x00 \<in> set (take n dst) \<and> length (takeWhile (\<lambda>c. c \<noteq> CHR 0x00) dst) + length src < n"

definition unpack_tar :: "'a kern_scheme MountsPublicInterface \<Rightarrow> 'a kern_scheme MountsPublicInterface \<Rightarrow> 'a kern_scheme mkdir_call
    \<Rightarrow> string \<Rightarrow> string \<Rightarrow> 'a unpack \<Rightarrow> (int \<times> 'a unpack) option" where
  "unpack_tar chans mounts mkdir dst_filename mount_path u =
     (if strcat_fits (MAXPATHLEN + 1) dst_filename mount_path then unpack_loop chans mounts mkdir mount_path 0 u else None)"

section \<open>Deploying an image\<close>

text \<open>\<open>err\<close> is the result of the last \<open>mkdir\<close>, \<open>None\<close> as long as there was none.\<close>

partial_function (option) mkpath_loop :: "'a kern_scheme mkdir_call \<Rightarrow> string \<Rightarrow> mode_t \<Rightarrow> int \<Rightarrow> int option \<Rightarrow> 'a kern_scheme \<Rightarrow> (int option \<times> 'a kern_scheme) option" where
  "mkpath_loop mkdir file_path mode temp_cursor err s =
     (case path_subpath_forward temp_cursor file_path 0 of
        (None, _, _) \<Rightarrow> Some (err, s)
      | (Some _, cursor, result_len) \<Rightarrow>
          (if 1 < result_len
           then Option.bind (mkdir s (take (nat result_len) file_path) mode) (\<lambda>r. mkpath_loop mkdir file_path mode cursor (Some (fst r)) (snd r))
           else mkpath_loop mkdir file_path mode cursor err s))"

definition mkpath_recursively :: "('a kern_scheme \<Rightarrow> string \<Rightarrow> (int \<times> stat option \<times> 'a kern_scheme) option) \<Rightarrow> 'a kern_scheme mkdir_call
    \<Rightarrow> string \<Rightarrow> mode_t \<Rightarrow> 'a kern_scheme \<Rightarrow> 'a kern_scheme res" where
  "mkpath_recursively stat mkdir file_path mode s =
     (if file_path = [] then None
      else do {
        (res, _, s1) \<leftarrow> stat s file_path;
        if res \<noteq> 0 then do {
          (err, s2) \<leftarrow> mkpath_loop mkdir file_path mode DEFAULT_TEMP_CURSOR_VALUE None (SET_ERRNO 0 s1);
          e \<leftarrow> err;
          Some (e, s2) }
        else Some (-1, SET_ERRNO EEXIST s1) })"

definition deploy_image :: "'a kern_scheme MountsPublicInterface \<Rightarrow> 'a kern_scheme MountsPublicInterface
    \<Rightarrow> ('a kern_scheme \<Rightarrow> string \<Rightarrow> (int \<times> stat option \<times> 'a kern_scheme) option) \<Rightarrow> 'a kern_scheme mkdir_call
    \<Rightarrow> string \<Rightarrow> string \<Rightarrow> 'a unpack \<Rightarrow> (int \<times> 'a unpack) option" where
  "deploy_image chans mounts stat mkdir dst_filename mount_path u = do {
     (err, s1) \<leftarrow> mkpath_recursively stat mkdir mount_path 0x1B6 (up_state u);
     if err \<noteq> 0 \<and> errno s1 \<noteq> EEXIST then Some (-1, u\<lparr>up_state := s1\<rparr>)
     else do {
       (_, st, s2) \<leftarrow> stat s1 mount_path;
       st \<leftarrow> st;
       if st_mode st AND S_IFMT \<noteq> S_IFDIR then Some (-1, u\<lparr>up_state := s2\<rparr>)
       else unpack_tar chans mounts mkdir dst_filename mount_path (u\<lparr>up_state := s2\<rparr>) } }"

end
