(* ===== verification/UnpackProps.thy ===== *)
theory UnpackProps
  imports Unpack
begin

text \<open>
  What unpacking an archive leaves in the file system. The file system the entries are written to is seen as a
  set of directories and the contents of files, both by the components of their paths.
\<close>

section \<open>The file system\<close>

record store =
  st_ok :: bool \<comment> \<open>the state is one in which the interfaces can be used\<close>
  st_dirs :: "string list set"
  st_files :: "string list \<rightharpoonup> byte list"
  st_open :: "int \<rightharpoonup> string list"
  st_rest :: "byte list" \<comment> \<open>what can still be read from the archive\<close>

text \<open>
  What unpacking relies on: reading the archive and writing to the file system are apart; a directory can be made
  in an existing one, with or without a slash at the end of its path; a file can be created in an existing
  directory, and a write to it appends.
\<close>

definition reads_archive :: "'s MountsPublicInterface \<Rightarrow> int \<Rightarrow> ('s \<Rightarrow> store) \<Rightarrow> bool" where
  "reads_archive chans fd view \<longleftrightarrow> (\<forall>s n. st_ok (view s) \<longrightarrow> (\<exists>s'. m_read chans s fd n = Some (int (length (take n (st_rest (view s)))), take n (st_rest (view s)), s')
     \<and> view s' = (view s)\<lparr>st_rest := drop n (st_rest (view s))\<rparr>))"

definition makes_dirs :: "'a kern_scheme mkdir_call \<Rightarrow> ('a kern_scheme \<Rightarrow> store) \<Rightarrow> bool" where
  "makes_dirs mkdir view \<longleftrightarrow>
     (\<forall>s m. st_ok (view s) \<longrightarrow> (\<exists>r s'. mkdir s [SLASH] m = Some (r, s') \<and> r \<noteq> 0 \<and> errno s' = EEXIST \<and> view s' = view s))
   \<and> (\<forall>s cs c sl m. st_ok (view s) \<longrightarrow> comps_ok (cs @ [c]) \<longrightarrow> sl \<in> {[], [SLASH]} \<longrightarrow> cs @ [c] \<notin> dom (st_files (view s)) \<longrightarrow>
        (\<exists>r s'. mkdir s (path_of (cs @ [c]) @ sl) m = Some (r, s') \<and>
          (if cs @ [c] \<in> st_dirs (view s) then r \<noteq> 0 \<and> errno s' = EEXIST \<and> view s' = view s
           else if cs \<in> st_dirs (view s) then r = 0 \<and> view s' = (view s)\<lparr>st_dirs := insert (cs @ [c]) (st_dirs (view s))\<rparr>
           else r \<noteq> 0 \<and> errno s' \<noteq> EEXIST \<and> view s' = view s)))"

definition stores_files :: "'s MountsPublicInterface \<Rightarrow> ('s \<Rightarrow> store) \<Rightarrow> bool" where
  "stores_files mounts view \<longleftrightarrow>
     (\<forall>s cs c. st_ok (view s) \<longrightarrow> comps_ok (cs @ [c]) \<longrightarrow> cs \<in> st_dirs (view s) \<longrightarrow> cs @ [c] \<notin> st_dirs (view s) \<longrightarrow>
        (\<exists>fd s'. m_open mounts s (path_of (cs @ [c])) (O_WRONLY OR O_CREAT OR O_TRUNC) S_IRWXU = Some (fd, s') \<and> 0 \<le> fd
           \<and> view s' = (view s)\<lparr>st_files := (st_files (view s))(cs @ [c] \<mapsto> []), st_open := (st_open (view s))(fd \<mapsto> cs @ [c])\<rparr>))
   \<and> (\<forall>s fd p c bs. st_ok (view s) \<longrightarrow> st_open (view s) fd = Some p \<longrightarrow> st_files (view s) p = Some c \<longrightarrow>
        (\<exists>s'. m_write mounts s fd bs = Some (int (length bs), s') \<and> view s' = (view s)\<lparr>st_files := (st_files (view s))(p \<mapsto> c @ bs)\<rparr>))
   \<and> (\<forall>s fd p. st_ok (view s) \<longrightarrow> st_open (view s) fd = Some p \<longrightarrow>
        (\<exists>r s'. m_close mounts s fd = Some (r, s') \<and> view s' = (view s)\<lparr>st_open := (st_open (view s))(fd := None)\<rparr>))"

section \<open>Reading the archive\<close>

text \<open>What is left of the archive, in the buffer and on the channel.\<close>

definition left :: "('s \<Rightarrow> store) \<Rightarrow> MountsReader \<Rightarrow> 's \<Rightarrow> byte list" where
  "left view reader s = pending (mr_bio reader) @ st_rest (view s)"

lemma mounts_read_ok:
  assumes r: "reads_archive chans (mr_fd reader) view" and ok: "st_ok (view s)" and wf: "rd_wf (mr_bio reader)" and n: "n \<le> length (left view reader s)" "n < 2 ^ 31"
  shows "\<exists>reader' s' rest. mounts_read chans reader n s = Some ((int n, take n (left view reader s)), reader', s') \<and> rd_wf (mr_bio reader')
    \<and> mr_fd reader' = mr_fd reader \<and> left view reader' s' = drop n (left view reader s) \<and> view s' = (view s)\<lparr>st_rest := rest\<rparr>"
proof -
  let ?f = "read_override chans" and ?rest = "\<lambda>w. case w of None \<Rightarrow> [] | Some s \<Rightarrow> st_rest (view s)"
  let ?good = "\<lambda>w. \<exists>s' rest. w = Some s' \<and> view s' = (view s)\<lparr>st_rest := rest\<rparr>"
  have f: "fst (?f (mr_fd reader) k w) = (int (length (take k (?rest w))), take k (?rest w)) \<and> ?rest (snd (?f (mr_fd reader) k w)) = drop k (?rest w)
    \<and> ?good (snd (?f (mr_fd reader) k w))" if "?good w" for k w
  proof -
    from that obtain s1 rest where w: "w = Some s1" "view s1 = (view s)\<lparr>st_rest := rest\<rparr>" by blast
    moreover from w(2) ok have "st_ok (view s1)" by simp
    then obtain s' where "m_read chans s1 (mr_fd reader) k = Some (int (length (take k (st_rest (view s1)))), take k (st_rest (view s1)), s')"
      "view s' = (view s1)\<lparr>st_rest := drop k (st_rest (view s1))\<rparr>" using r unfolding reads_archive_def by blast
    ultimately show ?thesis by (auto simp: read_override_def)
  qed
  have ga: "gives_all_on ?good ?f (mr_fd reader) ?rest" unfolding gives_all_on_def using f by blast
  have "view s = (view s)\<lparr>st_rest := st_rest (view s)\<rparr>" by simp
  then have good: "?good (Some s)" by blast
  have n': "n \<le> length (pending (mr_bio reader) @ ?rest (Some s))" using n(1) by (simp add: left_def)
  from buf_read_stream_on [OF ga good wf n'] obtain bio' w' where b: "buf_read ?f (mr_bio reader) (mr_fd reader) n (Some s)
      = ((s32 (int n), take n (pending (mr_bio reader) @ ?rest (Some s))), bio', w')" "rd_wf bio'"
    "pending bio' @ ?rest w' = drop n (pending (mr_bio reader) @ ?rest (Some s))" "?good w'" by blast
  from b(4) obtain s' rest where s': "w' = Some s'" "view s' = (view s)\<lparr>st_rest := rest\<rparr>" by blast
  moreover have "s32 (int n) = int n" using n(2) by (simp add: s32_id)
  ultimately show ?thesis using b by (intro exI [of _ "reader\<lparr>mr_bio := bio'\<rparr>"] exI [of _ s'] exI [of _ rest]) (simp add: mounts_read_def left_def)
qed

text \<open>The data of a file, filled up to whole blocks.\<close>

definition padded :: "byte list \<Rightarrow> byte list" where
  "padded c = c @ replicate ((512 - length c mod 512) mod 512) 0"

lemma padded_big: "512 < length c \<Longrightarrow> padded c = take 512 c @ padded (drop 512 c)"
  by (simp add: padded_def le_mod_geq)

lemma padded_small:
  assumes "c \<noteq> []" "length c \<le> 512"
  shows "length (padded c) = 512" "take (length c) (padded c) = c"
proof -
  show "length (padded c) = 512" using assms by (cases "length c = 512") (simp_all add: padded_def le_less)
  show "take (length c) (padded c) = c" by (simp add: padded_def)
qed

lemma stores_filesD:
  assumes "stores_files mounts view" "st_ok (view s)"
  shows "comps_ok (cs @ [c]) \<Longrightarrow> cs \<in> st_dirs (view s) \<Longrightarrow> cs @ [c] \<notin> st_dirs (view s) \<Longrightarrow> \<exists>fd s'. m_open mounts s (path_of (cs @ [c])) (O_WRONLY OR O_CREAT OR O_TRUNC) S_IRWXU = Some (fd, s') \<and> 0 \<le> fd
      \<and> view s' = (view s)\<lparr>st_files := (st_files (view s))(cs @ [c] \<mapsto> []), st_open := (st_open (view s))(fd \<mapsto> cs @ [c])\<rparr>"
    "st_open (view s) fd = Some p \<Longrightarrow> st_files (view s) p = Some x \<Longrightarrow> \<exists>s'. m_write mounts s fd bs = Some (int (length bs), s')
      \<and> view s' = (view s)\<lparr>st_files := (st_files (view s))(p \<mapsto> x @ bs)\<rparr>"
    "st_open (view s) fd = Some p \<Longrightarrow> \<exists>r s'. m_close mounts s fd = Some (r, s') \<and> view s' = (view s)\<lparr>st_open := (st_open (view s))(fd := None)\<rparr>"
  using assms unfolding stores_files_def by blast+

text \<open>The reader and the state of an unpacker that goes on reading the archive.\<close>

definition going :: "'a kern_scheme MountsPublicInterface \<Rightarrow> ('a kern_scheme \<Rightarrow> store) \<Rightarrow> 'a unpack \<Rightarrow> bool" where
  "going chans view u \<longleftrightarrow> reads_archive chans (mr_fd (up_reader u)) view \<and> rd_wf (mr_bio (up_reader u)) \<and> st_ok (view (up_state u))"

abbreviation (input) "to_read view u \<equiv> left view (up_reader u) (up_state u)"
abbreviation (input) "fs view u \<equiv> view (up_state u)"

lemma read_block:
  assumes g: "going chans view u" and n: "512 \<le> length (to_read view u)"
  shows "\<exists>reader s rest. mounts_read chans (up_reader u) 512 (up_state u) = Some ((512, take 512 (to_read view u)), reader, s)
    \<and> going chans view (u\<lparr>up_reader := reader, up_state := s\<rparr>) \<and> left view reader s = drop 512 (to_read view u) \<and> view s = (fs view u)\<lparr>st_rest := rest\<rparr>"
proof -
  from g have "reads_archive chans (mr_fd (up_reader u)) view" "st_ok (fs view u)" "rd_wf (mr_bio (up_reader u))" by (simp_all add: going_def)
  from mounts_read_ok [OF this n] obtain reader s rest where "mounts_read chans (up_reader u) 512 (up_state u) = Some ((512, take 512 (to_read view u)), reader, s)"
    "rd_wf (mr_bio reader)" "mr_fd reader = mr_fd (up_reader u)" "left view reader s = drop 512 (to_read view u)" "view s = (fs view u)\<lparr>st_rest := rest\<rparr>" by auto
  then show ?thesis using g by (intro exI [of _ reader] exI [of _ s] exI [of _ rest]) (simp add: going_def)
qed

lemma save_blocks_end: "n \<le> 0 \<Longrightarrow> save_blocks chans mounts fd n u = Some (0, u)"
  by (subst save_blocks.simps) simp

lemma save_blocks_ok:
  assumes sf: "stores_files mounts view"
  shows "going chans view u \<Longrightarrow> to_read view u = padded c @ tail \<Longrightarrow> st_open (fs view u) fd = Some p \<Longrightarrow> st_files (fs view u) p = Some x
    \<Longrightarrow> \<exists>u' rest. save_blocks chans mounts fd (int (length c)) u = Some (0, u') \<and> going chans view u' \<and> to_read view u' = tail \<and> up_cache u' = up_cache u
      \<and> fs view u' = (fs view u)\<lparr>st_files := (st_files (fs view u))(p \<mapsto> x @ c), st_rest := rest\<rparr>"
proof (induction "length c" arbitrary: c u x rule: less_induct)
  case less
  show ?case
  proof (cases "c = []")
    case True
    have "st_files (fs view u) = (st_files (fs view u))(p \<mapsto> x)" using less.prems(4) by (simp add: fun_upd_idem)
    moreover have "fs view u = (fs view u)\<lparr>st_files := st_files (fs view u), st_rest := st_rest (fs view u)\<rparr>" by simp
    ultimately have "fs view u = (fs view u)\<lparr>st_files := (st_files (fs view u))(p \<mapsto> x @ c), st_rest := st_rest (fs view u)\<rparr>" using True by simp
    then show ?thesis using less.prems(1,2) True by (intro exI [of _ u] exI [of _ "st_rest (fs view u)"]) (simp add: save_blocks_end padded_def)
  next
    case False
    have "512 \<le> length (padded c)" using padded_small(1) [OF False] padded_big [of c] by (cases "length c \<le> 512") auto
    then have n: "512 \<le> length (to_read view u)" using less.prems(2) by simp
    from read_block [OF less.prems(1) n] obtain reader s rest where
      r: "mounts_read chans (up_reader u) 512 (up_state u) = Some ((512, take 512 (to_read view u)), reader, s)"
      "going chans view (u\<lparr>up_reader := reader, up_state := s\<rparr>)" "left view reader s = drop 512 (to_read view u)" "view s = (fs view u)\<lparr>st_rest := rest\<rparr>" by blast
    let ?bs = "take (if 512 < length c then 512 else length c) (take 512 (to_read view u))"
    have bs: "?bs = take 512 c"
    proof (cases "512 < length c")
      case True
      then show ?thesis using padded_big [OF True] less.prems(2) by simp
    next
      case small: False
      then show ?thesis using padded_small [OF False] less.prems(2) by (simp add: min_def)
    qed
    have op: "st_ok (view s)" "st_open (view s) fd = Some p" "st_files (view s) p = Some x" using less.prems(1,3,4) r(4) by (simp_all add: going_def)
    from stores_filesD(2) [OF sf op, of "take 512 c"] obtain s' where
      w: "m_write mounts s fd (take 512 c) = Some (int (length (take 512 c)), s')" "view s' = (view s)\<lparr>st_files := (st_files (view s))(p \<mapsto> x @ take 512 c)\<rparr>" by blast
    define u1 where "u1 = u\<lparr>up_reader := reader, up_state := s'\<rparr>"
    have g1: "going chans view u1" "to_read view u1 = drop 512 (to_read view u)" "up_cache u1 = up_cache u"
      "fs view u1 = (fs view u)\<lparr>st_files := (st_files (fs view u))(p \<mapsto> x @ take 512 c), st_rest := rest\<rparr>"
      using r(2,3) w(2) r(4) by (simp_all add: u1_def going_def left_def)
    have "nat (int (length c)) = length c" by simp
    then have "take (if 512 < int (length c) then 512 else nat (int (length c))) (take 512 (to_read view u)) = take 512 c" using bs by (simp split: if_splits)
    then have un: "save_blocks chans mounts fd (int (length c)) u = save_blocks chans mounts fd (int (length c) - 512) u1"
      using r(1) w(1) False by (subst save_blocks.simps) (auto simp: u1_def Let_def)
    show ?thesis
    proof (cases "512 < length c")
      case True
      let ?d = "drop 512 c"
      have "length ?d < length c" using True by simp
      moreover have "to_read view u1 = padded ?d @ tail" using g1(2) less.prems(2) padded_big [OF True] True by simp
      moreover have "st_open (fs view u1) fd = Some p" "st_files (fs view u1) p = Some (x @ take 512 c)" using g1(4) less.prems(3) by simp_all
      ultimately obtain u' rest' where ih: "save_blocks chans mounts fd (int (length ?d)) u1 = Some (0, u')" "going chans view u'" "to_read view u' = tail" "up_cache u' = up_cache u1"
        "fs view u' = (fs view u1)\<lparr>st_files := (st_files (fs view u1))(p \<mapsto> (x @ take 512 c) @ ?d), st_rest := rest'\<rparr>" using less.hyps [of ?d u1] g1(1) by blast
      have "int (length c) - 512 = int (length ?d)" using True by simp
      then have "save_blocks chans mounts fd (int (length c)) u = Some (0, u')" using ih(1) un by metis
      moreover have "fs view u' = (fs view u)\<lparr>st_files := (st_files (fs view u))(p \<mapsto> x @ c), st_rest := rest'\<rparr>" using ih(5) g1(4) by simp
      ultimately show ?thesis using ih(2,3,4) g1(3) by metis
    next
      case False
      then have "to_read view u1 = tail" using g1(2) less.prems(2) padded_small(1) [OF \<open>c \<noteq> []\<close>] by simp
      moreover have "save_blocks chans mounts fd (int (length c)) u = Some (0, u1)" using un False by (simp add: save_blocks_end)
      ultimately show ?thesis using g1 False by (intro exI [of _ u1] exI [of _ rest]) simp
    qed
  qed
qed

section \<open>Directories\<close>

lemma strncmp_eq_take: "n \<le> length a \<Longrightarrow> strncmp_eq a b n \<longleftrightarrow> prefix (take n a) b"
  by (induction a b n rule: strncmp_eq.induct) auto

lemma take_word:
  assumes "SLASH \<notin> set d" "SLASH \<notin> set c" "d @ SLASH # x = c @ y" "y = [] \<or> hd y = SLASH"
  shows "d = c \<and> SLASH # x = y"
proof -
  have d: "takeWhile (\<lambda>z. z \<noteq> SLASH) (d @ SLASH # x) = d" using assms(1) by (subst takeWhile_append2) auto
  have "takeWhile (\<lambda>z. z \<noteq> SLASH) (c @ y) = c @ takeWhile (\<lambda>z. z \<noteq> SLASH) y" using assms(2) by (subst takeWhile_append2) auto
  also have "takeWhile (\<lambda>z. z \<noteq> SLASH) y = []" using assms(4) by (cases y) auto
  finally show ?thesis using d assms(3) by simp
qed

lemma prefix_comps:
  assumes "sl = [] \<or> sl = [SLASH]"
  shows "comps_ok D \<Longrightarrow> comps_ok cs \<Longrightarrow> prefix (path_of D @ [SLASH]) (path_of cs @ sl) \<Longrightarrow> prefix D cs"
proof (induction D arbitrary: cs)
  case (Cons d D)
  show ?case
  proof (cases cs)
    case Nil
    with Cons.prems assms show ?thesis by auto
  next
    case (Cons c cs')
    obtain z where z: "path_of cs @ sl = (path_of (d # D) @ [SLASH]) @ z" using Cons.prems(3) by (auto simp: prefix_def)
    obtain x where x: "path_of D @ [SLASH] @ z = SLASH # x" by (cases D) auto
    have "d @ SLASH # x = c @ path_of cs' @ sl" using z x Cons by simp
    moreover have "path_of cs' @ sl = [] \<or> hd (path_of cs' @ sl) = SLASH" using assms by (cases cs') auto
    ultimately have "d = c \<and> SLASH # x = path_of cs' @ sl" using take_word [of d c x] Cons.prems(1,2) Cons by simp
    then have "d = c" "path_of cs' @ sl = (path_of D @ [SLASH]) @ z" using x by simp_all
    then have "d = c" "prefix (path_of D @ [SLASH]) (path_of cs' @ sl)" by (simp, metis prefixI)
    then show ?thesis using Cons.IH [of cs'] Cons.prems(1,2) Cons by simp
  qed
qed simp

text \<open>The cache names an existing directory; the directories above an existing one exist.\<close>

definition cached :: "store \<Rightarrow> string \<Rightarrow> bool" where
  "cached v cache \<longleftrightarrow> cache = [] \<or> (\<exists>cs sl. comps_ok cs \<and> cs \<in> st_dirs v \<and> sl \<in> {[], [SLASH]} \<and> cache = path_of cs @ sl)"

definition dirs_ok :: "store \<Rightarrow> bool" where
  "dirs_ok v \<longleftrightarrow> st_ok v \<and> [] \<in> st_dirs v \<and> (\<forall>cs c. cs @ [c] \<in> st_dirs v \<longrightarrow> cs \<in> st_dirs v)"

lemma dirs_ok_take: "dirs_ok v \<Longrightarrow> D \<in> st_dirs v \<Longrightarrow> take k D \<in> st_dirs v"
proof (induction D rule: rev_induct)
  case (snoc d D)
  then show ?case by (cases "k \<le> length D") (auto simp: dirs_ok_def)
qed simp

lemma dirs_ok_prefix: "dirs_ok v \<Longrightarrow> prefix D cs \<Longrightarrow> cs \<in> st_dirs v \<Longrightarrow> D \<in> st_dirs v"
  using dirs_ok_take [of v cs "length D"] by (auto simp: prefix_def)

definition tops :: "string list \<Rightarrow> string list set" where
  "tops D = (\<lambda>k. take k D) ` {..length D}"

lemma tops_simps [simp]: "tops [] = {[]}" "tops (D @ [d]) = insert (D @ [d]) (tops D)" "D \<in> tops D" "[] \<in> tops D"
proof -
  have "(\<lambda>k. take k (D @ [d])) ` {..length D} = (\<lambda>k. take k D) ` {..length D}" by (rule image_cong) auto
  then show "tops (D @ [d]) = insert (D @ [d]) (tops D)" by (simp add: tops_def atMost_Suc)
  show "D \<in> tops D" unfolding tops_def by (rule image_eqI [of _ _ "length D"]) simp_all
  show "[] \<in> tops D" unfolding tops_def by (rule image_eqI [of _ _ 0]) simp_all
qed (simp add: tops_def)

lemma tops_existing: "dirs_ok v \<Longrightarrow> D \<in> st_dirs v \<Longrightarrow> st_dirs v \<union> tops D = st_dirs v"
  using dirs_ok_take by (auto simp: tops_def)

lemma makes_dirsD:
  assumes "makes_dirs mkdir view" "st_ok (view s)"
  shows "\<exists>r s'. mkdir s [SLASH] m = Some (r, s') \<and> r \<noteq> 0 \<and> errno s' = EEXIST \<and> view s' = view s"
    "comps_ok (cs @ [c]) \<Longrightarrow> sl = [] \<or> sl = [SLASH] \<Longrightarrow> cs @ [c] \<notin> dom (st_files (view s)) \<Longrightarrow>
        \<exists>r s'. mkdir s (path_of (cs @ [c]) @ sl) m = Some (r, s') \<and>
          (if cs @ [c] \<in> st_dirs (view s) then r \<noteq> 0 \<and> errno s' = EEXIST \<and> view s' = view s
           else if cs \<in> st_dirs (view s) then r = 0 \<and> view s' = (view s)\<lparr>st_dirs := insert (cs @ [c]) (st_dirs (view s))\<rparr>
           else r \<noteq> 0 \<and> errno s' \<noteq> EEXIST \<and> view s' = view s)"
proof -
  show "\<exists>r s'. mkdir s [SLASH] m = Some (r, s') \<and> r \<noteq> 0 \<and> errno s' = EEXIST \<and> view s' = view s" using assms unfolding makes_dirs_def by blast
  assume "comps_ok (cs @ [c])" "sl = [] \<or> sl = [SLASH]" "cs @ [c] \<notin> dom (st_files (view s))"
  moreover from this have "sl \<in> {[], [SLASH]}" by blast
  ultimately show "\<exists>r s'. mkdir s (path_of (cs @ [c]) @ sl) m = Some (r, s') \<and>
          (if cs @ [c] \<in> st_dirs (view s) then r \<noteq> 0 \<and> errno s' = EEXIST \<and> view s' = view s
           else if cs \<in> st_dirs (view s) then r = 0 \<and> view s' = (view s)\<lparr>st_dirs := insert (cs @ [c]) (st_dirs (view s))\<rparr>
           else r \<noteq> 0 \<and> errno s' \<noteq> EEXIST \<and> view s' = view s)" using assms unfolding makes_dirs_def by blast
qed

lemma create_dir:
  assumes mk: "makes_dirs mkdir view" and ok: "comps_ok (cs @ [c])" "sl = [] \<or> sl = [SLASH]" "cs @ [c] \<notin> dom (st_files (view s))"
    and path: "take len path = path_of (cs @ [c]) @ sl" "len < 4096" "\<not> strncmp_eq path cache len"
    and parent: "dirs_ok (view s)" "cs \<in> st_dirs (view s)"
  shows "\<exists>s'. create_dir_and_cache_name mkdir path len (cache, s) = Some (0, path_of (cs @ [c]) @ sl, s')
    \<and> view s' = (view s)\<lparr>st_dirs := insert (cs @ [c]) (st_dirs (view s))\<rparr>"
proof -
  from parent(1) have "st_ok (view s)" by (simp add: dirs_ok_def)
  from makes_dirsD(2) [OF mk this ok, of S_IRWXU] obtain r s' where r: "mkdir s (path_of (cs @ [c]) @ sl) S_IRWXU = Some (r, s')"
    "if cs @ [c] \<in> st_dirs (view s) then r \<noteq> 0 \<and> errno s' = EEXIST \<and> view s' = view s
     else if cs \<in> st_dirs (view s) then r = 0 \<and> view s' = (view s)\<lparr>st_dirs := insert (cs @ [c]) (st_dirs (view s))\<rparr>
     else r \<noteq> 0 \<and> errno s' \<noteq> EEXIST \<and> view s' = view s" by blast
  have "r = 0 \<or> errno s' = EEXIST" using r(2) parent(2) by (auto split: if_splits)
  moreover have "view s' = (view s)\<lparr>st_dirs := insert (cs @ [c]) (st_dirs (view s))\<rparr>"
    using r(2) parent(2) by (auto simp: insert_absorb split: if_splits)
  moreover have "length (take len path) < 4096" using path(2) by simp
  ultimately show ?thesis using r(1) path by (intro exI [of _ s']) (auto simp: create_dir_and_cache_name_def)
qed

lemma create_dir_missing:
  assumes mk: "makes_dirs mkdir view" and ok: "comps_ok (cs @ [c])" "sl = [] \<or> sl = [SLASH]" "cs @ [c] \<notin> dom (st_files (view s))"
    and path: "take len path = path_of (cs @ [c]) @ sl" "len < 4096" "\<not> strncmp_eq path cache len"
    and st: "st_ok (view s)" and parent: "cs @ [c] \<notin> st_dirs (view s)" "cs \<notin> st_dirs (view s)"
  shows "\<exists>s'. create_dir_and_cache_name mkdir path len (cache, s) = Some (-1, [], s') \<and> view s' = view s"
proof -
  from makes_dirsD(2) [OF mk st ok, of S_IRWXU] parent obtain r s' where "mkdir s (path_of (cs @ [c]) @ sl) S_IRWXU = Some (r, s')"
    "r \<noteq> 0" "errno s' \<noteq> EEXIST" "view s' = view s" by auto
  moreover have "length (take len path) < 4096" using path(2) by simp
  ultimately show ?thesis using path by (intro exI [of _ s']) (auto simp: create_dir_and_cache_name_def)
qed

lemma tops_closed: "cs @ [c] \<in> tops D \<Longrightarrow> cs \<in> tops D"
  by (induction D rule: rev_induct) auto

lemma dirs_ok_tops: "dirs_ok v \<Longrightarrow> dirs_ok (v\<lparr>st_dirs := st_dirs v \<union> tops D\<rparr>)"
  unfolding dirs_ok_def using tops_closed by auto

text \<open>The walk over the directories of a path makes each of them.\<close>

lemma not_strncmp_longer: "length b < n \<Longrightarrow> n \<le> length a \<Longrightarrow> \<not> strncmp_eq a b n"
  by (auto simp: strncmp_eq_take dest: prefix_length_le)

lemma length_path_of: "comps_ok D \<Longrightarrow> D \<noteq> [] \<Longrightarrow> 2 \<le> length (path_of D)"
proof (cases D)
  case (Cons d E)
  assume "comps_ok D"
  then have "d \<noteq> []" using Cons by simp
  then show ?thesis using Cons by (cases d) auto
qed simp

lemma walk_root:
  assumes "char_at path 0 = SLASH"
  shows "process_subdirs_of_path mkdir path 1 cs = Some (1, cs)"
proof -
  have "locate_last path 1 SLASH = Some 0" using assms by simp
  moreover have "process_subdirs_of_path mkdir path 0 cs = Some (0, cs)" by (subst process_subdirs_of_path.simps) simp
  ultimately show ?thesis by (subst process_subdirs_of_path.simps) (simp add: callback_parse_def)
qed

lemma walk_ok:
  assumes mk: "makes_dirs mkdir view"
  shows "comps_ok (D @ [d]) \<Longrightarrow> prefix (path_of (D @ [d])) path \<Longrightarrow> length (path_of (D @ [d])) < 4096 \<Longrightarrow> dirs_ok (view s) \<Longrightarrow> tops D \<inter> dom (st_files (view s)) = {}
    \<Longrightarrow> \<exists>cache s'. process_subdirs_of_path mkdir path (length (path_of (D @ [d]))) ([], s) = Some (1, cache, s') \<and> length cache < length (path_of (D @ [d]))
      \<and> view s' = (view s)\<lparr>st_dirs := st_dirs (view s) \<union> tops D\<rparr>"
proof (induction D arbitrary: d rule: rev_induct)
  case Nil
  then have "char_at path 0 = SLASH" by (auto simp: prefix_def char_at_def)
  moreover have "locate_last path (length (path_of [d])) SLASH = Some 0" using locate_last_path_of [of "[]" d path] Nil by simp
  moreover have "1 < length (path_of [d])" using length_path_of [of "[d]"] Nil by simp
  ultimately have "process_subdirs_of_path mkdir path (length (path_of [d])) ([], s) = Some (1, [], s)"
    using walk_root [of path mkdir] by (subst process_subdirs_of_path.simps) (simp add: callback_parse_def)
  moreover have "st_dirs (view s) \<union> tops [] = st_dirs (view s)" using Nil.prems(4) by (auto simp: dirs_ok_def)
  ultimately show ?case by (intro exI [of _ "[]"] exI [of _ s]) simp
next
  case (snoc e E)
  let ?D = "E @ [e]"
  have ok: "comps_ok ?D" and pre: "prefix (path_of ?D) path" using snoc.prems(1,2) by (auto simp: prefix_def)
  have lt: "length (path_of ?D) < length (path_of (?D @ [d]))" "length (path_of ?D) < 4096" using snoc.prems(3) by simp_all
  have "tops E \<inter> dom (st_files (view s)) = {}" using snoc.prems(5) by auto
  from snoc.IH [OF ok pre lt(2) snoc.prems(4) this] obtain cache s1 where
    ih: "process_subdirs_of_path mkdir path (length (path_of ?D)) ([], s) = Some (1, cache, s1)" "length cache < length (path_of ?D)"
    "view s1 = (view s)\<lparr>st_dirs := st_dirs (view s) \<union> tops E\<rparr>" by blast
  have len: "2 \<le> length (path_of ?D)" "length (path_of ?D) \<le> length path" using length_path_of [OF ok] pre by (auto dest: prefix_length_le)
  have t: "take (length (path_of ?D)) path = path_of ?D @ []" using pre by (auto simp: prefix_def)
  have "dirs_ok (view s1)" using dirs_ok_tops [OF snoc.prems(4), of E] ih(3) by simp
  moreover have "?D \<notin> dom (st_files (view s1))" "E \<in> st_dirs (view s1)" using snoc.prems(5) ih(3) by auto
  ultimately obtain s2 where s2: "create_dir_and_cache_name mkdir path (length (path_of ?D)) (cache, s1) = Some (0, path_of ?D @ [], s2)"
    "view s2 = (view s1)\<lparr>st_dirs := insert ?D (st_dirs (view s1))\<rparr>"
    using create_dir [OF mk ok _ _ t lt(2) not_strncmp_longer [OF ih(2) len(2)]] by blast
  have "locate_last path (length (path_of (?D @ [d]))) SLASH = Some (length (path_of ?D))" by (rule locate_last_path_of [OF snoc.prems(1,2)])
  then have "process_subdirs_of_path mkdir path (length (path_of (?D @ [d]))) ([], s) = Some (1, path_of ?D, s2)"
    using ih(1) s2(1) len(1) by (subst process_subdirs_of_path.simps) (auto simp: callback_parse_def)
  moreover have "view s2 = (view s)\<lparr>st_dirs := st_dirs (view s) \<union> tops ?D\<rparr>" using s2(2) ih(3) by simp
  ultimately show ?case using lt(1) by (intro exI [of _ "path_of ?D"] exI [of _ s2]) simp
qed

lemma parse_path_unfold:
  assumes "SLASH \<notin> set f"
  shows "parse_path mkdir (path_of D @ SLASH # f) cs = Option.bind (create_dir_and_cache_name mkdir (path_of D @ SLASH # f) (length (path_of D) + 1) cs)
    (\<lambda>(res, cs1). if res \<noteq> 0 then process_subdirs_of_path mkdir (path_of D @ SLASH # f) (length (path_of D) + 1) cs1 else Some (0, cs1))"
  unfolding parse_path_def locate_last_split [OF assms] Let_def option.case ..

lemma walk_all:
  assumes mk: "makes_dirs mkdir view" and ok: "comps_ok (E @ [e])" and len: "length (path_of (E @ [e])) < 4096" and v: "dirs_ok (view s)" "tops (E @ [e]) \<inter> dom (st_files (view s)) = {}"
  shows "\<exists>s'. process_subdirs_of_path mkdir (path_of (E @ [e]) @ SLASH # f) (length (path_of (E @ [e])) + 1) ([], s) = Some (1, path_of (E @ [e]), s')
    \<and> view s' = (view s)\<lparr>st_dirs := st_dirs (view s) \<union> tops (E @ [e])\<rparr>"
proof -
  let ?D = "E @ [e]" and ?path = "path_of (E @ [e]) @ SLASH # f"
  have "tops E \<inter> dom (st_files (view s)) = {}" using v(2) by auto
  from walk_ok [OF mk ok _ len v(1) this, of ?path] obtain cache s1 where
    w: "process_subdirs_of_path mkdir ?path (length (path_of ?D)) ([], s) = Some (1, cache, s1)" "length cache < length (path_of ?D)"
    "view s1 = (view s)\<lparr>st_dirs := st_dirs (view s) \<union> tops E\<rparr>" by auto
  have v1: "dirs_ok (view s1)" using dirs_ok_tops [OF v(1), of E] w(3) by simp
  have "?D \<notin> dom (st_files (view s1))" "E \<in> st_dirs (view s1)" using v(2) w(3) by auto
  moreover have "take (length (path_of ?D)) ?path = path_of ?D @ []" "length (path_of ?D) \<le> length ?path" by simp_all
  ultimately obtain s2 where s2: "create_dir_and_cache_name mkdir ?path (length (path_of ?D)) (cache, s1) = Some (0, path_of ?D @ [], s2)"
    "view s2 = (view s1)\<lparr>st_dirs := insert ?D (st_dirs (view s1))\<rparr>"
    using create_dir [OF mk ok _ _ _ len not_strncmp_longer [OF w(2)] v1] by blast
  have "locate_last ?path (length (path_of ?D) + 1) SLASH = Some (length (path_of ?D))"
    by (simp add: locate_last_Some_iff char_at_def nth_append)
  then have "process_subdirs_of_path mkdir ?path (length (path_of ?D) + 1) ([], s) = Some (1, path_of ?D, s2)"
    using w(1) s2(1) length_path_of [OF ok] by (subst process_subdirs_of_path.simps) (auto simp: callback_parse_def)
  moreover have "view s2 = (view s)\<lparr>st_dirs := st_dirs (view s) \<union> tops ?D\<rparr>" using s2(2) w(3) by simp
  ultimately show ?thesis by blast
qed

lemma cachedI: "comps_ok cs \<Longrightarrow> cs \<in> st_dirs v \<Longrightarrow> sl = [] \<or> sl = [SLASH] \<Longrightarrow> cached v (path_of cs @ sl)"
  unfolding cached_def by blast

lemma parse_path_ok:
  assumes mk: "makes_dirs mkdir view" and ok: "comps_ok D" "SLASH \<notin> set f" and len: "length (path_of D) + 1 < 4096"
    and v: "dirs_ok (view s)" "tops D \<inter> dom (st_files (view s)) = {}" "cached (view s) cache"
  shows "\<exists>r cache' s'. parse_path mkdir (path_of D @ SLASH # f) (cache, s) = Some (r, cache', s') \<and> cached (view s') cache'
    \<and> view s' = (view s)\<lparr>st_dirs := st_dirs (view s) \<union> tops D\<rparr>"
proof -
  let ?path = "path_of D @ SLASH # f" and ?len = "length (path_of D) + 1"
  have t: "take ?len ?path = path_of D @ [SLASH]" "?len \<le> length ?path" by simp_all
  have same: "(view s)\<lparr>st_dirs := st_dirs (view s) \<union> tops D\<rparr> = view s" if "D \<in> st_dirs (view s)" using tops_existing [OF v(1) that] by simp
  show ?thesis
  proof (cases "strncmp_eq ?path cache ?len")
    case True
    then have "prefix (path_of D @ [SLASH]) cache" using strncmp_eq_take [OF t(2)] t(1) by simp
    moreover from this obtain cs sl where cs: "comps_ok cs" "cs \<in> st_dirs (view s)" "sl = [] \<or> sl = [SLASH]" "cache = path_of cs @ sl"
      using v(3) by (auto simp: cached_def)
    ultimately have "D \<in> st_dirs (view s)" using prefix_comps [OF cs(3) ok(1) cs(1)] dirs_ok_prefix [OF v(1)] by blast
    moreover have "parse_path mkdir ?path (cache, s) = Some (0, cache, s)"
      using True unfolding parse_path_unfold [OF ok(2)] by (simp add: create_dir_and_cache_name_def)
    ultimately show ?thesis using same v(3) by (intro exI [of _ 0] exI [of _ cache] exI [of _ s]) simp
  next
    case False
    show ?thesis
    proof (cases D rule: rev_cases)
      case Nil
      have D: "D \<in> st_dirs (view s)" using v(1) Nil by (simp add: dirs_ok_def)
      from v(1) have "st_ok (view s)" by (simp add: dirs_ok_def)
      from makes_dirsD(1) [OF mk this, of S_IRWXU] obtain r s' where r: "mkdir s [SLASH] S_IRWXU = Some (r, s')" "r \<noteq> 0" "errno s' = EEXIST" "view s' = view s" by blast
      then have "parse_path mkdir ?path (cache, s) = Some (0, [SLASH], s')"
        using False Nil unfolding parse_path_unfold [OF ok(2)] by (simp add: create_dir_and_cache_name_def)
      moreover have "cached (view s') (path_of [] @ [SLASH])" using D Nil r(4) by (intro cachedI) simp_all
      ultimately show ?thesis using same [OF D] r(4) by auto
    next
      case (snoc E e)
      have D: "D \<notin> dom (st_files (view s))" using v(2) snoc by auto
      show ?thesis
      proof (cases "D \<in> st_dirs (view s) \<or> E \<in> st_dirs (view s)")
        case True
        then have E: "E \<in> st_dirs (view s)" using v(1) snoc by (auto simp: dirs_ok_def)
        obtain s' where s': "create_dir_and_cache_name mkdir ?path ?len (cache, s) = Some (0, path_of D @ [SLASH], s')" "view s' = (view s)\<lparr>st_dirs := insert D (st_dirs (view s))\<rparr>"
          using create_dir [OF mk, of E e "[SLASH]" s ?len ?path cache] ok(1) D t(1) len False v(1) E unfolding snoc by auto
        have "st_dirs (view s) \<union> tops D = insert D (st_dirs (view s))" using tops_existing [OF v(1) E] snoc by simp
        moreover have "cached (view s') (path_of D @ [SLASH])" using s'(2) ok(1) by (intro cachedI) simp_all
        moreover have "parse_path mkdir ?path (cache, s) = Some (0, path_of D @ [SLASH], s')"
          using s'(1) unfolding parse_path_unfold [OF ok(2)] by simp
        ultimately show ?thesis using s'(2) by auto
      next
        case missing: False
        obtain s1 where s1: "create_dir_and_cache_name mkdir ?path ?len (cache, s) = Some (-1, [], s1)" "view s1 = view s"
          using create_dir_missing [OF mk, of E e "[SLASH]" s ?len ?path cache] ok(1) D t(1) len False missing v(1) unfolding snoc dirs_ok_def by auto
        obtain s2 where s2: "process_subdirs_of_path mkdir ?path ?len ([], s1) = Some (1, path_of D, s2)" "view s2 = (view s1)\<lparr>st_dirs := st_dirs (view s1) \<union> tops D\<rparr>"
          using walk_all [OF mk, of E e s1 f] ok(1) len v(1,2) s1(2) unfolding snoc by auto
        have "parse_path mkdir ?path (cache, s) = Some (1, path_of D, s2)"
          using s1(1) s2(1) unfolding parse_path_unfold [OF ok(2)] by simp
        moreover have "cached (view s2) (path_of D @ [])" using s2(2) ok(1) by (intro cachedI) simp_all
        ultimately show ?thesis using s1(2) s2(2) by auto
      qed
    qed
  qed
qed

section \<open>Entries\<close>

datatype entry = Dir "string list" | File "string list" string "byte list"

type_synonym tree = "string list set \<times> (string list \<rightharpoonup> byte list)"

definition tree :: "store \<Rightarrow> tree" where
  "tree v = (st_dirs v, st_files v)"

text \<open>What an entry stands for, under the directory that the archive is unpacked in.\<close>

fun put :: "string list \<Rightarrow> entry \<Rightarrow> tree \<Rightarrow> tree" where
  "put ms (Dir d) (ds, fl) = (ds \<union> tops (ms @ d), fl)"
| "put ms (File d f c) (ds, fl) = (ds \<union> tops (ms @ d), fl(ms @ d @ [f] \<mapsto> c))"

text \<open>No directory of an entry is a file, and a file is not a directory.\<close>

fun fits :: "string list \<Rightarrow> entry \<Rightarrow> tree \<Rightarrow> bool" where
  "fits ms (Dir d) (ds, fl) \<longleftrightarrow> (\<forall>k \<le> length (ms @ d). fl (take k (ms @ d)) = None)"
| "fits ms (File d f c) (ds, fl) \<longleftrightarrow> (\<forall>k \<le> length (ms @ d). fl (take k (ms @ d)) = None) \<and> ms @ d @ [f] \<notin> ds"

lemma no_file_above: "(\<forall>k \<le> length D. fl (take k D) = None) \<longleftrightarrow> tops D \<inter> dom fl = {}"
  by (auto simp: tops_def)

text \<open>An unpacker between two entries.\<close>

definition ready :: "'a kern_scheme MountsPublicInterface \<Rightarrow> ('a kern_scheme \<Rightarrow> store) \<Rightarrow> 'a unpack \<Rightarrow> bool" where
  "ready chans view u \<longleftrightarrow> going chans view u \<and> dirs_ok (fs view u) \<and> cached (fs view u) (up_cache u)"

lemma dirs_made:
  assumes mk: "makes_dirs mkdir view" and ok: "comps_ok D" "SLASH \<notin> set f" and len: "length (path_of D) + 1 < 4096"
    and u: "ready chans view u" "tops D \<inter> dom (st_files (fs view u)) = {}"
  shows "\<exists>u'. in_dirs (parse_path mkdir (path_of D @ SLASH # f)) u = Some u' \<and> ready chans view u' \<and> to_read view u' = to_read view u
    \<and> fs view u' = (fs view u)\<lparr>st_dirs := st_dirs (fs view u) \<union> tops D\<rparr>"
proof -
  from u(1) have v: "dirs_ok (fs view u)" "cached (fs view u) (up_cache u)" by (simp_all add: ready_def)
  from parse_path_ok [OF mk ok len v(1) u(2) v(2)] obtain r cache s where p: "parse_path mkdir (path_of D @ SLASH # f) (up_cache u, up_state u) = Some (r, cache, s)"
    "cached (view s) cache" "view s = (fs view u)\<lparr>st_dirs := st_dirs (fs view u) \<union> tops D\<rparr>" by blast
  have "dirs_ok (view s)" using dirs_ok_tops [OF v(1), of D] p(3) by simp
  then show ?thesis using p u(1) by (intro exI [of _ "u\<lparr>up_cache := cache, up_state := s\<rparr>"]) (simp add: in_dirs_def ready_def going_def left_def)
qed

lemma extract_file:
  assumes mk: "makes_dirs mkdir view" and sf: "stores_files mounts view" and ok: "comps_ok (D @ [f])" and len: "length (path_of (D @ [f])) \<le> 4096"
    and u: "ready chans view u" "tops D \<inter> dom (st_files (fs view u)) = {}" "D @ [f] \<notin> st_dirs (fs view u)" "to_read view u = padded c @ tail"
  shows "\<exists>u'. extract_entry chans mounts mkdir ETypeFile (path_of (D @ [f])) (int (length c)) u = Some (0, u') \<and> ready chans view u' \<and> to_read view u' = tail
    \<and> tree (fs view u') = (st_dirs (fs view u) \<union> tops D, (st_files (fs view u))(D @ [f] \<mapsto> c))"
proof -
  have len': "length (path_of D) + 1 < 4096" using len ok by (cases f) simp_all
  from ok have ok': "comps_ok D" "SLASH \<notin> set f" by simp_all
  from dirs_made [OF mk ok' len' u(1,2)] obtain u1 where
    p: "in_dirs (parse_path mkdir (path_of D @ SLASH # f)) u = Some u1" "ready chans view u1" "to_read view u1 = padded c @ tail"
    "fs view u1 = (fs view u)\<lparr>st_dirs := st_dirs (fs view u) \<union> tops D\<rparr>" using u(4) by auto
  have "D @ [f] \<notin> tops D" by (auto simp: tops_def dest: arg_cong [of _ _ length])
  then have d: "D \<in> st_dirs (fs view u1)" "D @ [f] \<notin> st_dirs (fs view u1)" using p(4) u(3) by auto
  have "st_ok (fs view u1)" using p(2) by (simp add: ready_def dirs_ok_def)
  from stores_filesD(1) [OF sf this ok d] obtain fd s where o: "m_open mounts (up_state u1) (path_of (D @ [f])) (O_WRONLY OR O_CREAT OR O_TRUNC) S_IRWXU = Some (fd, s)" "0 \<le> fd"
    "view s = (fs view u1)\<lparr>st_files := (st_files (fs view u1))(D @ [f] \<mapsto> []), st_open := (st_open (fs view u1))(fd \<mapsto> D @ [f])\<rparr>" by blast
  let ?u2 = "u1\<lparr>up_state := s\<rparr>"
  have "going chans view ?u2" "to_read view ?u2 = padded c @ tail" "st_open (fs view ?u2) fd = Some (D @ [f])" "st_files (fs view ?u2) (D @ [f]) = Some []"
    using p(2,3) o(3) by (simp_all add: ready_def going_def left_def)
  from save_blocks_ok [OF sf this] obtain u3 rest where b: "save_blocks chans mounts fd (int (length c)) ?u2 = Some (0, u3)" "going chans view u3" "to_read view u3 = tail"
    "up_cache u3 = up_cache u1" "fs view u3 = (view s)\<lparr>st_files := (st_files (view s))(D @ [f] \<mapsto> c), st_rest := rest\<rparr>" by auto
  have "st_ok (fs view u3)" "st_open (fs view u3) fd = Some (D @ [f])" using b(2,5) o(3) by (simp_all add: going_def)
  from stores_filesD(3) [OF sf this] obtain r s' where c: "m_close mounts (up_state u3) fd = Some (r, s')"
    "view s' = (fs view u3)\<lparr>st_open := (st_open (fs view u3))(fd := None)\<rparr>" by blast
  let ?u' = "u3\<lparr>up_state := s'\<rparr>"
  have "extract_entry chans mounts mkdir ETypeFile (path_of (D @ [f])) (int (length c)) u = Some (0, ?u')"
    using p(1) o(1,2) b(1) c(1) by (simp add: extract_entry_def Let_def)
  moreover have "st_dirs (view s') = st_dirs (fs view u1)" "st_ok (view s') = st_ok (fs view u1)" using c(2) b(5) o(3) by simp_all
  then have "ready chans view ?u'" using p(2) b(2,4) by (simp add: ready_def going_def dirs_ok_def cached_def)
  moreover have "to_read view ?u' = tail" "tree (fs view ?u') = (st_dirs (fs view u) \<union> tops D, (st_files (fs view u))(D @ [f] \<mapsto> c))"
    using b(3) c(2) b(5) o(3) p(4) by (simp_all add: left_def tree_def)
  ultimately show ?thesis by blast
qed

lemma extract_dir:
  assumes mk: "makes_dirs mkdir view" and ok: "comps_ok D" "D \<noteq> []" and len: "length (path_of D) + 1 < 4096"
    and u: "ready chans view u" "tops D \<inter> dom (st_files (fs view u)) = {}"
  shows "\<exists>u'. extract_entry chans mounts mkdir ETypeDir (path_of D @ [SLASH]) n u = Some (0, u') \<and> ready chans view u' \<and> to_read view u' = to_read view u
    \<and> tree (fs view u') = (st_dirs (fs view u) \<union> tops D, st_files (fs view u))"
proof -
  from dirs_made [OF mk ok(1) _ len u, of "[]"] obtain u1 where
    p: "in_dirs (parse_path mkdir (path_of D @ [SLASH])) u = Some u1" "ready chans view u1" "to_read view u1 = to_read view u"
    "fs view u1 = (fs view u)\<lparr>st_dirs := st_dirs (fs view u) \<union> tops D\<rparr>" by auto
  obtain E e where D: "D = E @ [e]" using ok(2) by (cases D rule: rev_cases) auto
  let ?path = "path_of D @ [SLASH]"
  have "D \<in> st_dirs (fs view u1)" using p(4) by simp
  moreover have v1: "dirs_ok (fs view u1)" using p(2) by (simp add: ready_def)
  ultimately have E: "E \<in> st_dirs (fs view u1)" "insert D (st_dirs (fs view u1)) = st_dirs (fs view u1)" using D by (auto simp: dirs_ok_def)
  have "\<exists>cache s. create_dir_and_cache_name mkdir ?path (length ?path) (up_cache u1, up_state u1) = Some (0, cache, s) \<and> cached (view s) cache \<and> view s = fs view u1"
  proof (cases "strncmp_eq ?path (up_cache u1) (length ?path)")
    case True
    then show ?thesis using p(2) by (auto simp: create_dir_and_cache_name_def ready_def)
  next
    case False
    have "D \<in> tops D" by simp
    then have "D \<notin> dom (st_files (fs view u1))" using u(2) p(4) by (simp del: tops_simps) blast
    then obtain s where "create_dir_and_cache_name mkdir ?path (length ?path) (up_cache u1, up_state u1) = Some (0, ?path, s)" "view s = fs view u1"
      using create_dir [OF mk, of E e "[SLASH]" "up_state u1" "length ?path" ?path "up_cache u1"] ok(1) len False v1 E unfolding D by auto
    moreover have "cached (fs view u1) ?path" using ok(1) p(4) by (intro cachedI) simp_all
    ultimately show ?thesis by auto
  qed
  then obtain cache s where c: "create_dir_and_cache_name mkdir ?path (length ?path) (up_cache u1, up_state u1) = Some (0, cache, s)" "cached (view s) cache" "view s = fs view u1" by blast
  let ?u' = "u1\<lparr>up_cache := cache, up_state := s\<rparr>"
  have "extract_entry chans mounts mkdir ETypeDir ?path n u = Some (0, ?u')"
    using p(1) c(1) by (simp add: extract_entry_def) (simp add: in_dirs_def)
  moreover have "ready chans view ?u'" using c(2,3) p(2) by (simp add: ready_def going_def)
  moreover have "to_read view ?u' = to_read view u" "tree (fs view ?u') = (st_dirs (fs view u) \<union> tops D, st_files (fs view u))" using c(3) p(3,4) by (simp_all add: left_def tree_def)
  ultimately show ?thesis by blast
qed

section \<open>Headers\<close>

definition text_bytes :: "string \<Rightarrow> byte list" where
  "text_bytes cs = map (\<lambda>c. of_nat (of_char c)) cs"

fun octal :: "nat \<Rightarrow> nat \<Rightarrow> string" where
  "octal 0 n = []"
| "octal (Suc k) n = octal k (n div 8) @ [char_of (48 + n mod 8)]"

text \<open>
  A header of the format \<open>ustar\<close>: a name that is shorter than its field of 100 bytes, the size, the type of a directory or
  of a file, and an empty \<open>filename_prefix\<close> (the byte 345), since the prefix is ignored. All types but that
  of a directory are unpacked as files.
\<close>

definition header :: "byte list \<Rightarrow> string \<Rightarrow> bool \<Rightarrow> nat \<Rightarrow> bool" where
  "header block name dir n \<longleftrightarrow> length block = 512 \<and> length name < 100 \<and> take (length name + 1) block = text_bytes name @ [0]
     \<and> take 12 (drop 124 block) = text_bytes (octal 11 n) @ [0] \<and> block ! 156 \<in> (if dir then {0x35} else {0x30, 0}) \<and> block ! 345 = 0"

lemma text_at_take:
  assumes "take (length t + 1) (drop i block) = text_bytes t @ [0]" "CHR 0x00 \<notin> set t"
  shows "text_at i block = t"
proof -
  have byte: "char_of (unat (of_nat (of_char c) :: byte)) = c" for c :: char
    by (simp add: unat_of_nat take_bit_eq_mod)
  obtain r where r: "drop i block = text_bytes t @ 0 # r"
    using assms(1) append_take_drop_id [of "length t + 1" "drop i block"] by (metis append.assoc append_Cons append_Nil)
  have "map (\<lambda>b. char_of (unat b)) (text_bytes t) = t" by (simp add: text_bytes_def byte map_idI)
  then have "map (\<lambda>b. char_of (unat b)) (drop i block) = t @ CHR 0x00 # map (\<lambda>b. char_of (unat b)) r" unfolding r by (simp add: char_of_def)
  moreover have "takeWhile (\<lambda>c. c \<noteq> CHR 0x00) (t @ CHR 0x00 # x) = t" for x using assms(2) by (subst takeWhile_append2) auto
  ultimately show ?thesis unfolding text_at_def by simp
qed

lemma of_char_octal: "d < 8 \<Longrightarrow> (of_char (char_of (48 + d) :: char) :: nat) = 48 + d"
  by simp

lemma octal_digits: "set (octal k n) \<subseteq> Collect octal_digit" "length (octal k n) = k" "octal_value (octal k n) = n mod 8 ^ k"
proof (induction k arbitrary: n)
  case (Suc k)
  { case 1 show ?case using Suc.IH(1) [of "n div 8"] by (auto simp: octal_digit_def) }
  { case 2 show ?case using Suc.IH(2) by simp }
  { case 3 show ?case using Suc.IH(3) [of "n div 8"] by (simp add: octal_value_def mod_mult2_eq) }
qed (simp_all add: octal_value_def)

lemma sscanf_octal:
  assumes "n < 2 ^ 31"
  shows "sscanf_o (octal 11 n) = Some (int n)"
proof -
  let ?t = "octal 11 n"
  have t: "?t \<noteq> []" using octal_digits(2) [of 11 n] by (metis length_greater_0_conv zero_less_numeral)
  then have h: "octal_digit (hd ?t)" using octal_digits(1) [of 11 n] hd_in_set [of ?t] by blast
  then have "hd ?t \<notin> {CHR 0x20, CHR 0x09, CHR 0x0A, CHR 0x0B, CHR 0x0C, CHR 0x0D}" "hd ?t \<noteq> CHR 0x2B" "hd ?t \<noteq> CHR 0x2D"
    by (auto simp: octal_digit_def)
  moreover have "dropWhile P xs = xs" if "xs \<noteq> []" "\<not> P (hd xs)" for P and xs :: string using that by (cases xs) simp_all
  moreover have tw: "takeWhile octal_digit ?t = ?t" using octal_digits(1) [of 11 n] by (simp add: takeWhile_eq_all_conv subset_iff)
  moreover have "octal_value ?t = n" using octal_digits(3) [of 11 n] assms by simp
  moreover have "s32 (int n) = int n" using assms by (simp add: s32_id)
  ultimately show ?thesis using t assms unfolding sscanf_o_def Let_def by (simp add: tw)
qed

lemma octal_no_nul: "CHR 0x00 \<notin> set (octal k n)"
  using octal_digits(1) [of k n] by (auto simp: octal_digit_def)

lemma header_fields:
  assumes "header block name dir n" "CHR 0x00 \<notin> set name" "n < 2 ^ 31"
  shows "length block = 512" "text_at 0 block = name" "sscanf_o (text_at 124 block) = Some (int n)" "0 \<in> set (drop 124 block)" "block ! 156 = 0x35 \<longleftrightarrow> dir"
proof -
  show "length block = 512" "block ! 156 = 0x35 \<longleftrightarrow> dir" using assms(1) by (auto simp: header_def split: if_splits)
  show "text_at 0 block = name" using assms(1,2) by (intro text_at_take) (simp_all add: header_def)
  have o: "take (length (octal 11 n) + 1) (drop 124 block) = text_bytes (octal 11 n) @ [0]" using assms(1) by (simp only: header_def octal_digits(2)) simp
  have "text_at 124 block = octal 11 n" by (rule text_at_take [OF o octal_no_nul])
  then show "sscanf_o (text_at 124 block) = Some (int n)" using sscanf_octal [OF assms(3)] by simp
  have "0 \<in> set (take (length (octal 11 n) + 1) (drop 124 block))" unfolding o by simp
  then show "0 \<in> set (drop 124 block)" by (rule in_set_takeD)
qed

section \<open>Archives\<close>

fun entry_name :: "entry \<Rightarrow> string" where
  "entry_name (Dir d) = tl (path_of d) @ [SLASH]"
| "entry_name (File d f c) = tl (path_of (d @ [f]))"

fun entry_data :: "entry \<Rightarrow> byte list" where
  "entry_data (Dir d) = []"
| "entry_data (File d f c) = c"

fun is_dir :: "entry \<Rightarrow> bool" where
  "is_dir (Dir d) = True"
| "is_dir (File d f c) = False"

fun entry_comps :: "entry \<Rightarrow> string list" where
  "entry_comps (Dir d) = d"
| "entry_comps (File d f c) = d @ [f]"

text \<open>The blocks of an archive, which is ended by a block of zeros.\<close>

fun archive :: "(byte list \<times> entry) list \<Rightarrow> byte list" where
  "archive [] = replicate 512 0"
| "archive ((h, e) # es) = h @ padded (entry_data e) @ archive es"

definition entry_ok :: "string list \<Rightarrow> byte list \<times> entry \<Rightarrow> bool" where
  "entry_ok ms he \<longleftrightarrow> (case he of (h, e) \<Rightarrow> header h (entry_name e) (is_dir e) (length (entry_data e)) \<and> length (entry_data e) < 2 ^ 31
     \<and> entry_comps e \<noteq> [] \<and> comps_ok (entry_comps e) \<and> CHR 0x00 \<notin> set (entry_name e) \<and> length (path_of (ms @ entry_comps e)) + 1 < MAXPATHLEN)"

fun all_fit :: "string list \<Rightarrow> entry list \<Rightarrow> tree \<Rightarrow> bool" where
  "all_fit ms [] t \<longleftrightarrow> True"
| "all_fit ms (e # es) t \<longleftrightarrow> fits ms e t \<and> all_fit ms es (put ms e t)"

lemma tl_path_of: "cs \<noteq> [] \<Longrightarrow> SLASH # tl (path_of cs) = path_of cs"
  by (cases cs) simp_all

lemma full_name:
  assumes "comps_ok ms" "entry_comps e \<noteq> []" "mp = path_of ms \<or> mp = path_of ms @ [SLASH]"
  shows "mp @ (if mp \<noteq> [] \<and> last mp = SLASH then [] else [SLASH]) @ entry_name e = path_of (ms @ entry_comps e) @ (if is_dir e then [SLASH] else [])"
proof -
  have "mp @ (if mp \<noteq> [] \<and> last mp = SLASH then [] else [SLASH]) = path_of ms @ [SLASH]" using path_of_ends [OF assms(1)] assms(3) by auto
  moreover have "SLASH # entry_name e = path_of (entry_comps e) @ (if is_dir e then [SLASH] else [])"
    using tl_path_of [OF assms(2)] by (cases e) auto
  ultimately show ?thesis unfolding append_assoc [symmetric] by simp
qed

lemma entry_name_not_Nil: "comps_ok (entry_comps e) \<Longrightarrow> entry_comps e \<noteq> [] \<Longrightarrow> entry_name e \<noteq> []"
  using length_path_of [of "entry_comps e"] by (cases e) (auto simp: tl_Nil append_eq_Cons_conv)

lemma extract_ok:
  assumes mk: "makes_dirs mkdir view" and sf: "stores_files mounts view" and ms: "comps_ok ms" and e: "entry_ok ms (h, e)"
    and u: "ready chans view u" "fits ms e (tree (fs view u))" "to_read view u = padded (entry_data e) @ tail"
  shows "\<exists>u'. extract_entry chans mounts mkdir (if is_dir e then ETypeDir else ETypeFile) (path_of (ms @ entry_comps e) @ (if is_dir e then [SLASH] else []))
      (int (length (entry_data e))) u = Some (0, u') \<and> ready chans view u' \<and> to_read view u' = tail \<and> tree (fs view u') = put ms e (tree (fs view u))"
proof (cases e)
  case (Dir d)
  have "tops (ms @ d) \<inter> dom (st_files (fs view u)) = {}" using u(2) unfolding Dir tree_def fits.simps no_file_above .
  then show ?thesis using extract_dir [OF mk, of "ms @ d" chans u mounts 0] e ms u(1,3) Dir
    by (simp add: entry_ok_def tree_def padded_def del: path_of_simps)
next
  case (File d f c)
  have "tops (ms @ d) \<inter> dom (st_files (fs view u)) = {} \<and> ms @ d @ [f] \<notin> st_dirs (fs view u)" using u(2) unfolding File tree_def fits.simps no_file_above .
  then show ?thesis using extract_file [OF mk sf, of "ms @ d" f chans u c tail] e ms u(1,3) File
    by (simp add: entry_ok_def tree_def del: path_of_simps)
qed

text \<open>One turn of the loop on an entry, and the turn on the block that ends the archive.\<close>

lemma unpack_entry:
  assumes mk: "makes_dirs mkdir view" and sf: "stores_files mounts view" and ms: "comps_ok ms" "mp = path_of ms \<or> mp = path_of ms @ [SLASH]"
    and e: "entry_ok ms (h, e)" and u: "ready chans view u" "fits ms e (tree (fs view u))" "to_read view u = h @ padded (entry_data e) @ tail"
  shows "\<exists>u'. unpack_loop chans mounts mkdir mp cnt u = unpack_loop chans mounts mkdir mp (cnt + 1) u'
    \<and> ready chans view u' \<and> to_read view u' = tail \<and> tree (fs view u') = put ms e (tree (fs view u))"
proof -
  let ?n = "length (entry_data e)"
  from e have h: "header h (entry_name e) (is_dir e) ?n" "CHR 0x00 \<notin> set (entry_name e)" "?n < 2 ^ 31" "entry_comps e \<noteq> []"
    and len: "length (path_of (ms @ entry_comps e)) + 1 < MAXPATHLEN" by (simp_all add: entry_ok_def)
  note f = header_fields [OF h(1-3)]
  have g: "going chans view u" and r: "512 \<le> length (to_read view u)" using u(1,3) f(1) by (simp_all add: ready_def)
  from read_block [OF g r] obtain reader s rest where b: "mounts_read chans (up_reader u) 512 (up_state u) = Some ((512, h), reader, s)"
    "going chans view (u\<lparr>up_reader := reader, up_state := s\<rparr>)" "left view reader s = padded (entry_data e) @ tail" "view s = (fs view u)\<lparr>st_rest := rest\<rparr>" using u(3) f(1) by auto
  let ?u1 = "u\<lparr>up_reader := reader, up_state := s\<rparr>"
  have "ready chans view ?u1" "tree (fs view ?u1) = tree (fs view u)" using u(1) b(2,4) by (simp_all add: ready_def tree_def dirs_ok_def cached_def)
  moreover from this have "fits ms e (tree (fs view ?u1))" "to_read view ?u1 = padded (entry_data e) @ tail" using u(2) b(3) by simp_all
  ultimately obtain u' where x: "extract_entry chans mounts mkdir (if is_dir e then ETypeDir else ETypeFile)
      (path_of (ms @ entry_comps e) @ (if is_dir e then [SLASH] else [])) (int ?n) ?u1 = Some (0, u')"
    "ready chans view u'" "to_read view u' = tail" "tree (fs view u') = put ms e (tree (fs view u))"
    using extract_ok [OF mk sf ms(1) e, of chans ?u1 tail] by auto
  have name: "entry_name e \<noteq> []" using entry_name_not_Nil [of e] e by (simp add: entry_ok_def)
  have "\<not> MAXPATHLEN < length (path_of (ms @ entry_comps e) @ (if is_dir e then [SLASH] else []))" using len by simp
  then have "unpack_loop chans mounts mkdir mp cnt u = unpack_loop chans mounts mkdir mp (cnt + 1) u'"
    using b(1) x(1) name by (subst unpack_loop.simps) (simp only: bind.bind_lunit Let_def fst_conv snd_conv f full_name [OF ms(1) h(4) ms(2)] if_False option.case if_True not_True_eq_False not_False_eq_True, simp)
  then show ?thesis using x(2-4) by blast
qed

lemma unpack_end:
  assumes u: "ready chans view u" "to_read view u = replicate 512 0 @ tail"
  shows "\<exists>u'. unpack_loop chans mounts mkdir mp cnt u = Some (cnt, u') \<and> ready chans view u' \<and> to_read view u' = tail \<and> tree (fs view u') = tree (fs view u)"
proof -
  have g: "going chans view u" and r: "512 \<le> length (to_read view u)" using u by (simp_all add: ready_def)
  from read_block [OF g r] obtain reader s rest where b: "mounts_read chans (up_reader u) 512 (up_state u) = Some ((512, replicate 512 0), reader, s)"
    "going chans view (u\<lparr>up_reader := reader, up_state := s\<rparr>)" "left view reader s = tail" "view s = (fs view u)\<lparr>st_rest := rest\<rparr>" using u(2) by auto
  let ?u1 = "u\<lparr>up_reader := reader, up_state := s\<rparr>"
  have "ready chans view ?u1" "tree (fs view ?u1) = tree (fs view u)" using u(1) b(2,4) by (simp_all add: ready_def tree_def dirs_ok_def cached_def)
  moreover have "text_at 124 (replicate 512 0) = []" "sscanf_o [] = None" "0 \<in> set (drop 124 (replicate 512 (0 :: byte)))" by (simp_all add: text_at_def sscanf_o_def char_of_def takeWhile_replicate)
  then have "unpack_loop chans mounts mkdir mp cnt u = Some (cnt, ?u1)"
    using b(1) by (subst unpack_loop.simps) (simp only: bind.bind_lunit Let_def fst_conv snd_conv option.case, simp)
  ultimately show ?thesis using b(3) by auto
qed

lemma unpack_all:
  assumes mk: "makes_dirs mkdir view" and sf: "stores_files mounts view" and ms: "comps_ok ms" "mp = path_of ms \<or> mp = path_of ms @ [SLASH]"
  shows "ready chans view u \<Longrightarrow> list_all (entry_ok ms) es \<Longrightarrow> all_fit ms (map snd es) (tree (fs view u)) \<Longrightarrow> to_read view u = archive es @ tail
    \<Longrightarrow> \<exists>u'. unpack_loop chans mounts mkdir mp cnt u = Some (cnt + int (length es), u') \<and> to_read view u' = tail \<and> tree (fs view u') = fold (put ms) (map snd es) (tree (fs view u))"
proof (induction es arbitrary: u cnt)
  case Nil
  from unpack_end [of chans view u tail mounts mkdir mp cnt] Nil show ?case by auto
next
  case (Cons he es)
  obtain h e where he: "he = (h, e)" by (cases he)
  obtain u1 where u1: "unpack_loop chans mounts mkdir mp cnt u = unpack_loop chans mounts mkdir mp (cnt + 1) u1" "ready chans view u1" "to_read view u1 = archive es @ tail"
    "tree (fs view u1) = put ms e (tree (fs view u))" using unpack_entry [OF mk sf ms, of h e chans u "archive es @ tail" cnt] Cons.prems he by auto
  from Cons.IH [of u1 "cnt + 1"] u1 Cons.prems he show ?case by (auto simp: ac_simps)
qed

text \<open>
  (C33) Unpacking an archive makes the files and directories that its entries stand for, in the order of the
  archive: every file gets its contents and the directories above it, whether the archive has entries for
  them or not. It ends with the number of entries. The directory that was made last is kept in
  a cache, which spares calls of \<open>mkdir\<close> and no directory. Files that no entry names stay as they were.
  The entries are directories and files with a name below 100 bytes, without a prefix. The memory of the
  buffer of the name, which is not initialised, happens to hold a text that leaves room for the path of the
  mount; otherwise \<open>strcat\<close> writes behind the buffer.
\<close>

theorem unpack_tar_correct:
  assumes "makes_dirs mkdir view" "stores_files mounts view" "comps_ok ms" "mp = path_of ms \<or> mp = path_of ms @ [SLASH]"
    and "ready chans view u" "list_all (entry_ok ms) es" "all_fit ms (map snd es) (tree (fs view u))" "to_read view u = archive es @ tail"
    and "strcat_fits (MAXPATHLEN + 1) dst_filename mp"
  shows "\<exists>u'. unpack_tar chans mounts mkdir dst_filename mp u = Some (int (length es), u') \<and> tree (fs view u') = fold (put ms) (map snd es) (tree (fs view u))"
  using unpack_all [OF assms(1-8), of 0] assms(9) unfolding unpack_tar_def by auto

end
