(* ===== verification/DemoUnpack.thy ===== *)
theory DemoUnpack
  imports DemoConfig Truncate UnpackProps
begin

text \<open>
  A process with one open file, and a file system with an archive, on which the properties of \<open>ftruncate\<close> and of
  unpacking are evaluated. Both file systems are concrete functions in place of the one that the sources only call.
\<close>

section \<open>An open file\<close>

text \<open>The world is the content and the position of the file behind descriptor 0.\<close>

type_synonym demo_file = "(byte list \<times> nat) proc"

definition demo_file_proc :: demo_file where
  "demo_file_proc = zrt.extend \<lparr>s_handle_slots = s_handle_slots demo, h_first_unused_slot = 1, s_open_files_array = s_open_files_array demo,
     o_first_unused_slot = 1, errno = 0, channels_array = demo_array, manifest_dirs = demo_dirs, channels_ref = 7, world = ([1, 2, 3], 1), mount_items = mount_items demo\<rparr>
     (proc.fields False True 0 0 \<lparr>tv_sec = 1, tv_usec = 0\<rparr> 1 1 True demo_mm nvram_init True)"

definition demo_file_zvm :: "(byte list \<times> nat) zvm_env" where
  "demo_file_zvm = \<lparr>zvm_pread = (\<lambda>_ n _ w. ((0, []), w)), zvm_pwrite = (\<lambda>_ buf _ w. (0, w)), env_rand = (\<lambda>_ _. 0), env_time = (\<lambda>_. 0)\<rparr>"

definition demo_file_mount :: "demo_file MountsPublicInterface" where
  "demo_file_mount = (KChannels_mount demo_file_zvm 19)\<lparr>m_ftruncate_size := \<lambda>s fd n. Some (0, s\<lparr>world := (take (nat n) (fst (world s)), snd (world s))\<rparr>)\<rparr>"

definition demo_file_env :: "(byte list \<times> nat, unit, unit) penv" where
  "demo_file_env = (channels_env demo_file_zvm 19 (\<lambda>_. None) ''/'')\<lparr>te_mounts := \<lambda>_. demo_file_mount\<rparr>"

definition demo_stat :: "off_t \<Rightarrow> stat" where
  "demo_stat n = \<lparr>st_dev = 0, st_ino = 0, st_nlink = 1, st_uid = 0, st_gid = 0, st_rdev = 0, st_mode = 0, st_blksize = 1, st_size = n, st_blocks = 0, st_time = 0\<rparr>"

text \<open>A write takes one byte only.\<close>

definition demo_libc :: "demo_file libc" where
  "demo_libc = \<lparr>lc_lseek = (\<lambda>s fd off whence. if whence = SEEK_CUR then Some (int (snd (world s)) + off, s\<lparr>world := (fst (world s), nat (int (snd (world s)) + off))\<rparr>)
       else Some (off, s\<lparr>world := (fst (world s), nat off)\<rparr>)),
     lc_write = (\<lambda>s fd bs. Some (int (length (take 1 bs)), s\<lparr>world := (stored (fst (world s)) (snd (world s)) (take 1 bs), snd (world s) + length (take 1 bs))\<rparr>)),
     lc_fstat = (\<lambda>s fd. Some (0, Some (demo_stat (int (length (fst (world s))))), s))\<rparr>"

definition demo_file_good :: "demo_file \<Rightarrow> bool" where
  "demo_file_good s \<longleftrightarrow> mm_mount_byhandle s 0 \<noteq> None"

lemma mount_byhandle_world [simp]: "mm_mount_byhandle (s\<lparr>world := w\<rparr>) h = mm_mount_byhandle s h"
  by (simp add: mm_mount_byhandle_def entry_def ofd_entry_def VERIFY_HANDLE_def VERIFY_OFD_def)

lemma demo_file_laws: "file_laws demo_libc (transparent_ftruncate_size demo_file_env) 0 demo_file_good world"
  unfolding file_laws_def
proof (intro conjI allI impI)
  fix s :: demo_file and bs :: "byte list" assume "demo_file_good s" "bs \<noteq> []"
  then show "\<exists>n s'. lc_write demo_libc s 0 bs = Some (int n, s') \<and> 0 < n \<and> n \<le> length bs
      \<and> world s' = (stored (fst (world s)) (snd (world s)) (take n bs), snd (world s) + n) \<and> demo_file_good s'"
    by (intro exI [of _ 1] exI [of _ "s\<lparr>world := (stored (fst (world s)) (snd (world s)) (take 1 bs), snd (world s) + 1)\<rparr>"]) (cases bs; simp add: demo_libc_def demo_file_good_def)
next
  fix s :: demo_file and n assume "demo_file_good s" "n \<le> length (fst (world s))"
  then show "\<exists>s'. transparent_ftruncate_size demo_file_env s 0 (int n) = Some (0, s') \<and> world s' = (take n (fst (world s)), snd (world s)) \<and> demo_file_good s'"
    by (auto simp: transparent_ftruncate_size_def handle_call_def demo_file_good_def demo_file_env_def demo_file_mount_def)
qed (simp_all add: demo_libc_def demo_stat_def demo_file_good_def)

theorem ftruncate_correct_witness:
  "\<exists>s'. zrt_zcall_ftruncate demo_file_env demo_libc demo_file_proc 0 5 = Some (0, s') \<and> world s' = ([1, 2, 3, 0, 0], 1)"
proof -
  have p: "s_zrt_ready demo_file_proc" "world (SET_ERRNO 0 demo_file_proc) = ([1, 2, 3], 1)"
    by (simp_all add: demo_file_proc_def zrt.defs proc.defs SET_ERRNO_def)
  have "s_handle_slots (SET_ERRNO 0 demo_file_proc) = s_handle_slots demo" "s_open_files_array (SET_ERRNO 0 demo_file_proc) = s_open_files_array demo"
    by (simp_all add: demo_file_proc_def zrt.defs proc.defs SET_ERRNO_def)
  then have "mm_mount_byhandle (SET_ERRNO 0 demo_file_proc) 0 = mm_mount_byhandle demo 0"
    by (simp add: mm_mount_byhandle_def entry_def ofd_entry_def VERIFY_HANDLE_def VERIFY_OFD_def)
  moreover have "mm_mount_byhandle demo 0 = Some 7" by code_simp
  ultimately have good: "demo_file_good (SET_ERRNO 0 demo_file_proc)" by (simp add: demo_file_good_def)
  have "\<exists>s'. zrt_zcall_ftruncate demo_file_env demo_libc demo_file_proc 0 (int 5) = Some (0, s') \<and>
     world s' = (take 5 [1, 2, 3] @ replicate (5 - length [1, 2, 3 :: byte]) 0, if (1 :: nat) \<le> 5 \<or> 5 \<le> length [1, 2, 3 :: byte] then 1 else 5)"
    by (rule ftruncate_correct [OF demo_file_laws p(1) good p(2)]) simp_all
  then show ?thesis by (simp add: numeral_2_eq_2)
qed

section \<open>An archive\<close>

text \<open>The world is the file system itself and the rest of the archive.\<close>

type_synonym demo_fs = "store chan"

function comps_of :: "string \<Rightarrow> string list" where
  "comps_of [] = []"
| "comps_of (x # xs) = (if x = SLASH then comps_of xs
     else (x # takeWhile (\<lambda>c. c \<noteq> SLASH) xs) # comps_of (dropWhile (\<lambda>c. c \<noteq> SLASH) xs))"
  by pat_completeness auto
termination
  by (relation "measure length") (auto simp: le_imp_less_Suc length_dropWhile_le)

lemma comps_of_word:
  assumes "c \<noteq> []" "SLASH \<notin> set c" "y = [] \<or> hd y = SLASH"
  shows "comps_of (c @ y) = c # comps_of y"
proof -
  obtain x xs where c: "c = x # xs" using assms(1) by (cases c) auto
  have "takeWhile (\<lambda>z. z \<noteq> SLASH) (xs @ y) = xs @ takeWhile (\<lambda>z. z \<noteq> SLASH) y" "dropWhile (\<lambda>z. z \<noteq> SLASH) (xs @ y) = dropWhile (\<lambda>z. z \<noteq> SLASH) y"
    using assms(2) c by (auto intro!: takeWhile_append2 dropWhile_append2)
  moreover have "takeWhile (\<lambda>z. z \<noteq> SLASH) y = []" "dropWhile (\<lambda>z. z \<noteq> SLASH) y = y" using assms(3) by (cases y; auto)+
  ultimately show ?thesis using assms(2) c by auto
qed

lemma comps_of_path: "comps_ok cs \<Longrightarrow> sl = [] \<or> sl = [SLASH] \<Longrightarrow> comps_of (path_of cs @ sl) = cs"
proof (induction cs)
  case (Cons c cs)
  have "path_of cs @ sl = [] \<or> hd (path_of cs @ sl) = SLASH" using Cons.prems(2) by (cases cs) auto
  then show ?case using Cons comps_of_word [of c "path_of cs @ sl"] by simp
qed auto

definition demo_mkdir :: "demo_fs \<Rightarrow> string \<Rightarrow> mode_t \<Rightarrow> demo_fs res" where
  "demo_mkdir s path mode = (let cs = comps_of path; v = world s in
     if cs = [] \<or> cs \<in> st_dirs v then Some (-1, s\<lparr>errno := EEXIST\<rparr>)
     else if butlast cs \<in> st_dirs v then Some (0, s\<lparr>world := v\<lparr>st_dirs := insert cs (st_dirs v)\<rparr>\<rparr>)
     else Some (-1, s\<lparr>errno := ENOENT\<rparr>))"

definition demo_fs_zvm :: "store zvm_env" where
  "demo_fs_zvm = \<lparr>zvm_pread = (\<lambda>_ n _ w. ((0, []), w)), zvm_pwrite = (\<lambda>_ buf _ w. (0, w)), env_rand = (\<lambda>_ _. 0), env_time = (\<lambda>_. 0)\<rparr>"

definition demo_fs_mount :: "demo_fs MountsPublicInterface" where
  "demo_fs_mount = (KChannels_mount demo_fs_zvm 19)\<lparr>
     m_read := \<lambda>s fd n. let r = st_rest (world s) in Some (int (length (take n r)), take n r, s\<lparr>world := (world s)\<lparr>st_rest := drop n r\<rparr>\<rparr>),
     m_open := \<lambda>s path fl m. let v = world s; cs = comps_of path in
        Some (5, s\<lparr>world := v\<lparr>st_files := (st_files v)(cs \<mapsto> []), st_open := (st_open v)(5 \<mapsto> cs)\<rparr>\<rparr>),
     m_write := \<lambda>s fd bs. let v = world s in (case st_open v fd of None \<Rightarrow> Some (-1, s) | Some p \<Rightarrow>
        Some (int (length bs), s\<lparr>world := v\<lparr>st_files := (st_files v)(p \<mapsto> the (st_files v p) @ bs)\<rparr>\<rparr>)),
     m_close := \<lambda>s fd. let v = world s in Some (0, s\<lparr>world := v\<lparr>st_open := (st_open v)(fd := None)\<rparr>\<rparr>)\<rparr>"

lemma demo_fs_laws: "reads_archive demo_fs_mount fd world" "makes_dirs demo_mkdir world" "stores_files demo_fs_mount world"
proof -
  show "reads_archive demo_fs_mount fd world" by (simp add: reads_archive_def demo_fs_mount_def Let_def)
  show "makes_dirs demo_mkdir world"
    unfolding makes_dirs_def by (intro conjI allI impI) (auto simp: demo_mkdir_def Let_def comps_of_path simp del: path_of_simps)
  show "stores_files demo_fs_mount world"
    unfolding stores_files_def
    by (intro conjI allI impI) (auto simp: demo_fs_mount_def Let_def comps_of_path [where sl = "[]", simplified] simp del: path_of_simps)
qed

definition demo_header :: "string \<Rightarrow> byte \<Rightarrow> nat \<Rightarrow> byte list" where
  "demo_header name ty n = text_bytes name @ replicate (124 - length name) 0 @ text_bytes (octal 11 n) @ replicate 21 0 @ [ty] @ replicate 355 0"

lemma demo_header_ok:
  assumes "length name < 100" "ty \<in> {0x35, 0x30}"
  shows "header (demo_header name ty n) name (ty = 0x35) n"
proof -
  have l: "length (text_bytes t) = length t" for t by (simp add: text_bytes_def)
  have "124 - length name = Suc (123 - length name)" using assms by simp
  then show ?thesis using assms octal_digits(2) [of 11 n] by (auto simp: header_def demo_header_def l nth_append simp del: octal.simps)
qed

definition demo_entries :: "(byte list \<times> entry) list" where
  "demo_entries = [(demo_header ''a/'' 0x35 0, Dir [''a'']), (demo_header ''a/b/c'' 0x30 3, File [''a'', ''b''] ''c'' [1, 2, 3])]"

definition demo_fs_state :: demo_fs where
  "demo_fs_state = kern.extend kern_init (chan.fields demo_array demo_dirs 7
     \<lparr>st_ok = True, st_dirs = {[], [''m'']}, st_files = Map.empty, st_open = Map.empty, st_rest = archive demo_entries\<rparr>)"

definition demo_unpack :: "(store, unit) chan_ext unpack" where
  "demo_unpack = \<lparr>up_reader = \<lparr>mr_fd = 3, mr_bio = AllocBufferedIORead (replicate BUFFER_IO_SIZE 0)\<rparr>, up_cache = [], up_state = demo_fs_state\<rparr>"

lemma demo_unpack_ready: "ready demo_fs_mount world demo_unpack" "tree (world (up_state demo_unpack)) = ({[], [''m'']}, Map.empty)"
  "left world (up_reader demo_unpack) (up_state demo_unpack) = archive demo_entries @ []"
  by (auto simp: ready_def going_def demo_fs_laws demo_unpack_def demo_fs_state_def kern.defs chan.defs dirs_ok_def cached_def rd_wf_def buf_buffered_def
      AllocBufferedIORead_def tree_def left_def pending_def append_eq_Cons_conv)

theorem unpack_tar_correct_witness:
  "\<exists>u'. unpack_tar demo_fs_mount demo_fs_mount demo_mkdir (''x'' @ [CHR 0x00]) ''/m'' demo_unpack = Some (2, u')
     \<and> st_files (world (up_state u')) [''m'', ''a'', ''b'', ''c''] = Some [1, 2, 3] \<and> [''m'', ''a'', ''b''] \<in> st_dirs (world (up_state u'))"
proof -
  have ok: "list_all (entry_ok [''m'']) demo_entries"
    using demo_header_ok [of "''a/''" "0x35" 0] demo_header_ok [of "''a/b/c''" "0x30" 3] by (simp add: demo_entries_def entry_ok_def numeral_3_eq_3)
  have "[''m'', ''a'', ''b'', ''c''] \<notin> tops [''m'', ''a'']" by (auto simp: tops_def take_Cons' split: if_splits)
  then have fit: "all_fit [''m''] (map snd demo_entries) (tree (world (up_state demo_unpack)))"
    unfolding demo_unpack_ready(2) by (simp add: demo_entries_def)
  have "\<exists>u'. unpack_tar demo_fs_mount demo_fs_mount demo_mkdir (''x'' @ [CHR 0x00]) ''/m'' demo_unpack = Some (int (length demo_entries), u')
      \<and> tree (world (up_state u')) = fold (put [''m'']) (map snd demo_entries) (tree (world (up_state demo_unpack)))"
    by (rule unpack_tar_correct [OF demo_fs_laws(2,3) _ _ demo_unpack_ready(1) ok fit demo_unpack_ready(3)]) (simp_all add: strcat_fits_def)
  moreover have "[''m'', ''a'', ''b''] \<in> tops [''m'', ''a'', ''b'']" by simp
  ultimately show ?thesis unfolding demo_unpack_ready(2) by (auto simp: demo_entries_def tree_def)
qed

end
