(* ===== verification/Fstab.thy ===== *)
theory Fstab
  imports Unpack
begin

text \<open>
  The mounts of the section \<open>fstab\<close> of the configuration (\<open>lib/nvram/observers/fstab_observer.c\<close>): archives that
  are unpacked at the start or at the first access below their mount point, and written at the end; and the
  parts of \<open>lib/zcalls\<close> that handle the section: set-up, fork, the home directory, the exit.

  The build is the one without FUSE. Memory for the records suffices. The functions \<open>save_as_tar\<close>, \<open>zvm_fork\<close>,
  \<open>setenv\<close> and \<open>chdir\<close> are arguments. \<open>None\<close> is a failed assertion, an abort of a called function, or undefined
  behaviour.
\<close>

section \<open>State\<close>

datatype mount_status = EFstabMountWaiting | EFstabMountProcessing | EFstabMountComplete

record FstabRecordContainer =
  mount :: ParsedRecord
  mount_status :: mount_status

text \<open>A pointer to a container is its index in the array.\<close>

record FstabObserver =
  postpone_mounts_array :: "FstabRecordContainer list"
  s_updated_fstab_records :: bool
  s_mounts_set :: bool \<comment> \<open>\<open>s_channels_mount\<close> and \<open>s_transparent_mount\<close> are not NULL\<close>

record 'w fproc = "'w proc" +
  fstab :: FstabObserver
  s_cached_full_path :: string \<comment> \<open>of \<open>fs/unpack/parse_path.c\<close>\<close>

section \<open>Records\<close>

record fstab_params =
  fp_channel :: string
  fp_mountpoint :: string
  fp_access :: string
  fp_removable :: string
  fp_fsname :: string

definition GET_FSTAB_PARAMS :: "ParsedRecord \<Rightarrow> fstab_params option" where
  "GET_FSTAB_PARAMS record = do {
     c \<leftarrow> ALLOCA_PARAM_VALUE record 0;
     m \<leftarrow> ALLOCA_PARAM_VALUE record 1;
     a \<leftarrow> ALLOCA_PARAM_VALUE record 2;
     r \<leftarrow> ALLOCA_PARAM_VALUE record 3;
     f \<leftarrow> ALLOCA_PARAM_VALUE record 4;
     Some \<lparr>fp_channel = c_str c, fp_mountpoint = c_str m, fp_access = c_str a, fp_removable = c_str r, fp_fsname = c_str f\<rparr> }"

abbreviation (input) FSTAB_VAL_ACCESS_READ :: string where "FSTAB_VAL_ACCESS_READ \<equiv> ''ro''"
abbreviation (input) FSTAB_VAL_ACCESS_WRITE :: string where "FSTAB_VAL_ACCESS_WRITE \<equiv> ''wo''"
abbreviation (input) FSTAB_VAL_REMOVABLE_YES :: string where "FSTAB_VAL_REMOVABLE_YES \<equiv> ''yes''"
abbreviation (input) FSTAB_VAL_REMOVABLE_NO :: string where "FSTAB_VAL_REMOVABLE_NO \<equiv> ''no''"

definition to_lower :: "char \<Rightarrow> char" where
  "to_lower c = (if (0x41 :: nat) \<le> of_char c \<and> of_char c \<le> (0x5A :: nat) then char_of (of_char c + (0x20 :: nat)) else c)"

definition strcasecmp_eq :: "string \<Rightarrow> string \<Rightarrow> bool" where
  "strcasecmp_eq a b \<longleftrightarrow> map to_lower a = map to_lower b"

definition handle_is_valid_record :: "ParsedRecord \<Rightarrow> int option" where
  "handle_is_valid_record record = do {
     p \<leftarrow> GET_FSTAB_PARAMS record;
     Some (if (fp_access p = FSTAB_VAL_ACCESS_WRITE \<or> fp_access p = FSTAB_VAL_ACCESS_READ)
              \<and> (fp_removable p = FSTAB_VAL_REMOVABLE_YES \<or> fp_removable p = FSTAB_VAL_REMOVABLE_NO)
           then 0 else 1) }"

section \<open>Mounting\<close>

definition set_status :: "nat \<Rightarrow> mount_status \<Rightarrow> ('w, 'a) fproc_scheme \<Rightarrow> ('w, 'a) fproc_scheme" where
  "set_status i status s =
     (let fo = fstab s; a = postpone_mounts_array fo
      in s\<lparr>fstab := fo\<lparr>postpone_mounts_array := a[i := (a ! i)\<lparr>mount_status := status\<rparr>]\<rparr>\<rparr>)"

text \<open>The interfaces and calls that an import uses.\<close>

record 's import_calls =
  ic_channels :: "'s MountsPublicInterface" \<comment> \<open>\<open>s_channels_mount\<close>\<close>
  ic_transparent :: "'s MountsPublicInterface" \<comment> \<open>\<open>s_transparent_mount\<close>\<close>
  ic_stat :: "'s \<Rightarrow> string \<Rightarrow> (int \<times> stat option \<times> 's) option"
  ic_mkdir :: "'s \<Rightarrow> string \<Rightarrow> mode_t \<Rightarrow> 's res"
  ic_buffer :: "byte list" \<comment> \<open>the memory of the buffered reader\<close>
  ic_name :: string \<comment> \<open>the memory of the buffer of a name in \<open>unpack_tar\<close>\<close>

text \<open>
  The record may have been erased or have become another one only by the calls of the import itself. A channel
  that cannot be read leaves the record in processing. The cache of the unpacker is kept from one archive to the next.
\<close>

definition handle_mount_import :: "('w, 'a) fproc_scheme import_calls \<Rightarrow> ('w, 'a) fproc_scheme \<Rightarrow> nat \<Rightarrow> ('w, 'a) fproc_scheme option" where
  "handle_mount_import ic s i =
     (if \<not> s_mounts_set (fstab s) \<or> length (postpone_mounts_array (fstab s)) \<le> i then None
      else do {
        p \<leftarrow> GET_FSTAB_PARAMS (mount (postpone_mounts_array (fstab s) ! i));
        (let removable_record = strcasecmp_eq (fp_removable p) FSTAB_VAL_REMOVABLE_YES
         in if fp_access p = FSTAB_VAL_ACCESS_READ \<and> mount_status (postpone_mounts_array (fstab s) ! i) = EFstabMountWaiting
               \<and> (removable_record \<or> \<not> s_updated_fstab_records (fstab s) \<and> \<not> removable_record)
            then do {
              (mounts_reader, s1) \<leftarrow> alloc_mounts_reader (ic_buffer ic) (ic_channels ic) (fp_channel p) (set_status i EFstabMountProcessing s);
              (case mounts_reader of
                 None \<Rightarrow> Some s1
               | Some reader \<Rightarrow> do {
                   (_, u) \<leftarrow> deploy_image (ic_channels ic) (ic_transparent ic) (ic_stat ic) (ic_mkdir ic) (ic_name ic) (fp_mountpoint p)
                     \<lparr>up_reader = reader, up_cache = s_cached_full_path s1, up_state = s1\<rparr>;
                   (let s2 = (up_state u)\<lparr>s_cached_full_path := up_cache u\<rparr>
                    in if length (postpone_mounts_array (fstab s2)) \<le> i then None
                       else free_mounts_reader (ic_channels ic) (up_reader u) (set_status i EFstabMountComplete s2)) }) }
            else Some s) })"

definition handle_fstab_record :: "('w, 'a) fproc_scheme import_calls \<Rightarrow> ParsedRecord \<Rightarrow> ('w, 'a) fproc_scheme \<Rightarrow> ('w, 'a) fproc_scheme option" where
  "handle_fstab_record ic record s0 =
     (let s = s0\<lparr>fstab := (fstab s0)\<lparr>s_mounts_set := True\<rparr>\<rparr>
      in do {
        invalid \<leftarrow> handle_is_valid_record record;
        if invalid \<noteq> 0 then Some s
        else do {
          r \<leftarrow> copy_record record;
          p \<leftarrow> GET_FSTAB_PARAMS record;
          (let i = length (postpone_mounts_array (fstab s));
               s1 = s\<lparr>fstab := (fstab s)\<lparr>postpone_mounts_array := postpone_mounts_array (fstab s) @ [\<lparr>mount = r, mount_status = EFstabMountWaiting\<rparr>]\<rparr>\<rparr>
           in if strcasecmp_eq (fp_fsname p) ''tar'' \<and> fp_access p = FSTAB_VAL_ACCESS_READ \<and> \<not> s_updated_fstab_records (fstab s1)
              then handle_mount_import ic s1 i else Some s1) } })"

text \<open>\<open>save_as_tar\<close> is from the ported \<open>tar\<close>.\<close>

fun export_loop :: "('s \<Rightarrow> string \<Rightarrow> string \<Rightarrow> 's) \<Rightarrow> FstabRecordContainer list \<Rightarrow> 's \<Rightarrow> 's option" where
  "export_loop save_as_tar [] s = Some s"
| "export_loop save_as_tar (c # cs) s = do {
     p \<leftarrow> GET_FSTAB_PARAMS (mount c);
     export_loop save_as_tar cs (if fp_access p = FSTAB_VAL_ACCESS_WRITE then save_as_tar s (fp_mountpoint p) (fp_channel p) else s) }"

text \<open>The archives are written by calls on files, which can mount further records but not add one.\<close>

definition handle_mount_export :: "(('w, 'a) fproc_scheme \<Rightarrow> string \<Rightarrow> string \<Rightarrow> ('w, 'a) fproc_scheme) \<Rightarrow> ('w, 'a) fproc_scheme \<Rightarrow> ('w, 'a) fproc_scheme option" where
  "handle_mount_export save_as_tar s = export_loop save_as_tar (postpone_mounts_array (fstab s)) s"

definition handle_erase_old_mounts :: "FstabObserver \<Rightarrow> FstabObserver" where
  "handle_erase_old_mounts fo = fo\<lparr>s_updated_fstab_records := True, postpone_mounts_array := []\<rparr>"

fun reset_loop :: "bool \<Rightarrow> FstabRecordContainer list \<Rightarrow> FstabRecordContainer list option" where
  "reset_loop updated [] = Some []"
| "reset_loop updated (c # cs) = do {
     p \<leftarrow> GET_FSTAB_PARAMS (mount c);
     cs' \<leftarrow> reset_loop updated cs;
     Some (c\<lparr>mount_status := (if \<not> updated \<or> fp_access p = FSTAB_VAL_ACCESS_READ \<and> strcasecmp_eq (fp_removable p) FSTAB_VAL_REMOVABLE_YES
        then EFstabMountWaiting else EFstabMountComplete)\<rparr> # cs') }"

definition handle_reset_removable :: "FstabObserver \<Rightarrow> FstabObserver option" where
  "handle_reset_removable fo = do {
     a \<leftarrow> reset_loop (s_updated_fstab_records fo) (postpone_mounts_array fo);
     Some (fo\<lparr>postpone_mounts_array := a\<rparr>) }"

text \<open>The first record with the status whose mount point is a prefix of the path, as a string. \<open>Some None\<close> is NULL.\<close>

fun locate_loop :: "string \<Rightarrow> mount_status \<Rightarrow> nat \<Rightarrow> FstabRecordContainer list \<Rightarrow> nat option option" where
  "locate_loop alias status i [] = Some None"
| "locate_loop alias status i (c # cs) = do {
     mountpoint \<leftarrow> ALLOCA_PARAM_VALUE (mount c) 1;
     if strncmp_eq (c_str mountpoint) alias (length (c_str mountpoint)) \<and> status = mount_status c then Some (Some i)
     else locate_loop alias status (i + 1) cs }"

definition handle_locate_postpone_mount :: "FstabObserver \<Rightarrow> string \<Rightarrow> mount_status \<Rightarrow> nat option option" where
  "handle_locate_postpone_mount fo alias status = locate_loop alias status 0 (postpone_mounts_array fo)"

section \<open>Set-up, fork, exit\<close>

text \<open>The calls of the C library and of ZeroVM.\<close>

record 's setup_calls = "'s import_calls" +
  sc_files :: "'s file_calls"
  sc_setenv :: "string \<Rightarrow> string \<Rightarrow> 's \<Rightarrow> 's"
  sc_fork :: "'s \<Rightarrow> int \<times> 's"
  sc_chdir :: "'s \<Rightarrow> string \<Rightarrow> 's res"

definition fork_sections :: "('w, 'a) fproc_scheme setup_calls \<Rightarrow> ('w, 'a) fproc_scheme \<Rightarrow> ('w, 'a) fproc_scheme option" where
  "fork_sections sc s = do {
     (let nv = nvram s
      in do {
        s1 \<leftarrow> handle_section nv ''env'' get_env_observer (handle_env_record_fork (sc_setenv sc)) s;
        s2 \<leftarrow> handle_section nv ''mapping'' get_mapping_observer handle_mapping_record s1;
        s3 \<leftarrow> (if nvram_section_by_name nv ''fstab'' = None then Some s2
               else do {
                 obs \<leftarrow> get_fstab_observer;
                 t \<leftarrow> nvram_handle nv (handle_fstab_record (import_calls.truncate sc)) obs (s2\<lparr>fstab := handle_erase_old_mounts (fstab s2)\<rparr>);
                 fo \<leftarrow> handle_reset_removable (fstab t);
                 Some (t\<lparr>fstab := fo\<rparr>) });
        v \<leftarrow> handle_section nv ''debug'' get_debug_observer handle_debug_record (s_verbosity_level s3);
        Some (s3\<lparr>s_verbosity_level := v\<rparr>) }) }"

definition zfork :: "('w, 'a) fproc_scheme setup_calls \<Rightarrow> ('w, 'a) fproc_scheme \<Rightarrow> ('w, 'a) fproc_scheme res" where
  "zfork sc s = (case sc_fork sc s of (res, s1) \<Rightarrow> do {
     nv0 \<leftarrow> nvram_instance (nvram s1);
     (case nvram_read (sc_files sc) nv0 ''/dev/nvram'' s1 of
        (n, nv1, s2) \<Rightarrow>
          if 0 < n then do {
            nv2 \<leftarrow> nvram_parse nv1;
            s3 \<leftarrow> fork_sections sc (s2\<lparr>nvram := nv2\<rparr>);
            Some (res, s3) }
          else Some (res, s2\<lparr>nvram := nv1\<rparr>)) })"

definition setup_sections :: "('w, 'a) fproc_scheme setup_calls \<Rightarrow> ('w, 'a) fproc_scheme \<Rightarrow> ('w, 'a) fproc_scheme option" where
  "setup_sections sc s = do {
     (let nv = nvram s
      in do {
        s1 \<leftarrow> handle_section nv ''mapping'' get_mapping_observer handle_mapping_record s;
        s2 \<leftarrow> handle_section nv ''fstab'' get_fstab_observer (handle_fstab_record (import_calls.truncate sc)) s1;
        dofork \<leftarrow> handle_section nv ''precache'' get_precache_observer handle_precache_record False;
        if dofork then do { (_, s3) \<leftarrow> zfork sc s2; Some s3 } else Some s2 }) }"

definition zrt_zcall_enhanced_zrt_setup :: "(nat \<Rightarrow> bool) \<Rightarrow> (nat \<Rightarrow> ZrtChannelRt) \<Rightarrow> byte list \<Rightarrow> mount_ref \<Rightarrow> UserManifest
    \<Rightarrow> ('w, 'a) fproc_scheme setup_calls \<Rightarrow> ('w, 'a) fproc_scheme \<Rightarrow> ('w, 'a) fproc_scheme option" where
  "zrt_zcall_enhanced_zrt_setup mem fresh chunks ref manifest sc s = do {
     nv \<leftarrow> nvram_instance (nvram s);
     s1 \<leftarrow> zrt_internal_init mem fresh chunks ref manifest (s\<lparr>nvram := nv\<rparr>);
     setup_sections sc s1 }"

definition zrt_zcall_prolog_zrt_setup :: "(nat \<Rightarrow> bool) \<Rightarrow> (nat \<Rightarrow> ZrtChannelRt) \<Rightarrow> byte list \<Rightarrow> mount_ref \<Rightarrow> UserManifest
    \<Rightarrow> ('w, 'a) fproc_scheme setup_calls \<Rightarrow> ('w, 'a) fproc_scheme \<Rightarrow> ('w, 'a) fproc_scheme option" where
  "zrt_zcall_prolog_zrt_setup mem fresh chunks ref manifest sc s = do {
     s1 \<leftarrow> zrt_zcall_enhanced_zrt_setup mem fresh chunks ref manifest sc (s\<lparr>s_prolog_doing_now := False\<rparr>);
     Some (s1\<lparr>s_zrt_constructed := True\<rparr>) }"

definition set_home_dir :: "('w, 'a) fproc_scheme setup_calls \<Rightarrow> ('w, 'a) fproc_scheme \<Rightarrow> string option \<Rightarrow> ('w, 'a) fproc_scheme option" where
  "set_home_dir sc s home = (case home of
     None \<Rightarrow> Some s
   | Some h \<Rightarrow> do {
       (err, s1) \<leftarrow> mkpath_recursively (ic_stat sc) (ic_mkdir sc) h 0x1B6 s;
       if err = 0 \<or> err = -1 \<and> errno s1 = EEXIST then do { (_, s2) \<leftarrow> sc_chdir sc s1 h; Some s2 } else Some s1 })"

text \<open>\<open>home\<close> is the variable \<open>HOME\<close> of the environment; the information on the session is logged only.\<close>

definition zrt_zcall_enhanced_premain :: "('w, 'a) fproc_scheme setup_calls \<Rightarrow> string option \<Rightarrow> ('w, 'a) fproc_scheme \<Rightarrow> ('w, 'a) fproc_scheme option" where
  "zrt_zcall_enhanced_premain sc home s = do { s1 \<leftarrow> set_home_dir sc s home; Some (s1\<lparr>s_is_user_main_executing := True\<rparr>) }"

definition zrt_zcall_prolog_premain :: "('w, 'a) fproc_scheme setup_calls \<Rightarrow> string option \<Rightarrow> ('w, 'a) fproc_scheme \<Rightarrow> ('w, 'a) fproc_scheme option" where
  "zrt_zcall_prolog_premain sc home s = zrt_zcall_enhanced_premain sc home s"

text \<open>The state in which the control goes to ZeroVM.\<close>

definition zrt_zcall_enhanced_exit :: "(('w, 'a) fproc_scheme \<Rightarrow> string \<Rightarrow> string \<Rightarrow> ('w, 'a) fproc_scheme) \<Rightarrow> ('w, 'a) fproc_scheme \<Rightarrow> ('w, 'a) fproc_scheme option" where
  "zrt_zcall_enhanced_exit save_as_tar s = handle_mount_export save_as_tar s"

definition zrt_zcall_prolog_exit :: "(('w, 'a) fproc_scheme \<Rightarrow> string \<Rightarrow> string \<Rightarrow> ('w, 'a) fproc_scheme) \<Rightarrow> ('w, 'a) fproc_scheme \<Rightarrow> ('w, 'a) fproc_scheme option" where
  "zrt_zcall_prolog_exit save_as_tar s = (if s_prolog_doing_now s then Some s else zrt_zcall_enhanced_exit save_as_tar s)"

end
