(* ===== verification/FstabProps.thy ===== *)
theory FstabProps
  imports Fstab PrologProps "HOL-Library.Multiset"
begin

text \<open>
  What becomes of the records of the section \<open>fstab\<close>: which of them wait for a mount after a fork, and that
  a record is unpacked at most once.
\<close>

section \<open>Records after a fork\<close>

text \<open>What the parser gives: a value for each of the keys.\<close>

definition fstab_complete :: "ParsedRecord \<Rightarrow> bool" where
  "fstab_complete r \<longleftrightarrow> length r = 5 \<and> None \<notin> set r"

abbreviation (input) "params_of r \<equiv> the (GET_FSTAB_PARAMS r)"

definition valid_record :: "ParsedRecord \<Rightarrow> bool" where
  "valid_record r \<longleftrightarrow> fp_access (params_of r) \<in> {''ro'', ''wo''} \<and> fp_removable (params_of r) \<in> {''yes'', ''no''}"

definition waits_again :: "ParsedRecord \<Rightarrow> bool" where
  "waits_again r \<longleftrightarrow> fp_access (params_of r) = ''ro'' \<and> fp_removable (params_of r) = ''yes''"

lemma fstab_complete_params: "fstab_complete r \<Longrightarrow> \<exists>p. GET_FSTAB_PARAMS r = Some p"
proof -
  assume "fstab_complete r"
  then have "r ! i \<noteq> None" if "i < 5" for i using that by (metis fstab_complete_def nth_mem)
  from this [of 0] this [of 1] this [of 2] this [of 3] this [of 4] show ?thesis
    by (auto simp: GET_FSTAB_PARAMS_def ALLOCA_PARAM_VALUE_def)
qed

lemma is_valid_record: "fstab_complete r \<Longrightarrow> handle_is_valid_record r = Some (if valid_record r then 0 else 1)"
  using fstab_complete_params [of r] by (auto simp: handle_is_valid_record_def valid_record_def)

lemma copy_complete: "fstab_complete r \<Longrightarrow> copy_record r = Some r"
  by (simp add: fstab_complete_def copy_record_def)

text \<open>After a fork a record is only put into the array.\<close>

definition add_mounts :: "ParsedRecord list \<Rightarrow> ('w, 'a) fproc_scheme \<Rightarrow> ('w, 'a) fproc_scheme" where
  "add_mounts rs s = (if rs = [] then s else s\<lparr>fstab := (fstab s)\<lparr>s_mounts_set := True,
     postpone_mounts_array := postpone_mounts_array (fstab s) @ map (\<lambda>r. \<lparr>mount = r, mount_status = EFstabMountWaiting\<rparr>) (filter valid_record rs)\<rparr>\<rparr>)"

lemma handle_record_forked:
  assumes "s_updated_fstab_records (fstab s)" "fstab_complete r"
  shows "handle_fstab_record ic r s = Some (add_mounts [r] s)"
  using assms is_valid_record [OF assms(2)] copy_complete [OF assms(2)] fstab_complete_params [OF assms(2)]
  by (auto simp: handle_fstab_record_def add_mounts_def Let_def)

lemma add_mounts_append: "add_mounts rs (add_mounts qs s) = add_mounts (qs @ rs) s"
  by (simp add: add_mounts_def)

lemma updated_add_mounts [simp]: "s_updated_fstab_records (fstab (add_mounts rs s)) = s_updated_fstab_records (fstab s)"
  by (simp add: add_mounts_def)

lemma verbosity_add_mounts [simp]: "s_verbosity_level (add_mounts rs s) = s_verbosity_level s"
  by (simp add: add_mounts_def)

lemma handle_records_forked:
  "s_updated_fstab_records (fstab s) \<Longrightarrow> list_all fstab_complete rs \<Longrightarrow> handle_records (handle_fstab_record ic) rs s = Some (add_mounts rs s)"
proof (induction rs arbitrary: s)
  case (Cons r rs)
  then show ?case using handle_record_forked [of s r ic] Cons.IH [of "add_mounts [r] s"] by (simp add: add_mounts_append)
qed (simp add: add_mounts_def)

definition fstab_obs :: MNvramObserver where
  "fstab_obs = obs HFstab ''fstab'' [(''channel'', None), (''mountpoint'', None), (''access'', None), (''removable'', Some ''no''), (''fsname'', Some ''tar'')]"

lemma fstab_observer: "get_fstab_observer = Some fstab_obs"
  by (simp add: get_fstab_observer_def fstab_obs_def observer_defs)

definition records_of :: "MNvramObserver \<Rightarrow> ParsedRecords list \<Rightarrow> ParsedRecord list" where
  "records_of ob secs = concat (map sec_records (filter (\<lambda>sec. ob = observer sec) secs))"

lemma handle_sections_forked:
  "s_updated_fstab_records (fstab s) \<Longrightarrow> list_all fstab_complete (records_of ob secs)
    \<Longrightarrow> handle_sections (handle_fstab_record ic) ob secs s = Some (add_mounts (records_of ob secs) s)"
proof (induction secs arbitrary: s)
  case (Cons sec secs)
  then show ?case
    using handle_records_forked [of s "sec_records sec" ic] Cons.IH [of "add_mounts (sec_records sec) s"]
    by (auto simp: records_of_def add_mounts_append)
qed (simp add: records_of_def add_mounts_def)

definition container_of :: "ParsedRecord \<Rightarrow> FstabRecordContainer" where
  "container_of r = \<lparr>mount = r, mount_status = if waits_again r then EFstabMountWaiting else EFstabMountComplete\<rparr>"

lemma yes_or_no: "strcasecmp_eq ''yes'' ''yes''" "\<not> strcasecmp_eq ''no'' ''yes''"
  by (simp_all add: strcasecmp_eq_def to_lower_def)

lemma reset_loop_forked:
  assumes "list_all fstab_complete rs"
  shows "reset_loop True (map (\<lambda>r. \<lparr>mount = r, mount_status = EFstabMountWaiting\<rparr>) (filter valid_record rs)) = Some (map container_of (filter valid_record rs))"
  using assms
proof (induction rs)
  case (Cons r rs)
  then show ?case using fstab_complete_params [of r] yes_or_no
    by (auto simp: container_of_def waits_again_def valid_record_def)
qed simp

text \<open>
  (C36) The mounts of a forked session: the records of the new configuration replace the old ones. The valid ones
  are kept in their order, and exactly the removable read-only ones wait for a mount at the first access; all others
  count as mounted. Nothing is mounted by the fork itself: apart from the records and the level of the log the state
  is the one that the sections of the environment and of the channels leave.
\<close>

theorem fork_keeps_removable_waiting:
  assumes sec: "nvram_section_by_name (nvram s) ''fstab'' \<noteq> None"
    and complete: "list_all fstab_complete (records_of fstab_obs (parsed_sections (nvram s)))"
    and others: "handle_section (nvram s) ''env'' get_env_observer (handle_env_record_fork (sc_setenv sc)) s = Some s1"
      "handle_section (nvram s) ''mapping'' get_mapping_observer handle_mapping_record s1 = Some s2"
      "handle_section (nvram s) ''debug'' get_debug_observer handle_debug_record (s_verbosity_level s2) = Some v"
  shows "\<exists>fo. fork_sections sc s = Some (s2\<lparr>fstab := fo, s_verbosity_level := v\<rparr>)
     \<and> postpone_mounts_array fo = map container_of (filter valid_record (records_of fstab_obs (parsed_sections (nvram s))))"
proof -
  let ?rs = "records_of fstab_obs (parsed_sections (nvram s))" and ?s2 = "s2\<lparr>fstab := handle_erase_old_mounts (fstab s2)\<rparr>"
  have h: "nvram_handle (nvram s) (handle_fstab_record ic) fstab_obs ?s2 = Some (add_mounts ?rs ?s2)" for ic
    unfolding nvram_handle_def using complete by (intro handle_sections_forked) (simp_all add: handle_erase_old_mounts_def)
  have "postpone_mounts_array (fstab (add_mounts ?rs ?s2)) = map (\<lambda>r. \<lparr>mount = r, mount_status = EFstabMountWaiting\<rparr>) (filter valid_record ?rs)"
    "s_updated_fstab_records (fstab (add_mounts ?rs ?s2))"
    by (simp_all add: add_mounts_def handle_erase_old_mounts_def)
  with reset_loop_forked [OF complete] obtain fo where r: "handle_reset_removable (fstab (add_mounts ?rs ?s2)) = Some fo"
    and fo: "postpone_mounts_array fo = map container_of (filter valid_record ?rs)" by (auto simp: handle_reset_removable_def)
  have t: "(add_mounts ?rs ?s2)\<lparr>fstab := fo\<rparr> = s2\<lparr>fstab := fo\<rparr>" by (simp add: add_mounts_def)
  obtain y where "nvram_section_by_name (nvram s) ''fstab'' = Some y" using sec by blast
  then have "fork_sections sc s = Some (s2\<lparr>fstab := fo, s_verbosity_level := v\<rparr>)"
    by (simp add: fork_sections_def Let_def fstab_observer others h r t)
  with fo show ?thesis by blast
qed

section \<open>A frame for imports\<close>

text \<open>A relation between states that all calls of an import keep, apart from the one that opens its channel.\<close>

definition calls_keep :: "('a kern_scheme \<Rightarrow> 'a kern_scheme \<Rightarrow> bool) \<Rightarrow> 'a kern_scheme MountsPublicInterface \<Rightarrow> 'a kern_scheme MountsPublicInterface
    \<Rightarrow> ('a kern_scheme \<Rightarrow> string \<Rightarrow> (int \<times> stat option \<times> 'a kern_scheme) option) \<Rightarrow> 'a kern_scheme mkdir_call \<Rightarrow> bool" where
  "calls_keep R chans mounts stat mkdir \<longleftrightarrow> reflp R \<and> transp R \<and> (\<forall>s e. R s (SET_ERRNO e s))
   \<and> (\<forall>s h off wh r s'. m_lseek chans s h off wh = Some (r, s') \<longrightarrow> R s s')
   \<and> (\<forall>s h n r bs s'. m_read chans s h n = Some (r, bs, s') \<longrightarrow> R s s') \<and> (\<forall>s h r s'. m_close chans s h = Some (r, s') \<longrightarrow> R s s')
   \<and> (\<forall>s p fl m r s'. m_open mounts s p fl m = Some (r, s') \<longrightarrow> R s s') \<and> (\<forall>s h bs r s'. m_write mounts s h bs = Some (r, s') \<longrightarrow> R s s')
   \<and> (\<forall>s h r s'. m_close mounts s h = Some (r, s') \<longrightarrow> R s s')
   \<and> (\<forall>s p r st s'. stat s p = Some (r, st, s') \<longrightarrow> R s s') \<and> (\<forall>s p m r s'. mkdir s p m = Some (r, s') \<longrightarrow> R s s')"

















section \<open>Unpacked at most once\<close>

abbreviation (input) "mounts_array s \<equiv> postpone_mounts_array (fstab s)"

definition channel_of :: "ParsedRecord \<Rightarrow> string" where
  "channel_of r = fp_channel (params_of r)"

text \<open>The channels of the records that wait, each as often as there are such records.\<close>

definition waiting :: "('w, 'a) fproc_scheme \<Rightarrow> string multiset" where
  "waiting s = mset (map (\<lambda>c. channel_of (mount c)) (filter (\<lambda>c. mount_status c = EFstabMountWaiting) (mounts_array s)))"





text \<open>
  \<open>opens\<close> counts how often a channel was opened to unpack it. A call spends what waits: every channel it opens, by the
  imports that it causes, waited before, and does not wait any more.
\<close>

definition spends :: "(('w, 'a) fproc_scheme \<Rightarrow> string multiset) \<Rightarrow> ('w, 'a) fproc_scheme \<Rightarrow> ('w, 'a) fproc_scheme \<Rightarrow> bool" where
  "spends opens s s' \<longleftrightarrow> opens s' + waiting s' \<subseteq># opens s + waiting s"





abbreviation (input) "imports_spend ic opens \<equiv> calls_keep (spends opens) (ic_channels ic) (ic_transparent ic) (ic_stat ic) (ic_mkdir ic)"










end
