(* ===== verification/DemoFstab.thy ===== *)
theory DemoFstab
  imports DemoUnpack FstabProps
begin

text \<open>A process with a configuration of two mounts, on which the properties of the section \<open>fstab\<close> are evaluated.\<close>

definition demo_record :: "string \<Rightarrow> string \<Rightarrow> ParsedRecord" where
  "demo_record acc rem = [Some \<lparr>key_index = 0, pp_val = ''/dev/1''\<rparr>, Some \<lparr>key_index = 1, pp_val = ''/''\<rparr>, Some \<lparr>key_index = 2, pp_val = acc\<rparr>,
     Some \<lparr>key_index = 3, pp_val = rem\<rparr>, Some \<lparr>key_index = 4, pp_val = ''tar''\<rparr>]"

definition demo_sections :: "ParsedRecords list" where
  "demo_sections = [\<lparr>observer = fstab_obs, sec_records = [demo_record ''ro'' ''yes'', demo_record ''ro'' ''no'', demo_record ''wo'' ''no'']\<rparr>]"

definition demo_fproc :: "unit fproc" where
  "demo_fproc = proc.extend (demo_proc\<lparr>nvram := demo_loader\<lparr>parsed_sections := demo_sections\<rparr>\<rparr>)
     (fproc.fields \<lparr>postpone_mounts_array = [], s_updated_fstab_records = False, s_mounts_set = False\<rparr> [])"

text \<open>A channel that can be opened and is empty; every path is a directory.\<close>

definition demo_empty_mount :: "(unit, 'a) fproc_scheme MountsPublicInterface" where
  "demo_empty_mount = (KChannels_mount demo_zvm 19)\<lparr>m_open := \<lambda>s p fl m. Some (3, s), m_lseek := \<lambda>s h off wh. Some (0, s),
     m_read := \<lambda>s h n. Some (0, [], s), m_write := \<lambda>s h bs. Some (int (length bs), s), m_close := \<lambda>s h. Some (0, s)\<rparr>"

definition demo_setup :: "unit fproc setup_calls" where
  "demo_setup = \<lparr>ic_channels = demo_empty_mount, ic_transparent = demo_empty_mount,
     ic_stat = \<lambda>s p. Some (0, Some (demo_stat 0\<lparr>st_mode := S_IFDIR\<rparr>), s), ic_mkdir = \<lambda>s p m. Some (0, s), ic_buffer = replicate 4 0,
     ic_name = [CHR 0x00], sc_files = \<lparr>fc_open = \<lambda>w _. (3, w), fc_lseek = \<lambda>w _ _. w, fc_read = \<lambda>w _ _. (0, [], w), fc_close = \<lambda>w _. w\<rparr>,
     sc_setenv = \<lambda>_ _ s. s, sc_fork = \<lambda>s. (0, s), sc_chdir = \<lambda>s _. Some (0, s)\<rparr>"

lemma demo_params: "GET_FSTAB_PARAMS (demo_record acc rem) = Some \<lparr>fp_channel = ''/dev/1'', fp_mountpoint = ''/'', fp_access = c_str acc, fp_removable = c_str rem, fp_fsname = ''tar''\<rparr>"
  by (simp add: GET_FSTAB_PARAMS_def ALLOCA_PARAM_VALUE_def demo_record_def c_str_def)

lemma demo_complete: "fstab_complete (demo_record acc rem)"
  by (simp add: fstab_complete_def demo_record_def)

theorem fork_keeps_removable_waiting_witness:
  "\<exists>s'. fork_sections demo_setup demo_fproc = Some s' \<and> map mount_status (postpone_mounts_array (fstab s')) = [EFstabMountWaiting, EFstabMountComplete, EFstabMountComplete]"
proof -
  have nv: "parsed_sections (nvram demo_fproc) = demo_sections" by (simp add: demo_fproc_def proc.defs fproc.defs)
  have none: "handle_section (nvram demo_fproc) name ob h x = Some x" if "name \<noteq> ''fstab''" for name ob h and x :: 'z
    using that by (simp add: handle_section_def nvram_section_by_name_def nv demo_sections_def fstab_obs_def)
  have some: "nvram_section_by_name (nvram demo_fproc) ''fstab'' \<noteq> None"
    by (simp add: nvram_section_by_name_def nv demo_sections_def fstab_obs_def)
  have rs: "records_of fstab_obs (parsed_sections (nvram demo_fproc)) = [demo_record ''ro'' ''yes'', demo_record ''ro'' ''no'', demo_record ''wo'' ''no'']"
    by (simp add: records_of_def nv demo_sections_def)
  have "\<exists>fo. fork_sections demo_setup demo_fproc = Some (demo_fproc\<lparr>fstab := fo, s_verbosity_level := s_verbosity_level demo_fproc\<rparr>)
     \<and> postpone_mounts_array fo = map container_of (filter valid_record (records_of fstab_obs (parsed_sections (nvram demo_fproc))))"
    by (rule fork_keeps_removable_waiting [OF some _ none none none]) (simp_all add: rs demo_complete)
  then show ?thesis unfolding rs by (auto simp: valid_record_def container_of_def waits_again_def demo_params c_str_def)
qed

section \<open>Imports\<close>









end
