(* ===== verification/Printf.thy ===== *)
theory Printf
  imports ZrtPrelude
begin

text \<open>
  The printer of the messages before the start of the user program (\<open>lib/helpers/printf_prolog.c\<close>).
  The function that takes the characters is an argument with a state of its own. A format is the list
  of its characters with the NUL at its end; a read behind the NUL, a division by zero and an argument
  of another type than the format asks for are the result \<open>None\<close>. An \<open>int\<close> and a \<open>long\<close> have 32 bits;
  the signed sum in \<open>a2i\<close> and the negation of the least number in \<open>i2a\<close> and \<open>li2a\<close> wrap around, which C leaves
  undefined.
\<close>

record param =
  lz :: bool
  width :: "32 word"
  sign :: char
  alt :: bool
  base :: "32 word"
  uc :: bool

abbreviation (input) nul :: char where "nul \<equiv> CHR 0x00"

section \<open>Numbers as text\<close>

text \<open>The first loop: the greatest power of the base that is not above the number.\<close>

partial_function (option) scale :: "'w::len word \<Rightarrow> 'w word \<Rightarrow> 'w word \<Rightarrow> 'w word option" where
  "scale num bs d =
     (if d = 0 then None
      else if bs \<le> num div d then scale num bs (d * bs)
      else Some d)"

definition digit_char :: "bool \<Rightarrow> int \<Rightarrow> char" where
  "digit_char up dgt = char_of (dgt + (if dgt < 10 then 48 else (if up then 65 else 97) - 10))"

text \<open>The second loop, on the number, the power, the count of digits and the buffer.\<close>

partial_function (option) put_digits :: "bool \<Rightarrow> 'w::len word \<Rightarrow> 'w word \<Rightarrow> 'w word \<Rightarrow> nat \<Rightarrow> string \<Rightarrow> string option" where
  "put_digits up bs num d n bf =
     (if d = 0 then Some bf
      else if bs = 0 then None
      else (let dgt = sint (ucast (num div d) :: 32 word); num' = num mod d; d' = d div bs
        in if n \<noteq> 0 \<or> 0 < dgt \<or> d' = 0
           then put_digits up bs num' d' (Suc n) (bf @ [digit_char up dgt])
           else put_digits up bs num' d' n bf))"

declare scale.simps [code] put_digits.simps [code]

text \<open>\<open>ui2a\<close> and \<open>uli2a\<close> are the same text for the two types; the buffer without its NUL.\<close>

definition ux2a :: "'w::len word \<Rightarrow> param \<Rightarrow> string option" where
  "ux2a num p = do {
     d \<leftarrow> scale num (ucast (base p)) 1;
     put_digits (uc p) (ucast (base p)) num d 0 [] }"

definition ix2a :: "'w::len word \<Rightarrow> param \<Rightarrow> (string \<times> param) option" where
  "ix2a num p =
     (let (num', p') = (if sint num < 0 then (- num, p\<lparr>sign := CHR ''-''\<rparr>) else (num, p))
      in do { bf \<leftarrow> ux2a num' p'; Some (bf, p') })"

definition uli2a :: "32 word \<Rightarrow> param \<Rightarrow> string option" where
  "uli2a num p = ux2a num p"

definition li2a :: "32 word \<Rightarrow> param \<Rightarrow> (string \<times> param) option" where
  "li2a num p = ix2a num p"

definition ui2a :: "32 word \<Rightarrow> param \<Rightarrow> string option" where
  "ui2a num p = ux2a num p"

definition i2a :: "32 word \<Rightarrow> param \<Rightarrow> (string \<times> param) option" where
  "i2a num p = ix2a num p"

section \<open>Text as numbers\<close>

definition a2d :: "char \<Rightarrow> int" where
  "a2d ch = (let c = of_char ch in
     if 48 \<le> c \<and> c \<le> 57 then c - 48
     else if 97 \<le> c \<and> c \<le> 102 then c - 97 + 10
     else if 65 \<le> c \<and> c \<le> 70 then c - 65 + 10
     else -1)"

text \<open>The character behind the number, the text behind that character, and the number.\<close>

fun a2i :: "char \<Rightarrow> string \<Rightarrow> int \<Rightarrow> 32 word \<Rightarrow> (char \<times> string \<times> 32 word) option" where
  "a2i ch src bs num =
     (let digit = a2d ch
      in if digit < 0 \<or> bs < digit then Some (ch, src, num)
         else (case src of
             [] \<Rightarrow> None
           | c # p \<Rightarrow> a2i c p bs (num * word_of_int bs + word_of_int digit)))"

declare a2i.simps [simp del]

section \<open>The conversions\<close>

text \<open>The number of filling characters that is left when the text is taken away.\<close>

fun fill_left :: "string \<Rightarrow> int \<Rightarrow> int" where
  "fill_left [] n = n"
| "fill_left (c # bf) n = (if 0 < n then fill_left bf (n - 1) else n)"

definition puts :: "('s \<Rightarrow> char \<Rightarrow> 's) \<Rightarrow> string \<Rightarrow> 's \<Rightarrow> 's" where
  "puts putf cs st = foldl putf st cs"

definition putchw :: "('s \<Rightarrow> char \<Rightarrow> 's) \<Rightarrow> param \<Rightarrow> string \<Rightarrow> 's \<Rightarrow> 's" where
  "putchw putf p bf st =
     (let n = fill_left bf (sint (width p));
          n = (if sign p \<noteq> nul then n - 1 else n);
          n = (if alt p \<and> base p = 16 then n - 2 else if alt p \<and> base p = 8 then n - 1 else n);
          st = (if \<not> lz p then puts putf (replicate (nat n) CHR '' '') st else st);
          st = (if sign p \<noteq> nul then putf st (sign p) else st);
          st = (if alt p \<and> base p = 16 then putf (putf st CHR ''0'') (if uc p then CHR ''X'' else CHR ''x'')
                else if alt p \<and> base p = 8 then putf st CHR ''0'' else st);
          st = (if lz p then puts putf (replicate (nat n) CHR ''0'') st else st)
      in puts putf bf st)"

datatype va_value = VInt "32 word" | VLong "32 word" | VStr string

fun va_int :: "va_value list \<Rightarrow> (32 word \<times> va_value list) option" where
  "va_int (VInt w # va) = Some (w, va)"
| "va_int va = None"

fun va_long :: "va_value list \<Rightarrow> (32 word \<times> va_value list) option" where
  "va_long (VLong w # va) = Some (w, va)"
| "va_long va = None"

fun va_str :: "va_value list \<Rightarrow> (string \<times> va_value list) option" where
  "va_str (VStr s # va) = Some (s, va)"
| "va_str va = None"

text \<open>The flags, the width and the length of a conversion; the letter of the conversion is read last.\<close>

fun flags :: "param \<Rightarrow> string \<Rightarrow> (char \<times> param \<times> string) option" where
  "flags p [] = None"
| "flags p (ch # fmt) =
     (if ch = CHR ''0'' then flags (p\<lparr>lz := True\<rparr>) fmt
      else if ch = CHR ''#'' then flags (p\<lparr>alt := True\<rparr>) fmt
      else Some (ch, p, fmt))"

definition field_width :: "char \<Rightarrow> param \<Rightarrow> string \<Rightarrow> (char \<times> param \<times> string) option" where
  "field_width ch p fmt =
     (if (48::int) \<le> of_char ch \<and> (of_char ch :: int) \<le> 57
      then do { (ch, fmt, w) \<leftarrow> a2i ch fmt 10 0; Some (ch, p\<lparr>width := w\<rparr>, fmt) }
      else Some (ch, p, fmt))"

fun long_flag :: "char \<Rightarrow> string \<Rightarrow> (char \<times> bool \<times> string) option" where
  "long_flag ch fmt =
     (if ch = CHR ''l'' then (case fmt of [] \<Rightarrow> None | c # fmt \<Rightarrow> Some (c, True, fmt))
      else Some (ch, False, fmt))"

definition directive :: "param \<Rightarrow> string \<Rightarrow> (char \<times> bool \<times> param \<times> string) option" where
  "directive p fmt = do {
     (ch, p, fmt) \<leftarrow> flags (p\<lparr>lz := False, alt := False, width := 0, sign := nul\<rparr>) fmt;
     (ch, p, fmt) \<leftarrow> field_width ch p fmt;
     (ch, lng, fmt) \<leftarrow> long_flag ch fmt;
     Some (ch, lng, p, fmt) }"

definition put_unsigned :: "('s \<Rightarrow> char \<Rightarrow> 's) \<Rightarrow> param \<Rightarrow> bool \<Rightarrow> va_value list \<Rightarrow> 's \<Rightarrow> ('s \<times> param \<times> va_value list) option" where
  "put_unsigned putf p lng va st =
     (if lng then do { (w, va) \<leftarrow> va_long va; bf \<leftarrow> uli2a w p; Some (putchw putf p bf st, p, va) }
      else do { (w, va) \<leftarrow> va_int va; bf \<leftarrow> ui2a w p; Some (putchw putf p bf st, p, va) })"

definition put_signed :: "('s \<Rightarrow> char \<Rightarrow> 's) \<Rightarrow> param \<Rightarrow> bool \<Rightarrow> va_value list \<Rightarrow> 's \<Rightarrow> ('s \<times> param \<times> va_value list) option" where
  "put_signed putf p lng va st =
     (if lng then do { (w, va) \<leftarrow> va_long va; (bf, p) \<leftarrow> li2a w p; Some (putchw putf p bf st, p, va) }
      else do { (w, va) \<leftarrow> va_int va; (bf, p) \<leftarrow> i2a w p; Some (putchw putf p bf st, p, va) })"

definition convert :: "('s \<Rightarrow> char \<Rightarrow> 's) \<Rightarrow> char \<Rightarrow> bool \<Rightarrow> param \<Rightarrow> va_value list \<Rightarrow> 's \<Rightarrow> ('s \<times> param \<times> va_value list) option" where
  "convert putf ch lng p va st =
     (if ch = CHR ''u'' then put_unsigned putf (p\<lparr>base := 10\<rparr>) lng va st
      else if ch = CHR ''d'' \<or> ch = CHR ''i'' then put_signed putf (p\<lparr>base := 10\<rparr>) lng va st
      else if ch = CHR ''p'' \<or> ch = CHR ''x'' \<or> ch = CHR ''X''
      then put_unsigned putf (p\<lparr>base := 16, uc := (ch = CHR ''X'')\<rparr>) lng va st
      else if ch = CHR ''o'' then put_unsigned putf (p\<lparr>base := 8\<rparr>) False va st
      else if ch = CHR ''c'' then do { (w, va) \<leftarrow> va_int va; Some (putf st (char_of (unat w)), p, va) }
      else if ch = CHR ''s'' then do { (s, va) \<leftarrow> va_str va; Some (putchw putf p s st, p, va) }
      else if ch = CHR ''%'' then Some (putf st ch, p, va)
      else Some (st, p, va))"

lemma length_flags: "flags p fmt = Some (ch, p', fmt') \<Longrightarrow> length fmt' < length fmt"
  by (induction p fmt rule: flags.induct) (auto split: if_splits)

lemma length_a2i: "a2i ch src bs num = Some (ch', src', num') \<Longrightarrow> length src' \<le> length src"
proof (induction ch src bs num rule: a2i.induct)
  case (1 ch src bs num)
  then show ?case by (subst (asm) a2i.simps) (auto simp: Let_def split: if_splits list.splits intro: le_SucI)
qed

lemma length_field_width: "field_width ch p fmt = Some (ch', p', fmt') \<Longrightarrow> length fmt' \<le> length fmt"
  by (auto simp: field_width_def bind_eq_Some_conv dest: length_a2i split: if_splits)

lemma length_long_flag: "long_flag ch fmt = Some (ch', lng, fmt') \<Longrightarrow> length fmt' \<le> length fmt"
  by (auto split: if_splits list.splits)

lemma length_directive:
  assumes "directive p fmt = Some (ch, lng, p', fmt')"
  shows "length fmt' < length fmt"
proof -
  from assms obtain c1 p1 fmt1 c2 p2 fmt2 where
    "flags (p\<lparr>lz := False, alt := False, width := 0, sign := nul\<rparr>) fmt = Some (c1, p1, fmt1)"
    "field_width c1 p1 fmt1 = Some (c2, p2, fmt2)" "long_flag c2 fmt2 = Some (ch, lng, fmt')"
    by (auto simp: directive_def bind_eq_Some_conv simp del: long_flag.simps)
  then show ?thesis using length_flags length_field_width length_long_flag by fastforce
qed

text \<open>The record of the last conversion stays on the stack, from whatever it held before the first.\<close>

function tfp_format :: "('s \<Rightarrow> char \<Rightarrow> 's) \<Rightarrow> param \<Rightarrow> string \<Rightarrow> va_value list \<Rightarrow> 's \<Rightarrow> 's option" where
  "tfp_format putf p [] va st = None"
| "tfp_format putf p (ch # fmt) va st =
     (if ch = nul then Some st
      else if ch \<noteq> CHR ''%'' then tfp_format putf p fmt va (putf st ch)
      else (case directive p fmt of
          None \<Rightarrow> None
        | Some (ch, lng, p, fmt) \<Rightarrow>
            if ch = nul then Some st
            else (case convert putf ch lng p va st of
                None \<Rightarrow> None
              | Some (st, p, va) \<Rightarrow> tfp_format putf p fmt va st)))"
  by pat_completeness auto
termination
  by (relation "measure (\<lambda>(putf, p, fmt, va, st). length fmt)") (auto dest: length_directive)

text \<open>The two static variables, here one function with its object applied.\<close>

record 's printer =
  stdout_putf :: "'s \<Rightarrow> char \<Rightarrow> 's"

definition init_printf :: "('s \<Rightarrow> char \<Rightarrow> 's) \<Rightarrow> 's printer" where
  "init_printf putf = \<lparr>stdout_putf = putf\<rparr>"

definition tfp_printf :: "'s printer \<Rightarrow> param \<Rightarrow> string \<Rightarrow> va_value list \<Rightarrow> 's \<Rightarrow> 's option" where
  "tfp_printf out p fmt va st = tfp_format (stdout_putf out) p fmt va st"

definition putcp :: "string \<Rightarrow> char \<Rightarrow> string" where
  "putcp s c = s @ [c]"

definition tfp_sprintf :: "param \<Rightarrow> string \<Rightarrow> va_value list \<Rightarrow> string option" where
  "tfp_sprintf p fmt va = do { s \<leftarrow> tfp_format putcp p fmt va []; Some (putcp s nul) }"

end
