(* ===== verification/PrintfProps.thy ===== *)
theory PrintfProps
  imports Printf
begin

text \<open>
  The printer of theory \<open>Printf\<close> against a reference: the digits of a number by repeated division, and
  the field of a conversion as sign, prefix, filling and digits.
\<close>

section \<open>The digits of a number\<close>

fun to_digits :: "nat \<Rightarrow> nat \<Rightarrow> nat list" where
  "to_digits b n = (if n < b \<or> b < 2 then [n] else to_digits b (n div b) @ [n mod b])"

declare to_digits.simps [simp del]

text \<open>Exactly \<open>Suc k\<close> digits, the way the second loop makes them.\<close>

fun digits_from :: "nat \<Rightarrow> nat \<Rightarrow> nat \<Rightarrow> nat list" where
  "digits_from b 0 n = [n]"
| "digits_from b (Suc k) n = n div b ^ Suc k # digits_from b k (n mod b ^ Suc k)"

lemma digits_from_last:
  assumes "0 < b"
  shows "digits_from b (Suc k) n = digits_from b k (n div b) @ [n mod b]"
proof (induction k arbitrary: n)
  case (Suc k)
  have "n mod b ^ Suc (Suc k) div b = n div b mod b ^ Suc k"
    using assms mod_mult2_eq[of n b "b ^ Suc k"] by simp
  moreover have "n mod b ^ Suc (Suc k) mod b = n mod b" by (simp add: mod_mod_cancel)
  moreover have "n div b ^ Suc (Suc k) = n div b div b ^ Suc k" by (simp add: div_mult2_eq)
  ultimately show ?case using Suc[of "n mod b ^ Suc (Suc k)"] by (simp del: power_Suc)
qed simp

lemma to_digits_from:
  assumes "2 \<le> b" "n < b ^ Suc k" "k = 0 \<or> b ^ k \<le> n"
  shows "to_digits b n = digits_from b k n"
  using assms
proof (induction k arbitrary: n)
  case (Suc k)
  from Suc.prems have le: "b ^ Suc k \<le> n" by simp
  then have "b \<le> n" using Suc.prems(1) self_le_power[of b "Suc k"] by linarith
  then have "to_digits b n = to_digits b (n div b) @ [n mod b]"
    using Suc.prems(1) by (simp add: to_digits.simps[of b n])
  also have "to_digits b (n div b) = digits_from b k (n div b)"
  proof (rule Suc.IH)
    show "n div b < b ^ Suc k" using Suc.prems(1,2) by (simp add: less_mult_imp_div_less mult.commute)
    have "b ^ k \<le> n div b" using le Suc.prems(1) by (simp add: less_eq_div_iff_mult_less_eq mult.commute)
    then show "k = 0 \<or> b ^ k \<le> n div b" ..
  qed (rule Suc.prems)
  finally show ?case using Suc.prems(1) by (simp add: digits_from_last[symmetric] del: digits_from.simps)
qed (simp add: to_digits.simps)

lemma digit_less: "2 \<le> b \<Longrightarrow> d \<in> set (to_digits b n) \<Longrightarrow> d < b"
  by (induction b n rule: to_digits.induct) (subst (asm) (2) to_digits.simps, auto split: if_splits)

lemma to_digits_value: "2 \<le> b \<Longrightarrow> foldl (\<lambda>v d. v * b + d) 0 (to_digits b n) = n"
  by (induction b n rule: to_digits.induct) (subst to_digits.simps, auto)

lemma length_to_digits:
  assumes "2 \<le> b" "n < b ^ Suc k"
  shows "length (to_digits b n) \<le> Suc k"
  using assms
proof (induction k arbitrary: n)
  case (Suc k)
  have "n div b < b ^ Suc k" using Suc.prems by (simp add: less_mult_imp_div_less mult.commute)
  then show ?case using Suc.IH[of "n div b"] Suc.prems(1) by (subst to_digits.simps) auto
qed (simp add: to_digits.simps)

lemma hd_to_digits: "2 \<le> b \<Longrightarrow> 0 < n \<Longrightarrow> 0 < hd (to_digits b n)"
proof (induction b n rule: to_digits.induct)
  case (1 b n)
  have "to_digits b (n div b) \<noteq> []" by (subst to_digits.simps) simp
  then show ?case using 1 by (subst to_digits.simps) (auto simp: div_greater_zero_iff)
qed

section \<open>The two loops\<close>

lemma unat_times_le: "(bs::'w::len word) \<le> num div d \<Longrightarrow> unat (d * bs) = unat d * unat bs \<and> unat d * unat bs \<le> unat num"
proof -
  assume "bs \<le> num div d"
  then have "unat bs \<le> unat num div unat d" by (simp add: word_le_nat_alt unat_div)
  then have le: "unat d * unat bs \<le> unat num"
    by (metis div_times_less_eq_dividend le_trans mult.commute mult_le_mono2)
  also have "\<dots> < 2 ^ LENGTH('w)" by (rule unsigned_less)
  finally show ?thesis using le by (simp add: unat_word_ariths)
qed

text \<open>The first loop ends at the greatest power of the base that is not above the number.\<close>

lemma scale_power:
  fixes num bs d :: "'w::len word"
  assumes "2 \<le> unat bs" "unat d = unat bs ^ k" "k = 0 \<or> unat bs ^ k \<le> unat num"
  shows "\<exists>j d'. scale num bs d = Some d' \<and> unat d' = unat bs ^ j \<and> (j = 0 \<or> unat bs ^ j \<le> unat num) \<and> unat num < unat bs ^ Suc j"
  using assms
proof (induction "unat num - unat d" arbitrary: d k rule: less_induct)
  case less
  have d: "0 < unat d" using less.prems by simp
  then have d0: "d \<noteq> 0" by (metis unat_0 less_numeral_extra(3))
  show ?case
  proof (cases "bs \<le> num div d")
    case True
    from unat_times_le[OF True] have u: "unat (d * bs) = unat bs ^ Suc k" "unat bs ^ Suc k \<le> unat num"
      using less.prems(2) by (auto simp: mult.commute)
    have "unat d < unat (d * bs)" using d less.prems(1) unat_times_le[OF True] by (simp)
    then have "unat num - unat (d * bs) < unat num - unat d" using u by linarith
    from less.hyps[OF this less.prems(1) u(1)] u(2) show ?thesis using True d0 by (subst scale.simps) simp
  next
    case False
    then have "unat num div unat d < unat bs" by (simp add: word_le_nat_alt unat_div not_le)
    then have "unat num < unat bs * unat d" using d by (simp add: div_less_iff_less_mult)
    then show ?thesis using False d0 less.prems(2,3) by (subst scale.simps) auto
  qed
qed

lemma sint_small:
  assumes "unat (x::'w::len word) < 2 ^ 31"
  shows "sint (ucast x :: 32 word) = int (unat x)"
proof -
  have "unat x mod 2 ^ 32 = unat x" using assms by simp
  then have "unat (ucast x :: 32 word) = unat x" by (simp add: unsigned_ucast_eq take_bit_eq_mod)
  then have u: "uint (ucast x :: 32 word) = int (unat x)" by (metis uint_nat)
  have l: "int (unat x) < 2 ^ 31" using assms by (metis of_nat_less_iff of_nat_numeral of_nat_power)
  have g: "- (2 ^ 31) \<le> int (unat x)" by (rule order_trans[OF _ of_nat_0_le_iff]) simp
  have "signed_take_bit 31 (int (unat x)) = int (unat x)"
    by (rule signed_take_bit_int_eq_self) (rule g, rule l)
  then show ?thesis unfolding sint_uint u by simp
qed

definition digit_text :: "bool \<Rightarrow> nat list \<Rightarrow> string" where
  "digit_text up ds = map (\<lambda>d. digit_char up (int d)) ds"

text \<open>The second loop puts the digits of the number, from a power that holds the number.\<close>

lemma put_digits_from:
  fixes num bs d :: "'w::len word"
  assumes "2 \<le> unat bs" "unat bs < 2 ^ 31" "unat d = unat bs ^ k" "unat num < unat bs ^ Suc k"
    "n \<noteq> 0 \<or> k = 0 \<or> unat bs ^ k \<le> unat num"
  shows "put_digits up bs num d n bf = Some (bf @ digit_text up (digits_from (unat bs) k (unat num)))"
  using assms
proof (induction k arbitrary: num d n bf)
  case 0
  then have d: "d = 1" by (simp add: word_unat_eq_iff)
  have "(1 :: 'w word) div bs = 0" using "0.prems"(1) by (simp add: word_arith_nat_div)
  moreover have "bs \<noteq> 0" using "0.prems"(1) by auto
  moreover have "sint (ucast num :: 32 word) = int (unat num)" using "0.prems" by (intro sint_small) simp
  moreover have "put_digits up bs x 0 m b = Some b" for x m b by (subst put_digits.simps) simp
  ultimately show ?case unfolding d by (subst put_digits.simps) (simp add: Let_def digit_text_def word_div_def)
next
  case (Suc k)
  let ?b = "unat bs"
  have d0: "d \<noteq> 0" and b0: "bs \<noteq> 0" using Suc.prems(1,3) by auto
  have q: "unat (num div d) = unat num div ?b ^ Suc k" using Suc.prems(3) by (simp add: unat_div)
  have "unat num div ?b ^ Suc k < ?b" using Suc.prems(1,4) by (simp add: less_mult_imp_div_less mult.commute)
  then have s: "sint (ucast (num div d) :: 32 word) = int (unat num div ?b ^ Suc k)"
    using q Suc.prems(2) by (subst sint_small) simp_all
  have dk: "unat (d div bs) = ?b ^ k" using Suc.prems(1,3) by (simp add: unat_div)
  have m: "unat (num mod d) = unat num mod ?b ^ Suc k" using Suc.prems(3) by (simp add: unat_mod)
  have ml: "unat (num mod d) < ?b ^ Suc k" using Suc.prems(1) unfolding m by (intro mod_less_divisor) simp
  have "n \<noteq> 0 \<or> 0 < int (unat num div ?b ^ Suc k)"
    using Suc.prems(1,5) by (auto simp: div_greater_zero_iff)
  then have "put_digits up bs num d n bf
      = put_digits up bs (num mod d) (d div bs) (Suc n) (bf @ [digit_char up (int (unat num div ?b ^ Suc k))])"
    using d0 b0 by (subst put_digits.simps) (auto simp add: Let_def s simp del: power_Suc)
  also have "\<dots> = Some (bf @ digit_text up (digits_from ?b (Suc k) (unat num)))"
    using Suc.IH[OF Suc.prems(1,2) dk ml] m by (simp add: digit_text_def)
  finally show ?case .
qed

lemma ux2a_digits:
  fixes num :: "'w::len word"
  assumes "2 \<le> unat (ucast (base p) :: 'w word)" "unat (ucast (base p) :: 'w word) < 2 ^ 31"
  shows "ux2a num p = Some (digit_text (uc p) (to_digits (unat (ucast (base p) :: 'w word)) (unat num)))"
proof -
  let ?b = "ucast (base p) :: 'w word"
  obtain j d where d: "scale num ?b 1 = Some d" "unat d = unat ?b ^ j" "j = 0 \<or> unat ?b ^ j \<le> unat num" "unat num < unat ?b ^ Suc j"
    using scale_power[OF assms(1), of 1 0 num] by auto
  have "put_digits (uc p) ?b num d 0 [] = Some (digit_text (uc p) (digits_from (unat ?b) j (unat num)))"
    using put_digits_from[OF assms d(2,4)] d(3) by simp
  then show ?thesis using d(1) to_digits_from[OF assms(1) d(4,3)] by (simp add: ux2a_def)
qed

section \<open>Reading a number back\<close>

lemma a2d_digit_char: "d < 16 \<Longrightarrow> a2d (digit_char up (int d)) = int d"
  by (simp add: digit_char_def a2d_def Let_def of_char_of)

lemma digit_char_not:
  assumes "d < 16"
  shows "digit_char up (int d) \<noteq> CHR ''#''" "digit_char up (int d) \<noteq> nul" "0 < d \<Longrightarrow> digit_char up (int d) \<noteq> CHR ''0''"
proof -
  have "a2d CHR ''#'' = -1" "a2d nul = -1" "a2d CHR ''0'' = 0" by (simp_all add: a2d_def)
  then show "digit_char up (int d) \<noteq> CHR ''#''" "digit_char up (int d) \<noteq> nul" "0 < d \<Longrightarrow> digit_char up (int d) \<noteq> CHR ''0''"
    using a2d_digit_char[OF assms, of up] by force+
qed

text \<open>\<open>a2i\<close> stops at a character whose digit is above the base, not at one that equals it.\<close>

lemma a2i_digits:
  assumes "\<forall>d \<in> set (d # ds). int d < b \<and> d < 16" "a2d ch < 0 \<or> b < a2d ch"
  shows "a2i (digit_char up (int d)) (digit_text up ds @ ch # rest) b v
    = Some (ch, rest, foldl (\<lambda>v d. v * word_of_int b + of_nat d) v (d # ds))"
  using assms
proof (induction ds arbitrary: d v)
  case Nil
  then show ?case by (simp add: a2i.simps digit_text_def a2d_digit_char Let_def)
next
  case (Cons e ds)
  then show ?case by (subst a2i.simps) (simp add: digit_text_def a2d_digit_char Let_def)
qed

lemma foldl_of_nat:
  "foldl (\<lambda>v d. v * word_of_int (int b) + of_nat d) (of_nat v :: 'w::len word) ds = of_nat (foldl (\<lambda>v d. v * b + d) v ds)"
proof (induction ds arbitrary: v)
  case (Cons d ds)
  show ?case using Cons[of "v * b + d"] by simp
qed simp

lemma to_digits_Cons:
  assumes "2 \<le> b"
  obtains d ds where "to_digits b n = d # ds" "0 < n \<Longrightarrow> 0 < d"
proof -
  have "to_digits b n \<noteq> []" by (subst to_digits.simps) simp
  then obtain d ds where "to_digits b n = d # ds" by (cases "to_digits b n") auto
  then show ?thesis using that[of d ds] hd_to_digits[OF assms, of n] by simp
qed

lemma a2i_to_digits:
  assumes "2 \<le> b" "b \<le> 16" "a2d ch < 0 \<or> int b < a2d ch" "to_digits b n = d # ds"
  shows "a2i (digit_char up (int d)) (digit_text up ds @ ch # rest) (int b) 0 = Some (ch, rest, of_nat n)"
proof -
  have "\<forall>d \<in> set (to_digits b n). int d < int b \<and> d < 16" using digit_less[OF assms(1)] assms(2) by fastforce
  from a2i_digits[OF this[unfolded assms(4)] assms(3)]
  show ?thesis using foldl_of_nat[of b 0 "d # ds"] to_digits_value[OF assms(1), of n] assms(4) by simp
qed

definition ok_base :: "32 word \<Rightarrow> bool" where
  "ok_base b \<longleftrightarrow> b = 8 \<or> b = 10 \<or> b = 16"

lemma ok_base_unat:
  "ok_base b \<Longrightarrow> unat (ucast b :: 32 word) = unat b \<and> 8 \<le> unat b \<and> unat b \<le> 16"
  by (auto simp: ok_base_def)

lemma ui2a_digits: "ok_base (base p) \<Longrightarrow> ui2a n p = Some (digit_text (uc p) (to_digits (unat (base p)) (unat n)))"
  unfolding ui2a_def using ux2a_digits[of p n] ok_base_unat[of "base p"] by simp

lemma uli2a_digits: "ok_base (base p) \<Longrightarrow> uli2a n p = Some (digit_text (uc p) (to_digits (unat (base p)) (unat n)))"
  unfolding uli2a_def using ux2a_digits[of p n] ok_base_unat[of "base p"] by simp

lemma length_number:
  assumes "8 \<le> b" "n < 2 ^ 64"
  shows "length (digit_text up (to_digits b n)) < 23"
proof -
  have "(2::nat) ^ 64 \<le> 8 ^ Suc 21" by simp
  also have "\<dots> \<le> b ^ Suc 21" using assms(1) by (rule power_mono) simp
  finally have "n < b ^ Suc 21" using assms(2) by linarith
  from length_to_digits[OF _ this] show ?thesis using assms(1) by (simp add: digit_text_def)
qed

text \<open>(C37) Every number becomes text in the bases 8, 10 and 16, as \<open>int\<close> and as \<open>long\<close>: the loops end, the text
  is the digits of the number without leading zeros, and with its NUL it fits into the buffer of 23
  characters. The reader of numbers gives the number back when no digit follows.\<close>

theorem numbers_read_back:
  assumes "ok_base (base p)" "a2d ch < 0"
  shows "\<exists>bf lbf. ui2a n p = Some bf \<and> bf = digit_text (uc p) (to_digits (unat (base p)) (unat n)) \<and> length bf < 23
    \<and> a2i (hd bf) (tl bf @ ch # rest) (uint (base p)) 0 = Some (ch, rest, n)
    \<and> uli2a m p = Some lbf \<and> lbf = digit_text (uc p) (to_digits (unat (base p)) (unat m)) \<and> length lbf < 23"
proof -
  let ?b = "unat (base p)"
  have b: "8 \<le> ?b" "?b \<le> 16" using ok_base_unat[OF assms(1)] by auto
  obtain d ds where d: "to_digits ?b (unat n) = d # ds" by (rule to_digits_Cons[of ?b]) (use b in auto)
  have "a2i (digit_char (uc p) (int d)) (digit_text (uc p) ds @ ch # rest) (int ?b) 0 = Some (ch, rest, of_nat (unat n))"
    using a2i_to_digits[OF _ b(2) _ d] assms(2) b(1) by simp
  then have "a2i (hd (digit_text (uc p) (d # ds))) (tl (digit_text (uc p) (d # ds)) @ ch # rest) (uint (base p)) 0 = Some (ch, rest, n)"
    by (simp add: digit_text_def)
  moreover have "unat n < 2 ^ 64" using unsigned_less[of n, where ?'a=nat] by simp
  moreover have "unat m < 2 ^ 64" using unsigned_less[of m, where ?'a=nat] by simp
  ultimately show ?thesis
    using ui2a_digits[OF assms(1), of n] uli2a_digits[OF assms(1), of m] length_number[OF b(1)] by (simp add: d[symmetric])
qed

end
