(* ===== verification/PrintfFormat.thy ===== *)
theory PrintfFormat
  imports PrintfProps
begin

text \<open>
  What a format prints: a format written from its pieces, each with its argument, prints the fields of
  the pieces one after the other.
\<close>

datatype piece =
    Lit char
  | Percent
  | Chr "32 word"
  | Str bool nat string
  | Num bool bool nat char "32 word"
  | LNum bool bool nat char "32 word"

definition conv_base :: "char \<Rightarrow> nat" where
  "conv_base c = (if c \<in> set ''udi'' then 10 else if c = CHR ''o'' then 8 else 16)"

definition piece_ok :: "piece \<Rightarrow> bool" where
  "piece_ok x = (case x of
     Lit c \<Rightarrow> c \<noteq> nul \<and> c \<noteq> CHR ''%''
   | Percent \<Rightarrow> True
   | Chr w \<Rightarrow> True
   | Str z w s \<Rightarrow> w < 2 ^ 31
   | Num z a w c n \<Rightarrow> w < 2 ^ 31 \<and> c \<in> set ''udipxXo''
   | LNum z a w c n \<Rightarrow> w < 2 ^ 31 \<and> c \<in> set ''udipxX'')"

definition field_text :: "bool \<Rightarrow> bool \<Rightarrow> nat \<Rightarrow> string" where
  "field_text z a w = (if z then ''0'' else []) @ (if a then ''#'' else [])
     @ (if w = 0 then [] else digit_text False (to_digits 10 w))"

fun piece_text :: "piece \<Rightarrow> string" where
  "piece_text (Lit c) = [c]"
| "piece_text Percent = ''%%''"
| "piece_text (Chr w) = ''%c''"
| "piece_text (Str z w s) = ''%'' @ field_text z False w @ ''s''"
| "piece_text (Num z a w c n) = ''%'' @ field_text z a w @ [c]"
| "piece_text (LNum z a w c n) = ''%'' @ field_text z a w @ [CHR ''l'', c]"

fun piece_args :: "piece \<Rightarrow> va_value list" where
  "piece_args (Chr w) = [VInt w]"
| "piece_args (Str z w s) = [VStr s]"
| "piece_args (Num z a w c n) = [VInt n]"
| "piece_args (LNum z a w c n) = [VLong n]"
| "piece_args x = []"

text \<open>The field: blanks before, or zeros between the prefix and the digits, up to the width.\<close>

definition field :: "bool \<Rightarrow> nat \<Rightarrow> string \<Rightarrow> string \<Rightarrow> string" where
  "field z w pre txt = (let k = w - length (pre @ txt)
     in if z then pre @ replicate k CHR ''0'' @ txt else replicate k CHR '' '' @ pre @ txt)"

definition prefix_of :: "bool \<Rightarrow> char \<Rightarrow> string" where
  "prefix_of a c = (if a \<and> conv_base c = 16 then [CHR ''0'', if c = CHR ''X'' then CHR ''X'' else CHR ''x'']
     else if a \<and> conv_base c = 8 then ''0'' else [])"

definition number :: "bool \<Rightarrow> bool \<Rightarrow> nat \<Rightarrow> char \<Rightarrow> int \<Rightarrow> string" where
  "number z a w c v = field z w ((if v < 0 then ''-'' else []) @ prefix_of a c)
     (digit_text (c = CHR ''X'') (to_digits (conv_base c) (nat \<bar>v\<bar>)))"

fun piece_out :: "piece \<Rightarrow> string" where
  "piece_out (Lit c) = [c]"
| "piece_out Percent = ''%''"
| "piece_out (Chr w) = [char_of (unat w)]"
| "piece_out (Str z w s) = field z w [] s"
| "piece_out (Num z a w c n) = number z a w c (if c \<in> set ''di'' then sint n else uint n)"
| "piece_out (LNum z a w c n) = number z a w c (if c \<in> set ''di'' then sint n else uint n)"

section \<open>A directive is read back\<close>

lemma flags_text:
  assumes "c \<noteq> CHR ''0''" "c \<noteq> CHR ''#''"
  shows "flags p ((if z then ''0'' else []) @ (if a then ''#'' else []) @ c # fmt)
    = Some (c, p\<lparr>lz := z \<or> lz p, alt := a \<or> alt p\<rparr>, fmt)"
  using assms by (cases z; cases a) simp_all

lemma directive_text:
  assumes "w < 2 ^ 31" "c \<noteq> CHR ''0''" "c \<noteq> CHR ''#''" "a2d c < 0 \<or> 10 < a2d c"
  shows "directive p (field_text z a w @ c # fmt) = do {
     (ch, lng, fmt) \<leftarrow> long_flag c fmt;
     Some (ch, lng, p\<lparr>lz := z, alt := a, width := of_nat w, sign := nul\<rparr>, fmt) }"
proof (cases "w = 0")
  case True
  have n: "(48 \<le> (of_char c :: int) \<and> (of_char c :: int) \<le> 57) = False" using assms(4) by (auto simp: a2d_def Let_def split: if_splits)
  show ?thesis using True assms(2,3)
    by (cases p) (simp add: directive_def field_text_def flags_text field_width_def n del: long_flag.simps)
next
  case False
  obtain d ds where d: "to_digits 10 w = d # ds" "0 < d" by (rule to_digits_Cons[of 10 w]) (use False in auto)
  have l: "d < 10" using digit_less[of 10 d w] d by simp
  let ?c = "digit_char False (int d)"
  have q: "48 \<le> (of_char ?c :: int)" "(of_char ?c :: int) \<le> 57" using l by (simp_all add: digit_char_def of_char_of)
  have "a2i ?c (digit_text False ds @ c # fmt) 10 0 = Some (c, fmt, of_nat w)"
    using a2i_to_digits[OF _ _ _ d(1), of c] assms(4) by simp
  moreover have "field_text z a w @ c # fmt = (if z then ''0'' else []) @ (if a then ''#'' else []) @ ?c # digit_text False ds @ c # fmt"
    using False d by (simp add: field_text_def digit_text_def)
  ultimately show ?thesis
    using d l q digit_char_not[of d False] by (cases p) (simp add: directive_def flags_text field_width_def del: long_flag.simps)
qed

section \<open>A field is printed\<close>

lemma fill_left: "0 \<le> n \<Longrightarrow> fill_left bf n = max 0 (n - int (length bf))"
  by (induction bf n rule: fill_left.induct) auto

definition param_prefix :: "param \<Rightarrow> string" where
  "param_prefix p = (if sign p \<noteq> nul then [sign p] else [])
     @ (if alt p \<and> base p = 16 then [CHR ''0'', if uc p then CHR ''X'' else CHR ''x''] else if alt p \<and> base p = 8 then ''0'' else [])"

lemma sint_width: "w < 2 ^ 31 \<Longrightarrow> sint (of_nat w :: 32 word) = int w"
  using sint_small[of "of_nat w :: 32 word"] by (simp add: unat_of_nat take_bit_nat_eq_self)

lemma putchw_prefix:
  "putchw putf p bf st = (let k = nat (fill_left bf (sint (width p)) - int (length (param_prefix p)))
     in foldl putf st (if lz p then param_prefix p @ replicate k CHR ''0'' @ bf else replicate k CHR '' '' @ param_prefix p @ bf))"
proof -
  define m where "m = fill_left bf (sint (width p))"
  show ?thesis unfolding putchw_def m_def[symmetric] Let_def puts_def param_prefix_def
    by (cases "sign p = nul"; cases "alt p"; cases "base p = 16"; cases "base p = 8"; cases "lz p") simp_all
qed

lemma putchw_field:
  assumes "w < 2 ^ 31" "width p = of_nat w"
  shows "putchw putf p bf st = foldl putf st (field (lz p) w (param_prefix p) bf)"
proof -
  have "fill_left bf (sint (width p)) = max 0 (int w - int (length bf))" using assms by (simp add: fill_left sint_width)
  moreover have "nat (max 0 (int w - int (length bf)) - int j) = w - (j + length bf)" for j by linarith
  ultimately show ?thesis by (simp add: putchw_prefix field_def Let_def)
qed

lemma unat_magnitude: "unat (if sint n < 0 then - n else n) = nat \<bar>sint (n::'w::len word)\<bar>"
proof -
  have "(if sint n < 0 then - n else n) = word_of_int \<bar>sint n\<bar>" by simp
  moreover have "(2::int) ^ (LENGTH('w) - Suc 0) < 2 ^ LENGTH('w)" by (rule power_strict_increasing) simp_all
  then have "\<bar>sint n\<bar> < 2 ^ LENGTH('w)" using sint_greater_eq[of n] sint_less[of n] by linarith
  ultimately show ?thesis by (simp add: unsigned_of_int nat_take_bit_eq take_bit_int_eq_self del: of_int_abs)
qed

lemma nat_uint: "nat \<bar>uint n\<bar> = unat n"
  by simp

lemma digit_text_small: "\<forall>d \<in> set ds. d < 10 \<Longrightarrow> digit_text u ds = digit_text u' ds"
  by (auto simp: digit_text_def digit_char_def)

definition conv_fits :: "param \<Rightarrow> char \<Rightarrow> bool" where
  "conv_fits p c \<longleftrightarrow> sign p = nul \<and> unat (base p) = conv_base c \<and> ok_base (base p) \<and> (conv_base c = 16 \<longrightarrow> uc p = (c = CHR ''X''))"

lemma fits_digits: "conv_fits p c \<Longrightarrow> digit_text (uc p) (to_digits (unat (base p)) n) = digit_text (c = CHR ''X'') (to_digits (conv_base c) n)"
proof (cases "conv_base c = 16")
  case False
  then have "conv_base c \<le> 10" "2 \<le> conv_base c" by (auto simp: conv_base_def split: if_splits)
  then have "\<forall>d \<in> set (to_digits (conv_base c) n). d < 10" using digit_less by fastforce
  moreover assume "conv_fits p c"
  ultimately show ?thesis by (auto simp: conv_fits_def intro: digit_text_small)
qed (simp add: conv_fits_def)

lemma fits_prefix: "conv_fits p c \<Longrightarrow> param_prefix p = prefix_of (alt p) c"
  by (auto simp: conv_fits_def param_prefix_def prefix_of_def ok_base_def)

lemma fits_prefix_minus: "conv_fits p c \<Longrightarrow> param_prefix (p\<lparr>sign := CHR ''-''\<rparr>) = CHR ''-'' # prefix_of (alt p) c"
  by (auto simp: conv_fits_def param_prefix_def prefix_of_def ok_base_def)

lemma put_unsigned_number:
  assumes "conv_fits p c" "w < 2 ^ 31" "width p = of_nat w"
  shows "put_unsigned putf p False (VInt n # va) st = Some (foldl putf st (number (lz p) (alt p) w c (uint n)), p, va)"
    and "put_unsigned putf p True (VLong m # va) st = Some (foldl putf st (number (lz p) (alt p) w c (uint m)), p, va)"
proof -
  have "ok_base (base p)" using assms(1) by (simp add: conv_fits_def)
  note facts = ui2a_digits[OF this] uli2a_digits[OF this] fits_digits[OF assms(1)] fits_prefix[OF assms(1)]
    putchw_field[OF assms(2,3)] put_unsigned_def number_def nat_uint
  show "put_unsigned putf p False (VInt n # va) st = Some (foldl putf st (number (lz p) (alt p) w c (uint n)), p, va)"
    by (simp add: facts)
  show "put_unsigned putf p True (VLong m # va) st = Some (foldl putf st (number (lz p) (alt p) w c (uint m)), p, va)"
    by (simp add: facts)
qed

lemma ix2a_number:
  fixes n :: "'w::len word"
  assumes "conv_fits p c" "w < 2 ^ 31" "width p = of_nat w"
    and ux: "\<And>m q. base q = base p \<Longrightarrow> ux2a (m :: 'w word) q = Some (digit_text (uc q) (to_digits (unat (base q)) (unat m)))"
  obtains bf p' where "ix2a n p = Some (bf, p')" "putchw putf p' bf st = foldl putf st (number (lz p) (alt p) w c (sint n))"
proof -
  let ?p' = "if sint n < 0 then p\<lparr>sign := CHR ''-''\<rparr> else p" and ?m = "if sint n < 0 then - n else n"
  let ?bf = "digit_text (c = CHR ''X'') (to_digits (conv_base c) (nat \<bar>sint n\<bar>))"
  have q: "base ?p' = base p" "uc ?p' = uc p" by simp_all
  have "ux2a ?m ?p' = Some ?bf" using ux[OF q(1), of ?m] fits_digits[OF assms(1), of "unat ?m"] unfolding unat_magnitude q by (rule trans[OF _ arg_cong])
  then have "ix2a n p = Some (?bf, ?p')" by (simp add: ix2a_def split: if_splits)
  moreover have "param_prefix ?p' = (if sint n < 0 then ''-'' else []) @ prefix_of (alt p) c"
    using fits_prefix[OF assms(1)] fits_prefix_minus[OF assms(1)] by simp
  then have "putchw putf ?p' ?bf st = foldl putf st (number (lz p) (alt p) w c (sint n))"
    using putchw_field[OF assms(2), of ?p' putf ?bf st] assms(3) by (simp add: number_def)
  ultimately show ?thesis by (rule that)
qed

lemma put_signed_number:
  assumes "conv_fits p c" "w < 2 ^ 31" "width p = of_nat w"
  shows "\<exists>p'. put_signed putf p False (VInt n # va) st = Some (foldl putf st (number (lz p) (alt p) w c (sint n)), p', va)"
    and "\<exists>p'. put_signed putf p True (VLong m # va) st = Some (foldl putf st (number (lz p) (alt p) w c (sint m)), p', va)"
proof -
  have ok: "ok_base (base p)" using assms(1) by (simp add: conv_fits_def)
  have u: "ux2a (m :: 32 word) q = Some (digit_text (uc q) (to_digits (unat (base q)) (unat m)))" if "base q = base p" for m q
    using ui2a_digits[of q m] ok that by (simp add: ui2a_def)
  show "\<exists>p'. put_signed putf p False (VInt n # va) st = Some (foldl putf st (number (lz p) (alt p) w c (sint n)), p', va)"
    by (rule ix2a_number[OF assms u, of n putf st]) (simp_all add: put_signed_def i2a_def)
  show "\<exists>p'. put_signed putf p True (VLong m # va) st = Some (foldl putf st (number (lz p) (alt p) w c (sint m)), p', va)"
    by (rule ix2a_number[OF assms u, of m putf st]) (simp_all add: put_signed_def li2a_def)
qed

section \<open>A format is printed\<close>

definition arg_value :: "char \<Rightarrow> 'w::len word \<Rightarrow> int" where
  "arg_value c n = (if c \<in> set ''di'' then sint n else uint n)"

lemma convert_number:
  assumes "sign p = nul" "w < 2 ^ 31" "width p = of_nat w"
  shows "c \<in> set ''udipxXo'' \<Longrightarrow> \<exists>p'. convert putf c False p (VInt n # va) st = Some (foldl putf st (number (lz p) (alt p) w c (arg_value c n)), p', va)"
    and "c \<in> set ''udipxX'' \<Longrightarrow> \<exists>p'. convert putf c True p (VLong m # va) st = Some (foldl putf st (number (lz p) (alt p) w c (arg_value c m)), p', va)"
proof -
  note defs = convert_def arg_value_def conv_fits_def conv_base_def ok_base_def assms
  let ?ten = "p\<lparr>base := 10\<rparr>" and ?hex = "p\<lparr>base := 16, uc := (c = CHR ''X'')\<rparr>" and ?oct = "p\<lparr>base := 8\<rparr>"
  have f: "c \<in> set ''udi'' \<Longrightarrow> conv_fits ?ten c" "c \<in> set ''pxX'' \<Longrightarrow> conv_fits ?hex c" "c = CHR ''o'' \<Longrightarrow> conv_fits ?oct c"
    by (auto simp: defs)
  have q: "width ?ten = of_nat w" "width ?hex = of_nat w" "width ?oct = of_nat w" using assms by simp_all
  note u = put_unsigned_number[OF _ assms(2), where putf = putf and st = st and va = va]
  note s = put_signed_number[OF _ assms(2), where putf = putf and st = st and va = va]
  show "\<exists>p'. convert putf c False p (VInt n # va) st = Some (foldl putf st (number (lz p) (alt p) w c (arg_value c n)), p', va)"
    if "c \<in> set ''udipxXo''"
    using that u(1)[OF f(1) q(1)] u(1)[OF f(2) q(2)] u(1)[OF f(3) q(3)] s(1)[OF f(1) q(1)]
    by (auto simp: convert_def arg_value_def)
  show "\<exists>p'. convert putf c True p (VLong m # va) st = Some (foldl putf st (number (lz p) (alt p) w c (arg_value c m)), p', va)"
    if "c \<in> set ''udipxX''"
    using that u(2)[OF f(1) q(1)] u(2)[OF f(2) q(2)] s(2)[OF f(1) q(1)]
    by (auto simp: convert_def arg_value_def)
qed

lemma format_directive:
  assumes "directive p fmt = Some (c, lng, p1, fmt1)" "c \<noteq> nul" "\<exists>p'. convert putf c lng p1 va st = Some (st1, p', va1)"
  shows "\<exists>p'. tfp_format putf p (CHR ''%'' # fmt) va st = tfp_format putf p' fmt1 va1 st1"
  using assms by auto

lemma format_piece:
  assumes "piece_ok x"
  shows "\<exists>p'. tfp_format putf p (piece_text x @ fmt) (piece_args x @ va) st = tfp_format putf p' fmt va (foldl putf st (piece_out x))"
proof -
  let ?p = "\<lambda>z a w. p\<lparr>lz := z, alt := a, width := of_nat w, sign := nul\<rparr>"
  show ?thesis
  proof (cases x)
    case (Lit c)
    then show ?thesis using assms by (auto simp: piece_ok_def)
  next
    case Percent
    then show ?thesis by (auto simp: directive_def field_width_def convert_def)
  next
    case (Chr w)
    then show ?thesis by (auto simp: directive_def field_width_def convert_def)
  next
    case (Str z w s)
    then have w: "w < 2 ^ 31" using assms by (simp add: piece_ok_def)
    have "directive p (field_text z False w @ CHR ''s'' # fmt) = Some (CHR ''s'', False, ?p z False w, fmt)"
      using directive_text[OF w, of "CHR ''s''" p z False fmt] by (simp add: a2d_def)
    moreover have "convert putf CHR ''s'' False (?p z False w) (VStr s # va) st = Some (foldl putf st (field z w [] s), ?p z False w, va)"
      using putchw_field[OF w, of "?p z False w" putf s st] by (simp add: convert_def param_prefix_def)
    ultimately show ?thesis using Str by auto
  next
    case (Num z a w c n)
    then have w: "w < 2 ^ 31" and c: "c \<in> set ''udipxXo''" using assms by (auto simp: piece_ok_def)
    have "directive p (field_text z a w @ c # fmt) = Some (c, False, ?p z a w, fmt)"
      using directive_text[OF w, of c p z a fmt] c by (auto simp: a2d_def)
    from format_directive[OF this _ convert_number(1)[OF _ w _ c, of "?p z a w" putf n va st]]
    show ?thesis using Num c by (auto simp: arg_value_def)
  next
    case (LNum z a w c n)
    then have w: "w < 2 ^ 31" and c: "c \<in> set ''udipxX''" using assms by (auto simp: piece_ok_def)
    have "directive p (field_text z a w @ CHR ''l'' # c # fmt) = Some (c, True, ?p z a w, fmt)"
      using directive_text[OF w, of "CHR ''l''" p z a "c # fmt"] by (simp add: a2d_def)
    from format_directive[OF this _ convert_number(2)[OF _ w _ c, of "?p z a w" putf n va st]]
    show ?thesis using LNum c by (auto simp: arg_value_def)
  qed
qed

lemma format_pieces:
  assumes "list_all piece_ok xs"
  shows "tfp_format putf p (concat (map piece_text xs) @ [nul]) (concat (map piece_args xs)) st
    = Some (foldl putf st (concat (map piece_out xs)))"
  using assms
proof (induction xs arbitrary: p st)
  case (Cons x xs)
  then obtain p' where "tfp_format putf p (piece_text x @ concat (map piece_text xs) @ [nul]) (piece_args x @ concat (map piece_args xs)) st
      = tfp_format putf p' (concat (map piece_text xs) @ [nul]) (concat (map piece_args xs)) (foldl putf st (piece_out x))"
    using format_piece[of x putf p "concat (map piece_text xs) @ [nul]" "concat (map piece_args xs)" st] by auto
  then show ?case using Cons by simp
qed simp

text \<open>What the client of the printer promises of its function for the characters when it has room for
  \<open>cap\<close> of them, and what it holds then after a format.\<close>

locale sink =
  fixes putf :: "'s \<Rightarrow> char \<Rightarrow> 's" and ok :: "'s \<Rightarrow> bool" and held :: "'s \<Rightarrow> string" and cap :: nat
  assumes sink_ok: "ok s \<Longrightarrow> ok (putf s c)" and sink_held: "ok s \<Longrightarrow> held (putf s c) = take cap (held s @ [c])"
    and sink_cap: "ok s \<Longrightarrow> length (held s) \<le> cap"
begin

lemma puts_held: "ok s \<Longrightarrow> ok (foldl putf s cs) \<and> held (foldl putf s cs) = take cap (held s @ cs)"
proof (induction cs rule: rev_induct)
  case Nil
  then show ?case using sink_cap by simp
next
  case (snoc c cs)
  have "take cap (take cap xs @ ys) = take cap (xs @ ys)" for xs ys :: string by (cases "length xs \<le> cap") simp_all
  from this[of "held s @ cs" "[c]"] show ?case using snoc sink_ok sink_held by simp
qed

lemma format_held:
  assumes "ok s" "list_all piece_ok xs"
  obtains s' where "tfp_format putf p (concat (map piece_text xs) @ [nul]) (concat (map piece_args xs)) s = Some s'"
    "ok s'" "held s' = take cap (held s @ concat (map piece_out xs))"
  using that format_pieces[OF assms(2), of putf p s] puts_held[OF assms(1)] by blast

end

lemma foldl_putcp: "foldl putcp s cs = s @ cs"
  by (induction cs arbitrary: s) (simp_all add: putcp_def)

text \<open>(C38) A format of literal characters and conversions prints, whatever the printer did before: every
  literal character, and for every conversion its field, with the sign, the prefix of the alternate form
  and the digits of its argument, filled with blanks or zeros up to the width asked for.
  The printer with a function for the characters and the printer into memory give the same text; the
  text in memory ends with NUL. A width for %c, %#s and %lo are left out of the formats.\<close>

theorem format_prints_fields:
  assumes "list_all piece_ok xs"
  shows "tfp_printf (init_printf putf) p (concat (map piece_text xs) @ [nul]) (concat (map piece_args xs)) st
      = Some (foldl putf st (concat (map piece_out xs)))
    \<and> tfp_sprintf p (concat (map piece_text xs) @ [nul]) (concat (map piece_args xs)) = Some (concat (map piece_out xs) @ [nul])"
  using format_pieces[OF assms, of putf p st] format_pieces[OF assms, of putcp p "[]"]
  by (simp add: tfp_printf_def init_printf_def tfp_sprintf_def foldl_putcp putcp_def)

text \<open>A length of \<open>ll\<close> is not known: the letter behind it is printed and the argument stays.\<close>

lemma long_long_is_text:
  "\<exists>p'. tfp_format putf p (''%lld'' @ fmt) va st = tfp_format putf p' fmt va (putf st CHR ''d'')"
  by (auto simp: directive_def field_width_def convert_def)

text \<open>The alternate form of a string shows the base of the conversion before.\<close>

lemma alternate_string:
  "tfp_sprintf \<lparr>lz = False, width = 0, sign = nul, alt = False, base = 10, uc = False\<rparr> (''%x%#s'' @ [nul]) [VInt 1, VStr ''a''] = Some (''10xa'' @ [nul])"
  "tfp_sprintf \<lparr>lz = False, width = 0, sign = nul, alt = False, base = 10, uc = False\<rparr> (''%u%#s'' @ [nul]) [VInt 1, VStr ''a''] = Some (''1a'' @ [nul])"
  by code_simp+

end
