(* ===== verification/ZrtLog.thy ===== *)
theory ZrtLog
  imports PrintfFormat
begin

text \<open>
  The log (\<open>lib/zrtlog.c\<close>, \<open>lib/zrtlog.h\<close>): the buffer that the printer of theory \<open>Printf\<close> fills before
  the start of the user program, the writes to the channel of the log, and the names of the running
  system calls. The host's \<open>zvm_pwrite\<close>, on a state of its own, is an argument; so is the text that the
  C library makes of a format after the start. A failed assertion, and a write of more bytes than the
  buffer has, is \<open>None\<close>.
\<close>

abbreviation (input) LOG_BUFFER_SIZE :: nat where "LOG_BUFFER_SIZE \<equiv> 4096"
abbreviation (input) MAX_NESTED_SYSCALL_LEN :: nat where "MAX_NESTED_SYSCALL_LEN \<equiv> 1000"
abbreviation (input) DEFAULT_VERBOSITY_FOR_PROLOG_LOG :: int where "DEFAULT_VERBOSITY_FOR_PROLOG_LOG \<equiv> 2"
abbreviation (input) L_SHORT :: int where "L_SHORT \<equiv> 2"

type_synonym 'w pwrite = "int \<Rightarrow> string \<Rightarrow> int \<Rightarrow> 'w \<Rightarrow> int \<times> 'w"

record 'w zlog =
  verbosity_level :: int
  log_status :: int
  log_prolog_mode :: int
  log_fd :: int
  buffered_len :: nat
  logbuf :: string
  nested_syscalls :: string
  host :: 'w

definition tfp_printf_putc :: "'w zlog \<Rightarrow> char \<Rightarrow> 'w zlog" where
  "tfp_printf_putc s ch =
     (if buffered_len s < LOG_BUFFER_SIZE
      then s\<lparr>logbuf := (logbuf s)[buffered_len s := ch], buffered_len := Suc (buffered_len s)\<rparr> else s)"

text \<open>The channel of the log is the first one in the manifest with its name.\<close>

fun find_channel :: "string \<Rightarrow> string list \<Rightarrow> int \<Rightarrow> int \<Rightarrow> int" where
  "find_channel logpath [] i fd = fd"
| "find_channel logpath (name # names) i fd = (if logpath = name then i else find_channel logpath names (i + 1) fd)"

definition zrt_log_init :: "string list \<Rightarrow> string \<Rightarrow> 'w zlog \<Rightarrow> 'w zlog printer \<times> 'w zlog" where
  "zrt_log_init names logpath s =
     (init_printf tfp_printf_putc,
      s\<lparr>log_fd := find_channel logpath names 0 (log_fd s), log_status := 1, log_prolog_mode := 1\<rparr>)"

definition zrt_log_enable :: "int \<Rightarrow> 'w zlog \<Rightarrow> 'w zlog" where
  "zrt_log_enable status s = s\<lparr>log_status := status\<rparr>"

definition zrt_log_prolog_mode_enable :: "int \<Rightarrow> 'w zlog \<Rightarrow> 'w zlog" where
  "zrt_log_prolog_mode_enable status s = s\<lparr>log_prolog_mode := status\<rparr>"

definition zrt_log_set_verbosity :: "int \<Rightarrow> 'w zlog \<Rightarrow> 'w zlog" where
  "zrt_log_set_verbosity v s = s\<lparr>verbosity_level := v\<rparr>"

text \<open>\<open>snprintf\<close> cuts the blank and the name off when they are longer than its size allows.\<close>

definition zrt_log_push_name :: "string \<Rightarrow> 'w zlog \<Rightarrow> 'w zlog option" where
  "zrt_log_push_name name s =
     (if log_status s = 0 then Some s
      else if length (nested_syscalls s) + length name + 3 < MAX_NESTED_SYSCALL_LEN
      then Some (s\<lparr>nested_syscalls := nested_syscalls s
        @ take (MAX_NESTED_SYSCALL_LEN - length name - 1) (CHR '' '' # name)\<rparr>)
      else None)"

definition strrchr_blank :: "string \<Rightarrow> (string \<times> string) option" where
  "strrchr_blank str =
     (if CHR '' '' \<in> set str
      then (let name = rev (takeWhile (\<lambda>c. c \<noteq> CHR '' '') (rev str)) in Some (take (length str - length name - 1) str, name))
      else None)"

definition zrt_log_pop_name :: "string \<Rightarrow> 'w zlog \<Rightarrow> 'w zlog option" where
  "zrt_log_pop_name expected_name s =
     (if log_status s = 0 then Some s
      else (case strrchr_blank (nested_syscalls s) of
          None \<Rightarrow> Some s
        | Some (before, actual_name) \<Rightarrow> if expected_name = actual_name then Some (s\<lparr>nested_syscalls := before\<rparr>) else None))"

definition zrt_log_write :: "'w pwrite \<Rightarrow> int \<Rightarrow> string \<Rightarrow> nat \<Rightarrow> int \<Rightarrow> 'w zlog \<Rightarrow> (int \<times> 'w zlog) option" where
  "zrt_log_write zvm_pwrite handle buf sz offset s =
     (if log_prolog_mode s \<noteq> 0
      then (if buffered_len s \<noteq> 0
            then (case zvm_pwrite handle (take (buffered_len s) (logbuf s)) offset (host s) of
              (wr, h) \<Rightarrow> Some (wr, s\<lparr>host := h, buffered_len := 0\<rparr>))
            else Some (0, s))
      else if sz \<le> length buf
      then (case zvm_pwrite handle (take sz buf) offset (host s) of (wr, h) \<Rightarrow> Some (wr, s\<lparr>host := h\<rparr>))
      else None)"

text \<open>\<open>snprintf\<close> into the buffer of the log; the result is the length of the whole text.\<close>

definition snprintf_logbuf :: "string \<Rightarrow> 'w zlog \<Rightarrow> nat \<times> 'w zlog" where
  "snprintf_logbuf txt s =
     (let kept = take (LOG_BUFFER_SIZE - 1) txt @ [nul]
      in (length txt, s\<lparr>logbuf := kept @ drop (length kept) (logbuf s)\<rparr>))"

definition ZRT_LOG :: "'w pwrite \<Rightarrow> (string \<Rightarrow> va_value list \<Rightarrow> string) \<Rightarrow> param \<Rightarrow> int \<Rightarrow> string \<Rightarrow> string \<Rightarrow> 32 word \<Rightarrow> string \<Rightarrow> va_value list \<Rightarrow> 'w zlog \<Rightarrow> 'w zlog option" where
  "ZRT_LOG zvm_pwrite formatted p v vtxt fname line fmt va s =
     (if log_status s \<noteq> 0 \<and> 0 < log_fd s
      then (if log_prolog_mode s \<noteq> 0
            then (if v \<le> DEFAULT_VERBOSITY_FOR_PROLOG_LOG
                  then do {
                    s \<leftarrow> tfp_printf (init_printf tfp_printf_putc) p
                      (''PROLOG '' @ vtxt @ '' %s:%d '' @ fmt @ [CHR 0x0A, nul]) (VStr fname # VInt line # va) s;
                    (_, s) \<leftarrow> zrt_log_write zvm_pwrite (log_fd s) [] 0 0 s;
                    Some s }
                  else Some s)
            else (if v \<le> verbosity_level s \<and> 0 \<le> log_fd s
                  then (let txt = formatted (vtxt @ '' %s:%d; [%s]- '' @ fmt @ [CHR 0x0A]) (VStr fname # VInt line # VStr (nested_syscalls s) # va);
                            (len, s) = snprintf_logbuf txt s
                        in do { (_, s) \<leftarrow> zrt_log_write zvm_pwrite (log_fd s) (logbuf s) len 0 s; Some s })
                  else Some s))
      else Some s)"

definition ZRT_LOG_DELIMETER :: "'w pwrite \<Rightarrow> 'w zlog \<Rightarrow> 'w zlog option" where
  "ZRT_LOG_DELIMETER zvm_pwrite s =
     (if log_status s \<noteq> 0 \<and> 0 < log_fd s \<and> L_SHORT \<le> verbosity_level s
      then (let (len, s) = snprintf_logbuf (replicate 60 CHR ''0'' @ [CHR 0x0A]) s
            in do { (_, s) \<leftarrow> zrt_log_write zvm_pwrite (log_fd s) (logbuf s) len 0 s; Some s })
      else Some s)"

definition log_ok :: "'w zlog \<Rightarrow> bool" where
  "log_ok s \<longleftrightarrow> length (logbuf s) = LOG_BUFFER_SIZE \<and> buffered_len s \<le> LOG_BUFFER_SIZE \<and> length (nested_syscalls s) < MAX_NESTED_SYSCALL_LEN"

section \<open>A message before the start\<close>

definition log_pending :: "'w zlog \<Rightarrow> string" where
  "log_pending s = take (buffered_len s) (logbuf s)"

lemma putc_pending:
  assumes "log_ok s"
  shows "log_ok (tfp_printf_putc s c)" "log_pending (tfp_printf_putc s c) = take LOG_BUFFER_SIZE (log_pending s @ [c])"
  using assms by (auto simp: tfp_printf_putc_def log_ok_def log_pending_def take_Suc_conv_app_nth)

interpretation log_sink: sink tfp_printf_putc log_ok log_pending LOG_BUFFER_SIZE
  proof unfold_locales
  show "length (log_pending s) \<le> LOG_BUFFER_SIZE" if "log_ok s" for s :: "'a zlog" using that by (simp add: log_pending_def log_ok_def)
qed (simp_all only: putc_pending)

lemma putc_frame: "\<exists>b n. foldl tfp_printf_putc s cs = s\<lparr>logbuf := b, buffered_len := n\<rparr>"
proof (induction cs arbitrary: s)
  case Nil
  have "s = s\<lparr>logbuf := logbuf s, buffered_len := buffered_len s\<rparr>" by simp
  then show ?case by (metis foldl_Nil)
next
  case (Cons c cs)
  have "\<exists>b n. tfp_printf_putc s c = s\<lparr>logbuf := b, buffered_len := n\<rparr>"
  proof (cases "buffered_len s < LOG_BUFFER_SIZE")
    case False
    then have "tfp_printf_putc s c = s\<lparr>logbuf := logbuf s, buffered_len := buffered_len s\<rparr>" by (simp add: tfp_printf_putc_def)
    then show ?thesis by blast
  qed (auto simp: tfp_printf_putc_def)
  then obtain b n where "tfp_printf_putc s c = s\<lparr>logbuf := b, buffered_len := n\<rparr>" by blast
  moreover obtain b' n' where "foldl tfp_printf_putc (s\<lparr>logbuf := b, buffered_len := n\<rparr>) cs = s\<lparr>logbuf := b, buffered_len := n\<rparr>\<lparr>logbuf := b', buffered_len := n'\<rparr>"
    using Cons.IH by blast
  ultimately show ?case by auto
qed

lemma pieces_Lit:
  "concat (map piece_text (map Lit cs)) = cs" "concat (map piece_args (map Lit cs)) = []" "concat (map piece_out (map Lit cs)) = cs"
  by (induction cs) simp_all

definition message :: "string \<Rightarrow> string \<Rightarrow> 32 word \<Rightarrow> piece list \<Rightarrow> string" where
  "message vtxt fname line xs = ''PROLOG '' @ vtxt @ '' '' @ fname @ '':'' @ number False False 0 CHR ''d'' (sint line) @ '' ''
     @ concat (map piece_out xs) @ [CHR 0x0A]"

lemma message_format:
  assumes "list_all piece_ok xs" "CHR ''%'' \<notin> set vtxt" "nul \<notin> set vtxt"
  shows "tfp_format putf p (''PROLOG '' @ vtxt @ '' %s:%d '' @ concat (map piece_text xs) @ [CHR 0x0A, nul])
      (VStr fname # VInt line # concat (map piece_args xs)) st = Some (foldl putf st (message vtxt fname line xs))"
proof -
  let ?ys = "map Lit (''PROLOG '' @ vtxt @ '' '') @ [Str False 0 fname, Lit CHR '':'', Num False False 0 CHR ''d'' line, Lit CHR '' ''] @ xs @ [Lit CHR 0x0A]"
  have "list_all piece_ok ?ys" using assms by (auto simp: piece_ok_def list_all_iff)
  from format_pieces[OF this, of putf p st] show ?thesis
    by (simp add: message_def field_text_def field_def pieces_Lit del: map_map)
qed

text \<open>(C39) With the log switched on and its channel open, a message of a level up to L_SHORT before the start of the
  user program reaches the log: one write to its channel, at
  offset 0, of the level, the file, the line and the printed fields, cut off after the 4096 characters of
  the buffer. The buffer is empty then and nothing else has changed.\<close>

theorem prolog_message_logged:
  assumes "log_ok s" "log_status s \<noteq> 0" "0 < log_fd s" "log_prolog_mode s \<noteq> 0" "v \<le> 2" "buffered_len s = 0"
    and "list_all piece_ok xs" "CHR ''%'' \<notin> set vtxt" "nul \<notin> set vtxt"
  shows "\<exists>b. length b = 4096 \<and> ZRT_LOG zvm_pwrite formatted p v vtxt fname line (concat (map piece_text xs)) (concat (map piece_args xs)) s
    = Some (s\<lparr>logbuf := b, buffered_len := 0, host := snd (zvm_pwrite (log_fd s) (take 4096 (message vtxt fname line xs)) 0 (host s))\<rparr>)"
proof -
  let ?t = "foldl tfp_printf_putc s (message vtxt fname line xs)"
  obtain b n where t: "?t = s\<lparr>logbuf := b, buffered_len := n\<rparr>" using putc_frame by blast
  have l: "length b = 4096" using log_sink.puts_held[OF assms(1), of "message vtxt fname line xs"] unfolding t by (simp add: log_ok_def)
  have p: "take n b = take 4096 (message vtxt fname line xs)"
    using log_sink.puts_held[OF assms(1), of "message vtxt fname line xs"] assms(6) unfolding t by (simp add: log_pending_def)
  moreover have "take 4096 (message vtxt fname line xs) \<noteq> []" by (simp add: message_def)
  ultimately have "n \<noteq> 0" by (metis take0)
  then show ?thesis using assms t l p message_format[OF assms(7-9), where putf = tfp_printf_putc and p = p and fname = fname and line = line and st = s]
    by (auto simp: ZRT_LOG_def tfp_printf_def init_printf_def zrt_log_write_def split: prod.splits)
qed

section \<open>The names of the running calls\<close>

datatype nested_call = Nested string "nested_call list"

fun run_call :: "nested_call \<Rightarrow> 'w zlog \<Rightarrow> 'w zlog option"
and run_calls :: "nested_call list \<Rightarrow> 'w zlog \<Rightarrow> 'w zlog option" where
  "run_call (Nested f cs) s = do { s \<leftarrow> zrt_log_push_name f s; s \<leftarrow> run_calls cs s; zrt_log_pop_name f s }"
| "run_calls [] s = Some s"
| "run_calls (c # cs) s = do { s \<leftarrow> run_call c s; run_calls cs s }"

fun names_fit :: "nat \<Rightarrow> nested_call \<Rightarrow> bool" where
  "names_fit n (Nested f cs) = (n + length f + 3 < MAX_NESTED_SYSCALL_LEN \<and> list_all (names_fit (n + length f + 1)) cs)"

fun names_ok :: "nested_call \<Rightarrow> bool" where
  "names_ok (Nested f cs) = (CHR '' '' \<notin> set f \<and> length f < 499 \<and> list_all names_ok cs)"

lemma strrchr_pushed: "CHR '' '' \<notin> set f \<Longrightarrow> strrchr_blank (str @ CHR '' '' # f) = Some (str, f)"
proof -
  assume "CHR '' '' \<notin> set f"
  then have "takeWhile (\<lambda>c. c \<noteq> CHR '' '') (rev f @ CHR '' '' # rev str) = rev f"
    by (subst takeWhile_append2) auto
  then show ?thesis by (simp add: strrchr_blank_def)
qed

lemma run_call_names:
  assumes "log_status s \<noteq> 0"
  shows "names_ok c \<Longrightarrow> run_call c s = (if names_fit (length (nested_syscalls s)) c then Some s else None)"
    and "list_all names_ok cs \<Longrightarrow> run_calls cs s = (if list_all (names_fit (length (nested_syscalls s))) cs then Some s else None)"
  using assms
proof (induction c s and cs s rule: run_call_run_calls.induct)
  case (1 f cs s)
  let ?t = "s\<lparr>nested_syscalls := nested_syscalls s @ CHR '' '' # f\<rparr>"
  show ?case
  proof (cases "length (nested_syscalls s) + length f + 3 < MAX_NESTED_SYSCALL_LEN")
    case True
    have "take (MAX_NESTED_SYSCALL_LEN - length f - 1) (CHR '' '' # f) = CHR '' '' # f" using "1.prems"(1) by (intro take_all) auto
    then have p: "zrt_log_push_name f s = Some ?t" using True "1.prems" by (simp add: zrt_log_push_name_def del: take_Cons_numeral)
    have q: "zrt_log_pop_name f ?t = Some s" using "1.prems" by (simp add: zrt_log_pop_name_def strrchr_pushed)
    show ?thesis using "1.IH"[of ?t] "1.prems" True by (simp add: p q)
  next
    case False
    then show ?thesis using "1.prems" by (simp add: zrt_log_push_name_def)
  qed
qed auto

text \<open>(C40) The names of nested system calls: calls that push and pop their names, however they are nested
  and whatever they call in turn, leave the list of names as it was, unless a call finds no room for its
  name in the 1000 characters; then, and only then, an assertion fails.\<close>

theorem nested_names_restored:
  assumes "log_status s \<noteq> 0" "list_all names_ok cs"
  shows "run_calls cs s = (if list_all (names_fit (length (nested_syscalls s))) cs then Some s else None)"
  using assms by (rule run_call_names(2))

text \<open>After the start a message longer than the buffer is written with the length of its whole text.\<close>

lemma long_message_overruns:
  assumes "log_ok s" "log_status s \<noteq> 0" "0 < log_fd s" "log_prolog_mode s = 0" "v \<le> verbosity_level s"
    and "4096 < length (formatted (vtxt @ '' %s:%d; [%s]- '' @ fmt @ [CHR 0x0A]) (VStr fname # VInt line # VStr (nested_syscalls s) # va))"
  shows "ZRT_LOG zvm_pwrite formatted p v vtxt fname line fmt va s = None"
  using assms by (simp add: ZRT_LOG_def snprintf_logbuf_def zrt_log_write_def log_ok_def Let_def)

end
