(* ===== verification/DemoPrintf.thy ===== *)
theory DemoPrintf
  imports ZrtLog
begin

text \<open>A log whose host keeps the writes it is asked for, on which the properties of the printer and of the log are evaluated.\<close>

definition demo_param :: param where
  "demo_param = \<lparr>lz = False, width = 0, sign = nul, alt = False, base = 16, uc = False\<rparr>"

definition demo_log :: "(int \<times> string \<times> int) list zlog" where
  "demo_log = \<lparr>verbosity_level = 1, log_status = 1, log_prolog_mode = 1, log_fd = 3, buffered_len = 0,
     logbuf = replicate 4096 nul, nested_syscalls = [], host = []\<rparr>"

definition demo_pwrite :: "(int \<times> string \<times> int) list pwrite" where
  "demo_pwrite h bs off w = (int (length bs), w @ [(h, bs, off)])"

definition demo_pieces :: "piece list" where
  "demo_pieces = [Lit CHR ''a'', Num True True 8 CHR ''x'' 48879, Lit CHR '' '', LNum False False 6 CHR ''d'' (- 42), Str False 3 ''b'']"

lemma demo_pieces_ok: "list_all piece_ok demo_pieces"
  by (simp add: demo_pieces_def piece_ok_def)

lemma demo_digits:
  "digit_text False [11, 14, 14, 15] = ''beef''" "digit_text False [15, 15, 15, 15, 15] = ''fffff''" "digit_text False [4, 2] = ''42''"
  "digit_text False [8] = ''8''" "digit_text False [6] = ''6''" "digit_text False [3] = ''3''" "digit_text False [7] = ''7''"
  by (simp_all add: digit_text_def digit_char_def char_of_def)

lemma demo_text:
  "concat (map piece_text demo_pieces) = ''a%0#8x %6ld%3s''"
  "concat (map piece_args demo_pieces) = [VInt 48879, VLong (- 42), VStr ''b'']"
  "concat (map piece_out demo_pieces) = ''a0x00beef    -42  b''"
proof -
  note defs = demo_pieces_def field_text_def number_def field_def prefix_of_def conv_base_def to_digits.simps demo_digits
  show "concat (map piece_text demo_pieces) = ''a%0#8x %6ld%3s''" by (simp add: defs)
  show "concat (map piece_args demo_pieces) = [VInt 48879, VLong (- 42), VStr ''b'']" by (simp add: defs)
  have "number True True 8 CHR ''x'' 48879 = ''0x00beef''" "number False False 6 CHR ''d'' (- 42) = ''   -42''" "field False 3 [] ''b'' = ''  b''"
    by (simp_all add: defs) (simp_all add: numeral_eq_Suc)
  then show "concat (map piece_out demo_pieces) = ''a0x00beef    -42  b''" by (simp add: demo_pieces_def)
qed

theorem numbers_read_back_witness:
  "ok_base (base demo_param) \<and> a2d CHR ''q'' < 0 \<and> a2i CHR ''b'' ''eefq'' 16 0 = Some (CHR ''q'', [], 48879)
    \<and> uli2a 1048575 demo_param = Some ''fffff''"
proof -
  have h: "ok_base (base demo_param)" "a2d CHR ''q'' < 0" by (simp_all add: demo_param_def ok_base_def a2d_def)
  have d: "digit_text (uc demo_param) (to_digits (unat (base demo_param)) (unat (48879::32 word))) = ''beef''"
    "digit_text (uc demo_param) (to_digits (unat (base demo_param)) (unat (1048575::32 word))) = ''fffff''"
    by (simp_all add: demo_param_def to_digits.simps demo_digits)
  have b: "uint (base demo_param) = 16" by (simp add: demo_param_def)
  show ?thesis using h numbers_read_back [OF h, of 48879 "[]" 1048575] unfolding d b by auto
qed

theorem format_prints_fields_witness:
  "list_all piece_ok demo_pieces
    \<and> tfp_sprintf demo_param (''a%0#8x %6ld%3s'' @ [nul]) [VInt 48879, VLong (- 42), VStr ''b''] = Some (''a0x00beef    -42  b'' @ [nul])"
  using demo_pieces_ok format_prints_fields [OF demo_pieces_ok, of putcp demo_param "[]"] unfolding demo_text by simp

theorem prolog_message_logged_witness:
  "log_ok demo_log \<and> map_option host (ZRT_LOG demo_pwrite (\<lambda>f va. []) demo_param 1 ''L_BASE'' ''zrt.c'' 7 ''a%0#8x %6ld%3s''
      [VInt 48879, VLong (- 42), VStr ''b''] demo_log)
    = Some [(3, ''PROLOG L_BASE zrt.c:7 a0x00beef    -42  b'' @ [CHR 0x0A], 0)]"
proof -
  have ok: "log_ok demo_log" by (simp add: log_ok_def demo_log_def)
  have "message ''L_BASE'' ''zrt.c'' 7 demo_pieces = ''PROLOG L_BASE zrt.c:7 a0x00beef    -42  b'' @ [CHR 0x0A]"
    unfolding message_def demo_text by (simp add: number_def field_def prefix_of_def conv_base_def to_digits.simps demo_digits)
  with prolog_message_logged [OF ok, of 1 demo_pieces "''L_BASE''" demo_pwrite "\<lambda>f va. []" demo_param "''zrt.c''" 7] demo_pieces_ok ok
  show ?thesis unfolding demo_text by (auto simp: demo_log_def demo_pwrite_def)
qed

theorem nested_names_restored_witness:
  "log_status demo_log \<noteq> 0 \<and> run_calls [Nested ''open'' [Nested ''fstat'' [], Nested ''read'' []], Nested ''close'' []] demo_log = Some demo_log"
  using nested_names_restored [of demo_log "[Nested ''open'' [Nested ''fstat'' [], Nested ''read'' []], Nested ''close'' []]"]
  by (simp add: demo_log_def)

end
