(* ===== verification/Spec2Isabelle.thy ===== *)
theory Spec2Isabelle
  imports Demo DemoConfig DemoMr DemoFstab DemoPrintf
begin

text \<open>
  ZRT, the run-time library of ZeroVM programs (\<open>src/lib\<close>), gives a sandboxed C program a POSIX-like
  environment: the channels that the ZeroVM manifest provides appear as files, every system call on
  files goes through one dispatching table, and memory is handed out of one heap. This development
  models that core and proves what each part promises. It follows the native ZeroVM build (32-bit
  \<open>int\<close>, \<open>long\<close> and pointers, 64-bit \<open>off_t\<close>), with the channel file system as the mounted file system.

  The parts and the theories that model them:

  \<^item> \<open>ZrtPrelude\<close>: C types, the constants of the ABI headers, \<open>CHECK_FLAG\<close>, \<open>ROUND_UP\<close>, the
    two's-complement readings \<open>s32\<close> and \<open>s64\<close>, C string comparison and the search \<open>first_index\<close> that
    renders the search loops.
  \<^item> \<open>HandleTable\<close>, \<open>Descriptors\<close>: \<open>fs/handle_allocator.c\<close> and \<open>fs/open_file_description.c\<close>. The
    static arrays and their hints are the record \<open>kern\<close>; the locale \<open>lowest_slot\<close> is the contract of both
    allocators, interpreted for handles (\<open>ht\<close>) and for descriptions (\<open>op\<close>). \<open>fd_wf\<close> says that every
    reference count is the number of handles on the description.
  \<^item> \<open>DynArrays\<close>: \<open>helpers/dyn_array.c\<close> over a 32-bit \<open>size_t\<close>; what \<open>malloc\<close> and \<open>realloc\<close> grant is an
    argument. The locale \<open>growable_array\<close> is its contract (\<open>da\<close>).
  \<^item> \<open>PathUtils\<close>: \<open>helpers/path_utils.c\<close> and \<open>zrealpath\<close> of \<open>helpers/utils.c\<close>.
  \<^item> \<open>ChannelsArray\<close>, \<open>ChannelDirs\<close>: \<open>fs/channels_array.c\<close> and \<open>fs/channels_readdir.c\<close>, the channels and
    the directories their names imply.
  \<^item> \<open>DirentEngine\<close>: \<open>fs/dirent_engine.c\<close>, directory entries as bytes in a user buffer; the layout of \<open>struct dirent\<close> is
    an argument.
  \<^item> \<open>ChannelsMount\<close>: \<open>fs/channels_mount.c\<close>, each function of the file under its name. The state \<open>chan\<close>
    extends \<open>kern\<close> by the channel array, the directory list and the world outside; \<open>zvm_pread\<close>,
    \<open>zvm_pwrite\<close>, \<open>rand\<close> and \<open>time\<close> are the record \<open>zvm_env\<close>. \<open>ChannelsInv\<close> holds its invariant
    \<open>chan_wf\<close>, \<open>ChannelsProps\<close> and \<open>ChannelsListing\<close> its properties, \<open>ChannelsStart\<close> its constructor.
  \<^item> \<open>MountsManager\<close>: \<open>fs/mounts_manager.c\<close>, the table of mounts.
  \<^item> \<open>TransparentMount\<close>: \<open>fs/transparent_mount.c\<close> and \<open>fs/fcntl_implem.c\<close>, the dispatcher over any table of
    operations. \<open>Syscalls\<close> states the contract of a mounted file system as the locale \<open>mount_contract\<close>
    and interprets it on the table of the channel file system (\<open>cm\<close>); \<open>Sessions\<close> runs sequences of calls
    (\<open>reachable\<close>) over the locale \<open>dispatcher\<close>, interpreted as \<open>cs\<close>.
  \<^item> \<open>BitArrays\<close>, \<open>MemoryManager\<close>: \<open>helpers/bitarray.c\<close> and \<open>memory/memory_syscall_handlers.c\<close>, the break
    and the pages of \<open>mmap\<close>.
  \<^item> \<open>ConfParser\<close>, \<open>ConfProps\<close>, \<open>ConfArgs\<close>: \<open>helpers/conf_parser.c\<close> and \<open>helpers/conf_keys.c\<close>, the text of the
    configuration: sections, records, command lines and escapes.
  \<^item> \<open>NvramLoader\<close>, \<open>NvramProps\<close>: \<open>nvram/nvram_loader.c\<close>, reading the file and handing the records to
    observers. \<open>Observers\<close>, \<open>ObserversProps\<close>: \<open>nvram/observers\<close>, the handler of each section.
  \<^item> \<open>Zcalls\<close>, \<open>Prolog\<close>, \<open>PrologProps\<close>: \<open>zcalls/zcalls_prolog.c\<close> and \<open>zcalls/zcalls_zrt.c\<close>, the system calls before
    and after the start, the clock, the start itself. The state \<open>proc\<close> extends that of the dispatcher.
  \<^item> \<open>LibcCalls\<close>, \<open>Truncate\<close>: \<open>libc\<close>, the calls that replace those of the C library, and what \<open>ftruncate\<close> leaves.
  \<^item> \<open>BufferedIO\<close>: \<open>helpers/buffered_io.c\<close>, over any functions that really write and read.
  \<^item> \<open>Unpack\<close>, \<open>UnpackProps\<close>: \<open>fs/unpack\<close>, archives; \<open>Fstab\<close>, \<open>FstabProps\<close>: the section \<open>fstab\<close> with its lazy
    mounts (\<open>nvram/observers/fstab_observer.c\<close>), set-up, fork and exit. The state \<open>fproc\<close> extends \<open>proc\<close>.
  \<^item> \<open>MrBuffers\<close>, \<open>MrMerge\<close>, \<open>MrTransfer\<close>, \<open>MrConf\<close>, \<open>MrExchange\<close>, \<open>MrReduce\<close>, \<open>MrMap\<close>, \<open>MrMapNode\<close> and the theories
    named after them with \<open>Props\<close>: \<open>mapreduce\<close>, the client library for map and reduce nodes. The locale
    \<open>comparison\<close> is what sorting relies on, interpreted on the order of the nodes (\<open>node_order\<close>).
  \<^item> \<open>Printf\<close>, \<open>PrintfProps\<close>, \<open>PrintfFormat\<close>: \<open>helpers/printf_prolog.c\<close>, the printer that serves the log before the
    start; its client's side is the locale \<open>sink\<close>. \<open>ZrtLog\<close>: \<open>zrtlog.c\<close> and the macros of \<open>zrtlog.h\<close> that write
    messages; the buffer of the log is the sink (\<open>log_sink\<close>).
  \<^item> \<open>Demo\<close>, \<open>DemoConfig\<close>, \<open>DemoMr\<close>, \<open>DemoUnpack\<close>, \<open>DemoFstab\<close>, \<open>DemoPrintf\<close>: concrete sessions, heaps, configurations, nodes and
    archives on which the properties are instantiated.

  How the code is rendered: a failed \<open>assert\<close> and a null dereference are \<open>None\<close>, an error return is the
  value the C function returns with \<open>errno\<close> in the state, loops are recursive functions with a
  termination proof (no fuel), and integers are kept at their width where a sum can leave it. Loops that need not
  end are partial functions, whose return is proved under the conditions under which they end: the loop of
  \<open>DynArraySet\<close> that doubles the space, the loops of the nodes, of the dividers, of the archive and of the digits. Code outside the
  sources (the ZeroVM host, \<open>malloc\<close>, \<open>realpath\<close>, calls of the C library, the functions of a MapReduce program, the
  in-memory file system, \<open>save_as_tar\<close>) is an argument, and so is what memory that is not initialised holds by chance
  (the buffer of a name in \<open>unpack_tar\<close>). Three renderings are coarser than C: addresses of the memory manager are
  unbounded, the signed overflows of the printer of the log wrap around, and \<open>qsort\<close> keeps the order of equal elements.

  What is shown: the tables stay consistent over every session; opening, closing, reading, writing,
  seeking, duplicating and listing do what they are meant to on every branch; the constructor
  succeeds; mount lookups find the longest prefix; page search finds the first fit; mappings and break
  never overlap. A configuration is read back as it was written, and so are the command line and the
  environment, in buffers that suffice; the clock moves forward under well-formed requests. Buffered input and output refine the direct
  ones. Map nodes send each other their histograms and agree on the dividers, divide their items and deliver them; a reduce node ends with the merged
  items. Changing the size of a file and unpacking an archive leave the files that they should; a forked session
  mounts what is removable, and a record is unpacked at most once. Numbers are printed as their digits and read back, a
  format prints its fields, a message before the start reaches the log, nested calls restore the list of their names. Where the code departs from its intent the theorem states
  what it does (\<open>munmap\<close> of several pages, file mappings without room, directory listings with subdirectories, comments
  in a section of the configuration, chunks without a rest).

  Not modelled: the strings of messages (\<open>enum_strings.c\<close>), the in-memory file system (C++ over a vendored library), the FUSE
  bridge, the reader of channel directories for client programs, and everything vendored under \<open>libports\<close>.
\<close>

end
